(* ===== verification/Prelude.thy ===== *)
theory Prelude
  imports Main
begin

text \<open>
  What the components share: the collections of facts the proofs are driven by, the
  programs with state and exceptions the asynchronous code is translated into, and the
  tables the SQL statements of the ledger are translated into.

  A program is a function from a state to an outcome (\<open>Inl\<close> for a thrown error) and the
  state it leaves. The state survives a throw, as rows written before an exception do.
  \<open>within R m\<close> says that whatever \<open>m\<close> does, its end state is related to its start state
  by \<open>R\<close>; the locale \<open>effect\<close> gives the rules that prove it over a program's structure.
\<close>

named_theorems within_rules
  \<open>rules that prove \<open>within R m\<close> from the parts of \<open>m\<close>\<close>

named_theorems run_simps
  \<open>equations that run a program on a state\<close>

named_theorems table_simps
  \<open>facts about update, select and insert on a table\<close>

type_synonym timestamp = int

subsection \<open>Programs with state and exceptions\<close>

type_synonym ('s, 'e, 'a) prog = "'s \<Rightarrow> ('e + 'a) \<times> 's"

definition ret :: "'a \<Rightarrow> ('s, 'e, 'a) prog" where
  "ret a = (\<lambda>s. (Inr a, s))"

definition throw :: "'e \<Rightarrow> ('s, 'e, 'a) prog" where
  "throw e = (\<lambda>s. (Inl e, s))"

definition bindP :: "('s, 'e, 'a) prog \<Rightarrow> ('a \<Rightarrow> ('s, 'e, 'b) prog) \<Rightarrow> ('s, 'e, 'b) prog" where
  "bindP m f = (\<lambda>s. case m s of (Inl e, t) \<Rightarrow> (Inl e, t) | (Inr a, t) \<Rightarrow> f a t)"

definition thenP :: "('s, 'e, 'a) prog \<Rightarrow> ('s, 'e, 'b) prog \<Rightarrow> ('s, 'e, 'b) prog" where
  "thenP m n = bindP m (\<lambda>_. n)"

definition readP :: "('s \<Rightarrow> 'a) \<Rightarrow> ('s, 'e, 'a) prog" where
  "readP f = (\<lambda>s. (Inr (f s), s))"

definition modifyP :: "('s \<Rightarrow> 's) \<Rightarrow> ('s, 'e, unit) prog" where
  "modifyP f = (\<lambda>s. (Inr (), f s))"

definition catchP :: "('s, 'e, 'a) prog \<Rightarrow> ('e \<Rightarrow> ('s, 'e, 'a) prog) \<Rightarrow> ('s, 'e, 'a) prog" where
  "catchP m h = (\<lambda>s. case m s of (Inl e, t) \<Rightarrow> h e t | (Inr a, t) \<Rightarrow> (Inr a, t))"

definition whenP :: "bool \<Rightarrow> ('s, 'e, unit) prog \<Rightarrow> ('s, 'e, unit) prog" where
  "whenP b m = (if b then m else ret ())"

primrec forP :: "'x list \<Rightarrow> ('x \<Rightarrow> ('s, 'e, unit) prog) \<Rightarrow> ('s, 'e, unit) prog" where
  "forP [] f = ret ()"
| "forP (x # xs) f = thenP (f x) (forP xs f)"

lemma run_ret [run_simps]: "ret a s = (Inr a, s)"
  by (simp add: ret_def)

lemma run_throw [run_simps]: "throw e s = (Inl e, s)"
  by (simp add: throw_def)

lemma run_read [run_simps]: "readP f s = (Inr (f s), s)"
  by (simp add: readP_def)

lemma run_modify [run_simps]: "modifyP f s = (Inr (), f s)"
  by (simp add: modifyP_def)

lemma run_bind [run_simps]:
  "bindP m f s = (case m s of (Inl e, t) \<Rightarrow> (Inl e, t) | (Inr a, t) \<Rightarrow> f a t)"
  by (simp add: bindP_def)

lemma run_then [run_simps]:
  "thenP m n s = (case m s of (Inl e, t) \<Rightarrow> (Inl e, t) | (Inr a, t) \<Rightarrow> n t)"
  by (simp add: thenP_def bindP_def)

lemma run_catch [run_simps]:
  "catchP m h s = (case m s of (Inl e, t) \<Rightarrow> h e t | (Inr a, t) \<Rightarrow> (Inr a, t))"
  by (simp add: catchP_def)

lemma run_when [run_simps]: "whenP b m s = (if b then m s else (Inr (), s))"
  by (simp add: whenP_def ret_def)

lemma bind_ret: "bindP m ret = m"
  by (rule ext) (simp add: run_simps split: prod.splits sum.splits)

lemma ret_bind: "bindP (ret a) f = f a"
  by (rule ext) (simp add: run_simps)

lemma bind_assoc: "bindP (bindP m f) g = bindP m (\<lambda>x. bindP (f x) g)"
  by (rule ext) (simp add: run_simps split: prod.splits sum.splits)

lemma throw_bind: "bindP (throw e) f = throw e"
  by (rule ext) (simp add: run_simps)

lemma returned_bind:
  assumes "bindP m f s = (Inr b, u)"
  obtains a t where "m s = (Inr a, t)" "f a t = (Inr b, u)"
proof (cases "m s")
  case (Pair x t)
  with assms that show thesis by (cases x) (simp_all add: run_bind)
qed

lemma returned_then:
  assumes "thenP m n s = (Inr b, u)"
  obtains a t where "m s = (Inr a, t)" "n t = (Inr b, u)"
  using assms unfolding thenP_def by (rule returned_bind)

subsection \<open>What a program may change\<close>

definition within :: "('s \<Rightarrow> 's \<Rightarrow> bool) \<Rightarrow> ('s, 'e, 'a) prog \<Rightarrow> bool" where
  "within R m \<longleftrightarrow> (\<forall>s. R s (snd (m s)))"

text \<open>The same word for theories of numbers, where \<open>within\<close> is part of the notation of limits.\<close>

abbreviation relates :: "('s \<Rightarrow> 's \<Rightarrow> bool) \<Rightarrow> ('s, 'e, 'a) prog \<Rightarrow> bool" where
  "relates R m \<equiv> within R m"

lemma withinI: "(\<And>s. R s (snd (m s))) \<Longrightarrow> within R m"
  by (simp add: within_def)

lemma withinD: "within R m \<Longrightarrow> m s = (x, t) \<Longrightarrow> R s t"
  by (metis within_def snd_conv)

lemma within_mono: "within R m \<Longrightarrow> (\<And>s t. R s t \<Longrightarrow> Q s t) \<Longrightarrow> within Q m"
  by (simp add: within_def)

lemma within_modify: "(\<And>s. R s (f s)) \<Longrightarrow> within R (modifyP f)"
  by (simp add: within_def run_simps)

locale effect =
  fixes R :: "'s \<Rightarrow> 's \<Rightarrow> bool"
  assumes effect_refl: "R s s"
    and effect_trans: "R s t \<Longrightarrow> R t u \<Longrightarrow> R s u"
begin

lemma within_ret: "within R (ret a)"
  by (simp add: within_def run_simps effect_refl)

lemma within_throw: "within R (throw e)"
  by (simp add: within_def run_simps effect_refl)

lemma within_read: "within R (readP f)"
  by (simp add: within_def run_simps effect_refl)

lemma within_bind:
  assumes "within R m" and "\<And>a. within R (f a)"
  shows "within R (bindP m f)"
proof (rule withinI)
  fix s
  obtain x t where m: "m s = (x, t)" by fastforce
  with assms(1) have st: "R s t" by (rule withinD)
  show "R s (snd (bindP m f s))"
  proof (cases x)
    case Inl
    with m st show ?thesis by (simp add: run_simps)
  next
    case (Inr a)
    have "R t (snd (f a t))" using assms(2) by (simp add: within_def)
    with m st Inr show ?thesis by (simp add: run_simps effect_trans)
  qed
qed

lemma within_then: "within R m \<Longrightarrow> within R n \<Longrightarrow> within R (thenP m n)"
  unfolding thenP_def by (rule within_bind)

lemma within_catch:
  assumes "within R m" and "\<And>e. within R (h e)"
  shows "within R (catchP m h)"
proof (rule withinI)
  fix s
  obtain x t where m: "m s = (x, t)" by fastforce
  with assms(1) have st: "R s t" by (rule withinD)
  show "R s (snd (catchP m h s))"
  proof (cases x)
    case (Inl e)
    have "R t (snd (h e t))" using assms(2) by (simp add: within_def)
    with m st Inl show ?thesis by (simp add: run_simps effect_trans)
  next
    case Inr
    with m st show ?thesis by (simp add: run_simps)
  qed
qed

lemma within_when: "(b \<Longrightarrow> within R m) \<Longrightarrow> within R (whenP b m)"
  by (simp add: whenP_def within_ret)

lemma within_for: "(\<And>x. x \<in> set xs \<Longrightarrow> within R (f x)) \<Longrightarrow> within R (forP xs f)"
  by (induction xs) (auto intro: within_ret within_then)

lemmas within_structure =
  within_ret within_throw within_read within_bind within_then within_catch within_when within_for

end

text \<open>Every invariant is such a relation: whoever starts inside stays inside.\<close>

definition keeping :: "('s \<Rightarrow> bool) \<Rightarrow> 's \<Rightarrow> 's \<Rightarrow> bool" where
  "keeping I s t \<longleftrightarrow> (I s \<longrightarrow> I t)"

interpretation keep: effect "keeping I"
  by unfold_locales (auto simp: keeping_def)

subsection \<open>Tables\<close>

text \<open>
  A table is a list of rows. \<open>update_where\<close> is \<open>UPDATE .. SET f WHERE p\<close>, \<open>List.find\<close> is
  \<open>SELECT .. WHERE p LIMIT 1\<close>, and what \<open>RETURNING\<close> gives is the rewritten rows.
\<close>

definition update_where :: "('r \<Rightarrow> bool) \<Rightarrow> ('r \<Rightarrow> 'r) \<Rightarrow> 'r list \<Rightarrow> 'r list" where
  "update_where p f rows = map (\<lambda>r. if p r then f r else r) rows"

definition returning :: "('r \<Rightarrow> bool) \<Rightarrow> ('r \<Rightarrow> 'r) \<Rightarrow> 'r list \<Rightarrow> 'r list" where
  "returning p f rows = map f (filter p rows)"

lemma length_update_where [table_simps]: "length (update_where p f rows) = length rows"
  by (simp add: update_where_def)

lemma update_where_Nil [table_simps]: "update_where p f [] = []"
  by (simp add: update_where_def)

lemma update_where_Cons [table_simps]:
  "update_where p f (r # rows) = (if p r then f r else r) # update_where p f rows"
  by (simp add: update_where_def)

lemma update_where_none: "(\<And>r. r \<in> set rows \<Longrightarrow> \<not> p r) \<Longrightarrow> update_where p f rows = rows"
  by (simp add: update_where_def map_idI)

lemma in_update_where [table_simps]:
  "r \<in> set (update_where p f rows) \<longleftrightarrow> (\<exists>q \<in> set rows. r = (if p q then f q else q))"
  by (auto simp: update_where_def)

lemma map_update_where:
  assumes "\<And>r. p r \<Longrightarrow> g (f r) = g r"
  shows "map g (update_where p f rows) = map g rows"
  by (simp add: update_where_def assms)

lemma find_update_where:
  assumes "\<And>r. p r \<Longrightarrow> q (f r) = q r"
  shows "List.find q (update_where p f rows) =
    map_option (\<lambda>r. if p r then f r else r) (List.find q rows)"
  by (induction rows) (auto simp: update_where_def assms)

lemma filter_update_where:
  assumes "\<And>r. p r \<Longrightarrow> \<not> q r \<and> \<not> q (f r)"
  shows "filter q (update_where p f rows) = filter q rows"
  using assms by (induction rows) (auto simp: update_where_def)

lemma find_SomeD: "List.find p xs = Some x \<Longrightarrow> x \<in> set xs \<and> p x"
  by (induction xs) (auto split: if_splits)

lemma find_NoneD: "List.find p xs = None \<Longrightarrow> x \<in> set xs \<Longrightarrow> \<not> p x"
  by (induction xs) (auto split: if_splits)

lemma find_NoneI: "(\<And>x. x \<in> set xs \<Longrightarrow> \<not> p x) \<Longrightarrow> List.find p xs = None"
  by (induction xs) auto

lemma find_append: "List.find p (xs @ ys) = (case List.find p xs of None \<Rightarrow> List.find p ys | Some x \<Rightarrow> Some x)"
  by (induction xs) auto

lemma find_unique:
  assumes "distinct (map k xs)" and "x \<in> set xs" and "p x" and "\<And>y. p y \<Longrightarrow> k y = k x"
  shows "List.find p xs = Some x"
  using assms(1,2)
proof (induction xs)
  case Nil
  then show ?case by simp
next
  case (Cons y ys)
  show ?case
  proof (cases "p y")
    case True
    then have "k y = k x" by (rule assms(4))
    with Cons.prems have "y = x" by (auto simp: image_iff)
    with True show ?thesis by simp
  next
    case False
    with assms(3) have "y \<noteq> x" by auto
    with Cons.prems have "distinct (map k ys)" and "x \<in> set ys" by auto
    with False show ?thesis by (simp add: Cons.IH)
  qed
qed

lemma find_cong: "(\<And>x. x \<in> set xs \<Longrightarrow> p x = q x) \<Longrightarrow> List.find p xs = List.find q xs"
  by (induction xs) auto

subsection \<open>Truthiness\<close>

text \<open>JavaScript reads an absent string and the empty one alike where it tests a value.\<close>

definition truthy :: "string option \<Rightarrow> bool" where
  "truthy v \<longleftrightarrow> v \<noteq> None \<and> v \<noteq> Some []"

text \<open>\<open>...(v ? { field: v } : {})\<close>: the field is present only for a truthy value.\<close>

definition non_empty :: "string option \<Rightarrow> string option" where
  "non_empty v = (if truthy v then v else None)"

lemma truthy_simps [simp]: "\<not> truthy None" "truthy (Some (c # cs))" "\<not> truthy (Some [])"
  by (simp_all add: truthy_def)

lemma non_empty_simps [simp]: "non_empty None = None" "non_empty (Some []) = None"
  "non_empty (Some (c # cs)) = Some (c # cs)"
  by (simp_all add: non_empty_def)

end
