(* ===== verification/Ports.thy ===== *)
theory Ports
  imports Prelude
begin

text \<open>
  The vocabulary of \<open>packages/shared/src/ports.ts\<close>, \<open>discovery.ts\<close> and \<open>failure-category.ts\<close>:
  the data types of a migration, what a ledger row can be, what the pass and the queues
  report, and what a target answers. Optional fields are \<open>option\<close>, instants are integers.
  Sentences written for people are left out: a refusal keeps its code, not its prose.
\<close>

subsection \<open>Data types and statuses\<close>

datatype discovery_domain = Email | Calendar | Contact | File | Task

definition DISCOVERY_DOMAINS :: "discovery_domain list" where
  "DISCOVERY_DOMAINS = [Email, Calendar, Contact, File, Task]"

datatype item_status =
  Pending | Copied | Updated | Adopted | Skipped | Failed
| Left_behind | Deleted_source | Tombstoned | Superseded

text \<open>\<open>isOnTarget\<close>: an absent status counts as migrated, for rows older than the column.\<close>

definition isOnTarget :: "item_status option \<Rightarrow> bool" where
  "isOnTarget st \<longleftrightarrow>
     st \<noteq> Some Failed \<and> st \<noteq> Some Left_behind \<and> st \<noteq> Some Tombstoned \<and> st \<noteq> Some Superseded"

definition MAX_ITEM_ATTEMPTS :: nat where
  "MAX_ITEM_ATTEMPTS = 5"

definition DELETION_CONFIRMATIONS :: nat where
  "DELETION_CONFIRMATIONS = 2"

subsection \<open>Why something failed\<close>

datatype failure_category =
  Auth_expired | Rate_limited | Quota_exceeded | Policy_refused | Too_large
| Source_refused | Target_refused | Format_refused | Network | Unknown_failure

datatype failure_side = Source_side | Target_side

subsection \<open>A ledger record, as the code sees it\<close>

record ledger_record =
  lr_tenantId :: string
  lr_mappingId :: string
  lr_itemType :: discovery_domain
  lr_naturalKeyHash :: string
  lr_naturalKey :: "string option"
  lr_displayName :: "string option"
  lr_repaired :: "string option"
  lr_contentHash :: string
  lr_targetId :: string
  lr_createdAt :: timestamp
  lr_sizeBytes :: "nat option"
  lr_status :: "item_status option"
  lr_supersededByNaturalKeyHash :: "string option"
  lr_collection :: "string option"
  lr_targetVersion :: "string option"
  lr_sourceRef :: "string option"
  lr_absentPasses :: "nat option"
  lr_deletionReportedAt :: "timestamp option"
  lr_deletionTrashedAt :: "timestamp option"
  lr_deletionAcknowledgedAt :: "timestamp option"
  lr_deletionAppliedAt :: "timestamp option"
  lr_movedToCollection :: "string option"
  lr_movedToNaturalKeyHash :: "string option"
  lr_movedByIdentity :: bool
  lr_movedRecordedAt :: "timestamp option"
  lr_moveAcknowledgedAt :: "timestamp option"
  lr_attemptCount :: "nat option"
  lr_parkedAt :: "timestamp option"
  lr_lastError :: "string option"
  lr_lastErrorCategory :: "failure_category option"
  lr_sourceVersion :: "string option"

text \<open>One document under the name another export policy gave it (\<open>FormerName\<close>).\<close>

record former_name =
  fn_formerNaturalKeyHash :: string
  fn_naturalKeyHash :: string
  fn_sourceRef :: "string option"

subsection \<open>What the queues hold\<close>

datatype move_decided = Move_kept | Move_applied

record item_move =
  mv_domain :: discovery_domain
  mv_naturalKeyHash :: string
  mv_from :: string
  mv_to :: string
  mv_toNaturalKeyHash :: "string option"
  mv_recordedAt :: "timestamp option"
  mv_acknowledgedAt :: "timestamp option"
  mv_decided :: "move_decided option"

datatype deletion_evidence = Inferred | Trashed | Reported

datatype deletion_decided = Deletion_kept | Deletion_applied | Deletion_relocated

record item_deletion =
  dl_domain :: discovery_domain
  dl_naturalKeyHash :: string
  dl_collection :: string
  dl_absentPasses :: nat
  dl_confirmed :: bool
  dl_evidence :: deletion_evidence
  dl_reportedAt :: "timestamp option"
  dl_trashedAt :: "timestamp option"
  dl_acknowledgedAt :: "timestamp option"
  dl_decided :: "deletion_decided option"

record item_failure =
  fl_domain :: discovery_domain
  fl_naturalKeyHash :: string
  fl_collection :: "string option"
  fl_attempts :: nat
  fl_lastError :: string
  fl_category :: "failure_category option"
  fl_lastAttemptAt :: "timestamp option"
  fl_needsDecision :: bool
  fl_parkedAt :: "timestamp option"

record earlier_export =
  ee_domain :: discovery_domain
  ee_naturalKeyHash :: string
  ee_collection :: string
  ee_exportedAs :: string
  ee_markedAt :: "timestamp option"
  ee_acknowledgedAt :: "timestamp option"

subsection \<open>The strength of the evidence for a deletion\<close>

text \<open>
  The evidence is a linear order: the old system's own report outranks its bin, which
  outranks mere absence. The pass keeps the stronger of two findings about one item.
\<close>

fun evidence_rank :: "deletion_evidence \<Rightarrow> nat" where
  "evidence_rank Reported = 3"
| "evidence_rank Trashed = 2"
| "evidence_rank Inferred = 1"

lemma evidence_rank_inj: "evidence_rank a = evidence_rank b \<longleftrightarrow> a = b"
  by (cases a; cases b) simp_all

instantiation deletion_evidence :: linorder
begin

definition less_eq_deletion_evidence :: "deletion_evidence \<Rightarrow> deletion_evidence \<Rightarrow> bool" where
  "a \<le> b \<longleftrightarrow> evidence_rank a \<le> evidence_rank b"

definition less_deletion_evidence :: "deletion_evidence \<Rightarrow> deletion_evidence \<Rightarrow> bool" where
  "a < b \<longleftrightarrow> evidence_rank a < evidence_rank b"

instance
  by standard
    (auto simp: less_eq_deletion_evidence_def less_deletion_evidence_def evidence_rank_inj)

end

lemma evidence_order [simp]: "Inferred < Trashed" "Trashed < Reported" "Inferred < Reported"
  by (simp_all add: less_deletion_evidence_def)

lemma stated_evidence: "Inferred < e \<longleftrightarrow> e = Reported \<or> e = Trashed"
  by (cases e) (simp_all add: less_deletion_evidence_def)

subsection \<open>What a target answers\<close>

record upsert_result =
  ur_targetId :: string
  ur_created :: bool
  ur_adopted :: bool
  ur_targetVersion :: "string option"
  ur_conflicted :: bool

record upsert_options =
  uo_overwrite :: bool
  uo_expectedTargetVersion :: "string option"
  uo_sourceVersion :: "string option"
  uo_collection :: "string option"
  uo_sourceRef :: "string option"

datatype removal_kind = Binned | Removed_for_good

record removal_result =
  rr_kind :: "removal_kind option"
  rr_conflicted :: bool
  rr_unversioned :: bool

text \<open>\<open>applyTargetFolderPrefix\<close> (\<open>config.ts\<close>): the one composition of a target path.\<close>

definition applyTargetFolderPrefix :: "string option \<Rightarrow> string \<Rightarrow> string" where
  "applyTargetFolderPrefix prefix path =
     (if \<not> truthy prefix then path
      else if path \<noteq> [] then the prefix @ ''/'' @ path
      else the prefix)"

subsection \<open>What a download meter answers\<close>

record budget_state =
  bs_spentBytes :: int
  bs_ceilingBytes :: int
  bs_remainingBytes :: int
  bs_windowResetsAt :: "int option"

subsection \<open>Fingerprints carry the scheme that made them\<close>

text \<open>
  \<open>versionOf\<close> (\<open>fingerprint-scheme.ts\<close>): the letters and digits before the first colon,
  where the fingerprint starts with at least one of them and the colon follows directly.
\<close>

definition is_scheme_char :: "char \<Rightarrow> bool" where
  "is_scheme_char c \<longleftrightarrow>
     (let n = of_char c :: nat
      in (97 \<le> n \<and> n \<le> 122) \<or> (65 \<le> n \<and> n \<le> 90) \<or> (48 \<le> n \<and> n \<le> 57))"

definition versionOf :: "string \<Rightarrow> string option" where
  "versionOf fingerprint =
     (let scheme = takeWhile is_scheme_char fingerprint
      in case dropWhile is_scheme_char fingerprint of
           [] \<Rightarrow> None
         | c # _ \<Rightarrow> if scheme \<noteq> [] \<and> c = CHR '':'' then Some scheme else None)"

definition sameFingerprintVersion :: "string \<Rightarrow> string \<Rightarrow> bool" where
  "sameFingerprintVersion a b \<longleftrightarrow> versionOf a = versionOf b"

lemma versionOf_scheme:
  assumes "scheme \<noteq> []" and "list_all is_scheme_char scheme"
  shows "versionOf (scheme @ CHR '':'' # digest) = Some scheme"
proof -
  have colon: "\<not> is_scheme_char (CHR '':'')"
    by (simp add: is_scheme_char_def)
  have "takeWhile is_scheme_char (scheme @ CHR '':'' # digest) = scheme"
    and "dropWhile is_scheme_char (scheme @ CHR '':'' # digest) = CHR '':'' # digest"
    using assms(2) colon by (induction scheme) auto
  with assms(1) show ?thesis by (simp add: versionOf_def)
qed

subsection \<open>Thrown errors\<close>

text \<open>
  What the pass reads of a thrown value: its message, the side and the category tagged on
  it, whether it asks for a decision, whether it is the pass's own abort, and its cause.
  \<open>failureSideOf\<close> and \<open>statedFailureCategoryOf\<close> walk the causes to depth eight.
\<close>

datatype js_error = JsError
  (err_message: string)
  (err_side: "failure_side option")
  (err_category: "failure_category option")
  (err_decision: bool)
  (err_abort: bool)
  (err_cause: "js_error option")

definition CAUSE_DEPTH :: nat where
  "CAUSE_DEPTH = 8"

fun first_in_causes :: "(js_error \<Rightarrow> 'a option) \<Rightarrow> nat \<Rightarrow> js_error option \<Rightarrow> 'a option" where
  "first_in_causes f 0 current = None"
| "first_in_causes f (Suc depth) None = None"
| "first_in_causes f (Suc depth) (Some e) =
     (case f e of Some v \<Rightarrow> Some v | None \<Rightarrow> first_in_causes f depth (err_cause e))"

definition failureSideOf :: "js_error \<Rightarrow> failure_side option" where
  "failureSideOf e = first_in_causes err_side CAUSE_DEPTH (Some e)"

definition statedFailureCategoryOf :: "js_error \<Rightarrow> failure_category option" where
  "statedFailureCategoryOf e = first_in_causes err_category CAUSE_DEPTH (Some e)"

text \<open>\<open>withFailureSide\<close>: the first side to be tagged on an error is the one it keeps.\<close>

definition withFailureSide :: "failure_side \<Rightarrow> js_error \<Rightarrow> js_error" where
  "withFailureSide side e =
     (if err_side e = None
      then JsError (err_message e) (Some side) (err_category e) (err_decision e) (err_abort e) (err_cause e)
      else e)"

definition sided :: "failure_side \<Rightarrow> ('s, js_error, 'a) prog \<Rightarrow> ('s, js_error, 'a) prog" where
  "sided side m = catchP m (\<lambda>e. throw (withFailureSide side e))"

lemma failureSideOf_own: "err_side e = Some side \<Longrightarrow> failureSideOf e = Some side"
  by (simp add: failureSideOf_def CAUSE_DEPTH_def numeral_eq_Suc)

lemma withFailureSide_tagged: "err_side (withFailureSide side e) \<noteq> None"
  by (simp add: withFailureSide_def)

context effect
begin

lemma within_sided: "within R m \<Longrightarrow> within R (sided side m)"
  unfolding sided_def by (intro within_catch within_throw)

end

end
