(* ===== verification/Lifecycle.thy ===== *)
theory Lifecycle
  imports Ports "HOL-Library.Multiset"
begin

text \<open>
  The mapping lifecycle (\<open>packages/shared/src/lifecycle.ts\<close>) and one data type's phase
  (\<open>packages/shared/src/path-phase.ts\<close>), with the pass's turn taking
  (\<open>pass-deadline.ts\<close>). A lifecycle word is a string, as in the code, so the branches for
  a word the product does not know are modelled too.

  \<open>lifecycle_step\<close> is the machine the five doors make together: start, finish, status
  update, cutover, rollback. It is the abstract specification the decisions are held to.
\<close>

subsection \<open>Which states run, and for which the source decides\<close>

definition MAPPING_LIFECYCLES :: "string list" where
  "MAPPING_LIFECYCLES = [''paused'', ''active'', ''cutover'', ''done'', ''continuous'']"

definition isAfterCutover :: "string \<Rightarrow> bool" where
  "isAfterCutover status \<longleftrightarrow> status = ''cutover'' \<or> status = ''done'' \<or> status = ''continuous''"

definition runsPasses :: "string \<Rightarrow> bool" where
  "runsPasses status \<longleftrightarrow> status = ''active'' \<or> status = ''continuous''"

definition PASS_RUNNING_STATES :: "string list" where
  "PASS_RUNNING_STATES = [''active'', ''continuous'']"

definition runsPassesNow :: "string \<Rightarrow> bool \<Rightarrow> bool" where
  "runsPassesNow status cutoverStillCopies \<longleftrightarrow>
     runsPasses status \<or> (status = ''cutover'' \<and> cutoverStillCopies)"

definition sourceAuthorityFor :: "string \<Rightarrow> bool" where
  "sourceAuthorityFor status \<longleftrightarrow> \<not> isAfterCutover status"

lemmas lifecycle_words =
  isAfterCutover_def runsPasses_def runsPassesNow_def sourceAuthorityFor_def
  MAPPING_LIFECYCLES_def PASS_RUNNING_STATES_def

subsection \<open>A cutover's grace period\<close>

record cutover_window =
  cw_state :: string
  cw_copiesThroughGrace :: bool
  cw_enteredAt :: timestamp
  cw_graceStartedAt :: "timestamp option"
  cw_graceHours :: int

definition HOUR_MS :: int where
  "HOUR_MS = 3600000"

definition cutoverCopiesUntil :: "cutover_window \<Rightarrow> timestamp option" where
  "cutoverCopiesUntil w =
     (if \<not> cw_copiesThroughGrace w then None
      else let hours = cw_graceHours w * HOUR_MS
      in if cw_state w = ''GRACE_PERIOD'' then map_option (\<lambda>t. t + hours) (cw_graceStartedAt w)
         else if cw_state w = ''CUTOVER_IN_PROGRESS'' then Some (cw_enteredAt w + hours)
         else None)"

definition cutoverStillCopiesAt :: "cutover_window option \<Rightarrow> timestamp \<Rightarrow> bool" where
  "cutoverStillCopiesAt w now =
     (case Option.bind w cutoverCopiesUntil of None \<Rightarrow> False | Some until \<Rightarrow> now < until)"

definition cutoverGraceEndedAt ::
    "cutover_window \<Rightarrow> timestamp option \<Rightarrow> timestamp \<Rightarrow> timestamp option" where
  "cutoverGraceEndedAt w completedAt now =
     (let ranOut = map_option (\<lambda>t. t + cw_graceHours w * HOUR_MS) (cw_graceStartedAt w)
      in if cw_state w = ''GRACE_PERIOD''
         then (case ranOut of Some e \<Rightarrow> if e \<le> now then ranOut else None | None \<Rightarrow> None)
         else if cw_state w = ''COMPLETED''
         then Some (case completedAt of Some c \<Rightarrow> c | None \<Rightarrow> cw_enteredAt w)
         else None)"

subsection \<open>What each door does\<close>

datatype lifecycle_refusal = Is_finished | Unknown_lifecycle

datatype rollback_transition =
  Reactivate string string
| Leave_mapping string
| Rollback_refused lifecycle_refusal

definition rollbackTransition :: "string \<Rightarrow> rollback_transition" where
  "rollbackTransition status =
     (if status = ''cutover'' \<or> status = ''continuous'' then Reactivate status ''active''
      else if status = ''active'' then Leave_mapping status
      else if status = ''paused'' then Leave_mapping status
      else if status = ''done'' then Rollback_refused Is_finished
      else Rollback_refused Unknown_lifecycle)"

datatype cutover_transition =
  Stop_mapping string string
| Already_stopped string (warns: bool)
| Cutover_refused_unknown

definition cutoverTransition :: "string \<Rightarrow> cutover_transition" where
  "cutoverTransition status =
     (if status = ''active'' \<or> status = ''paused'' then Stop_mapping status ''cutover''
      else if status = ''cutover'' then Already_stopped status False
      else if status = ''continuous'' then Already_stopped status False
      else if status = ''done'' then Already_stopped status True
      else Cutover_refused_unknown)"

definition keepsCopyingThroughGrace :: "cutover_transition \<Rightarrow> bool" where
  "keepsCopyingThroughGrace d =
     (case d of Stop_mapping from _ \<Rightarrow> from = ''active'' | _ \<Rightarrow> False)"

datatype update_refuse_code = Own_door | After_cutover_refusal | Finished_refusal | Before_cutover | Unknown_refusal

datatype update_transition =
  Apply_update string string
| Already_so string
| Update_refused update_refuse_code

definition updateTransition :: "string \<Rightarrow> string \<Rightarrow> update_transition" where
  "updateTransition from to =
     (if from \<notin> set MAPPING_LIFECYCLES \<or> to \<notin> set MAPPING_LIFECYCLES then Update_refused Unknown_refusal
      else if from = to then Already_so from
      else if from = ''done'' \<and> to \<noteq> ''continuous'' then Update_refused Finished_refusal
      else if isAfterCutover from \<and> \<not> isAfterCutover to then Update_refused After_cutover_refusal
      else if to = ''active'' then Update_refused Own_door
      else if to = ''done'' then Update_refused Own_door
      else if to = ''continuous'' \<and> \<not> isAfterCutover from then Update_refused Before_cutover
      else Apply_update from to)"

datatype start_transition = Activate bool | Start_conflict

definition startTransition :: "string \<Rightarrow> start_transition" where
  "startTransition status =
     (if isAfterCutover status then Start_conflict else Activate (status \<noteq> ''active''))"

datatype finish_refuse_code = Is_paused | Unresolved_failures

datatype finish_transition = Finish | Already_done | Finish_refused finish_refuse_code

definition finishTransition :: "string \<Rightarrow> nat \<Rightarrow> bool \<Rightarrow> finish_transition" where
  "finishTransition status unresolvedFailures force =
     (if status = ''done'' then Already_done
      else if status = ''paused'' then Finish_refused Is_paused
      else if 0 < unresolvedFailures \<and> \<not> force then Finish_refused Unresolved_failures
      else Finish)"

lemmas door_defs =
  rollbackTransition_def cutoverTransition_def updateTransition_def startTransition_def
  finishTransition_def

subsection \<open>The machine the doors make\<close>

datatype door = Start | Finish_door nat bool | Update string | Cut_over | Roll_back

inductive lifecycle_step :: "string \<Rightarrow> door \<Rightarrow> string \<Rightarrow> bool" where
  start: "startTransition s = Activate b \<Longrightarrow> s \<in> set MAPPING_LIFECYCLES \<Longrightarrow>
    lifecycle_step s Start ''active''"
| finish: "finishTransition s n force = Finish \<Longrightarrow> s \<in> set MAPPING_LIFECYCLES \<Longrightarrow>
    lifecycle_step s (Finish_door n force) ''done''"
| update: "updateTransition s t = Apply_update s t \<Longrightarrow> lifecycle_step s (Update t) t"
| cut_over: "cutoverTransition s = Stop_mapping s t \<Longrightarrow> lifecycle_step s Cut_over t"
| roll_back: "rollbackTransition s = Reactivate s t \<Longrightarrow> lifecycle_step s Roll_back t"

inductive_simps lifecycle_step_start [simp]: "lifecycle_step s Start t"
inductive_simps lifecycle_step_finish [simp]: "lifecycle_step s (Finish_door n f) t"
inductive_simps lifecycle_step_update [simp]: "lifecycle_step s (Update u) t"
inductive_simps lifecycle_step_cut_over [simp]: "lifecycle_step s Cut_over t"
inductive_simps lifecycle_step_roll_back [simp]: "lifecycle_step s Roll_back t"

inductive lifecycle_run :: "string \<Rightarrow> door list \<Rightarrow> string \<Rightarrow> bool" where
  stay: "lifecycle_run s [] s"
| go: "lifecycle_step s d t \<Longrightarrow> lifecycle_run t ds u \<Longrightarrow> lifecycle_run s (d # ds) u"

inductive_cases lifecycle_run_NilE: "lifecycle_run s [] t"
inductive_cases lifecycle_run_ConsE: "lifecycle_run s (d # ds) t"

lemma lifecycle_step_known: "lifecycle_step s d t \<Longrightarrow> t \<in> set MAPPING_LIFECYCLES"
  by (cases d) (auto simp: door_defs lifecycle_words split: if_splits)

lemma lifecycle_run_known:
  "lifecycle_run s ds t \<Longrightarrow> s \<in> set MAPPING_LIFECYCLES \<Longrightarrow> t \<in> set MAPPING_LIFECYCLES"
  by (induction rule: lifecycle_run.induct) (auto dest: lifecycle_step_known)

lemma step_back_to_authority:
  "lifecycle_step s d t \<Longrightarrow> isAfterCutover s \<Longrightarrow> \<not> isAfterCutover t \<Longrightarrow> d = Roll_back"
  by (cases d) (auto simp: door_defs isAfterCutover_def split: if_splits)

lemma step_out_of_done: "lifecycle_step ''done'' d t \<Longrightarrow> t = ''done'' \<or> t = ''continuous''"
  by (cases d) (auto simp: door_defs lifecycle_words split: if_splits)

subsection \<open>One data type's phase\<close>

record path_phase =
  pp_phase :: string
  pp_stillCopies :: bool
  pp_stopped :: bool

record path_row =
  pr_state :: string
  pr_stopped :: bool

definition pathRunsNow :: "path_phase \<Rightarrow> bool" where
  "pathRunsNow p \<longleftrightarrow> \<not> pp_stopped p \<and> runsPassesNow (pp_phase p) (pp_stillCopies p)"

definition pathSourceAuthority :: "path_phase \<Rightarrow> bool" where
  "pathSourceAuthority p \<longleftrightarrow> sourceAuthorityFor (pp_phase p)"

definition phasesOfTheMigration :: "string \<Rightarrow> bool \<Rightarrow> 'd \<Rightarrow> path_phase" where
  "phasesOfTheMigration status stillCopies = (\<lambda>_.
     \<lparr>pp_phase = status, pp_stillCopies = (status = ''cutover'' \<and> stillCopies), pp_stopped = False\<rparr>)"

definition rollUpPhases :: "string list \<Rightarrow> string option" where
  "rollUpPhases phases =
     (if phases = [] then None
      else let beforeCutover = filter (\<lambda>p. p = ''active'' \<or> p = ''paused'' \<or> p = ''ready'') phases
      in if beforeCutover \<noteq> []
         then Some (if ''active'' \<in> set beforeCutover then ''active'' else ''paused'')
         else if ''cutover'' \<in> set phases then Some ''cutover''
         else if ''continuous'' \<in> set phases then Some ''continuous''
         else Some ''done'')"

definition phasesOfThePaths ::
    "string \<Rightarrow> ('d \<Rightarrow> bool) \<Rightarrow> ('d \<times> path_row) list \<Rightarrow> 'd \<Rightarrow> path_phase" where
  "phasesOfThePaths status stillCopiesOf paths =
     (let agreed = (rollUpPhases (map (pr_state \<circ> snd) paths) = Some status)
      in (\<lambda>domain.
        let own = map_of paths domain;
            believed = (case own of None \<Rightarrow> status | Some r \<Rightarrow> if agreed then pr_state r else status)
        in \<lparr>pp_phase = believed,
            pp_stillCopies = (believed = ''cutover'' \<and> stillCopiesOf domain),
            pp_stopped = (case own of Some r \<Rightarrow> pr_stopped r | None \<Rightarrow> False)\<rparr>))"

lemmas phase_defs =
  pathRunsNow_def pathSourceAuthority_def phasesOfTheMigration_def phasesOfThePaths_def Let_def

subsection \<open>Why a pass stops\<close>

record 'd pass_phases =
  ph_anyRuns :: bool
  ph_grantWithdrawnAt :: "timestamp option"
  ph_phaseOf :: "'d \<Rightarrow> path_phase"

datatype pass_halt = No_longer_runs | Grant_withdrawn | Organisation_closed

datatype pass_skip = Data_type_no_longer_runs | Stopped_by_its_owner

datatype pass_step = Run_it | Skip_it pass_skip | Halt_it pass_halt

datatype pass_stop_reason = Because_halt pass_halt | Because_skip pass_skip

definition haltFrom :: "'d pass_phases option \<Rightarrow> pass_halt option" where
  "haltFrom phases =
     (case phases of None \<Rightarrow> Some No_longer_runs
      | Some p \<Rightarrow> if \<not> ph_anyRuns p then Some No_longer_runs
                  else if ph_grantWithdrawnAt p \<noteq> None then Some Grant_withdrawn
                  else None)"

text \<open>After \<open>haltFrom\<close> answers nothing the phases are present; the dead branch halts.\<close>

definition stepFrom :: "'d pass_phases option \<Rightarrow> 'd \<Rightarrow> pass_step" where
  "stepFrom phases domain =
     (case haltFrom phases of Some halt \<Rightarrow> Halt_it halt
      | None \<Rightarrow> (case phases of None \<Rightarrow> Halt_it No_longer_runs
        | Some p \<Rightarrow>
            let path = ph_phaseOf p domain
            in if pp_stopped path then Skip_it Stopped_by_its_owner
               else if \<not> pathRunsNow path then Skip_it Data_type_no_longer_runs
               else Run_it))"

definition sourceStillDecides :: "'d pass_phases option \<Rightarrow> 'd \<Rightarrow> bool" where
  "sourceStillDecides phases domain =
     (case phases of None \<Rightarrow> False | Some p \<Rightarrow> pathSourceAuthority (ph_phaseOf p domain))"

definition dataTypesPastCutover :: "discovery_domain pass_phases option \<Rightarrow> discovery_domain list" where
  "dataTypesPastCutover phases = filter (\<lambda>d. \<not> sourceStillDecides phases d) DISCOVERY_DOMAINS"

fun stopReasonOf :: "pass_step \<Rightarrow> pass_stop_reason option" where
  "stopReasonOf (Halt_it h) = Some (Because_halt h)"
| "stopReasonOf (Skip_it k) = Some (Because_skip k)"
| "stopReasonOf Run_it = None"

lemmas stop_defs = haltFrom_def stepFrom_def sourceStillDecides_def Let_def

subsection \<open>Turns and deadlines\<close>

definition PASS_SOFT_DEADLINE_MS :: int where
  "PASS_SOFT_DEADLINE_MS = 50 * 60 * 1000"

definition PASS_HARD_LIMIT_MS :: int where
  "PASS_HARD_LIMIT_MS = 3600000"

definition PASS_REREAD_EVERY_MS :: int where
  "PASS_REREAD_EVERY_MS = 15000"

definition passDeadlineFrom :: "int \<Rightarrow> int \<Rightarrow> int" where
  "passDeadlineFrom startedAtMs budgetMs = startedAtMs + budgetMs"

definition PASS_ORDER :: "discovery_domain list" where
  "PASS_ORDER = [Contact, Calendar, Task, Email, File]"

fun index_of :: "'a \<Rightarrow> 'a list \<Rightarrow> nat option" where
  "index_of x [] = None"
| "index_of x (y # ys) = (if x = y then Some 0 else map_option Suc (index_of x ys))"

definition pass_rank :: "discovery_domain \<Rightarrow> nat" where
  "pass_rank d = (case index_of d PASS_ORDER of Some i \<Rightarrow> i | None \<Rightarrow> length PASS_ORDER)"

definition passOrder :: "discovery_domain list \<Rightarrow> discovery_domain list" where
  "passOrder domains = sort_key pass_rank domains"

definition domainDeadline :: "int \<Rightarrow> int \<Rightarrow> int \<Rightarrow> int" where
  "domainDeadline passDeadline now typesLeft =
     (if \<not> 1 < typesLeft \<or> passDeadline \<le> now then passDeadline
      else now + (passDeadline - now) div typesLeft)"

text \<open>The deadlines a pass hands out, one data type after another, each taking \<open>used\<close> ms.\<close>

fun handed_out :: "int \<Rightarrow> int \<Rightarrow> int list \<Rightarrow> int list" where
  "handed_out passDeadline now [] = []"
| "handed_out passDeadline now (used # rest) =
     domainDeadline passDeadline now (int (length rest) + 1) #
     handed_out passDeadline (now + used) rest"

lemma domainDeadline_le: "domainDeadline passDeadline now typesLeft \<le> passDeadline"
proof (cases "1 < typesLeft \<and> now < passDeadline")
  case True
  then have "(passDeadline - now) div typesLeft \<le> passDeadline - now"
    using zdiv_mono2 [of "passDeadline - now" 1 typesLeft] by simp
  with True show ?thesis by (simp add: domainDeadline_def)
next
  case False
  then show ?thesis by (auto simp: domainDeadline_def)
qed

subsection \<open>Properties\<close>

text \<open>
  C1: once a migration is after its cutover, no sequence of starts, finishes, status updates
  and cutovers makes its source the authority on what exists again: only a run with a
  rollback in it leaves the after-cutover states.
\<close>
theorem authority_returns_only_by_rollback:
  assumes "lifecycle_run s ds t" and "isAfterCutover s" and "Roll_back \<notin> set ds"
  shows "\<not> sourceAuthorityFor t"
  using assms
proof (induction rule: lifecycle_run.induct)
  case (stay s)
  then show ?case by (simp add: sourceAuthorityFor_def)
next
  case (go s d t ds u)
  then have "isAfterCutover t" using step_back_to_authority by fastforce
  with go show ?case by simp
qed

theorem authority_returns_only_by_rollback_witness:
  "lifecycle_run ''cutover'' [Update ''continuous'', Finish_door 3 True] ''done'' \<and>
   \<not> sourceAuthorityFor ''done''"
proof -
  have run: "lifecycle_run ''cutover'' [Update ''continuous'', Finish_door 3 True] ''done''"
    by (rule lifecycle_run.go [where t = "''continuous''"],
        simp add: door_defs lifecycle_words,
        rule lifecycle_run.go [where t = "''done''"],
        simp add: door_defs lifecycle_words, rule lifecycle_run.stay)
  then show ?thesis
    using authority_returns_only_by_rollback [OF run] by (simp add: isAfterCutover_def)
qed

text \<open>
  The status-update door admits six moves, five restatements and fourteen refusals among
  the five lifecycle words, and the six moves are exactly: pause a running migration, declare
  the cutover of a running or a paused one, enter the continuous lane from \<open>cutover\<close> or
  \<open>done\<close>, and stop the lane back to \<open>cutover\<close>.
\<close>
theorem update_door_table:
  "[(s, t). s \<leftarrow> MAPPING_LIFECYCLES, t \<leftarrow> MAPPING_LIFECYCLES, updateTransition s t = Apply_update s t] =
     [(''paused'', ''cutover''), (''active'', ''paused''), (''active'', ''cutover''),
      (''cutover'', ''continuous''), (''done'', ''continuous''), (''continuous'', ''cutover'')] \<and>
   [s. s \<leftarrow> MAPPING_LIFECYCLES, t \<leftarrow> MAPPING_LIFECYCLES, updateTransition s t = Already_so s] =
     MAPPING_LIFECYCLES \<and>
   length [c. s \<leftarrow> MAPPING_LIFECYCLES, t \<leftarrow> MAPPING_LIFECYCLES,
      c \<leftarrow> (case updateTransition s t of Update_refused c \<Rightarrow> [c] | _ \<Rightarrow> [])] = 14"
  by (simp add: updateTransition_def MAPPING_LIFECYCLES_def isAfterCutover_def)

text \<open>
  A finished migration can be brought back to \<open>active\<close>, with its source the authority
  again, by entering the continuous lane and rolling back from there, although a rollback
  straight from \<open>done\<close> is refused as undoing a finish.
\<close>
theorem finished_comes_back_through_the_lane:
  "rollbackTransition ''done'' = Rollback_refused Is_finished \<and>
   lifecycle_run ''done'' [Update ''continuous'', Roll_back] ''active'' \<and>
   sourceAuthorityFor ''active''"
proof -
  have "lifecycle_run ''done'' [Update ''continuous'', Roll_back] ''active''"
    by (rule lifecycle_run.go [where t = "''continuous''"],
        simp add: door_defs lifecycle_words,
        rule lifecycle_run.go [where t = "''active''"],
        simp add: door_defs lifecycle_words, rule lifecycle_run.stay)
  then show ?thesis by (simp add: door_defs lifecycle_words)
qed

lemma roll_up_after_cutover:
  assumes "rollUpPhases phases = Some status" and "isAfterCutover status" and "p \<in> set phases"
  shows "p \<noteq> ''active'' \<and> p \<noteq> ''paused'' \<and> p \<noteq> ''ready''"
proof -
  from assms(1,2) have "filter (\<lambda>p. p = ''active'' \<or> p = ''paused'' \<or> p = ''ready'') phases = []"
    by (auto simp: rollUpPhases_def Let_def isAfterCutover_def split: if_splits)
  with assms(3) show ?thesis by (auto simp: filter_empty_conv)
qed

lemma no_source_decides:
  assumes "isAfterCutover status"
    and "\<forall>row \<in> snd ` set paths. pr_state row \<in> insert ''ready'' (set MAPPING_LIFECYCLES)"
  shows "\<not> sourceStillDecides
    (Some \<lparr>ph_anyRuns = running, ph_grantWithdrawnAt = withdrawn,
           ph_phaseOf = phasesOfThePaths status stillCopiesOf paths\<rparr>) domain"
proof (cases "map_of paths domain")
  case None
  with assms(1) show ?thesis
    by (simp add: stop_defs phase_defs sourceAuthorityFor_def)
next
  case (Some row)
  then have in_paths: "(domain, row) \<in> set paths" by (rule map_of_SomeD)
  show ?thesis
  proof (cases "rollUpPhases (map (pr_state \<circ> snd) paths) = Some status")
    case True
    have "pr_state row \<in> set (map (pr_state \<circ> snd) paths)"
      using in_paths by force
    with True assms(1)
    have "pr_state row \<noteq> ''active'' \<and> pr_state row \<noteq> ''paused'' \<and> pr_state row \<noteq> ''ready''"
      by (rule roll_up_after_cutover)
    moreover have "pr_state row \<in> insert ''ready'' (set MAPPING_LIFECYCLES)"
      using assms(2) in_paths by force
    ultimately show ?thesis using True Some
      by (auto simp: stop_defs phase_defs lifecycle_words)
  next
    case False
    with assms(1) Some show ?thesis
      by (simp add: stop_defs phase_defs sourceAuthorityFor_def)
  qed
qed

text \<open>
  while a migration's own status is after its cutover, no data type of it has a source
  that decides what exists, whatever the data types' own rows say (provided each row holds a
  word the schema admits), so no deletion detector is assembled for any of them.
\<close>
theorem no_data_type_decides_after_cutover:
  assumes "isAfterCutover status"
    and "\<forall>row \<in> snd ` set paths. pr_state row \<in> insert ''ready'' (set MAPPING_LIFECYCLES)"
  shows "\<not> sourceStillDecides
    (Some \<lparr>ph_anyRuns = running, ph_grantWithdrawnAt = withdrawn,
           ph_phaseOf = phasesOfThePaths status stillCopiesOf paths\<rparr>) domain"
  using assms by (rule no_source_decides)

theorem no_data_type_decides_after_cutover_witness:
  "\<not> sourceStillDecides
    (Some \<lparr>ph_anyRuns = True, ph_grantWithdrawnAt = None,
           ph_phaseOf = phasesOfThePaths ''cutover'' (\<lambda>_. True)
             [(Email, \<lparr>pr_state = ''cutover'', pr_stopped = False\<rparr>),
              (File, \<lparr>pr_state = ''continuous'', pr_stopped = True\<rparr>)]\<rparr>) File"
  by (rule no_data_type_decides_after_cutover)
    (simp_all add: isAfterCutover_def MAPPING_LIFECYCLES_def)

text \<open>
  In a grace period that has begun and copies, the two readings of its clock divide time
  between them: the migration copies exactly until the moment its grace period is reported
  as ended, and once it has stopped copying it never copies again under the same window.
\<close>
theorem grace_clock_splits_time:
  assumes "cw_state w = ''GRACE_PERIOD''" and "cw_copiesThroughGrace w" and "cw_graceStartedAt w = Some t0"
  shows "(cutoverStillCopiesAt (Some w) now \<longleftrightarrow> cutoverGraceEndedAt w completedAt now = None) \<and>
    (\<not> cutoverStillCopiesAt (Some w) now \<longrightarrow> now \<le> later \<longrightarrow> \<not> cutoverStillCopiesAt (Some w) later)"
  using assms
  by (auto simp: cutoverStillCopiesAt_def cutoverCopiesUntil_def cutoverGraceEndedAt_def Let_def)

theorem grace_clock_splits_time_witness:
  "let w = \<lparr>cw_state = ''GRACE_PERIOD'', cw_copiesThroughGrace = True, cw_enteredAt = 0,
            cw_graceStartedAt = Some 10, cw_graceHours = 72\<rparr>
   in (cutoverStillCopiesAt (Some w) 11 \<longleftrightarrow> cutoverGraceEndedAt w None 11 = None) \<and>
      \<not> cutoverStillCopiesAt (Some w) 259200010"
  unfolding Let_def
  by (rule conjI, rule grace_clock_splits_time [THEN conjunct1, of _ 10])
    (simp_all add: cutoverStillCopiesAt_def cutoverCopiesUntil_def HOUR_MS_def)

text \<open>
  Whatever each data type uses of its turn, no data type is ever handed a deadline past
  the pass's own; the last one is handed the pass's own deadline in full; and while time is
  left, each one is handed a moment no earlier than now.
\<close>
theorem handed_out_deadlines:
  shows "(\<forall>d \<in> set (handed_out passDeadline now used). d \<le> passDeadline) \<and>
    (used \<noteq> [] \<longrightarrow> last (handed_out passDeadline now used) = passDeadline) \<and>
    (used \<noteq> [] \<longrightarrow> now \<le> passDeadline \<longrightarrow> now \<le> hd (handed_out passDeadline now used))"
proof (induction used arbitrary: now)
  case Nil
  then show ?case by simp
next
  case (Cons u rest)
  have share: "now \<le> passDeadline \<longrightarrow> now \<le> domainDeadline passDeadline now (int (length rest) + 1)"
    by (auto simp: domainDeadline_def pos_imp_zdiv_nonneg_iff)
  have "rest \<noteq> [] \<longrightarrow> handed_out passDeadline (now + u) rest \<noteq> []"
    by (cases rest) simp_all
  with Cons.IH [of "now + u"] share show ?case
    by (cases "rest = []") (auto simp: domainDeadline_le domainDeadline_def [of _ _ 1])
qed

theorem handed_out_deadlines_witness:
  "handed_out 3000 0 [5, 100, 40] = [1000, 1502, 3000] \<and>
   last (handed_out 3000 0 [5, 100, 40]) = 3000"
  using handed_out_deadlines [of 3000 0 "[5, 100, 40]"]
  by (simp add: domainDeadline_def)

text \<open>
  The order a pass takes its data types in is a permutation of the ones it was given,
  contacts, calendars and tasks before mail and mail before files, and types of equal rank
  keep the order they came in.
\<close>
theorem pass_order_sorts_stably:
  "mset (passOrder ds) = mset ds \<and>
   sorted (map pass_rank (passOrder ds)) \<and>
   filter (\<lambda>d. pass_rank d = k) (passOrder ds) = filter (\<lambda>d. pass_rank d = k) ds \<and>
   pass_rank Contact < pass_rank Calendar \<and> pass_rank Calendar < pass_rank Task \<and>
   pass_rank Task < pass_rank Email \<and> pass_rank Email < pass_rank File"
proof -
  have "pass_rank Contact < pass_rank Calendar \<and> pass_rank Calendar < pass_rank Task \<and>
     pass_rank Task < pass_rank Email \<and> pass_rank Email < pass_rank File"
    by (simp add: pass_rank_def PASS_ORDER_def)
  then show ?thesis by (simp add: passOrder_def sort_key_stable)
qed

end
