(* ===== verification/Cutover_State.thy ===== *)
theory Cutover_State
  imports Lifecycle
begin

text \<open>
  The cutover state machine (\<open>packages/core/src/cutover-state.ts\<close>): the states, the table of
  valid transitions and everything the module derives from it, the two refusals that keep a
  whole migration's cutover and its data types' own apart, and the status record with its
  one update function.

  \<open>cutover_reach\<close> is the relation the table generates; its invariants (what must have been
  passed through, what is terminal) are the specification of the machine.
\<close>

subsection \<open>States and transitions\<close>

datatype cutover_state =
  PREPARING | READY_FOR_CUTOVER | APPROVED | CUTOVER_IN_PROGRESS | GRACE_PERIOD
| COMPLETED | ROLLED_BACK | FAILED

datatype cutover_phase =
  PREPARATION | VERIFICATION | CUTOVER | GRACE | COMPLETION | ROLLBACK | ERROR

fun VALID_TRANSITIONS :: "cutover_state \<Rightarrow> cutover_state list" where
  "VALID_TRANSITIONS PREPARING = [READY_FOR_CUTOVER, FAILED]"
| "VALID_TRANSITIONS READY_FOR_CUTOVER = [APPROVED, PREPARING, FAILED]"
| "VALID_TRANSITIONS APPROVED = [CUTOVER_IN_PROGRESS, READY_FOR_CUTOVER, FAILED, ROLLED_BACK]"
| "VALID_TRANSITIONS CUTOVER_IN_PROGRESS = [GRACE_PERIOD, FAILED, ROLLED_BACK]"
| "VALID_TRANSITIONS GRACE_PERIOD = [COMPLETED, ROLLED_BACK, FAILED]"
| "VALID_TRANSITIONS COMPLETED = []"
| "VALID_TRANSITIONS ROLLED_BACK = [PREPARING]"
| "VALID_TRANSITIONS FAILED = [PREPARING, ROLLED_BACK]"

fun getStatePhase :: "cutover_state \<Rightarrow> cutover_phase" where
  "getStatePhase PREPARING = PREPARATION"
| "getStatePhase READY_FOR_CUTOVER = VERIFICATION"
| "getStatePhase APPROVED = VERIFICATION"
| "getStatePhase CUTOVER_IN_PROGRESS = CUTOVER"
| "getStatePhase GRACE_PERIOD = GRACE"
| "getStatePhase COMPLETED = COMPLETION"
| "getStatePhase ROLLED_BACK = ROLLBACK"
| "getStatePhase FAILED = ERROR"

definition isValidTransition :: "cutover_state \<Rightarrow> cutover_state \<Rightarrow> bool" where
  "isValidTransition from to \<longleftrightarrow> to \<in> set (VALID_TRANSITIONS from)"

definition canRollback :: "cutover_state \<Rightarrow> bool" where
  "canRollback s \<longleftrightarrow> isValidTransition s ROLLED_BACK"

definition isTerminalState :: "cutover_state \<Rightarrow> bool" where
  "isTerminalState s \<longleftrightarrow> length (VALID_TRANSITIONS s) = 0"

subsection \<open>How a preparation enters the machine\<close>

datatype prepare_refusal = Under_way | Closed

datatype prepare_transition =
  Initialize
| Prepare cutover_state (resetFirst: bool)
| Prepare_refused cutover_state prepare_refusal

definition prepareTransition :: "cutover_state option \<Rightarrow> prepare_transition" where
  "prepareTransition st =
     (case st of None \<Rightarrow> Initialize
      | Some s \<Rightarrow>
          if isValidTransition s READY_FOR_CUTOVER then Prepare s False
          else if isValidTransition s PREPARING then Prepare s True
          else if canRollback s then Prepare_refused s Under_way
          else Prepare_refused s Closed)"

definition CUTOVER_UNDER_WAY :: "cutover_state list" where
  "CUTOVER_UNDER_WAY = [PREPARING, READY_FOR_CUTOVER, APPROVED, CUTOVER_IN_PROGRESS, GRACE_PERIOD]"

subsection \<open>The whole migration's ledger and a data type's own\<close>

record cutover_ledger_row =
  cl_domain :: "discovery_domain option"
  cl_state :: cutover_state

datatype begin_refusal = Whole_under_way | Cut_over_by_data_type

definition cutoverBeginRefusal ::
    "cutover_ledger_row list \<Rightarrow> discovery_domain option \<Rightarrow> begin_refusal option" where
  "cutoverBeginRefusal ledgers domain =
     (case domain of
        Some d \<Rightarrow>
          if \<exists>l \<in> set ledgers. cl_domain l = Some d then None
          else (case List.find (\<lambda>l. cl_domain l = None) ledgers of
                  None \<Rightarrow> None
                | Some whole \<Rightarrow>
                    if cl_state whole \<notin> set CUTOVER_UNDER_WAY then None else Some Whole_under_way)
      | None \<Rightarrow>
          let own = List.map_filter cl_domain ledgers
          in if length own = 0 then None else Some Cut_over_by_data_type)"

datatype leaving_refusal = Cannot_move_alone | Must_begin_its_own

definition leavingTheWholeLedgerRefusal ::
    "cutover_state \<Rightarrow> cutover_state \<Rightarrow> leaving_refusal option" where
  "leavingTheWholeLedgerRefusal inherited to =
     (if inherited \<in> set CUTOVER_UNDER_WAY then Some Cannot_move_alone
      else if to \<noteq> PREPARING then Some Must_begin_its_own
      else None)"

subsection \<open>The status record\<close>

datatype verification_status = V_PENDING | V_PASS | V_WARN | V_FAIL

record cutover_status =
  cs_tenantId :: string
  cs_mappingId :: string
  cs_domain :: "discovery_domain option"
  cs_state :: cutover_state
  cs_currentState :: "cutover_state option"
  cs_phase :: cutover_phase
  cs_startedAt :: timestamp
  cs_updatedAt :: timestamp
  cs_completedAt :: "timestamp option"
  cs_verificationStatus :: verification_status
  cs_gracePeriodStartedAt :: "timestamp option"
  cs_gracePeriodCompletedAt :: "timestamp option"
  cs_copiesThroughGrace :: bool
  cs_gracePeriodHours :: "int option"
  cs_errorMessage :: "string option"
  cs_errorDetails :: "string option"
  cs_rollbackAvailable :: bool
  cs_rollbackReason :: "string option"
  cs_targetMailServer :: "string option"
  cs_startedBy :: "string option"
  cs_rolledBackAt :: "timestamp option"
  cs_failedAt :: "timestamp option"
  cs_failureReason :: "string option"
  cs_graceHoursInMetadata :: "int option"

text \<open>
  \<open>updateCutoverStatus\<close>: the one function that moves a status, refusing (a thrown error) what
  the table does not admit. The clock is an argument; a reason that is given and not empty
  clears the recorded error.
\<close>

definition updateCutoverStatus ::
    "timestamp \<Rightarrow> cutover_status \<Rightarrow> cutover_state \<Rightarrow> string option \<Rightarrow> string + cutover_status" where
  "updateCutoverStatus now status newState reason =
     (if \<not> isValidTransition (cs_state status) newState then Inl ''Invalid state transition''
      else
        let moved = status\<lparr>cs_state := newState, cs_currentState := Some newState,
              cs_phase := getStatePhase newState, cs_updatedAt := now,
              cs_rollbackAvailable := canRollback newState\<rparr>;
            closed = (if newState = COMPLETED then moved\<lparr>cs_completedAt := Some now\<rparr> else moved);
            cleared = (if truthy reason then closed\<lparr>cs_errorMessage := None, cs_errorDetails := None\<rparr> else closed);
            failed = (if newState = FAILED
              then cleared\<lparr>cs_failedAt := Some now, cs_failureReason := reason\<rparr> else cleared);
            undone = (if newState = ROLLED_BACK
              then failed\<lparr>cs_rolledBackAt := Some now, cs_rollbackReason := reason\<rparr> else failed)
        in Inr undone)"

fun cutover_state_name :: "cutover_state \<Rightarrow> string" where
  "cutover_state_name PREPARING = ''PREPARING''"
| "cutover_state_name READY_FOR_CUTOVER = ''READY_FOR_CUTOVER''"
| "cutover_state_name APPROVED = ''APPROVED''"
| "cutover_state_name CUTOVER_IN_PROGRESS = ''CUTOVER_IN_PROGRESS''"
| "cutover_state_name GRACE_PERIOD = ''GRACE_PERIOD''"
| "cutover_state_name COMPLETED = ''COMPLETED''"
| "cutover_state_name ROLLED_BACK = ''ROLLED_BACK''"
| "cutover_state_name FAILED = ''FAILED''"

definition cutoverWindowOf :: "cutover_status \<Rightarrow> cutover_window" where
  "cutoverWindowOf status =
     \<lparr>cw_state = cutover_state_name
        (case cs_currentState status of Some s \<Rightarrow> s | None \<Rightarrow> cs_state status),
      cw_copiesThroughGrace = cs_copiesThroughGrace status,
      cw_enteredAt = cs_updatedAt status,
      cw_graceStartedAt = cs_gracePeriodStartedAt status,
      cw_graceHours = (case cs_gracePeriodHours status of Some h \<Rightarrow> h | None \<Rightarrow> 72)\<rparr>"

lemmas machine_defs =
  isValidTransition_def canRollback_def isTerminalState_def CUTOVER_UNDER_WAY_def

lemma all_cutover_states: "(\<forall>s. P s) \<longleftrightarrow> P PREPARING \<and> P READY_FOR_CUTOVER \<and> P APPROVED \<and>
    P CUTOVER_IN_PROGRESS \<and> P GRACE_PERIOD \<and> P COMPLETED \<and> P ROLLED_BACK \<and> P FAILED"
  by (metis cutover_state.exhaust)

subsection \<open>The relation the table generates\<close>

inductive cutover_run :: "cutover_state \<Rightarrow> cutover_state list \<Rightarrow> cutover_state \<Rightarrow> bool" where
  here: "cutover_run s [] s"
| move: "cutover_run s path t \<Longrightarrow> isValidTransition t u \<Longrightarrow> cutover_run s (path @ [u]) u"

lemma cutover_run_last: "cutover_run s path t \<Longrightarrow> t = last (s # path)"
  by (induction rule: cutover_run.induct) auto

text \<open>The same runs as a test on the path, so that a concrete one can be evaluated.\<close>

fun valid_path :: "cutover_state \<Rightarrow> cutover_state list \<Rightarrow> bool" where
  "valid_path s [] = True"
| "valid_path s (u # us) = (isValidTransition s u \<and> valid_path u us)"

lemma valid_path_snoc:
  "valid_path s (path @ [u]) \<longleftrightarrow> valid_path s path \<and> isValidTransition (last (s # path)) u"
  by (induction path arbitrary: s) auto

lemma valid_path_run: "valid_path s path \<Longrightarrow> cutover_run s path (last (s # path))"
proof (induction path rule: rev_induct)
  case Nil
  then show ?case by (simp add: cutover_run.here)
next
  case (snoc u path)
  then have "cutover_run s path (last (s # path))" and "isValidTransition (last (s # path)) u"
    by (simp_all only: valid_path_snoc)
  then have "cutover_run s (path @ [u]) u" by (rule cutover_run.move)
  then show ?case by simp
qed

text \<open>What a ledger that began at PREPARING has on its trail when it stands in a state.\<close>

fun must_have_passed :: "cutover_state \<Rightarrow> cutover_state list" where
  "must_have_passed APPROVED = [READY_FOR_CUTOVER, APPROVED]"
| "must_have_passed CUTOVER_IN_PROGRESS = [READY_FOR_CUTOVER, APPROVED, CUTOVER_IN_PROGRESS]"
| "must_have_passed GRACE_PERIOD = [READY_FOR_CUTOVER, APPROVED, CUTOVER_IN_PROGRESS, GRACE_PERIOD]"
| "must_have_passed COMPLETED =
     [READY_FOR_CUTOVER, APPROVED, CUTOVER_IN_PROGRESS, GRACE_PERIOD, COMPLETED]"
| "must_have_passed _ = []"

definition trail_inv :: "cutover_state list \<Rightarrow> cutover_state \<Rightarrow> bool" where
  "trail_inv path t \<longleftrightarrow> set (must_have_passed t) \<subseteq> set path \<and>
     (t = READY_FOR_CUTOVER \<longrightarrow> READY_FOR_CUTOVER \<in> set path)"

lemma trail_inv_step:
  "trail_inv path t \<Longrightarrow> isValidTransition t u \<Longrightarrow> trail_inv (path @ [u]) u"
  by (cases t; cases u) (simp_all add: trail_inv_def isValidTransition_def)

lemma trail_inv_run: "cutover_run s path t \<Longrightarrow> s = PREPARING \<Longrightarrow> trail_inv path t"
proof (induction rule: cutover_run.induct)
  case (here s)
  then show ?case by (simp add: trail_inv_def)
next
  case (move s path t u)
  then show ?case by (blast intro: trail_inv_step)
qed

subsection \<open>Properties\<close>

text \<open>
  a cutover ledger that began at PREPARING and stands at COMPLETED went through a
  verification verdict, an approval, the execution and the grace period on its way, in every
  run the transition table admits; nothing leaves COMPLETED, and it is the only state
  nothing leaves.
\<close>
theorem completed_only_through_approval_and_grace:
  assumes "cutover_run PREPARING path COMPLETED"
  shows "{READY_FOR_CUTOVER, APPROVED, CUTOVER_IN_PROGRESS, GRACE_PERIOD} \<subseteq> set path \<and>
    (\<forall>s. isTerminalState s \<longleftrightarrow> s = COMPLETED)"
proof -
  from assms have "trail_inv path COMPLETED" by (rule trail_inv_run) simp
  moreover have "\<forall>s. isTerminalState s \<longleftrightarrow> s = COMPLETED"
    by (simp add: all_cutover_states machine_defs)
  ultimately show ?thesis by (simp add: trail_inv_def)
qed

theorem completed_only_through_approval_and_grace_witness:
  "APPROVED \<in> set [READY_FOR_CUTOVER, FAILED, PREPARING, READY_FOR_CUTOVER, APPROVED,
     CUTOVER_IN_PROGRESS, GRACE_PERIOD, COMPLETED]"
proof -
  let ?path = "[READY_FOR_CUTOVER, FAILED, PREPARING, READY_FOR_CUTOVER, APPROVED,
     CUTOVER_IN_PROGRESS, GRACE_PERIOD, COMPLETED]"
  have "cutover_run PREPARING ?path (last (PREPARING # ?path))"
    by (rule valid_path_run) (simp add: isValidTransition_def)
  then have run: "cutover_run PREPARING ?path COMPLETED" by simp
  from completed_only_through_approval_and_grace [OF run] show ?thesis by simp
qed

text \<open>
  A preparation never gets stuck and never walks an edge the machine lacks. For every
  state it either prepares, and then each write it makes (back to PREPARING first where it
  says so, then READY_FOR_CUTOVER) is a valid transition; or it refuses, and then no
  preparation is reachable in one move, with the code \<open>closed\<close> exactly for the terminal
  state and \<open>under way\<close> exactly where a rollback is possible.
\<close>
theorem preparation_follows_the_machine:
  "case prepareTransition (Some s) of
     Initialize \<Rightarrow> False
   | Prepare from reset \<Rightarrow> from = s \<and>
       (if reset then isValidTransition s PREPARING \<and> isValidTransition PREPARING READY_FOR_CUTOVER
                 \<and> \<not> isValidTransition s READY_FOR_CUTOVER
        else isValidTransition s READY_FOR_CUTOVER)
   | Prepare_refused from code \<Rightarrow> from = s \<and>
       \<not> isValidTransition s READY_FOR_CUTOVER \<and> \<not> isValidTransition s PREPARING \<and>
       (code = Closed \<longleftrightarrow> isTerminalState s) \<and> (code = Under_way \<longleftrightarrow> canRollback s)"
  by (cases s) (simp_all add: prepareTransition_def machine_defs)

text \<open>
  a whole migration's cutover and a data type's own are never begun side by side. If a
  data type without a ledger may begin its own, the whole migration's is not under way; and
  if the whole migration's may begin, no data type has a ledger at all.
\<close>
theorem no_two_cutovers_begin_side_by_side:
  shows "(cutoverBeginRefusal ledgers (Some d) = None \<longrightarrow>
      (\<forall>l \<in> set ledgers. cl_domain l \<noteq> Some d) \<longrightarrow> distinct (map cl_domain ledgers) \<longrightarrow>
      (\<forall>l \<in> set ledgers. cl_domain l = None \<longrightarrow> cl_state l \<notin> set CUTOVER_UNDER_WAY)) \<and>
    (cutoverBeginRefusal ledgers None = None \<longleftrightarrow> (\<forall>l \<in> set ledgers. cl_domain l = None))"
proof (intro conjI impI ballI)
  fix l
  assume ok: "cutoverBeginRefusal ledgers (Some d) = None"
    and none: "\<forall>l \<in> set ledgers. cl_domain l \<noteq> Some d" and one: "distinct (map cl_domain ledgers)"
    and l: "l \<in> set ledgers" "cl_domain l = None"
  have "List.find (\<lambda>l. cl_domain l = None) ledgers = Some l"
    by (rule find_unique [OF one l(1)]) (simp_all add: l(2))
  with ok none show "cl_state l \<notin> set CUTOVER_UNDER_WAY"
    by (auto simp: cutoverBeginRefusal_def split: if_splits)
next
  show "cutoverBeginRefusal ledgers None = None \<longleftrightarrow> (\<forall>l \<in> set ledgers. cl_domain l = None)"
    by (auto simp: cutoverBeginRefusal_def Let_def List.map_filter_def filter_empty_conv)
qed

theorem no_two_cutovers_begin_side_by_side_witness:
  "cutoverBeginRefusal [\<lparr>cl_domain = None, cl_state = ROLLED_BACK\<rparr>] (Some Email) = None \<and>
   ROLLED_BACK \<notin> set CUTOVER_UNDER_WAY"
  using no_two_cutovers_begin_side_by_side [of "[\<lparr>cl_domain = None, cl_state = ROLLED_BACK\<rparr>]" Email]
  by (simp add: cutoverBeginRefusal_def CUTOVER_UNDER_WAY_def)

text \<open>
  A status moves only along the table. \<open>updateCutoverStatus\<close> throws exactly where the
  table has no edge; where it has one, the state, its alias, the phase and the rollback flag
  of the result all agree with the new state, and a failure or a rollback keeps its reason.
\<close>
theorem update_status_agrees_with_machine:
  "(updateCutoverStatus now st new reason = Inl e \<longrightarrow> \<not> isValidTransition (cs_state st) new) \<and>
   (isValidTransition (cs_state st) new \<longrightarrow>
     (\<exists>st'. updateCutoverStatus now st new reason = Inr st' \<and>
       cs_state st' = new \<and> cs_currentState st' = Some new \<and> cs_phase st' = getStatePhase new \<and>
       cs_rollbackAvailable st' = canRollback new \<and> cs_updatedAt st' = now \<and>
       (new = FAILED \<longrightarrow> cs_failureReason st' = reason) \<and>
       (new = ROLLED_BACK \<longrightarrow> cs_rollbackReason st' = reason) \<and>
       (new \<noteq> COMPLETED \<longrightarrow> cs_completedAt st' = cs_completedAt st) \<and>
       cs_copiesThroughGrace st' = cs_copiesThroughGrace st))"
  by (simp add: updateCutoverStatus_def Let_def)

theorem update_status_agrees_with_machine_witness:
  "\<not> isValidTransition COMPLETED ROLLED_BACK"
  using update_status_agrees_with_machine
    [of 5 "\<lparr>cs_tenantId = [], cs_mappingId = [], cs_domain = None, cs_state = COMPLETED,
      cs_currentState = None, cs_phase = COMPLETION, cs_startedAt = 0, cs_updatedAt = 0,
      cs_completedAt = None, cs_verificationStatus = V_PASS, cs_gracePeriodStartedAt = None,
      cs_gracePeriodCompletedAt = None, cs_copiesThroughGrace = False, cs_gracePeriodHours = None,
      cs_errorMessage = None, cs_errorDetails = None, cs_rollbackAvailable = False,
      cs_rollbackReason = None, cs_targetMailServer = None, cs_startedBy = None,
      cs_rolledBackAt = None, cs_failedAt = None, cs_failureReason = None,
      cs_graceHoursInMetadata = None\<rparr>" ROLLED_BACK None "''Invalid state transition''"]
  by (simp add: updateCutoverStatus_def isValidTransition_def)

end
