(* ===== verification/Cutover_Store.thy ===== *)
theory Cutover_Store
  imports Cutover_State
begin

text \<open>
  The cutover ledger in the database (\<open>packages/ledger/src/cutover-store.ts\<close>): one row per
  migration and one per data type cut over on its own, and the trail of events. The two
  tables are the fields of \<open>cutover_db\<close>; a statement is a function on them. The store's
  methods are programs over that state, and \<open>in_tenant\<close> is the transaction the bound store
  runs each of them in, so a refusal leaves no row behind. The verification report and the
  prose of event descriptions are not modelled.
\<close>

subsection \<open>Rows\<close>

datatype db_phase = Db_verification | Db_approval | Db_cutover | Db_grace | Db_completion | Db_rollback

datatype db_verification = Db_pending | Db_pass | Db_fail | Db_warn | Db_skipped

record cutover_row =
  cr_tenant_id :: string
  cr_mapping_id :: string
  cr_domain :: "discovery_domain option"
  cr_state :: cutover_state
  cr_phase :: db_phase
  cr_verification_status :: db_verification
  cr_grace_period_hours :: int
  cr_grace_period_started_at :: "timestamp option"
  cr_grace_period_completed_at :: "timestamp option"
  cr_copies_through_grace :: bool
  cr_target_mail_server :: "string option"
  cr_metadata_grace_hours :: "int option"
  cr_created_at :: timestamp
  cr_updated_at :: timestamp

record transition_metadata =
  tm_reason :: "string option"
  tm_failureReason :: "string option"
  tm_rollbackReason :: "string option"
  tm_gracePeriodStartedAt :: "timestamp option"
  tm_copiesThroughGrace :: "bool option"
  tm_startedAt :: "timestamp option"
  tm_startedBy :: "string option"
  tm_completedAt :: "timestamp option"
  tm_failedAt :: "timestamp option"
  tm_rolledBackAt :: "timestamp option"
  tm_rolledBackBy :: "string option"
  tm_completedBy :: "string option"
  tm_stoppedSync :: "bool option"
  tm_resumedSync :: "bool option"
  tm_mappingStatus :: "string option"

definition no_metadata :: transition_metadata where
  "no_metadata = \<lparr>tm_reason = None, tm_failureReason = None, tm_rollbackReason = None,
     tm_gracePeriodStartedAt = None, tm_copiesThroughGrace = None, tm_startedAt = None, tm_startedBy = None,
     tm_completedAt = None, tm_failedAt = None, tm_rolledBackAt = None, tm_rolledBackBy = None,
     tm_completedBy = None, tm_stoppedSync = None, tm_resumedSync = None, tm_mappingStatus = None\<rparr>"

datatype event_type = CUTOVER_INITIALIZED | STATE_TRANSITION

record cutover_event =
  ce_tenantId :: string
  ce_mappingId :: string
  ce_domain :: "discovery_domain option"
  ce_timestamp :: timestamp
  ce_fromState :: "cutover_state option"
  ce_toState :: cutover_state
  ce_triggeredBy :: string
  ce_reason :: "string option"
  ce_metadata :: "transition_metadata option"
  ce_eventType :: event_type

record cutover_db =
  cd_states :: "cutover_row list"
  cd_events :: "cutover_event list"

datatype store_error =
  No_cutover_state | Refused_to_begin begin_refusal | Refused_to_leave leaving_refusal
| Invalid_transition cutover_state cutover_state | Other_tenant

subsection \<open>Between a row and a status\<close>

fun mapPhaseToDb :: "cutover_phase \<Rightarrow> db_phase" where
  "mapPhaseToDb PREPARATION = Db_verification"
| "mapPhaseToDb VERIFICATION = Db_verification"
| "mapPhaseToDb CUTOVER = Db_cutover"
| "mapPhaseToDb GRACE = Db_grace"
| "mapPhaseToDb COMPLETION = Db_completion"
| "mapPhaseToDb ROLLBACK = Db_rollback"
| "mapPhaseToDb ERROR = Db_rollback"

fun mapVerificationStatus :: "verification_status \<Rightarrow> db_verification" where
  "mapVerificationStatus V_PENDING = Db_pending"
| "mapVerificationStatus V_PASS = Db_pass"
| "mapVerificationStatus V_WARN = Db_warn"
| "mapVerificationStatus V_FAIL = Db_fail"

fun dbPhaseToPhase :: "db_phase \<Rightarrow> cutover_phase" where
  "dbPhaseToPhase Db_verification = PREPARATION"
| "dbPhaseToPhase Db_cutover = CUTOVER"
| "dbPhaseToPhase Db_grace = GRACE"
| "dbPhaseToPhase Db_completion = COMPLETION"
| "dbPhaseToPhase Db_rollback = ROLLBACK"
| "dbPhaseToPhase Db_approval = PREPARATION"

fun verificationStatusMap :: "db_verification \<Rightarrow> verification_status" where
  "verificationStatusMap Db_pass = V_PASS"
| "verificationStatusMap Db_warn = V_WARN"
| "verificationStatusMap Db_fail = V_FAIL"
| "verificationStatusMap Db_pending = V_PENDING"
| "verificationStatusMap Db_skipped = V_PENDING"

text \<open>\<open>extractGracePeriodHours\<close>: the hours in the metadata if they are there and not 0, else 72.\<close>

definition extractGracePeriodHours :: "cutover_status \<Rightarrow> int" where
  "extractGracePeriodHours st =
     (case cs_graceHoursInMetadata st of None \<Rightarrow> 72 | Some h \<Rightarrow> if h = 0 then 72 else h)"

definition mapRowToStatus :: "cutover_row \<Rightarrow> cutover_status" where
  "mapRowToStatus row =
     \<lparr>cs_tenantId = cr_tenant_id row, cs_mappingId = cr_mapping_id row, cs_domain = cr_domain row,
      cs_state = cr_state row, cs_currentState = Some (cr_state row),
      cs_phase = dbPhaseToPhase (cr_phase row),
      cs_startedAt = cr_created_at row, cs_updatedAt = cr_updated_at row,
      cs_completedAt = cr_grace_period_completed_at row,
      cs_verificationStatus = verificationStatusMap (cr_verification_status row),
      cs_gracePeriodStartedAt = cr_grace_period_started_at row,
      cs_gracePeriodCompletedAt = None,
      cs_copiesThroughGrace = cr_copies_through_grace row,
      cs_gracePeriodHours = Some (cr_grace_period_hours row),
      cs_errorMessage = None, cs_errorDetails = None,
      cs_rollbackAvailable = canRollback (cr_state row),
      cs_rollbackReason = None, cs_targetMailServer = cr_target_mail_server row,
      cs_startedBy = None, cs_rolledBackAt = None, cs_failedAt = None, cs_failureReason = None,
      cs_graceHoursInMetadata = cr_metadata_grace_hours row\<rparr>"

subsection \<open>Saving and loading\<close>

definition same_ledger :: "cutover_status \<Rightarrow> cutover_row \<Rightarrow> bool" where
  "same_ledger st row \<longleftrightarrow> cr_tenant_id row = cs_tenantId st \<and> cr_mapping_id row = cs_mappingId st \<and>
     cr_domain row = cs_domain st"

definition inserted_row :: "timestamp \<Rightarrow> cutover_status \<Rightarrow> cutover_row" where
  "inserted_row now st =
     \<lparr>cr_tenant_id = cs_tenantId st, cr_mapping_id = cs_mappingId st, cr_domain = cs_domain st,
      cr_state = cs_state st, cr_phase = mapPhaseToDb (cs_phase st),
      cr_verification_status = mapVerificationStatus (cs_verificationStatus st),
      cr_grace_period_hours = extractGracePeriodHours st,
      cr_grace_period_started_at = cs_gracePeriodStartedAt st,
      cr_grace_period_completed_at = cs_gracePeriodCompletedAt st,
      cr_copies_through_grace = cs_copiesThroughGrace st,
      cr_target_mail_server = cs_targetMailServer st,
      cr_metadata_grace_hours = Some 72,
      cr_created_at = now, cr_updated_at = now\<rparr>"

definition updated_row :: "timestamp \<Rightarrow> cutover_status \<Rightarrow> cutover_row \<Rightarrow> cutover_row" where
  "updated_row now st row = (inserted_row now st)\<lparr>cr_created_at := cr_created_at row\<rparr>"

text \<open>\<open>INSERT .. ON CONFLICT (tenant_id, mapping_id, domain) DO UPDATE\<close>, equal NULLs included.\<close>

definition saveCutoverState :: "timestamp \<Rightarrow> cutover_status \<Rightarrow> cutover_db \<Rightarrow> cutover_db" where
  "saveCutoverState now st db =
     (if \<exists>row \<in> set (cd_states db). same_ledger st row
      then db\<lparr>cd_states := update_where (same_ledger st) (updated_row now st) (cd_states db)\<rparr>
      else db\<lparr>cd_states := cd_states db @ [inserted_row now st]\<rparr>)"

definition of_migration :: "string \<Rightarrow> string \<Rightarrow> cutover_row \<Rightarrow> bool" where
  "of_migration tenant mapping row \<longleftrightarrow> cr_tenant_id row = tenant \<and> cr_mapping_id row = mapping"

text \<open>
  \<open>loadCutoverState\<close>: the whole migration's row, or for a data type its own row first and the
  whole migration's where it has none (\<open>ORDER BY domain NULLS LAST LIMIT 1\<close>).
\<close>

definition loadCutoverState ::
    "string \<Rightarrow> string \<Rightarrow> discovery_domain option \<Rightarrow> cutover_db \<Rightarrow> cutover_status option" where
  "loadCutoverState tenant mapping domain db =
     (let own = List.find (\<lambda>r. of_migration tenant mapping r \<and> domain \<noteq> None \<and> cr_domain r = domain) (cd_states db);
          whole = List.find (\<lambda>r. of_migration tenant mapping r \<and> cr_domain r = None) (cd_states db)
      in map_option mapRowToStatus (case own of Some r \<Rightarrow> Some r | None \<Rightarrow> whole))"

definition loadLedgers :: "string \<Rightarrow> string \<Rightarrow> cutover_db \<Rightarrow> cutover_ledger_row list" where
  "loadLedgers tenant mapping db =
     map (\<lambda>r. \<lparr>cl_domain = cr_domain r, cl_state = cr_state r\<rparr>)
       (filter (of_migration tenant mapping) (cd_states db))"

definition logCutoverEvent :: "cutover_event \<Rightarrow> cutover_db \<Rightarrow> cutover_db" where
  "logCutoverEvent e db = db\<lparr>cd_events := cd_events db @ [e]\<rparr>"

definition loadEvents ::
    "string \<Rightarrow> string \<Rightarrow> nat option \<Rightarrow> discovery_domain option \<Rightarrow> cutover_db \<Rightarrow> cutover_event list" where
  "loadEvents tenant mapping lim domain db =
     (let rows = sort_key ce_timestamp (filter (\<lambda>e. ce_tenantId e = tenant \<and> ce_mappingId e = mapping \<and>
              (ce_domain e = None \<or> (domain \<noteq> None \<and> ce_domain e = domain))) (cd_events db))
      in case lim of None \<Rightarrow> rows | Some n \<Rightarrow> if n = 0 then rows else take n rows)"

subsection \<open>Beginning and moving a cutover\<close>

definition initial_status ::
    "timestamp \<Rightarrow> string \<Rightarrow> string \<Rightarrow> discovery_domain option \<Rightarrow> string option \<Rightarrow> string option \<Rightarrow> cutover_status" where
  "initial_status now tenant mapping domain targetMailServer startedBy =
     \<lparr>cs_tenantId = tenant, cs_mappingId = mapping, cs_domain = domain,
      cs_state = PREPARING, cs_currentState = Some PREPARING, cs_phase = PREPARATION,
      cs_startedAt = now, cs_updatedAt = now, cs_completedAt = None,
      cs_verificationStatus = V_PENDING,
      cs_gracePeriodStartedAt = None, cs_gracePeriodCompletedAt = None,
      cs_copiesThroughGrace = False, cs_gracePeriodHours = None,
      cs_errorMessage = None, cs_errorDetails = None,
      cs_rollbackAvailable = canRollback PREPARING, cs_rollbackReason = None,
      cs_targetMailServer = targetMailServer, cs_startedBy = startedBy,
      cs_rolledBackAt = None, cs_failedAt = None, cs_failureReason = None,
      cs_graceHoursInMetadata = None\<rparr>"

definition initializeCutover ::
    "timestamp \<Rightarrow> string \<Rightarrow> string \<Rightarrow> discovery_domain option \<Rightarrow> string option \<Rightarrow> string option \<Rightarrow>
     (cutover_db, store_error, cutover_status) prog" where
  "initializeCutover now tenant mapping domain targetMailServer startedBy = (\<lambda>db.
     case loadCutoverState tenant mapping domain db of
       Some existing \<Rightarrow> (Inr existing, db)
     | None \<Rightarrow>
         (case cutoverBeginRefusal (loadLedgers tenant mapping db) domain of
            Some refused \<Rightarrow> (Inl (Refused_to_begin refused), db)
          | None \<Rightarrow>
              let status = initial_status now tenant mapping domain targetMailServer startedBy;
                  event = \<lparr>ce_tenantId = tenant, ce_mappingId = mapping, ce_domain = domain,
                    ce_timestamp = now, ce_fromState = None, ce_toState = PREPARING,
                    ce_triggeredBy = (if truthy startedBy then the startedBy else ''system''),
                    ce_reason = None, ce_metadata = None, ce_eventType = CUTOVER_INITIALIZED\<rparr>
              in (Inr status, logCutoverEvent event (saveCutoverState now status db))))"

datatype metadata_or_reason = No_reason | Reason string | Metadata transition_metadata

definition first_truthy :: "string option list \<Rightarrow> string option" where
  "first_truthy vs = (case List.find truthy vs of Some v \<Rightarrow> v | None \<Rightarrow> last (None # vs))"

fun reason_of :: "metadata_or_reason \<Rightarrow> string option" where
  "reason_of No_reason = None"
| "reason_of (Reason r) = Some r"
| "reason_of (Metadata m) = first_truthy [tm_reason m, tm_failureReason m, tm_rollbackReason m]"

fun metadata_of :: "metadata_or_reason \<Rightarrow> transition_metadata option" where
  "metadata_of (Metadata m) = Some m"
| "metadata_of _ = None"

definition or_else :: "'a option \<Rightarrow> 'a option \<Rightarrow> 'a option" where
  "or_else new old = (case new of Some _ \<Rightarrow> new | None \<Rightarrow> old)"

text \<open>\<open>Object.assign(updated, metadata)\<close>: what the metadata names replaces the status's own.\<close>

definition assign_metadata :: "transition_metadata \<Rightarrow> cutover_status \<Rightarrow> cutover_status" where
  "assign_metadata m st = st\<lparr>
     cs_failureReason := or_else (tm_failureReason m) (cs_failureReason st),
     cs_rollbackReason := or_else (tm_rollbackReason m) (cs_rollbackReason st),
     cs_gracePeriodStartedAt := or_else (tm_gracePeriodStartedAt m) (cs_gracePeriodStartedAt st),
     cs_copiesThroughGrace := (case tm_copiesThroughGrace m of Some b \<Rightarrow> b | None \<Rightarrow> cs_copiesThroughGrace st),
     cs_startedAt := (case tm_startedAt m of Some t \<Rightarrow> t | None \<Rightarrow> cs_startedAt st),
     cs_startedBy := or_else (tm_startedBy m) (cs_startedBy st),
     cs_completedAt := or_else (tm_completedAt m) (cs_completedAt st),
     cs_failedAt := or_else (tm_failedAt m) (cs_failedAt st),
     cs_rolledBackAt := or_else (tm_rolledBackAt m) (cs_rolledBackAt st)\<rparr>"

definition transition_refusal ::
    "string \<Rightarrow> string \<Rightarrow> cutover_status \<Rightarrow> cutover_state \<Rightarrow> discovery_domain option \<Rightarrow> cutover_db \<Rightarrow>
     store_error option" where
  "transition_refusal tenant mapping current toState domain db =
     (if domain \<noteq> None \<and> cs_domain current = None
      then map_option Refused_to_leave (leavingTheWholeLedgerRefusal (cs_state current) toState)
      else if domain = None \<and> toState = PREPARING
      then map_option Refused_to_begin (cutoverBeginRefusal (loadLedgers tenant mapping db) None)
      else None)"

definition transitionState ::
    "timestamp \<Rightarrow> string \<Rightarrow> string \<Rightarrow> cutover_state \<Rightarrow> metadata_or_reason \<Rightarrow> discovery_domain option \<Rightarrow>
     (cutover_db, store_error, cutover_status) prog" where
  "transitionState now tenant mapping toState info domain = (\<lambda>db.
     case loadCutoverState tenant mapping domain db of
       None \<Rightarrow> (Inl No_cutover_state, db)
     | Some current \<Rightarrow>
         (case transition_refusal tenant mapping current toState domain db of
            Some refused \<Rightarrow> (Inl refused, db)
          | None \<Rightarrow>
              if \<not> isValidTransition (cs_state current) toState
              then (Inl (Invalid_transition (cs_state current) toState), db)
              else
                let event = \<lparr>ce_tenantId = tenant, ce_mappingId = mapping, ce_domain = domain,
                      ce_timestamp = now, ce_fromState = Some (cs_state current), ce_toState = toState,
                      ce_triggeredBy = (case info of Reason _ \<Rightarrow> ''system'' | _ \<Rightarrow> ''cli''),
                      ce_reason = reason_of info, ce_metadata = metadata_of info,
                      ce_eventType = STATE_TRANSITION\<rparr>;
                    logged = logCutoverEvent event db
                in case updateCutoverStatus now current toState (reason_of info) of
                     Inl _ \<Rightarrow> (Inl (Invalid_transition (cs_state current) toState), logged)
                   | Inr moved \<Rightarrow>
                       let assigned = (case metadata_of info of Some m \<Rightarrow> assign_metadata m moved | None \<Rightarrow> moved);
                           updated = assigned\<lparr>cs_domain := domain\<rparr>
                       in (Inr updated, saveCutoverState now updated logged)))"

subsection \<open>The bound store and its transaction\<close>

definition in_tenant :: "('db, 'e, 'a) prog \<Rightarrow> ('db, 'e, 'a) prog" where
  "in_tenant m = (\<lambda>db. case m db of (Inl e, _) \<Rightarrow> (Inl e, db) | (Inr a, db') \<Rightarrow> (Inr a, db'))"

definition tenant_transitionState ::
    "string \<Rightarrow> timestamp \<Rightarrow> string \<Rightarrow> string \<Rightarrow> cutover_state \<Rightarrow> metadata_or_reason \<Rightarrow> discovery_domain option \<Rightarrow>
     (cutover_db, store_error, cutover_status) prog" where
  "tenant_transitionState bound now tenant mapping toState info domain =
     (if tenant \<noteq> bound then throw Other_tenant
      else in_tenant (transitionState now tenant mapping toState info domain))"

definition tenant_loadCutoverState ::
    "string \<Rightarrow> string \<Rightarrow> string \<Rightarrow> discovery_domain option \<Rightarrow>
     (cutover_db, store_error, cutover_status option) prog" where
  "tenant_loadCutoverState bound tenant mapping domain =
     (if tenant \<noteq> bound then throw Other_tenant
      else in_tenant (readP (loadCutoverState tenant mapping domain)))"

subsection \<open>One row and one trail per ledger\<close>

type_synonym ledger_key = "string \<times> string \<times> discovery_domain option"

definition row_key :: "cutover_row \<Rightarrow> ledger_key" where
  "row_key r = (cr_tenant_id r, cr_mapping_id r, cr_domain r)"

definition event_key :: "cutover_event \<Rightarrow> ledger_key" where
  "event_key e = (ce_tenantId e, ce_mappingId e, ce_domain e)"

definition status_key :: "cutover_status \<Rightarrow> ledger_key" where
  "status_key st = (cs_tenantId st, cs_mappingId st, cs_domain st)"

definition row_at :: "ledger_key \<Rightarrow> cutover_db \<Rightarrow> cutover_row option" where
  "row_at k db = List.find (\<lambda>r. row_key r = k) (cd_states db)"

definition trail :: "ledger_key \<Rightarrow> cutover_db \<Rightarrow> cutover_state list" where
  "trail k db = map ce_toState (filter (\<lambda>e. event_key e = k) (cd_events db))"

lemma same_ledger_key: "same_ledger st r \<longleftrightarrow> row_key r = status_key st"
  by (auto simp: same_ledger_def row_key_def status_key_def)

lemma row_keys_of_status [simp]:
  "row_key (inserted_row now st) = status_key st" "row_key (updated_row now st r) = status_key st"
  "cr_state (inserted_row now st) = cs_state st" "cr_state (updated_row now st r) = cs_state st"
  by (simp_all add: row_key_def inserted_row_def updated_row_def status_key_def)

lemma row_at_key: "row_at k db = Some r \<Longrightarrow> row_key r = k"
  by (auto simp: row_at_def dest: find_SomeD)

lemma row_at_save:
  "row_at k (saveCutoverState now st db) =
     (if k = status_key st
      then Some (case row_at k db of None \<Rightarrow> inserted_row now st | Some r \<Rightarrow> updated_row now st r)
      else row_at k db)"
proof (cases "\<exists>row \<in> set (cd_states db). same_ledger st row")
  case True
  have same: "(row_key (updated_row now st r) = k) = (row_key r = k)" if "same_ledger st r" for r
    using that by (simp add: same_ledger_key)
  have "row_at k (saveCutoverState now st db) =
      map_option (\<lambda>r. if same_ledger st r then updated_row now st r else r) (row_at k db)"
    using True find_update_where [where q = "\<lambda>r. row_key r = k", OF same]
    by (simp add: saveCutoverState_def row_at_def)
  moreover have "k = status_key st \<Longrightarrow> \<exists>r. row_at k db = Some r"
    using True find_NoneD by (fastforce simp: row_at_def same_ledger_key)
  ultimately show ?thesis
    by (cases "row_at k db") (auto simp: same_ledger_key dest: row_at_key)
next
  case False
  then have "row_at (status_key st) db = None"
    by (auto simp: row_at_def same_ledger_key intro: find_NoneI)
  with False show ?thesis
    by (auto simp: saveCutoverState_def row_at_def find_append split: option.splits)
qed

lemma row_at_log [simp]: "row_at k (logCutoverEvent e db) = row_at k db"
  by (simp add: row_at_def logCutoverEvent_def)

lemma trail_save [simp]: "trail k (saveCutoverState now st db) = trail k db"
  by (simp add: trail_def saveCutoverState_def)

lemma trail_log: "trail k (logCutoverEvent e db) =
    trail k db @ (if event_key e = k then [ce_toState e] else [])"
  by (simp add: trail_def logCutoverEvent_def)

lemma load_by_row:
  "loadCutoverState tenant mapping None db = map_option mapRowToStatus (row_at (tenant, mapping, None) db)"
  "loadCutoverState tenant mapping (Some d) db =
     map_option mapRowToStatus (case row_at (tenant, mapping, Some d) db of Some r \<Rightarrow> Some r
       | None \<Rightarrow> row_at (tenant, mapping, None) db)"
  by (simp_all add: loadCutoverState_def row_at_def of_migration_def row_key_def conj_assoc
      find_NoneI [of _ "\<lambda>_. False"] split: option.split)

lemma mapRowToStatus_fields [simp]:
  "cs_state (mapRowToStatus r) = cr_state r" "cs_domain (mapRowToStatus r) = cr_domain r"
  "cs_tenantId (mapRowToStatus r) = cr_tenant_id r" "cs_mappingId (mapRowToStatus r) = cr_mapping_id r"
  "cs_copiesThroughGrace (mapRowToStatus r) = cr_copies_through_grace r"
  "cs_gracePeriodStartedAt (mapRowToStatus r) = cr_grace_period_started_at r"
  by (simp_all add: mapRowToStatus_def)

lemma assign_metadata_fields [simp]:
  "cs_state (assign_metadata m st) = cs_state st" "cs_domain (assign_metadata m st) = cs_domain st"
  "cs_tenantId (assign_metadata m st) = cs_tenantId st"
  "cs_mappingId (assign_metadata m st) = cs_mappingId st"
  by (simp_all add: assign_metadata_def)

lemma updateCutoverStatus_fields:
  "updateCutoverStatus now st new reason = Inr st' \<Longrightarrow>
     cs_state st' = new \<and> cs_tenantId st' = cs_tenantId st \<and> cs_mappingId st' = cs_mappingId st"
  by (auto simp: updateCutoverStatus_def Let_def split: if_splits)

subsection \<open>The invariant of the cutover ledger\<close>

definition on_record :: "cutover_row option \<Rightarrow> cutover_state list \<Rightarrow> bool" where
  "on_record row states \<longleftrightarrow> (case row of None \<Rightarrow> states = []
     | Some r \<Rightarrow> \<exists>path. states = PREPARING # path \<and> valid_path PREPARING path \<and>
                  cr_state r = last states)"

definition ledger_inv :: "cutover_db \<Rightarrow> bool" where
  "ledger_inv db \<longleftrightarrow> (\<forall>k. on_record (row_at k db) (trail k db))"

lemma on_record_simps [simp]:
  "on_record None states \<longleftrightarrow> states = []"
  "on_record (Some r) states \<longleftrightarrow>
     (\<exists>path. states = PREPARING # path \<and> valid_path PREPARING path \<and> cr_state r = last states)"
  by (simp_all add: on_record_def)

lemma ledger_invD: "ledger_inv db \<Longrightarrow> on_record (row_at k db) (trail k db)"
  unfolding ledger_inv_def by blast

lemma ledger_invI: "(\<And>k. on_record (row_at k db) (trail k db)) \<Longrightarrow> ledger_inv db"
  unfolding ledger_inv_def by blast

lemma ledger_inv_begin:
  assumes "ledger_inv db" and "row_at (status_key st) db = None" and "cs_state st = PREPARING"
    and "event_key e = status_key st" and "ce_toState e = PREPARING"
  shows "ledger_inv (logCutoverEvent e (saveCutoverState now st db))" (is "ledger_inv ?db")
proof -
  have "trail (status_key st) db = []"
    using ledger_invD [OF assms(1), of "status_key st"] assms(2) by simp
  with assms(2-5) have "on_record (row_at (status_key st) ?db) (trail (status_key st) ?db)"
    by (simp add: row_at_save trail_log)
  moreover have "on_record (row_at k ?db) (trail k ?db)" if "k \<noteq> status_key st" for k
    using ledger_invD [OF assms(1), of k] assms(4) that by (simp add: row_at_save trail_log)
  ultimately show ?thesis by (intro ledger_invI) metis
qed

lemma ledger_inv_move:
  assumes "ledger_inv db" and "row_at (status_key st) db = Some r"
    and "isValidTransition (cr_state r) (cs_state st)"
    and "event_key e = status_key st" and "ce_toState e = cs_state st"
  shows "ledger_inv (saveCutoverState now st (logCutoverEvent e db))" (is "ledger_inv ?db")
proof -
  from assms(1,2) obtain path where path: "trail (status_key st) db = PREPARING # path"
    "valid_path PREPARING path" "cr_state r = last (PREPARING # path)"
    using ledger_invD [OF assms(1), of "status_key st"] by auto
  with assms(3) have "valid_path PREPARING (path @ [cs_state st])"
    by (simp add: valid_path_snoc)
  with assms(2,4,5) path(1) have "on_record (row_at (status_key st) ?db) (trail (status_key st) ?db)"
    by (simp add: row_at_save trail_log)
  moreover have "on_record (row_at k ?db) (trail k ?db)" if "k \<noteq> status_key st" for k
    using ledger_invD [OF assms(1), of k] assms(4) that by (simp add: row_at_save trail_log)
  ultimately show ?thesis by (intro ledger_invI) metis
qed

lemma ledger_inv_initialize:
  assumes "ledger_inv db"
  shows "ledger_inv (snd (initializeCutover now tenant mapping domain server by db))"
proof (cases "loadCutoverState tenant mapping domain db")
  case None
  then have none: "row_at (tenant, mapping, domain) db = None"
    by (cases domain) (auto simp: load_by_row split: option.splits)
  let ?st = "initial_status now tenant mapping domain server by"
  have key: "status_key ?st = (tenant, mapping, domain)" and prep: "cs_state ?st = PREPARING"
    by (simp_all add: status_key_def initial_status_def)
  show ?thesis
  proof (cases "cutoverBeginRefusal (loadLedgers tenant mapping db) domain")
    case None
    have "ledger_inv (logCutoverEvent e (saveCutoverState now ?st db))"
      if "event_key e = (tenant, mapping, domain)" "ce_toState e = PREPARING" for e
      by (rule ledger_inv_begin [OF assms]) (simp_all add: key prep none that)
    with None \<open>loadCutoverState tenant mapping domain db = None\<close> show ?thesis
      by (simp add: initializeCutover_def Let_def event_key_def)
  next
    case Some
    with assms \<open>loadCutoverState tenant mapping domain db = None\<close> show ?thesis
      by (simp add: initializeCutover_def)
  qed
next
  case Some
  with assms show ?thesis by (simp add: initializeCutover_def)
qed

lemma log_save_commute:
  "saveCutoverState now st (logCutoverEvent e db) = logCutoverEvent e (saveCutoverState now st db)"
  by (simp add: saveCutoverState_def logCutoverEvent_def)

lemma loaded_row:
  assumes "loadCutoverState tenant mapping domain db = Some current"
  obtains (row) r where "row_at (tenant, mapping, cs_domain current) db = Some r"
    "current = mapRowToStatus r" "cs_tenantId current = tenant" "cs_mappingId current = mapping"
    "cs_domain current \<noteq> domain \<longrightarrow>
       cs_domain current = None \<and> row_at (tenant, mapping, domain) db = None"
proof -
  have found: thesis if at: "row_at (tenant, mapping, d) db = Some r" "current = mapRowToStatus r"
    and other: "d \<noteq> domain \<Longrightarrow> d = None \<and> row_at (tenant, mapping, domain) db = None" for d r
  proof (rule row)
    from row_at_key [OF at(1)] have "cr_tenant_id r = tenant" "cr_mapping_id r = mapping" "cr_domain r = d"
      by (simp_all add: row_key_def)
    with at other show "row_at (tenant, mapping, cs_domain current) db = Some r"
      "current = mapRowToStatus r" "cs_tenantId current = tenant" "cs_mappingId current = mapping"
      "cs_domain current \<noteq> domain \<longrightarrow>
         cs_domain current = None \<and> row_at (tenant, mapping, domain) db = None"
      by simp_all
  qed
  show thesis
  proof (cases domain)
    case None
    with assms found [of None] show thesis by (auto simp: load_by_row)
  next
    case (Some d)
    show thesis
    proof (cases "row_at (tenant, mapping, Some d) db")
      case None
      with assms Some found [of None] show thesis by (auto simp: load_by_row)
    next
      case own: (Some r)
      with assms Some found [of "Some d"] show thesis by (auto simp: load_by_row)
    qed
  qed
qed

text \<open>What a transition does, in its two cases: refused with nothing written, or one event and one row.\<close>

lemma transition_cases:
  obtains (refused) err where
    "transitionState now tenant mapping toState info domain db = (Inl err, db)"
  | (moved) current st e where
    "loadCutoverState tenant mapping domain db = Some current"
    "transition_refusal tenant mapping current toState domain db = None"
    "isValidTransition (cs_state current) toState"
    "cs_state st = toState" "status_key st = (tenant, mapping, domain)"
    "event_key e = (tenant, mapping, domain)" "ce_toState e = toState"
    "ce_fromState e = Some (cs_state current)"
    "transitionState now tenant mapping toState info domain db =
      (Inr st, saveCutoverState now st (logCutoverEvent e db))"
proof (cases "loadCutoverState tenant mapping domain db")
  case None
  then show thesis by (intro refused) (simp add: transitionState_def)
next
  case (Some current)
  note load = this
  show thesis
  proof (cases "transition_refusal tenant mapping current toState domain db")
    case (Some err)
    with load show thesis by (intro refused) (simp add: transitionState_def)
  next
    case None
    note unrefused = this
    show thesis
    proof (cases "isValidTransition (cs_state current) toState")
      case False
      with load unrefused show thesis by (intro refused) (simp add: transitionState_def)
    next
      case True
      then obtain st1 where up: "updateCutoverStatus now current toState (reason_of info) = Inr st1"
        by (auto simp: updateCutoverStatus_def Let_def)
      define st where "st = (case metadata_of info of Some m \<Rightarrow> assign_metadata m st1 | None \<Rightarrow> st1)\<lparr>cs_domain := domain\<rparr>"
      obtain r where "cs_tenantId current = tenant" "cs_mappingId current = mapping"
        by (rule loaded_row [OF load]) blast
      with updateCutoverStatus_fields [OF up]
      have "cs_state st = toState" "status_key st = (tenant, mapping, domain)"
        by (simp_all add: st_def status_key_def split: option.split)
      with load unrefused True up show thesis
        by (intro moved) (simp_all add: transitionState_def Let_def event_key_def st_def)
    qed
  qed
qed

lemma ledger_inv_transition:
  assumes "ledger_inv db"
  shows "ledger_inv (snd (transitionState now tenant mapping toState info domain db))"
proof (cases rule: transition_cases [of now tenant mapping toState info domain db])
  case (refused err)
  with assms show ?thesis by simp
next
  case (moved current st e)
  obtain r where r: "row_at (tenant, mapping, cs_domain current) db = Some r"
    "current = mapRowToStatus r" "cs_domain current \<noteq> domain \<longrightarrow>
       cs_domain current = None \<and> row_at (tenant, mapping, domain) db = None"
    by (rule loaded_row [OF moved(1)]) blast
  show ?thesis
  proof (cases "cs_domain current = domain")
    case True
    with r(1,2) have "row_at (status_key st) db = Some r" "cr_state r = cs_state current"
      by (simp_all add: moved(5))
    with moved assms show ?thesis
      by (auto intro!: ledger_inv_move)
  next
    case False
    with r(3) have none: "row_at (status_key st) db = None" "cs_domain current = None" "domain \<noteq> None"
      by (auto simp: moved(5))
    with moved(2) have "toState = PREPARING"
      by (auto simp: transition_refusal_def leavingTheWholeLedgerRefusal_def split: if_splits)
    with none moved assms show ?thesis
      by (simp add: log_save_commute ledger_inv_begin)
  qed
qed

subsection \<open>Histories of a ledger\<close>

text \<open>A history is the calls made on the store, each at its instant; a refused call leaves no trace.\<close>

datatype ledger_call =
  Initialize_call timestamp string string "discovery_domain option"
| Transition_call timestamp string string cutover_state metadata_or_reason "discovery_domain option"

fun ledger_do :: "cutover_db \<Rightarrow> ledger_call \<Rightarrow> cutover_db" where
  "ledger_do db (Initialize_call now t m d) = snd (in_tenant (initializeCutover now t m d None None) db)"
| "ledger_do db (Transition_call now t m to info d) = snd (in_tenant (transitionState now t m to info d) db)"

definition ledger_after :: "ledger_call list \<Rightarrow> cutover_db" where
  "ledger_after calls = foldl ledger_do \<lparr>cd_states = [], cd_events = []\<rparr> calls"

lemma in_tenant_snd: "P db \<Longrightarrow> P (snd (m db)) \<Longrightarrow> P (snd (in_tenant m db))"
  by (auto simp: in_tenant_def split: prod.splits sum.splits)

lemma ledger_inv_do: "ledger_inv db \<Longrightarrow> ledger_inv (ledger_do db call)"
  by (cases call) (auto intro!: in_tenant_snd [where P = ledger_inv] ledger_inv_initialize ledger_inv_transition)

lemma ledger_inv_after: "ledger_inv (ledger_after calls)"
proof -
  have "ledger_inv \<lparr>cd_states = [], cd_events = []\<rparr>"
    by (rule ledger_invI) (simp add: row_at_def trail_def)
  then have "ledger_inv (foldl ledger_do \<lparr>cd_states = [], cd_events = []\<rparr> calls)"
    by (induction calls rule: rev_induct) (simp_all add: ledger_inv_do)
  then show ?thesis by (simp add: ledger_after_def)
qed

subsection \<open>Properties\<close>

text \<open>
  C19: the database never holds a cutover row the state machine could not have reached.
  After any history of beginnings and transitions, of the whole migration and of its data
  types in any order, each ledger's row stands at the end of its own trail of events; the
  trail starts at PREPARING, each event on it is an edge of the table, and a row at
  COMPLETED has a verdict, an approval, the execution and the grace period on its trail.
  A ledger with no row has no events.
\<close>
theorem stored_ledger_follows_the_machine:
  "case row_at k (ledger_after calls) of
     None \<Rightarrow> trail k (ledger_after calls) = []
   | Some r \<Rightarrow> \<exists>path. trail k (ledger_after calls) = PREPARING # path \<and>
       cutover_run PREPARING path (cr_state r) \<and> set (must_have_passed (cr_state r)) \<subseteq> set path"
proof (cases "row_at k (ledger_after calls)")
  case None
  with ledger_invD [OF ledger_inv_after, of k calls] show ?thesis by simp
next
  case (Some r)
  with ledger_invD [OF ledger_inv_after, of k calls] obtain path where
    path: "trail k (ledger_after calls) = PREPARING # path" "valid_path PREPARING path"
      "cr_state r = last (PREPARING # path)" by auto
  then have run: "cutover_run PREPARING path (cr_state r)" by (simp only: valid_path_run)
  then have "trail_inv path (cr_state r)" by (rule trail_inv_run) simp
  with path run Some show ?thesis by (auto simp: trail_inv_def)
qed

text \<open>
  what the row keeps of the phase. A state read back from the row is always the state
  that was saved, and its rollback flag is the machine's; but the phase read back is not the
  phase of that state for READY_FOR_CUTOVER, APPROVED and FAILED, and for no other state.
\<close>
theorem phase_is_lost_between_save_and_load:
  assumes "cs_domain st = None" and "cs_phase st = getStatePhase (cs_state st)"
  shows "case loadCutoverState (cs_tenantId st) (cs_mappingId st) None (saveCutoverState now st db) of
     None \<Rightarrow> False
   | Some back \<Rightarrow> cs_state back = cs_state st \<and>
       cs_rollbackAvailable back = canRollback (cs_state st) \<and>
       (cs_phase back \<noteq> getStatePhase (cs_state back) \<longleftrightarrow>
          cs_state st \<in> {READY_FOR_CUTOVER, APPROVED, FAILED})"
proof -
  have key: "status_key st = (cs_tenantId st, cs_mappingId st, None)"
    by (simp add: status_key_def assms(1))
  have "dbPhaseToPhase (mapPhaseToDb (getStatePhase (cs_state st))) \<noteq> getStatePhase (cs_state st) \<longleftrightarrow>
      cs_state st \<in> {READY_FOR_CUTOVER, APPROVED, FAILED}"
    by (cases "cs_state st") simp_all
  then show ?thesis
    using assms(2)
    by (auto simp: load_by_row row_at_save key mapRowToStatus_def inserted_row_def updated_row_def
        split: option.split)
qed

theorem phase_is_lost_between_save_and_load_witness:
  "let st = initial_status 7 ''t'' ''m'' None None None;
       db = saveCutoverState 7 st \<lparr>cd_states = [], cd_events = []\<rparr>
   in map_option cs_phase (loadCutoverState ''t'' ''m'' None db) = Some PREPARATION"
  using phase_is_lost_between_save_and_load
    [of "initial_status 7 ''t'' ''m'' None None None" 7 "\<lparr>cd_states = [], cd_events = []\<rparr>"]
  by (auto simp: initial_status_def Let_def split: option.splits)

end
