(* ===== verification/Mapping_Paths.thy ===== *)
theory Mapping_Paths
  imports Cutover_Store
begin

text \<open>
  A migration's status and its data types' path rows in the database, and every statement
  that moves them: \<open>packages/ledger/src/path-lifecycle-store.ts\<close> (the rows),
  \<open>paths-follow-the-mapping.ts\<close> (the rows follow a move of the whole migration),
  \<open>mapping-status-audit.ts\<close> (that move and its record in one transaction),
  \<open>a-cutover-of-one-data-type.ts\<close> (one data type moves alone and the migration takes the
  roll-up), \<open>path-phases.ts\<close> and \<open>cutover-grace.ts\<close> (what a pass reads of it all).

  \<open>tenant_db\<close> is one tenant's tables. \<open>path_lifecycle\<close> and \<open>scope_selection\<close> are unique on
  (mapping, domain), so a \<open>Map\<close> built from their rows is \<open>map_of\<close> on the rows in order.
\<close>

subsection \<open>The rows\<close>

record mapping_row =
  mm_id :: string
  mm_tenant :: string
  mm_status :: string
  mm_grantWithdrawnAt :: "timestamp option"

record scope_row =
  sc_tenant :: string
  sc_mapping :: string
  sc_domain :: discovery_domain
  sc_included :: bool

record lifecycle_row =
  pl_tenant :: string
  pl_mapping :: string
  pl_domain :: discovery_domain
  pl_state :: string
  pl_firstActivatedAt :: "timestamp option"
  pl_endedAt :: "timestamp option"
  pl_stoppedAt :: "timestamp option"

record status_audit =
  sa_actor :: string
  sa_action :: string
  sa_mapping :: string
  sa_domain :: "discovery_domain option"
  sa_from :: string
  sa_to :: string
  sa_via :: string
  sa_forced :: bool

record tenant_db =
  td_mappings :: "mapping_row list"
  td_scopes :: "scope_row list"
  td_paths :: "lifecycle_row list"
  td_audit :: "status_audit list"
  td_cutover :: cutover_db

datatype lifecycle_error = Mapping_not_found | Slots_hook_failed

text \<open>What a caller may run in the same transaction once slots were taken (\<open>onSlotsTaken\<close>).\<close>

type_synonym slots_hook = "(tenant_db, lifecycle_error, unit) prog option"

subsection \<open>One path's row\<close>

definition PATH_STATES :: "string list" where
  "PATH_STATES = [''ready'', ''active'', ''paused'', ''cutover'', ''done'', ''continuous'']"

definition holdsASlot :: "string \<Rightarrow> bool \<Rightarrow> bool" where
  "holdsASlot st stopped \<longleftrightarrow>
     (if st = ''continuous'' then \<not> stopped else st = ''active'' \<or> st = ''paused'')"

definition SLOTLESS_STATES :: "string list" where
  "SLOTLESS_STATES = filter (\<lambda>s. \<not> holdsASlot s False) PATH_STATES"

definition SLOT_HOLDING_STATES :: "string list" where
  "SLOT_HOLDING_STATES = filter (\<lambda>s. holdsASlot s False) PATH_STATES"

definition STATES_A_STOP_RELEASES :: "string list" where
  "STATES_A_STOP_RELEASES = filter (\<lambda>s. \<not> holdsASlot s True) SLOT_HOLDING_STATES"

definition is_path :: "string \<Rightarrow> discovery_domain \<Rightarrow> lifecycle_row \<Rightarrow> bool" where
  "is_path mapping domain r \<longleftrightarrow> pl_mapping r = mapping \<and> pl_domain r = domain"

definition included_path :: "tenant_db \<Rightarrow> lifecycle_row \<Rightarrow> bool" where
  "included_path db r \<longleftrightarrow>
     (\<exists>s \<in> set (td_scopes db). sc_mapping s = pl_mapping r \<and> sc_domain s = pl_domain r \<and> sc_included s)"

text \<open>\<open>INSERT .. ON CONFLICT (mapping_id, domain) DO UPDATE\<close>.\<close>

definition upsert_path ::
    "string \<Rightarrow> discovery_domain \<Rightarrow> lifecycle_row \<Rightarrow> (lifecycle_row \<Rightarrow> lifecycle_row) \<Rightarrow>
     lifecycle_row list \<Rightarrow> lifecycle_row list" where
  "upsert_path mapping domain fresh change rows =
     (if \<exists>r \<in> set rows. is_path mapping domain r
      then update_where (is_path mapping domain) change rows
      else rows @ [fresh])"

definition activate ::
    "timestamp \<Rightarrow> string \<Rightarrow> string \<Rightarrow> discovery_domain \<Rightarrow> tenant_db \<Rightarrow> tenant_db" where
  "activate now tenant mapping domain db = db\<lparr>td_paths := upsert_path mapping domain
     \<lparr>pl_tenant = tenant, pl_mapping = mapping, pl_domain = domain, pl_state = ''active'',
      pl_firstActivatedAt = Some now, pl_endedAt = None, pl_stoppedAt = None\<rparr>
     (\<lambda>r. r\<lparr>pl_state := ''active'',
        pl_firstActivatedAt := (case pl_firstActivatedAt r of Some t \<Rightarrow> Some t | None \<Rightarrow> Some now),
        pl_endedAt := None\<rparr>) (td_paths db)\<rparr>"

definition moveTo ::
    "timestamp \<Rightarrow> string \<Rightarrow> string \<Rightarrow> discovery_domain \<Rightarrow> string \<Rightarrow> tenant_db \<Rightarrow> tenant_db" where
  "moveTo now tenant mapping domain st db =
     (let releases = \<not> holdsASlot st False;
          releasesStopped = \<not> holdsASlot st True
      in db\<lparr>td_paths := upsert_path mapping domain
        \<lparr>pl_tenant = tenant, pl_mapping = mapping, pl_domain = domain, pl_state = st,
         pl_firstActivatedAt = None, pl_endedAt = (if releases then Some now else None),
         pl_stoppedAt = None\<rparr>
        (\<lambda>r. r\<lparr>pl_state := st,
           pl_endedAt := (if pl_stoppedAt r = None then (if releases then Some now else None)
                          else (if releasesStopped then Some now else None))\<rparr>) (td_paths db)\<rparr>)"

record path_lifecycle =
  pf_domain :: discovery_domain
  pf_state :: string
  pf_firstActivatedAt :: "timestamp option"
  pf_endedAt :: "timestamp option"

definition included_domains :: "string \<Rightarrow> string \<Rightarrow> tenant_db \<Rightarrow> discovery_domain list" where
  "included_domains tenant mapping db = map sc_domain
     (filter (\<lambda>s. sc_tenant s = tenant \<and> sc_mapping s = mapping \<and> sc_included s) (td_scopes db))"

definition paths_of :: "string \<Rightarrow> string \<Rightarrow> tenant_db \<Rightarrow> lifecycle_row list" where
  "paths_of tenant mapping db =
     filter (\<lambda>r. pl_tenant r = tenant \<and> pl_mapping r = mapping) (td_paths db)"

definition forMapping :: "string \<Rightarrow> string \<Rightarrow> tenant_db \<Rightarrow> path_lifecycle list" where
  "forMapping tenant mapping db =
     (let moved = map_of (map (\<lambda>r. (pl_domain r, r)) (paths_of tenant mapping db))
      in map (\<lambda>domain. case moved domain of
            None \<Rightarrow> \<lparr>pf_domain = domain, pf_state = ''ready'', pf_firstActivatedAt = None, pf_endedAt = None\<rparr>
          | Some r \<Rightarrow> \<lparr>pf_domain = domain, pf_state = pl_state r,
              pf_firstActivatedAt = pl_firstActivatedAt r, pf_endedAt = pl_endedAt r\<rparr>)
          (included_domains tenant mapping db))"

definition slotsHeld :: "string \<Rightarrow> tenant_db \<Rightarrow> nat" where
  "slotsHeld tenant db = length (filter (\<lambda>r. included_path db r \<and> pl_tenant r = tenant \<and>
     pl_state r \<in> set SLOT_HOLDING_STATES \<and>
     (pl_stoppedAt r = None \<or> pl_state r \<notin> set STATES_A_STOP_RELEASES)) (td_paths db))"

subsection \<open>The paths follow the migration\<close>

definition pathFollows :: "string option \<Rightarrow> string \<Rightarrow> string option \<Rightarrow> bool \<Rightarrow> bool" where
  "pathFollows from to phase believed =
     (if to = ''active'' then phase = None \<or> phase = Some ''ready'' \<or> \<not> believed \<or> phase = from
      else if phase = None then False
      else if \<not> believed then True
      else if to = ''done'' then phase \<noteq> Some ''done'' else phase = from)"

definition move_path ::
    "timestamp \<Rightarrow> string \<Rightarrow> string \<Rightarrow> string \<Rightarrow> discovery_domain \<Rightarrow> tenant_db \<Rightarrow> tenant_db" where
  "move_path now tenant mapping to domain db =
     (if to = ''active'' then activate now tenant mapping domain db
      else moveTo now tenant mapping domain to db)"

definition movePathsWithMapping ::
    "timestamp \<Rightarrow> string \<Rightarrow> string \<Rightarrow> string option \<Rightarrow> string \<Rightarrow> tenant_db \<Rightarrow> (nat \<times> bool) \<times> tenant_db" where
  "movePathsWithMapping now tenant mapping from to db =
     (let included = included_domains tenant mapping db in
      if included = [] then ((0, False), db)
      else
        let phaseOf = map_of (map (\<lambda>r. (pl_domain r, pl_state r)) (paths_of tenant mapping db));
            phases = List.map_filter phaseOf included;
            believed = (rollUpPhases phases = from);
            following = filter (\<lambda>d. pathFollows from to (phaseOf d) believed) included;
            moved = length following
        in ((moved, 0 < moved \<and> (to = ''active'' \<or> to = ''continuous'')),
            fold (move_path now tenant mapping to) following db))"

subsection \<open>The migration's status, its record and its paths in one transaction\<close>

definition is_mapping :: "string \<Rightarrow> string \<Rightarrow> mapping_row \<Rightarrow> bool" where
  "is_mapping tenant mapping m \<longleftrightarrow> mm_id m = mapping \<and> mm_tenant m = tenant"

definition set_status :: "string \<Rightarrow> string \<Rightarrow> string \<Rightarrow> tenant_db \<Rightarrow> tenant_db" where
  "set_status tenant mapping st db =
     db\<lparr>td_mappings := update_where (is_mapping tenant mapping) (\<lambda>m. m\<lparr>mm_status := st\<rparr>) (td_mappings db)\<rparr>"

definition recordMappingStatusChange ::
    "string \<Rightarrow> string \<Rightarrow> string \<Rightarrow> string \<Rightarrow> string \<Rightarrow> bool \<Rightarrow> tenant_db \<Rightarrow> tenant_db" where
  "recordMappingStatusChange mapping from to actor via forced db =
     (if from = to then db
      else db\<lparr>td_audit := td_audit db @
        [\<lparr>sa_actor = actor, sa_action = ''mapping.status'', sa_mapping = mapping, sa_domain = None,
          sa_from = from, sa_to = to, sa_via = via, sa_forced = forced\<rparr>]\<rparr>)"

definition run_hook :: "bool \<Rightarrow> slots_hook \<Rightarrow> (tenant_db, lifecycle_error, unit) prog" where
  "run_hook taken hook = (case hook of Some h \<Rightarrow> whenP taken h | None \<Rightarrow> ret ())"

definition applyMappingStatusChange ::
    "timestamp \<Rightarrow> string \<Rightarrow> string \<Rightarrow> string \<Rightarrow> string \<Rightarrow> string \<Rightarrow> string \<Rightarrow> bool \<Rightarrow> slots_hook \<Rightarrow>
     (tenant_db, lifecycle_error, unit) prog" where
  "applyMappingStatusChange now tenant mapping from to actor via forced hook =
     in_tenant
       (thenP (modifyP (set_status tenant mapping to))
       (thenP (if from = to then ret ()
               else bindP (\<lambda>db. case movePathsWithMapping now tenant mapping (Some from) to db of
                             (out, db') \<Rightarrow> (Inr out, db'))
                      (\<lambda>(moved, slotsTaken). run_hook slotsTaken hook))
       (modifyP (recordMappingStatusChange mapping from to actor via forced))))"

definition mappingPort_readStatus :: "string \<Rightarrow> string \<Rightarrow> (tenant_db, lifecycle_error, string) prog" where
  "mappingPort_readStatus tenant mapping =
     (\<lambda>db. case List.find (is_mapping tenant mapping) (td_mappings db) of
             None \<Rightarrow> (Inl Mapping_not_found, db) | Some m \<Rightarrow> (Inr (mm_status m), db))"

subsection \<open>One data type moves alone\<close>

definition readTheMigration ::
    "string \<Rightarrow> string \<Rightarrow> tenant_db \<Rightarrow> (string \<times> (discovery_domain \<times> string) list) option" where
  "readTheMigration tenant mapping db =
     (case List.find (is_mapping tenant mapping) (td_mappings db) of
        None \<Rightarrow> None
      | Some m \<Rightarrow> Some (mm_status m, map (\<lambda>r. (pl_domain r, pl_state r))
          (filter (\<lambda>r. included_path db r \<and> pl_mapping r = mapping) (td_paths db))))"

definition writeTheRollUp ::
    "string \<Rightarrow> string \<Rightarrow> string \<Rightarrow> string \<Rightarrow> bool \<Rightarrow>
     (tenant_db, lifecycle_error, (string \<times> string) option) prog" where
  "writeTheRollUp tenant mapping actor via forced = (\<lambda>db.
     case readTheMigration tenant mapping db of
       None \<Rightarrow> (Inl Mapping_not_found, db)
     | Some (status, phases) \<Rightarrow>
         (case rollUpPhases (map snd phases) of
            None \<Rightarrow> (Inr None, db)
          | Some rolled \<Rightarrow>
              if rolled = status then (Inr None, db)
              else (Inr (Some (status, rolled)),
                    recordMappingStatusChange mapping status rolled actor via forced
                      (set_status tenant mapping rolled db))))"

definition record_path_phase ::
    "string \<Rightarrow> discovery_domain \<Rightarrow> string \<Rightarrow> string \<Rightarrow> string \<Rightarrow> string \<Rightarrow> tenant_db \<Rightarrow> tenant_db" where
  "record_path_phase mapping domain from to actor via db = db\<lparr>td_audit := td_audit db @
     [\<lparr>sa_actor = actor, sa_action = ''path.phase'', sa_mapping = mapping, sa_domain = Some domain,
       sa_from = from, sa_to = to, sa_via = via, sa_forced = False\<rparr>]\<rparr>"

definition applyPathStatusChange ::
    "timestamp \<Rightarrow> string \<Rightarrow> string \<Rightarrow> discovery_domain \<Rightarrow> string \<Rightarrow> string \<Rightarrow> string \<Rightarrow> string \<Rightarrow> slots_hook \<Rightarrow>
     (tenant_db, lifecycle_error, unit) prog" where
  "applyPathStatusChange now tenant mapping domain from to actor via hook =
     in_tenant
       (thenP (modifyP (move_path now tenant mapping to domain))
       (thenP (writeTheRollUp tenant mapping actor via False)
       (thenP (modifyP (record_path_phase mapping domain from to actor via))
       (run_hook (to = ''active'' \<or> to = ''continuous'') hook))))"

definition pathPort_readStatus ::
    "string \<Rightarrow> string \<Rightarrow> discovery_domain \<Rightarrow> (tenant_db, lifecycle_error, string) prog" where
  "pathPort_readStatus tenant mapping domain =
     (\<lambda>db. case readTheMigration tenant mapping db of
        None \<Rightarrow> (Inl Mapping_not_found, db)
      | Some (status, phases) \<Rightarrow>
          let own = map_of phases domain;
              believed = (rollUpPhases (map snd phases) = Some status)
          in (Inr (case own of Some p \<Rightarrow> if believed then p else status | None \<Rightarrow> status), db))"

subsection \<open>What a pass reads of it\<close>

text \<open>\<open>CUTOVER_STILL_COPIES_WHERE\<close>: SQL's own copy of the rule, NULL read as false.\<close>

definition cutover_still_copies_where :: "timestamp \<Rightarrow> cutover_row \<Rightarrow> bool" where
  "cutover_still_copies_where now c \<longleftrightarrow> cr_copies_through_grace c \<and>
     (case (case cr_state c of
              GRACE_PERIOD \<Rightarrow> map_option (\<lambda>t. t + cr_grace_period_hours c * HOUR_MS) (cr_grace_period_started_at c)
            | CUTOVER_IN_PROGRESS \<Rightarrow> Some (cr_updated_at c + cr_grace_period_hours c * HOUR_MS)
            | _ \<Rightarrow> None)
      of None \<Rightarrow> False | Some until \<Rightarrow> now < until)"

record cutover_windows =
  wi_any :: bool
  wi_of :: "discovery_domain option \<Rightarrow> bool"

definition NO_CUTOVER_WINDOWS :: cutover_windows where
  "NO_CUTOVER_WINDOWS = \<lparr>wi_any = False, wi_of = (\<lambda>_. False)\<rparr>"

definition own_of :: "(discovery_domain option \<times> 'v) list \<Rightarrow> 'v \<Rightarrow> discovery_domain option \<Rightarrow> 'v" where
  "own_of rows whole domain =
     (if domain = None then whole else (case map_of rows domain of Some v \<Rightarrow> v | None \<Rightarrow> whole))"

definition readCutoverWindows :: "timestamp \<Rightarrow> string \<Rightarrow> string \<Rightarrow> cutover_db \<Rightarrow> cutover_windows" where
  "readCutoverWindows now tenant mapping db =
     (let rows = map (\<lambda>c. (cr_domain c, cutover_still_copies_where now c))
            (filter (of_migration tenant mapping) (cd_states db));
          whole = (map_of rows None = Some True)
      in \<lparr>wi_any = list_ex snd rows, wi_of = own_of rows whole\<rparr>)"

definition cutoverStillCopies ::
    "timestamp \<Rightarrow> string \<Rightarrow> string \<Rightarrow> discovery_domain option \<Rightarrow> cutover_db \<Rightarrow> bool" where
  "cutoverStillCopies now tenant mapping domain db = wi_of (readCutoverWindows now tenant mapping db) domain"

definition row_window :: "cutover_row \<Rightarrow> cutover_window" where
  "row_window c = \<lparr>cw_state = cutover_state_name (cr_state c), cw_copiesThroughGrace = cr_copies_through_grace c,
     cw_enteredAt = cr_updated_at c, cw_graceStartedAt = cr_grace_period_started_at c,
     cw_graceHours = cr_grace_period_hours c\<rparr>"

definition readGraceEnds ::
    "timestamp \<Rightarrow> string \<Rightarrow> string \<Rightarrow> cutover_db \<Rightarrow> discovery_domain option \<Rightarrow> timestamp option" where
  "readGraceEnds now tenant mapping db =
     (let rows = map (\<lambda>c. (cr_domain c, cutoverGraceEndedAt (row_window c) (cr_grace_period_completed_at c) now))
            (filter (of_migration tenant mapping) (cd_states db));
          whole = (case map_of rows None of Some e \<Rightarrow> e | None \<Rightarrow> None)
      in own_of rows whole)"

record migration_phases =
  mp_status :: string
  mp_stillCopies :: bool
  mp_phases :: "discovery_domain pass_phases"

definition path_rows :: "string \<Rightarrow> tenant_db \<Rightarrow> (discovery_domain \<times> path_row) list" where
  "path_rows mapping db =
     map (\<lambda>r. (pl_domain r, \<lparr>pr_state = pl_state r, pr_stopped = (pl_stoppedAt r \<noteq> None)\<rparr>))
       (filter (\<lambda>r. included_path db r \<and> pl_mapping r = mapping) (td_paths db))"

definition readPathPhases ::
    "timestamp \<Rightarrow> string \<Rightarrow> string \<Rightarrow> tenant_db \<Rightarrow> migration_phases option" where
  "readPathPhases now tenant mapping db =
     (case List.find (\<lambda>m. mm_id m = mapping) (td_mappings db) of
        None \<Rightarrow> None
      | Some row \<Rightarrow>
          let status = mm_status row;
              paths = path_rows mapping db;
              states = map (pr_state \<circ> snd) paths;
              inCutover = (status = ''cutover'' \<or> ''cutover'' \<in> set states);
              windows = (if inCutover then readCutoverWindows now tenant mapping (td_cutover db)
                         else NO_CUTOVER_WINDOWS);
              agreed = (rollUpPhases states = Some status);
              anyRuns = (status \<noteq> ''paused'' \<and>
                (runsPassesNow status (status = ''cutover'' \<and> wi_any windows) \<or>
                 (agreed \<and> list_ex (\<lambda>(domain, p). pathRunsNow
                    \<lparr>pp_phase = pr_state p,
                     pp_stillCopies = (pr_state p = ''cutover'' \<and> wi_of windows (Some domain)),
                     pp_stopped = pr_stopped p\<rparr>) paths)))
          in Some \<lparr>mp_status = status, mp_stillCopies = wi_any windows,
               mp_phases = \<lparr>ph_anyRuns = anyRuns, ph_grantWithdrawnAt = mm_grantWithdrawnAt row,
                 ph_phaseOf = phasesOfThePaths status (\<lambda>d. wi_of windows (Some d)) paths\<rparr>\<rparr>)"

fun dataTypeOfShare :: "string \<Rightarrow> discovery_domain option" where
  "dataTypeOfShare subject =
     (if subject = ''mailbox'' then Some Email
      else if subject = ''calendar'' then Some Calendar
      else if subject = ''drive_item'' then Some File
      else None)"

definition PHASES_PAST_A_CUTOVER :: "string list" where
  "PHASES_PAST_A_CUTOVER = [''cutover'', ''done'', ''continuous'']"

definition shareMayBeApplied :: "string \<Rightarrow> string \<Rightarrow> (discovery_domain \<Rightarrow> path_phase) \<Rightarrow> bool" where
  "shareMayBeApplied subject status phaseOf \<longleftrightarrow>
     (case dataTypeOfShare subject of None \<Rightarrow> status | Some d \<Rightarrow> pp_phase (phaseOf d)) \<in> set PHASES_PAST_A_CUTOVER"

definition readShareGate :: "timestamp \<Rightarrow> string \<Rightarrow> string \<Rightarrow> tenant_db \<Rightarrow> string \<Rightarrow> bool" where
  "readShareGate now tenant mapping db =
     (case readPathPhases now tenant mapping db of
        None \<Rightarrow> (\<lambda>_. False)
      | Some p \<Rightarrow> (\<lambda>subject. shareMayBeApplied subject (mp_status p) (ph_phaseOf (mp_phases p))))"

subsection \<open>Facts about the rows\<close>

lemmas slot_defs = holdsASlot_def PATH_STATES_def SLOTLESS_STATES_def SLOT_HOLDING_STATES_def
  STATES_A_STOP_RELEASES_def

definition path_at :: "string \<Rightarrow> discovery_domain \<Rightarrow> tenant_db \<Rightarrow> lifecycle_row option" where
  "path_at mapping domain db = List.find (is_path mapping domain) (td_paths db)"

lemma move_path_frame [simp]:
  "td_mappings (move_path now t m to d db) = td_mappings db"
  "td_scopes (move_path now t m to d db) = td_scopes db"
  "td_audit (move_path now t m to d db) = td_audit db"
  "td_cutover (move_path now t m to d db) = td_cutover db"
  by (simp_all add: move_path_def activate_def moveTo_def Let_def)

lemma fold_move_frame [simp]:
  "td_mappings (fold (move_path now t m to) ds db) = td_mappings db"
  "td_scopes (fold (move_path now t m to) ds db) = td_scopes db"
  "td_audit (fold (move_path now t m to) ds db) = td_audit db"
  "td_cutover (fold (move_path now t m to) ds db) = td_cutover db"
  by (induction ds arbitrary: db) simp_all

lemma find_upsert_path:
  assumes "is_path m d fresh" and "\<And>r. pl_mapping (f r) = pl_mapping r \<and> pl_domain (f r) = pl_domain r"
  shows "List.find (is_path m' d') (upsert_path m d fresh f rows) =
    (if m' = m \<and> d' = d
     then Some (case List.find (is_path m d) rows of None \<Rightarrow> fresh | Some r \<Rightarrow> f r)
     else List.find (is_path m' d') rows)"
proof (cases "\<exists>r \<in> set rows. is_path m d r")
  case True
  have same: "is_path m' d' (f r) = is_path m' d' r" for r
    by (simp add: is_path_def assms(2))
  have "List.find (is_path m' d') (upsert_path m d fresh f rows) =
      map_option (\<lambda>r. if is_path m d r then f r else r) (List.find (is_path m' d') rows)"
    using True same by (simp add: upsert_path_def find_update_where)
  moreover have "List.find (is_path m d) rows \<noteq> None"
    using True find_NoneD by fastforce
  ultimately show ?thesis
    by (cases "List.find (is_path m' d') rows") (auto simp: is_path_def dest: find_SomeD)
next
  case False
  then have "List.find (is_path m d) rows = None" by (blast intro: find_NoneI)
  with False assms(1) show ?thesis
    by (auto simp: upsert_path_def find_append is_path_def split: option.splits)
qed

lemma path_at_move_other:
  "(m', d') \<noteq> (m, d) \<Longrightarrow> path_at m' d' (move_path now t m to d db) = path_at m' d' db"
  by (auto simp: path_at_def move_path_def activate_def moveTo_def Let_def find_upsert_path is_path_def)

lemma path_at_move:
  "\<exists>r. path_at m d (move_path now t m to d db) = Some r \<and> pl_state r = to \<and>
     pl_mapping r = m \<and> pl_domain r = d \<and>
     (pl_endedAt r = None \<longleftrightarrow> holdsASlot to (pl_stoppedAt r \<noteq> None)) \<and>
     (case path_at m d db of
        None \<Rightarrow> pl_stoppedAt r = None \<and> (pl_firstActivatedAt r \<noteq> None \<longleftrightarrow> to = ''active'')
      | Some old \<Rightarrow> pl_stoppedAt r = pl_stoppedAt old \<and>
          (pl_firstActivatedAt old \<noteq> None \<longrightarrow> pl_firstActivatedAt r = pl_firstActivatedAt old))"
proof (cases "List.find (is_path m d) (td_paths db)")
  case None
  then show ?thesis
    by (simp add: path_at_def move_path_def activate_def moveTo_def Let_def find_upsert_path is_path_def
        holdsASlot_def)
next
  case (Some old)
  then have "pl_mapping old = m" "pl_domain old = d" by (auto dest!: find_SomeD simp: is_path_def)
  with Some show ?thesis
    by (simp add: path_at_def move_path_def activate_def moveTo_def Let_def find_upsert_path is_path_def
        holdsASlot_def split: option.split)
qed

lemma path_at_fold_move:
  "path_at m' d' (fold (move_path now t m to) ds db) =
     path_at m' d' db \<or>
   (m' = m \<and> d' \<in> set ds \<and> map_option pl_state (path_at m d' (fold (move_path now t m to) ds db)) = Some to)"
proof (induction ds arbitrary: db)
  case Nil
  then show ?case by simp
next
  case (Cons d ds)
  show ?case
  proof (cases "m' = m \<and> d' = d")
    case True
    then obtain r where "path_at m' d' (move_path now t m to d db) = Some r" "pl_state r = to"
      using path_at_move [of m d now t to db] by auto
    with True Cons.IH [of "move_path now t m to d db"] show ?thesis by auto
  next
    case False
    then have "path_at m' d' (move_path now t m to d db) = path_at m' d' db"
      by (intro path_at_move_other) auto
    with Cons.IH [of "move_path now t m to d db"] show ?thesis by auto
  qed
qed

lemma path_at_fold_moved:
  "d \<in> set ds \<Longrightarrow> map_option pl_state (path_at m d (fold (move_path now t m to) ds db)) = Some to"
proof (induction ds rule: rev_induct)
  case Nil
  then show ?case by simp
next
  case (snoc e ds)
  let ?db = "fold (move_path now t m to) ds db"
  show ?case
  proof (cases "e = d")
    case True
    then show ?thesis using path_at_move [of m d now t to ?db] by auto
  next
    case False
    with snoc show ?thesis by (simp add: path_at_move_other)
  qed
qed

lemma path_at_fold_other:
  "m' \<noteq> m \<or> d \<notin> set ds \<Longrightarrow> path_at m' d (fold (move_path now t m to) ds db) = path_at m' d db"
  by (induction ds arbitrary: db) (auto simp: path_at_move_other)

subsection \<open>The tables of one tenant\<close>

text \<open>Every row the transaction sees is the tenant's own, as the row policies have it.\<close>

definition tables_of :: "string \<Rightarrow> tenant_db \<Rightarrow> bool" where
  "tables_of t db \<longleftrightarrow> list_all (\<lambda>m. mm_tenant m = t) (td_mappings db) \<and>
     list_all (\<lambda>s. sc_tenant s = t) (td_scopes db) \<and> list_all (\<lambda>r. pl_tenant r = t) (td_paths db)"

definition path_state :: "string \<Rightarrow> discovery_domain \<Rightarrow> tenant_db \<Rightarrow> string option" where
  "path_state m d db = map_option pl_state (path_at m d db)"

definition mapping_status :: "string \<Rightarrow> string \<Rightarrow> tenant_db \<Rightarrow> string option" where
  "mapping_status t m db = map_option mm_status (List.find (is_mapping t m) (td_mappings db))"

definition known_words :: "tenant_db \<Rightarrow> bool" where
  "known_words db \<longleftrightarrow> list_all (\<lambda>r. pl_state r \<in> set PATH_STATES) (td_paths db)"

definition believed_rows :: "string \<Rightarrow> string \<Rightarrow> string \<Rightarrow> tenant_db \<Rightarrow> bool" where
  "believed_rows t m from db \<longleftrightarrow>
     rollUpPhases (List.map_filter (\<lambda>d. path_state m d db) (included_domains t m db)) = Some from"

lemma map_of_filter_find:
  "map_of (map (\<lambda>r. (k r, v r)) (filter p rows)) d = map_option v (List.find (\<lambda>r. p r \<and> k r = d) rows)"
  by (induction rows) auto

lemma phase_of_path_state:
  assumes "tables_of t db"
  shows "map_of (map (\<lambda>r. (pl_domain r, pl_state r)) (paths_of t m db)) d = path_state m d db"
proof -
  have "List.find (\<lambda>r. (pl_tenant r = t \<and> pl_mapping r = m) \<and> pl_domain r = d) (td_paths db) =
      List.find (is_path m d) (td_paths db)"
    using assms by (intro find_cong) (auto simp: is_path_def tables_of_def list_all_iff)
  then show ?thesis by (simp add: paths_of_def map_of_filter_find path_state_def path_at_def)
qed

lemma in_included_domains: "d \<in> set (included_domains t m db) \<longleftrightarrow>
    (\<exists>s \<in> set (td_scopes db). sc_tenant s = t \<and> sc_mapping s = m \<and> sc_domain s = d \<and> sc_included s)"
  by (auto simp: included_domains_def)

lemma included_path_domains:
  "tables_of t db \<Longrightarrow> included_path db r \<longleftrightarrow> pl_domain r \<in> set (included_domains t (pl_mapping r) db)"
  unfolding included_path_def in_included_domains tables_of_def list_all_iff by blast

lemma path_rows_at:
  assumes "tables_of t db"
  shows "map_of (path_rows m db) d = (if d \<in> set (included_domains t m db)
     then map_option (\<lambda>r. \<lparr>pr_state = pl_state r, pr_stopped = (pl_stoppedAt r \<noteq> None)\<rparr>) (path_at m d db)
     else None)"
proof -
  have "List.find (\<lambda>r. (included_path db r \<and> pl_mapping r = m) \<and> pl_domain r = d) (td_paths db) =
      (if d \<in> set (included_domains t m db) then path_at m d db else None)"
    unfolding path_at_def
    by (auto simp: included_path_domains [OF assms] is_path_def intro!: find_cong find_NoneI)
  then show ?thesis by (simp add: path_rows_def map_of_filter_find)
qed

lemma is_mapping_status [simp]: "is_mapping t m (r\<lparr>mm_status := st\<rparr>) = is_mapping t m r"
  by (simp add: is_mapping_def)

lemma mapping_status_set:
  "mapping_status t m (set_status t m st db) = map_option (\<lambda>_. st) (mapping_status t m db)"
  by (cases "List.find (is_mapping t m) (td_mappings db)")
    (auto simp: mapping_status_def set_status_def find_update_where dest: find_SomeD)

lemma set_status_frame [simp]:
  "td_paths (set_status t m st db) = td_paths db" "td_scopes (set_status t m st db) = td_scopes db"
  "td_cutover (set_status t m st db) = td_cutover db" "td_audit (set_status t m st db) = td_audit db"
  by (simp_all add: set_status_def)

lemma record_frame [simp]:
  "td_mappings (recordMappingStatusChange m a b c v f db) = td_mappings db"
  "td_paths (recordMappingStatusChange m a b c v f db) = td_paths db"
  "td_scopes (recordMappingStatusChange m a b c v f db) = td_scopes db"
  "td_cutover (recordMappingStatusChange m a b c v f db) = td_cutover db"
  "td_mappings (record_path_phase m d a b c v db) = td_mappings db"
  "td_paths (record_path_phase m d a b c v db) = td_paths db"
  "td_scopes (record_path_phase m d a b c v db) = td_scopes db"
  "td_cutover (record_path_phase m d a b c v db) = td_cutover db"
  by (simp_all add: recordMappingStatusChange_def record_path_phase_def)

lemma tables_of_frame:
  "tables_of t db \<Longrightarrow> tables_of t (set_status t m st db)"
  "tables_of t db \<Longrightarrow> tables_of t (move_path now t m to d db)"
  by (auto simp: tables_of_def list_all_iff set_status_def in_update_where move_path_def activate_def
      moveTo_def upsert_path_def Let_def)

lemma path_state_frame [simp]:
  "path_state m d (set_status t m' st db) = path_state m d db"
  "included_domains t m (set_status t m' st db) = included_domains t m db"
  "path_state m d (recordMappingStatusChange m' a b c v f db) = path_state m d db"
  "included_domains t m (recordMappingStatusChange m' a b c v f db) = included_domains t m db"
  "mapping_status t m (recordMappingStatusChange m' a b c v f db) = mapping_status t m db"
  "path_state m d (record_path_phase m' d' a b c v db) = path_state m d db"
  "included_domains t m (move_path now t m' to d db) = included_domains t m db"
  "included_domains t m (fold (move_path now t m' to) ds db) = included_domains t m db"
  "mapping_status t m (fold (move_path now t m' to) ds db) = mapping_status t m db"
  "mapping_status t m (move_path now t m' to d db) = mapping_status t m db"
  by (simp_all add: path_state_def path_at_def included_domains_def mapping_status_def)

lemma path_state_fold:
  "path_state m' d (fold (move_path now t m to) ds db) =
     (if m' = m \<and> d \<in> set ds then Some to else path_state m' d db)"
  using path_at_fold_moved [of d ds m now t to db] path_at_fold_other [of m' m d ds now t to db]
  by (auto simp: path_state_def)

lemma apply_whole:
  assumes "tables_of t db" and "from \<noteq> to"
  obtains db' where "applyMappingStatusChange now t m from to actor via forced None db = (Inr (), db')"
    "\<And>m' d. path_state m' d db' =
       (if m' = m \<and> d \<in> set (included_domains t m db) \<and>
           pathFollows (Some from) to (path_state m d db) (believed_rows t m from db)
        then Some to else path_state m' d db)"
    "mapping_status t m db' = map_option (\<lambda>_. to) (mapping_status t m db)"
    "td_scopes db' = td_scopes db" "td_cutover db' = td_cutover db"
proof -
  let ?db = "set_status t m to db"
  let ?follow = "filter (\<lambda>d. pathFollows (Some from) to (path_state m d db) (believed_rows t m from db))
    (included_domains t m db)"
  let ?db' = "recordMappingStatusChange m from to actor via forced (fold (move_path now t m to) ?follow ?db)"
  have phases: "map_of (map (\<lambda>r. (pl_domain r, pl_state r)) (paths_of t m ?db)) = (\<lambda>d. path_state m d db)"
    using phase_of_path_state [OF tables_of_frame(1) [OF assms(1)]] by (intro ext) simp
  have "snd (movePathsWithMapping now t m (Some from) to ?db) = fold (move_path now t m to) ?follow ?db"
    by (simp add: movePathsWithMapping_def Let_def phases believed_rows_def)
  then have "applyMappingStatusChange now t m from to actor via forced None db = (Inr (), ?db')"
    using assms(2)
    by (auto simp: applyMappingStatusChange_def in_tenant_def run_simps run_hook_def split: prod.split)
  moreover have "path_state m' d ?db' = (if m' = m \<and> d \<in> set (included_domains t m db) \<and>
      pathFollows (Some from) to (path_state m d db) (believed_rows t m from db)
        then Some to else path_state m' d db)" for m' d
    by (simp add: path_state_fold)
  moreover have "mapping_status t m ?db' = map_option (\<lambda>_. to) (mapping_status t m db)"
    by (simp add: mapping_status_set)
  ultimately show thesis by (rule that) simp_all
qed

text \<open>A migration with mail cut over on its own while its files still copy, for the examples.\<close>

definition mail_cut_over :: tenant_db where
  "mail_cut_over =
     \<lparr>td_mappings = [\<lparr>mm_id = ''m'', mm_tenant = ''t'', mm_status = ''active'', mm_grantWithdrawnAt = None\<rparr>],
      td_scopes = [\<lparr>sc_tenant = ''t'', sc_mapping = ''m'', sc_domain = Email, sc_included = True\<rparr>,
        \<lparr>sc_tenant = ''t'', sc_mapping = ''m'', sc_domain = File, sc_included = True\<rparr>],
      td_paths = [\<lparr>pl_tenant = ''t'', pl_mapping = ''m'', pl_domain = Email, pl_state = ''cutover'',
          pl_firstActivatedAt = Some 1, pl_endedAt = Some 5, pl_stoppedAt = None\<rparr>,
        \<lparr>pl_tenant = ''t'', pl_mapping = ''m'', pl_domain = File, pl_state = ''active'',
          pl_firstActivatedAt = Some 1, pl_endedAt = None, pl_stoppedAt = None\<rparr>],
      td_audit = [], td_cutover = \<lparr>cd_states = [], cd_events = []\<rparr>\<rparr>"

lemma mail_cut_over_rows:
  "tables_of ''t'' mail_cut_over" "included_domains ''t'' ''m'' mail_cut_over = [Email, File]"
  "path_state ''m'' Email mail_cut_over = Some ''cutover''" "path_state ''m'' File mail_cut_over = Some ''active''"
  "mapping_status ''t'' ''m'' mail_cut_over = Some ''active''" "known_words mail_cut_over"
  "believed_rows ''t'' ''m'' ''active'' mail_cut_over"
  by (simp_all add: mail_cut_over_def tables_of_def included_domains_def path_state_def path_at_def is_path_def
      mapping_status_def is_mapping_def known_words_def PATH_STATES_def believed_rows_def List.map_filter_def
      rollUpPhases_def)

subsection \<open>What the moves keep\<close>

definition sound_tables :: "string \<Rightarrow> tenant_db \<Rightarrow> bool" where
  "sound_tables t db \<longleftrightarrow> tables_of t db \<and> known_words db"

lemma upsert_path_all:
  assumes "P fresh" and "\<And>r. P r \<Longrightarrow> P (f r)" and "list_all P rows"
  shows "list_all P (upsert_path m d fresh f rows)"
  using assms by (auto simp: list_all_iff upsert_path_def in_update_where)

lemma known_words_move:
  assumes "known_words db" and "to \<in> set PATH_STATES"
  shows "known_words (move_path now t m to d db)"
proof -
  have "''active'' \<in> set PATH_STATES" by (simp add: PATH_STATES_def)
  with assms show ?thesis
    by (simp add: known_words_def move_path_def activate_def moveTo_def Let_def upsert_path_all)
qed

lemma sound_move: "sound_tables t db \<Longrightarrow> to \<in> set PATH_STATES \<Longrightarrow> sound_tables t (move_path now t m to d db)"
  by (simp add: sound_tables_def tables_of_frame known_words_move)

lemma sound_fold_move:
  "sound_tables t db \<Longrightarrow> to \<in> set PATH_STATES \<Longrightarrow> sound_tables t (fold (move_path now t m to) ds db)"
  by (induction ds arbitrary: db) (simp_all add: sound_move)

lemma sound_frame:
  "sound_tables t db \<Longrightarrow> sound_tables t (set_status t m st db)"
  "sound_tables t (recordMappingStatusChange m a b c v f db) = sound_tables t db"
  "sound_tables t (db\<lparr>td_cutover := cu\<rparr>) = sound_tables t db"
  by (simp_all add: sound_tables_def tables_of_frame)
    (simp_all add: tables_of_def known_words_def)

lemma apply_status:
  obtains db' where "applyMappingStatusChange now t m from to actor via forced None db = (Inr (), db')"
    "td_cutover db' = td_cutover db" "mapping_status t m db' = map_option (\<lambda>_. to) (mapping_status t m db)"
    "sound_tables t db \<Longrightarrow> to \<in> set PATH_STATES \<Longrightarrow> sound_tables t db'"
proof (cases "from = to")
  case True
  show thesis
    by (rule that [of "set_status t m to db"])
      (simp_all add: True applyMappingStatusChange_def in_tenant_def run_simps mapping_status_set
        recordMappingStatusChange_def sound_frame)
next
  case False
  obtain ds where ds: "snd (movePathsWithMapping now t m (Some from) to (set_status t m to db)) =
      fold (move_path now t m to) ds (set_status t m to db)"
    by (cases "included_domains t m db = []")
      (auto simp: movePathsWithMapping_def Let_def intro: that [of "[]"])
  let ?db' = "recordMappingStatusChange m from to actor via forced
    (fold (move_path now t m to) ds (set_status t m to db))"
  have "applyMappingStatusChange now t m from to actor via forced None db = (Inr (), ?db')"
    using False ds
    by (auto simp: applyMappingStatusChange_def in_tenant_def run_simps run_hook_def split: prod.split)
  then show thesis
    by (rule that) (simp_all add: mapping_status_set sound_frame sound_fold_move)
qed

subsection \<open>Properties\<close>

lemma after_cutover_stays:
  assumes "rollUpPhases phases = Some from" and "\<not> isAfterCutover from" and "isAfterCutover p" and "to \<noteq> ''done''"
  shows "\<not> pathFollows (Some from) to (Some p) True"
  using assms by (auto simp: pathFollows_def isAfterCutover_def)

text \<open>
  a press on the whole migration never moves back what was cut over on its own. Where
  the migration's rows add up to a status before its cutover, pausing, resuming, starting or
  cutting over the rest leaves every path that is past its own cutover in the phase it had;
  only finishing the migration may move it, and then to \<open>done\<close>.
\<close>
theorem the_rest_moves_without_what_is_cut_over:
  assumes "tables_of t db" and "from \<noteq> to" and "believed_rows t m from db" and "\<not> isAfterCutover from"
    and "path_state m d db = Some p" and "isAfterCutover p"
    and "applyMappingStatusChange now t m from to actor via forced None db = (out, db')"
  shows "path_state m d db' = Some p \<or> (to = ''done'' \<and> path_state m d db' = Some ''done'')"
proof -
  from apply_whole [OF assms(1,2), of now m actor via forced] assms(7)
  have states: "path_state m d db' = (if d \<in> set (included_domains t m db) \<and>
      pathFollows (Some from) to (path_state m d db) (believed_rows t m from db)
      then Some to else path_state m d db)"
    by (metis Pair_inject)
  show ?thesis
  proof (cases "to = ''done''")
    case True
    with states assms(5) show ?thesis by auto
  next
    case False
    from assms(3) have "\<not> pathFollows (Some from) to (Some p) True"
      unfolding believed_rows_def by (rule after_cutover_stays [OF _ assms(4,6) False])
    with states assms(3,5) show ?thesis by simp
  qed
qed

theorem the_rest_moves_without_what_is_cut_over_witness:
  "path_state ''m'' Email
     (snd (applyMappingStatusChange 9 ''t'' ''m'' ''active'' ''paused'' ''owner'' ''update'' False None mail_cut_over))
   = Some ''cutover''"
  using the_rest_moves_without_what_is_cut_over
    [of "''t''" mail_cut_over "''active''" "''paused''" "''m''" Email "''cutover''" 9 "''owner''" "''update''" False]
  by (simp add: mail_cut_over_rows isAfterCutover_def prod_eq_iff)

lemma known_words_phases:
  assumes "known_words db"
  shows "\<forall>row \<in> snd ` set (path_rows m db). pr_state row \<in> insert ''ready'' (set MAPPING_LIFECYCLES)"
  using assms
  by (auto simp: known_words_def list_all_iff path_rows_def PATH_STATES_def MAPPING_LIFECYCLES_def)

lemma mapping_by_id:
  "tables_of t db \<Longrightarrow> List.find (\<lambda>r. mm_id r = m) (td_mappings db) = List.find (is_mapping t m) (td_mappings db)"
  by (rule find_cong) (auto simp: tables_of_def is_mapping_def list_all_iff)

lemma stored_cutover_no_authority:
  assumes "tables_of t db" and "known_words db"
    and "mapping_status t m db = Some status" and "isAfterCutover status"
  shows "\<not> sourceStillDecides (map_option mp_phases (readPathPhases now t m db)) d"
proof -
  from assms(3) obtain row where row: "List.find (\<lambda>r. mm_id r = m) (td_mappings db) = Some row"
    "mm_status row = status"
    by (auto simp: mapping_status_def mapping_by_id [OF assms(1)])
  from no_source_decides [OF assms(4) known_words_phases [OF assms(2), of m]] show ?thesis
    unfolding readPathPhases_def row(1) by (simp add: Let_def row(2))
qed

lemma roll_up_some: "phases \<noteq> [] \<Longrightarrow> \<exists>r. rollUpPhases phases = Some r"
  by (simp add: rollUpPhases_def Let_def)

lemma read_rolled:
  assumes "tables_of t db" and "mapping_status t m db = Some rolled"
    and "rollUpPhases (map (pr_state \<circ> snd) (path_rows m db)) = Some rolled"
  obtains p where "readPathPhases now t m db = Some p"
    "\<And>d ph. d \<in> set (included_domains t m db) \<Longrightarrow> path_state m d db = Some ph \<Longrightarrow>
       pp_phase (ph_phaseOf (mp_phases p) d) = ph"
proof -
  from assms(2) obtain row where row: "List.find (\<lambda>r. mm_id r = m) (td_mappings db) = Some row"
    "mm_status row = rolled"
    by (auto simp: mapping_status_def mapping_by_id [OF assms(1)])
  have believed: "pp_phase (phasesOfThePaths rolled w (path_rows m db) d) = ph"
    if "d \<in> set (included_domains t m db)" "path_state m d db = Some ph" for d ph w
    using that assms(3) path_rows_at [OF assms(1), of m d]
    by (auto simp: phasesOfThePaths_def Let_def path_state_def)
  have "\<exists>p w. readPathPhases now t m db = Some p \<and>
      ph_phaseOf (mp_phases p) = phasesOfThePaths rolled w (path_rows m db)"
    by (auto simp: readPathPhases_def row Let_def)
  with believed show thesis by (metis that)
qed

lemma run_roll_up:
  assumes "tables_of t db" and "mapping_status t m db \<noteq> None" and "path_rows m db \<noteq> []"
  obtains rolled v db' where "writeTheRollUp t m actor via f db = (Inr v, db')"
    "rollUpPhases (map (pr_state \<circ> snd) (path_rows m db)) = Some rolled"
    "mapping_status t m db' = Some rolled" "td_paths db' = td_paths db" "td_scopes db' = td_scopes db"
    "tables_of t db'"
proof -
  from assms(2) obtain row where row: "List.find (is_mapping t m) (td_mappings db) = Some row"
    by (auto simp: mapping_status_def)
  from assms(3) obtain rolled where rolled: "rollUpPhases (map (pr_state \<circ> snd) (path_rows m db)) = Some rolled"
    using roll_up_some [of "map (pr_state \<circ> snd) (path_rows m db)"] by auto
  have phases: "map snd (map (\<lambda>r. (pl_domain r, pl_state r))
      (filter (\<lambda>r. included_path db r \<and> pl_mapping r = m) (td_paths db))) = map (pr_state \<circ> snd) (path_rows m db)"
    by (simp add: path_rows_def)
  have status: "mapping_status t m db = Some (mm_status row)" by (simp add: mapping_status_def row)
  show thesis
  proof (cases "rolled = mm_status row")
    case True
    have "writeTheRollUp t m actor via f db = (Inr None, db)"
      using rolled True by (simp add: writeTheRollUp_def readTheMigration_def row phases del: map_map)
    then show thesis using rolled status True assms(1) by (intro that) simp_all
  next
    case False
    let ?db' = "recordMappingStatusChange m (mm_status row) rolled actor via f (set_status t m rolled db)"
    have "writeTheRollUp t m actor via f db = (Inr (Some (mm_status row, rolled)), ?db')"
      using rolled False by (simp add: writeTheRollUp_def readTheMigration_def row phases del: map_map)
    moreover have "tables_of t ?db'"
      using tables_of_frame(1) [OF assms(1), of m rolled] by (simp add: tables_of_def)
    ultimately show thesis using rolled status by (intro that) (simp_all add: mapping_status_set)
  qed
qed

text \<open>
  Once the stored status of a migration is after its cutover, whatever a pass then reads
  of it (its status, its path rows with their stops, its cutover ledgers and their windows)
  says that the source no longer decides for any data type.
\<close>
theorem stored_cutover_ends_every_authority:
  assumes "tables_of t db" and "known_words db"
    and "mapping_status t m db = Some status" and "isAfterCutover status"
  shows "\<not> sourceStillDecides (map_option mp_phases (readPathPhases now t m db)) d"
  using assms by (rule stored_cutover_no_authority)

theorem stored_cutover_ends_every_authority_witness:
  "\<not> sourceStillDecides
     (map_option mp_phases (readPathPhases 9 ''t'' ''m'' (set_status ''t'' ''m'' ''done'' mail_cut_over))) File"
  by (rule stored_cutover_ends_every_authority [where status = "''done''"])
    (simp_all add: tables_of_frame mail_cut_over_rows known_words_def [symmetric] mapping_status_set
      isAfterCutover_def, simp add: known_words_def mail_cut_over_def PATH_STATES_def)

text \<open>
  after one data type was moved on its own, the migration's status and its rows agree:
  the status is the roll-up of the included paths' phases, the pass believes the moved path
  to be in the phase it was moved to and every other included path in its own, and no other
  path row changed.
\<close>
theorem one_data_type_moves_alone:
  assumes "tables_of t db" and "d \<in> set (included_domains t m db)" and "mapping_status t m db \<noteq> None"
    and "applyPathStatusChange now t m d from to actor via None db = (out, db')"
  shows "out = Inr () \<and>
    (case readPathPhases later t m db' of None \<Rightarrow> False
     | Some p \<Rightarrow> pp_phase (ph_phaseOf (mp_phases p) d) = to \<and>
        (\<forall>d' \<in> set (included_domains t m db). d' \<noteq> d \<longrightarrow> path_state m d' db \<noteq> None \<longrightarrow>
           Some (pp_phase (ph_phaseOf (mp_phases p) d')) = path_state m d' db)) \<and>
    (\<forall>m' d'. (m', d') \<noteq> (m, d) \<longrightarrow> path_at m' d' db' = path_at m' d' db)"
proof -
  let ?mv = "move_path now t m to d db"
  have tables: "tables_of t ?mv" by (rule tables_of_frame(2) [OF assms(1)])
  obtain r where r: "path_at m d ?mv = Some r" "pl_state r = to" using path_at_move by blast
  have others: "path_at m' d' ?mv = path_at m' d' db" if "(m', d') \<noteq> (m, d)" for m' d'
    using that by (rule path_at_move_other)
  have rows: "path_rows m ?mv \<noteq> []"
    using path_rows_at [OF tables, of m d] assms(2) r by auto
  have status: "mapping_status t m ?mv \<noteq> None" using assms(3) by simp
  obtain rolled v db1 where up: "writeTheRollUp t m actor via False ?mv = (Inr v, db1)"
    "rollUpPhases (map (pr_state \<circ> snd) (path_rows m ?mv)) = Some rolled" "mapping_status t m db1 = Some rolled"
    "td_paths db1 = td_paths ?mv" "td_scopes db1 = td_scopes ?mv" "tables_of t db1"
    by (rule run_roll_up [OF tables status rows, of actor via False]) (rule that)
  have db': "out = Inr ()" "db' = record_path_phase m d from to actor via db1"
    using assms(4) by (auto simp: applyPathStatusChange_def in_tenant_def run_simps up(1) run_hook_def)
  have same: "td_paths db' = td_paths ?mv" "td_scopes db' = td_scopes db"
    "path_rows m db' = path_rows m ?mv" "tables_of t db'" "mapping_status t m db' = Some rolled"
    using up(3-6) by (simp_all add: db' path_rows_def included_path_def tables_of_def mapping_status_def)
  have rolls: "rollUpPhases (map (pr_state \<circ> snd) (path_rows m db')) = Some rolled"
    by (simp only: same(3) up(2))
  obtain p where p: "readPathPhases later t m db' = Some p"
    "\<And>d ph. d \<in> set (included_domains t m db') \<Longrightarrow> path_state m d db' = Some ph \<Longrightarrow>
       pp_phase (ph_phaseOf (mp_phases p) d) = ph"
    by (rule read_rolled [OF same(4,5) rolls, of later]) (rule that)
  have incl: "included_domains t m db' = included_domains t m db"
    by (simp add: included_domains_def same(2))
  have at: "path_at m' d' db' = path_at m' d' ?mv" for m' d' by (simp add: path_at_def same(1))
  have "pp_phase (ph_phaseOf (mp_phases p) d) = to"
    using p(2) [of d to] assms(2) r by (simp add: incl path_state_def at)
  moreover have "Some (pp_phase (ph_phaseOf (mp_phases p) d')) = path_state m d' db"
    if "d' \<in> set (included_domains t m db)" "d' \<noteq> d" "path_state m d' db \<noteq> None" for d'
    using p(2) [of d'] that others [of m d'] by (auto simp: incl path_state_def at)
  ultimately show ?thesis using db'(1) p(1) others by (simp add: at)
qed

theorem one_data_type_moves_alone_witness:
  "case readPathPhases 9 ''t'' ''m''
     (snd (applyPathStatusChange 9 ''t'' ''m'' File ''active'' ''cutover'' ''owner'' ''cutover'' None mail_cut_over)) of
     None \<Rightarrow> False | Some p \<Rightarrow> pp_phase (ph_phaseOf (mp_phases p) File) = ''cutover''"
  using one_data_type_moves_alone [of "''t''" mail_cut_over File "''m''" 9 "''active''" "''cutover''" "''owner''"
    "''cutover''" _ _ 9, OF _ _ _ surjective_pairing]
  by (simp add: mail_cut_over_rows split: option.splits)

text \<open>
  the database's own copy of the copying rule and the code's are one rule: for any row
  of a cutover ledger the SQL condition holds exactly when \<open>cutoverStillCopiesAt\<close> does on the
  window made of the row.
\<close>
theorem sql_copies_exactly_as_the_code:
  "cutover_still_copies_where now c = cutoverStillCopiesAt (Some (row_window c)) now"
  by (cases "cr_state c"; cases "cr_grace_period_started_at c")
    (simp_all add: cutover_still_copies_where_def cutoverStillCopiesAt_def cutoverCopiesUntil_def row_window_def)

text \<open>
  A path row's clocks follow its slot. Whatever a path is moved to, its row has an end
  exactly when the path holds no slot (a stop counted for the lane), a date of first
  activation once set is never overwritten, a path that never ran gets one only by being
  activated, and the stop beside it is kept.
\<close>
theorem path_clocks_follow_the_slot:
  "\<exists>r. path_at m d (move_path now t m to d db) = Some r \<and> pl_state r = to \<and>
     pl_mapping r = m \<and> pl_domain r = d \<and>
     (pl_endedAt r = None \<longleftrightarrow> holdsASlot to (pl_stoppedAt r \<noteq> None)) \<and>
     (case path_at m d db of
        None \<Rightarrow> pl_stoppedAt r = None \<and> (pl_firstActivatedAt r \<noteq> None \<longleftrightarrow> to = ''active'')
      | Some old \<Rightarrow> pl_stoppedAt r = pl_stoppedAt old \<and>
          (pl_firstActivatedAt old \<noteq> None \<longrightarrow> pl_firstActivatedAt r = pl_firstActivatedAt old))"
  by (rule path_at_move)

theorem path_clocks_follow_the_slot_witness:
  "case path_at ''m'' File (move_path 9 ''t'' ''m'' ''done'' File mail_cut_over) of
     None \<Rightarrow> False | Some r \<Rightarrow> pl_endedAt r \<noteq> None \<and> pl_firstActivatedAt r = Some 1"
proof -
  have "case path_at ''m'' File mail_cut_over of None \<Rightarrow> False
      | Some r \<Rightarrow> pl_stoppedAt r = None \<and> pl_firstActivatedAt r = Some 1"
    by code_simp
  with path_clocks_follow_the_slot [of "''m''" File 9 "''t''" "''done''" mail_cut_over] show ?thesis
    by (auto simp: holdsASlot_def split: option.splits)
qed

end
