(* ===== verification/Cutover_Steps.thy ===== *)
theory Cutover_Steps
  imports Mapping_Paths
begin

text \<open>
  The steps of a cutover that move two records at once: \<open>enterCutover\<close> and \<open>closeCutover\<close>
  (\<open>packages/core/src/cutover-lifecycle.ts\<close>) and \<open>performRollback\<close> (\<open>cutover-rollback.ts\<close>). They
  are written against two ports, the cutover ledger and the lifecycle beside it; the record
  \<open>cutover_ports\<close> holds the four calls. The locale \<open>two_halves\<close> states what the steps rely on,
  and its interpretation discharges it for the whole migration's ports on the database. One
  data type's ports (\<open>bindCutoverLedger\<close>, \<open>pathLifecyclePort\<close>) do not keep that contract.
\<close>

subsection \<open>The ports and the outcomes\<close>

datatype lifecycle_via = Via_rollback | Via_cutover

record ('s, 'e) cutover_ports =
  po_load :: "('s, 'e, cutover_status option) prog"
  po_transition :: "cutover_state \<Rightarrow> transition_metadata \<Rightarrow> ('s, 'e, cutover_status) prog"
  po_readStatus :: "('s, 'e, string) prog"
  po_setStatus :: "string \<Rightarrow> string \<Rightarrow> lifecycle_via \<Rightarrow> ('s, 'e, unit) prog"

datatype step_refusal =
  No_cutover_found
| No_such_move cutover_state cutover_state
| Lifecycle_refuses lifecycle_refusal

datatype 'e step_error = Step_refused step_refusal | Port_failed 'e

record mapping_half =
  mh_from :: string
  mh_to :: string
  mh_changed :: bool

record step_outcome =
  so_state :: cutover_state
  so_from :: cutover_state
  so_copiesThroughGrace :: bool
  so_mapping :: mapping_half

datatype notified = Not_asked | Sent | Notify_failed string

record rollback_outcome =
  ro_from :: cutover_state
  ro_mapping :: mapping_half
  ro_notified :: notified

definition portP :: "('s, 'e, 'a) prog \<Rightarrow> ('s, 'e step_error, 'a) prog" where
  "portP m = (\<lambda>s. case m s of (Inl e, t) \<Rightarrow> (Inl (Port_failed e), t) | (Inr a, t) \<Rightarrow> (Inr a, t))"

text \<open>\<open>state.currentState ?? state.state\<close>.\<close>

definition current_state :: "cutover_status \<Rightarrow> cutover_state" where
  "current_state st = (case cs_currentState st of Some c \<Rightarrow> c | None \<Rightarrow> cs_state st)"

subsection \<open>Entering and closing a cutover\<close>

definition set_mapping_half ::
    "('s, 'e) cutover_ports \<Rightarrow> string \<Rightarrow> string \<Rightarrow> lifecycle_via \<Rightarrow> ('s, 'e step_error, mapping_half) prog" where
  "set_mapping_half ports from to via =
     thenP (portP (po_setStatus ports from to via)) (ret \<lparr>mh_from = from, mh_to = to, mh_changed = True\<rparr>)"

definition keep_mapping_half :: "string \<Rightarrow> mapping_half" where
  "keep_mapping_half from = \<lparr>mh_from = from, mh_to = from, mh_changed = False\<rparr>"

definition cutover_step ::
    "('s, 'e) cutover_ports \<Rightarrow> cutover_state \<Rightarrow> transition_metadata \<Rightarrow> ('s, 'e step_error, step_outcome) prog" where
  "cutover_step ports to metadata =
     bindP (portP (po_load ports)) (\<lambda>found.
     case found of
       None \<Rightarrow> throw (Step_refused No_cutover_found)
     | Some st \<Rightarrow>
       if \<not> isValidTransition (current_state st) to
       then throw (Step_refused (No_such_move (current_state st) to))
       else bindP (portP (po_readStatus ports)) (\<lambda>mappingStatus.
         let decision = cutoverTransition mappingStatus;
             copies = (to = CUTOVER_IN_PROGRESS \<and> keepsCopyingThroughGrace decision);
             finish = (\<lambda>mapping.
               thenP (portP (po_transition ports to (metadata\<lparr>tm_stoppedSync := Some (mh_changed mapping),
                  tm_mappingStatus := Some (mh_to mapping),
                  tm_copiesThroughGrace := (if to = CUTOVER_IN_PROGRESS then Some copies else None)\<rparr>)))
               (ret \<lparr>so_state = to, so_from = current_state st, so_copiesThroughGrace = copies,
                     so_mapping = mapping\<rparr>))
         in case decision of
              Cutover_refused_unknown \<Rightarrow> throw (Step_refused (Lifecycle_refuses Unknown_lifecycle))
            | Stop_mapping from t \<Rightarrow> bindP (set_mapping_half ports from t Via_cutover) finish
            | Already_stopped from _ \<Rightarrow> finish (keep_mapping_half from)))"

definition enterCutover ::
    "timestamp \<Rightarrow> string \<Rightarrow> ('s, 'e) cutover_ports \<Rightarrow> ('s, 'e step_error, step_outcome) prog" where
  "enterCutover now by ports =
     cutover_step ports CUTOVER_IN_PROGRESS (no_metadata\<lparr>tm_startedAt := Some now, tm_startedBy := Some by\<rparr>)"

definition closeCutover ::
    "timestamp \<Rightarrow> string \<Rightarrow> ('s, 'e) cutover_ports \<Rightarrow> ('s, 'e step_error, step_outcome) prog" where
  "closeCutover now by ports =
     cutover_step ports COMPLETED (no_metadata\<lparr>tm_completedAt := Some now, tm_completedBy := Some by\<rparr>)"

subsection \<open>Rolling back\<close>

text \<open>A notification that fails is reported in the outcome, never thrown.\<close>

definition notify_after :: "('s, string, unit) prog option \<Rightarrow> ('s, 'e, notified) prog" where
  "notify_after notify = (case notify of
     None \<Rightarrow> ret Not_asked
   | Some n \<Rightarrow> (\<lambda>s. case n s of (Inl msg, t) \<Rightarrow> (Inr (Notify_failed msg), t) | (Inr _, t) \<Rightarrow> (Inr Sent, t)))"

definition performRollback ::
    "timestamp \<Rightarrow> string \<Rightarrow> string \<Rightarrow> ('s, string, unit) prog option \<Rightarrow> ('s, 'e) cutover_ports \<Rightarrow>
     ('s, 'e step_error, rollback_outcome) prog" where
  "performRollback now rolledBackBy reason notify ports =
     bindP (portP (po_load ports)) (\<lambda>found.
     case found of
       None \<Rightarrow> throw (Step_refused No_cutover_found)
     | Some st \<Rightarrow>
       if \<not> isValidTransition (current_state st) ROLLED_BACK
       then throw (Step_refused (No_such_move (current_state st) ROLLED_BACK))
       else bindP (portP (po_readStatus ports)) (\<lambda>mappingStatus.
         let finish = (\<lambda>mapping.
               thenP (portP (po_transition ports ROLLED_BACK (no_metadata\<lparr>tm_rolledBackAt := Some now,
                  tm_rolledBackBy := Some rolledBackBy, tm_rollbackReason := Some reason,
                  tm_resumedSync := Some (mh_changed mapping), tm_mappingStatus := Some (mh_to mapping)\<rparr>)))
               (bindP (notify_after notify) (\<lambda>notified.
                  ret \<lparr>ro_from = current_state st, ro_mapping = mapping, ro_notified = notified\<rparr>)))
         in case rollbackTransition mappingStatus of
              Rollback_refused why \<Rightarrow> throw (Step_refused (Lifecycle_refuses why))
            | Reactivate from to \<Rightarrow> bindP (set_mapping_half ports from to Via_rollback) finish
            | Leave_mapping from \<Rightarrow> finish (keep_mapping_half from)))"

subsection \<open>The ports on the database\<close>

datatype db_error = Ledger_error store_error | Lifecycle_error lifecycle_error

definition on_cutover :: "(cutover_db, store_error, 'a) prog \<Rightarrow> (tenant_db, db_error, 'a) prog" where
  "on_cutover m = (\<lambda>db. case m (td_cutover db) of
     (Inl e, c) \<Rightarrow> (Inl (Ledger_error e), db\<lparr>td_cutover := c\<rparr>)
   | (Inr a, c) \<Rightarrow> (Inr a, db\<lparr>td_cutover := c\<rparr>))"

definition on_lifecycle :: "(tenant_db, lifecycle_error, 'a) prog \<Rightarrow> (tenant_db, db_error, 'a) prog" where
  "on_lifecycle m = (\<lambda>db. case m db of (Inl e, t) \<Rightarrow> (Inl (Lifecycle_error e), t) | (Inr a, t) \<Rightarrow> (Inr a, t))"

fun via_word :: "lifecycle_via \<Rightarrow> string" where
  "via_word Via_rollback = ''rollback''"
| "via_word Via_cutover = ''cutover''"

definition migration_ports ::
    "timestamp \<Rightarrow> string \<Rightarrow> string \<Rightarrow> string \<Rightarrow> slots_hook \<Rightarrow> (tenant_db, db_error) cutover_ports" where
  "migration_ports now tenant mapping actor hook =
     \<lparr>po_load = on_cutover (tenant_loadCutoverState tenant tenant mapping None),
      po_transition = (\<lambda>to md. on_cutover (tenant_transitionState tenant now tenant mapping to (Metadata md) None)),
      po_readStatus = on_lifecycle (mappingPort_readStatus tenant mapping),
      po_setStatus = (\<lambda>from to via. on_lifecycle
        (applyMappingStatusChange now tenant mapping from to actor (via_word via) False hook))\<rparr>"

definition data_type_ports ::
    "timestamp \<Rightarrow> string \<Rightarrow> string \<Rightarrow> discovery_domain \<Rightarrow> string \<Rightarrow> slots_hook \<Rightarrow>
     (tenant_db, db_error) cutover_ports" where
  "data_type_ports now tenant mapping domain actor hook =
     \<lparr>po_load = on_cutover (tenant_loadCutoverState tenant tenant mapping (Some domain)),
      po_transition = (\<lambda>to md. on_cutover
        (tenant_transitionState tenant now tenant mapping to (Metadata md) (Some domain))),
      po_readStatus = on_lifecycle (pathPort_readStatus tenant mapping domain),
      po_setStatus = (\<lambda>from to via. on_lifecycle
        (applyPathStatusChange now tenant mapping domain from to actor (via_word via) hook))\<rparr>"

subsection \<open>Ports that fail\<close>

text \<open>
  A call to a database across a network can fail in two ways: it is lost, and nothing was written, or
  its answer is, and everything was, for each of the four calls is one transaction.
\<close>

datatype fault = Answered | Lost | Answer_lost

definition with_fault :: "fault \<Rightarrow> 'e \<Rightarrow> ('s, 'e, 'a) prog \<Rightarrow> ('s, 'e, 'a) prog" where
  "with_fault f e m = (case f of Answered \<Rightarrow> m | Lost \<Rightarrow> throw e | Answer_lost \<Rightarrow> thenP m (throw e))"

record port_faults =
  pf_load :: fault
  pf_transition :: fault
  pf_readStatus :: fault
  pf_setStatus :: fault

definition faulty :: "port_faults \<Rightarrow> 'e \<Rightarrow> ('s, 'e) cutover_ports \<Rightarrow> ('s, 'e) cutover_ports" where
  "faulty fs e ports =
     \<lparr>po_load = with_fault (pf_load fs) e (po_load ports),
      po_transition = (\<lambda>to md. with_fault (pf_transition fs) e (po_transition ports to md)),
      po_readStatus = with_fault (pf_readStatus fs) e (po_readStatus ports),
      po_setStatus = (\<lambda>from to via. with_fault (pf_setStatus fs) e (po_setStatus ports from to via))\<rparr>"

lemma with_fault_run:
  assumes "with_fault f e m s = (x, t)"
  obtains (lost) y where "x = Inl y" "t = s" | (answer_lost) a where "x = Inl e" "m s = (Inr a, t)"
  | (ran) "m s = (x, t)"
  using assms by (cases f) (auto simp: with_fault_def run_simps split: prod.splits sum.splits)

subsection \<open>What the steps rely on\<close>

locale two_halves =
  fixes ports :: "('s, 'e) cutover_ports"
    and ledger :: "'s \<Rightarrow> cutover_state option"
    and status :: "'s \<Rightarrow> string option"
  assumes load_reads: "po_load ports s = (x, t) \<Longrightarrow>
      t = s \<and> (\<forall>st. x = Inr (Some st) \<longrightarrow> ledger s = Some (current_state st))"
    and load_answers: "ledger s = Some c \<Longrightarrow> \<exists>st. po_load ports s = (Inr (Some st), s) \<and> current_state st = c"
    and status_answers: "status s = Some w \<Longrightarrow> po_readStatus ports s = (Inr w, s)"
    and status_reads: "po_readStatus ports s = (y, t) \<Longrightarrow> t = s \<and> (\<forall>w. y = Inr w \<longrightarrow> status s = Some w)"
    and status_written: "status s \<noteq> None \<Longrightarrow>
      \<exists>t. po_setStatus ports from to via s = (Inr (), t) \<and> ledger t = ledger s \<and> status t = Some to"
    and ledger_moves: "ledger s = Some from_state \<Longrightarrow> isValidTransition from_state next \<Longrightarrow> next \<noteq> PREPARING \<Longrightarrow>
      \<exists>st t. po_transition ports next md s = (Inr st, t) \<and> ledger t = Some next \<and> status t = status s"
begin

lemma moves:
  assumes "ledger s = Some from_state" and "isValidTransition from_state next" and "next \<noteq> PREPARING"
  obtains st u where "\<And>md. po_transition ports next md s = (Inr (st md), u md)"
    "\<And>md. ledger (u md) = Some next" "\<And>md. status (u md) = status s"
  using ledger_moves [OF assms] by metis

text \<open>
  The two reads come first and change nothing; what is left is refused with nothing written,
  or has a ledger state with an edge to the next and a status word.
\<close>

lemma reads_first:
  obtains (load_failed) e where "po_load ports s = (Inl e, s)"
  | (absent) "po_load ports s = (Inr None, s)"
  | (read_failed) st e where "po_load ports s = (Inr (Some st), s)" "po_readStatus ports s = (Inl e, s)"
  | (read) st w where "po_load ports s = (Inr (Some st), s)" "ledger s = Some (current_state st)"
      "po_readStatus ports s = (Inr w, s)" "status s = Some w"
proof -
  obtain x where x: "po_load ports s = (x, s)" using load_reads by (cases "po_load ports s") blast
  obtain y where y: "po_readStatus ports s = (y, s)" using status_reads by (cases "po_readStatus ports s") blast
  show thesis
  proof (cases x)
    case Inl
    with x show thesis by (simp add: load_failed)
  next
    case (Inr found)
    with x y load_reads [of s x s] status_reads [of s y s] show thesis
      by (cases found; cases y) (auto intro: absent read_failed read)
  qed
qed

lemma cutover_step_halves:
  assumes "cutover_step ports next md s = (out, t)" and "next \<noteq> PREPARING"
  shows "case out of
      Inl e \<Rightarrow> t = s
    | Inr r \<Rightarrow> ledger s = Some (so_from r) \<and> isValidTransition (so_from r) next \<and> ledger t = Some next \<and>
        status s = Some (mh_from (so_mapping r)) \<and> status t = Some (mh_to (so_mapping r)) \<and>
        mh_to (so_mapping r) \<in> {''cutover'', ''done'', ''continuous''} \<and>
        so_copiesThroughGrace r = (next = CUTOVER_IN_PROGRESS \<and> mh_from (so_mapping r) = ''active'')"
proof (cases s rule: reads_first)
  case (read st w)
  show ?thesis
  proof (cases "isValidTransition (current_state st) next")
    case False
    with assms(1) read show ?thesis by (auto simp: cutover_step_def run_simps portP_def)
  next
    case valid: True
    show ?thesis
    proof (cases "cutoverTransition w")
      case (Stop_mapping f g)
      then have w: "f = w" "g = ''cutover''" "w = ''active'' \<or> w = ''paused''"
        by (auto simp: cutoverTransition_def split: if_splits)
      obtain v where v: "po_setStatus ports w ''cutover'' Via_cutover s = (Inr (), v)" "ledger v = ledger s"
        "status v = Some ''cutover''"
        using status_written [of s w "''cutover''" Via_cutover] read(4) by auto
      with read(2) have "ledger v = Some (current_state st)" by simp
      from moves [OF this valid assms(2)] obtain st' u where
        "\<And>md. po_transition ports next md v = (Inr (st' md), u md)"
        "\<And>md. ledger (u md) = Some next" "\<And>md. status (u md) = status v" by metis
      with assms(1) read valid v w Stop_mapping show ?thesis
        by (auto simp: cutover_step_def set_mapping_half_def run_simps portP_def Let_def keepsCopyingThroughGrace_def)
    next
      case (Already_stopped f b)
      then have w: "f = w" "w \<in> {''cutover'', ''done'', ''continuous''}"
        by (auto simp: cutoverTransition_def split: if_splits)
      from moves [OF read(2) valid assms(2)] obtain st' u where
        "\<And>md. po_transition ports next md s = (Inr (st' md), u md)"
        "\<And>md. ledger (u md) = Some next" "\<And>md. status (u md) = status s" by metis
      with assms(1) read valid w Already_stopped show ?thesis
        by (auto simp: cutover_step_def keep_mapping_half_def run_simps portP_def Let_def
            keepsCopyingThroughGrace_def)
    next
      case Cutover_refused_unknown
      with assms(1) read valid show ?thesis by (auto simp: cutover_step_def run_simps portP_def)
    qed
  qed
next
  case (read_failed st e)
  with assms(1) show ?thesis by (auto simp: cutover_step_def run_simps portP_def split: if_splits)
qed (use assms(1) in \<open>auto simp: cutover_step_def run_simps portP_def\<close>)

lemma rollback_returns:
  assumes "ledger s = Some c" and "isValidTransition c ROLLED_BACK"
    and "status s = Some w" and "w \<in> {''cutover'', ''continuous'', ''active'', ''paused''}"
  shows "\<exists>r t. performRollback now by reason None ports s = (Inr r, t) \<and> ledger t = Some ROLLED_BACK \<and>
    status t = Some (if w \<in> {''cutover'', ''continuous''} then ''active'' else w)"
proof -
  obtain st where st: "po_load ports s = (Inr (Some st), s)" "current_state st = c" using load_answers [OF assms(1)] by blast
  note w = status_answers [OF assms(3)]
  show ?thesis
  proof (cases "w \<in> {''cutover'', ''continuous''}")
    case True
    obtain v where v: "po_setStatus ports w ''active'' Via_rollback s = (Inr (), v)" "ledger v = ledger s"
      "status v = Some ''active''"
      using status_written [of s w "''active''" Via_rollback] assms(3) by auto
    with assms(1) have "ledger v = Some c" by simp
    from moves [OF this assms(2)] obtain st' u where
      "\<And>md. po_transition ports ROLLED_BACK md v = (Inr (st' md), u md)"
      "\<And>md. ledger (u md) = Some ROLLED_BACK" "\<And>md. status (u md) = status v" by (metis cutover_state.distinct)
    moreover have "rollbackTransition w = Reactivate w ''active''" using True by (auto simp: rollbackTransition_def)
    ultimately show ?thesis
      using st w v assms(2) True
      by (auto simp: performRollback_def set_mapping_half_def notify_after_def run_simps portP_def Let_def)
  next
    case False
    from moves [OF assms(1,2)] obtain st' u where
      "\<And>md. po_transition ports ROLLED_BACK md s = (Inr (st' md), u md)"
      "\<And>md. ledger (u md) = Some ROLLED_BACK" "\<And>md. status (u md) = status s" by (metis cutover_state.distinct)
    moreover have "rollbackTransition w = Leave_mapping w" using False assms(4) by (auto simp: rollbackTransition_def)
    ultimately show ?thesis
      using st w assms(2,3) False
      by (auto simp: performRollback_def keep_mapping_half_def notify_after_def run_simps portP_def Let_def)
  qed
qed

text \<open>The same calls where any of them can fail.\<close>

lemma faulty_reads:
  "po_load (faulty fs e ports) s = (x, t) \<Longrightarrow> t = s \<and> (\<forall>st. x = Inr (Some st) \<longrightarrow> ledger s = Some (current_state st))"
  "po_readStatus (faulty fs e ports) s = (y, t) \<Longrightarrow> t = s \<and> (\<forall>w. y = Inr w \<longrightarrow> status s = Some w)"
  using load_reads [of s _ t] status_reads [of s _ t]
  by (auto simp: faulty_def elim!: with_fault_run)

lemma faulty_set:
  assumes "status s \<noteq> None" and "po_setStatus (faulty fs e ports) from to via s = (x, t)"
  shows "isl x \<and> t = s \<or> ledger t = ledger s \<and> status t = Some to"
  using status_written [OF assms(1), of "from" to via] assms(2)
  by (auto simp: faulty_def elim!: with_fault_run)

lemma faulty_transition:
  assumes "ledger s = Some from_state" and "isValidTransition from_state next" and "next \<noteq> PREPARING"
    and "po_transition (faulty fs e ports) next md s = (x, t)"
  shows "isl x \<and> t = s \<or> ledger t = Some next \<and> status t = status s"
  using ledger_moves [OF assms(1-3), of md] assms(4)
  by (auto simp: faulty_def elim!: with_fault_run)

lemma faulty_finish:
  assumes "ledger v = Some c" and "isValidTransition c ROLLED_BACK"
    and "thenP (portP (po_transition (faulty fs e ports) ROLLED_BACK md)) (bindP (notify_after None) (\<lambda>n. ret (f n))) v = (out, t)"
  shows "(isl out \<and> t = v \<or> ledger t = Some ROLLED_BACK \<and> status t = status v) \<and> (\<forall>why. out \<noteq> Inl (Step_refused why))"
proof -
  obtain x u where run: "po_transition (faulty fs e ports) ROLLED_BACK md v = (x, u)" by fastforce
  with faulty_transition [OF assms(1,2) _ run] assms(3) show ?thesis
    by (cases x) (auto simp: run_simps portP_def notify_after_def)
qed

lemma faulty_rollback:
  assumes "performRollback now by reason None (faulty fs e ports) s = (out, t)"
  shows "isl out \<and> t = s \<or>
    (\<exists>c w. ledger s = Some c \<and> isValidTransition c ROLLED_BACK \<and> status s = Some w \<and>
       w \<in> {''cutover'', ''continuous'', ''active'', ''paused''} \<and> (\<forall>why. out \<noteq> Inl (Step_refused why)) \<and>
       status t = Some (if w \<in> {''cutover'', ''continuous''} then ''active'' else w) \<and>
       (ledger t = Some ROLLED_BACK \<or> isl out \<and> ledger t = ledger s))"
proof -
  let ?ports = "faulty fs e ports"
  obtain x where x: "po_load ?ports s = (x, s)" using faulty_reads(1) by (cases "po_load ?ports s") blast
  obtain y where y: "po_readStatus ?ports s = (y, s)" using faulty_reads(2) by (cases "po_readStatus ?ports s") blast
  show ?thesis
  proof (cases "\<exists>st w. x = Inr (Some st) \<and> y = Inr w \<and> isValidTransition (current_state st) ROLLED_BACK
      \<and> (\<forall>why. rollbackTransition w \<noteq> Rollback_refused why)")
    case False
    with x y assms show ?thesis
      by (auto simp: performRollback_def run_simps portP_def Let_def
          split: sum.splits option.splits if_splits rollback_transition.splits)
  next
    case True
    then obtain st w where read: "x = Inr (Some st)" "y = Inr w" "isValidTransition (current_state st) ROLLED_BACK"
      "\<forall>why. rollbackTransition w \<noteq> Rollback_refused why" by blast
    have c: "ledger s = Some (current_state st)" using faulty_reads(1) [OF x] read(1) by blast
    have w: "status s = Some w" using faulty_reads(2) [OF y] read(2) by blast
    show ?thesis
    proof (cases "rollbackTransition w")
      case (Reactivate f g)
      then have fg: "f = w" "g = ''active''" "w = ''cutover'' \<or> w = ''continuous''"
        by (auto simp: rollbackTransition_def split: if_splits)
      obtain z v where v: "po_setStatus ?ports w ''active'' Via_rollback s = (z, v)" by fastforce
      from faulty_set [OF _ v] w consider (lost) z' where "z = Inl z'" "v = s"
        | (answer_lost) z' where "z = Inl z'" "ledger v = ledger s" "status v = Some ''active''"
        | (written) "z = Inr ()" "ledger v = ledger s" "status v = Some ''active''"
        by (cases z) auto
      then show ?thesis
      proof cases
        case lost
        with assms x y read v Reactivate fg show ?thesis
          by (auto simp: performRollback_def set_mapping_half_def run_simps portP_def Let_def)
      next
        case answer_lost
        with assms x y read v Reactivate fg have "\<exists>e. out = Inl (Port_failed e)" "t = v"
          by (auto simp: performRollback_def set_mapping_half_def run_simps portP_def Let_def)
        with answer_lost c w read(3) fg show ?thesis by auto
      next
        case written
        with c have "ledger v = Some (current_state st)" by simp
        note finish = faulty_finish [OF this read(3)]
        have "\<exists>md f. thenP (portP (po_transition ?ports ROLLED_BACK md))
            (bindP (notify_after None) (\<lambda>n. ret (f n))) v = (out, t)"
          using assms x y read v Reactivate fg written(1)
          by (intro exI [of _ "no_metadata\<lparr>tm_rolledBackAt := Some now, tm_rolledBackBy := Some by, tm_rollbackReason := Some reason,
              tm_resumedSync := Some True, tm_mappingStatus := Some ''active''\<rparr>"]
              exI [of _ "\<lambda>n. \<lparr>ro_from = current_state st, ro_mapping = \<lparr>mh_from = w, mh_to = ''active'', mh_changed = True\<rparr>,
                ro_notified = n\<rparr>"])
            (simp add: performRollback_def set_mapping_half_def run_simps portP_def Let_def)
        then obtain md f where "thenP (portP (po_transition ?ports ROLLED_BACK md))
            (bindP (notify_after None) (\<lambda>n. ret (f n))) v = (out, t)" by blast
        from finish [OF this] written c w read(3) fg show ?thesis by auto
      qed
    next
      case (Leave_mapping f)
      then have fg: "f = w" "w = ''active'' \<or> w = ''paused''"
        by (auto simp: rollbackTransition_def split: if_splits)
      have "\<exists>md f. thenP (portP (po_transition ?ports ROLLED_BACK md))
          (bindP (notify_after None) (\<lambda>n. ret (f n))) s = (out, t)"
        using assms x y read Leave_mapping
        by (intro exI [of _ "no_metadata\<lparr>tm_rolledBackAt := Some now, tm_rolledBackBy := Some by, tm_rollbackReason := Some reason,
            tm_resumedSync := Some False, tm_mappingStatus := Some f\<rparr>"]
            exI [of _ "\<lambda>n. \<lparr>ro_from = current_state st, ro_mapping = \<lparr>mh_from = f, mh_to = f, mh_changed = False\<rparr>, ro_notified = n\<rparr>"])
          (simp add: performRollback_def keep_mapping_half_def run_simps portP_def Let_def)
      then obtain md f where "thenP (portP (po_transition ?ports ROLLED_BACK md))
          (bindP (notify_after None) (\<lambda>n. ret (f n))) s = (out, t)" by blast
      from faulty_finish [OF c read(3) this] c w read(3) fg show ?thesis by auto
    qed (use read(4) in simp)
  qed
qed

end

subsection \<open>The whole migration's ports keep the contract\<close>

definition ledger_state :: "string \<Rightarrow> string \<Rightarrow> discovery_domain option \<Rightarrow> tenant_db \<Rightarrow> cutover_state option" where
  "ledger_state t m d db = map_option cr_state (row_at (t, m, d) (td_cutover db))"

lemma current_state_loaded [simp]: "current_state (mapRowToStatus r) = cr_state r"
  by (simp add: current_state_def mapRowToStatus_def)

lemma transition_moves:
  assumes "row_at (t, m, None) db = Some r" and "isValidTransition (cr_state r) nxt" and "nxt \<noteq> PREPARING"
  shows "\<exists>st db'. tenant_transitionState t now t m nxt info None db = (Inr st, db') \<and>
    map_option cr_state (row_at (t, m, None) db') = Some nxt"
proof -
  have load: "loadCutoverState t m None db = Some (mapRowToStatus r)"
    by (simp add: load_by_row assms(1))
  show ?thesis
  proof (cases rule: transition_cases [of now t m nxt info None db])
    case (refused err)
    from load assms(2,3) refused show ?thesis
      by (auto simp: transitionState_def transition_refusal_def Let_def updateCutoverStatus_def)
  next
    case (moved current st e)
    then show ?thesis
      by (auto simp: tenant_transitionState_def in_tenant_def row_at_save split: option.split)
  qed
qed

interpretation whole: two_halves "migration_ports now t m actor None" "ledger_state t m None" "mapping_status t m"
proof
  show "po_load (migration_ports now t m actor None) s = (x, u) \<Longrightarrow>
      u = s \<and> (\<forall>st. x = Inr (Some st) \<longrightarrow> ledger_state t m None s = Some (current_state st))" for s x u
    by (auto simp: migration_ports_def on_cutover_def tenant_loadCutoverState_def in_tenant_def run_simps
        load_by_row ledger_state_def)
  show "\<exists>st. po_load (migration_ports now t m actor None) s = (Inr (Some st), s) \<and> current_state st = c"
    if "ledger_state t m None s = Some c" for s c
    using that
    by (auto simp: migration_ports_def on_cutover_def tenant_loadCutoverState_def in_tenant_def run_simps
        load_by_row ledger_state_def)
  show "po_readStatus (migration_ports now t m actor None) s = (Inr w, s)"
    if "mapping_status t m s = Some w" for s w
    using that
    by (auto simp: migration_ports_def on_lifecycle_def mappingPort_readStatus_def mapping_status_def)
  show "po_readStatus (migration_ports now t m actor None) s = (y, u) \<Longrightarrow>
      u = s \<and> (\<forall>w. y = Inr w \<longrightarrow> mapping_status t m s = Some w)" for s y u
    by (auto simp: migration_ports_def on_lifecycle_def mappingPort_readStatus_def mapping_status_def
        split: option.splits)
  show "\<exists>u. po_setStatus (migration_ports now t m actor None) from to via s = (Inr (), u) \<and>
      ledger_state t m None u = ledger_state t m None s \<and> mapping_status t m u = Some to"
    if "mapping_status t m s \<noteq> None" for s "from" to via
    using that apply_status [of now t m "from" to actor "via_word via" False s]
    by (fastforce simp: migration_ports_def on_lifecycle_def ledger_state_def)
  show "\<exists>st u. po_transition (migration_ports now t m actor None) nxt md s = (Inr st, u) \<and>
      ledger_state t m None u = Some nxt \<and> mapping_status t m u = mapping_status t m s"
    if "ledger_state t m None s = Some f" "isValidTransition f nxt" "nxt \<noteq> PREPARING" for s f nxt md
  proof -
    from that(1) obtain r where "row_at (t, m, None) (td_cutover s) = Some r" "f = cr_state r"
      by (auto simp: ledger_state_def)
    with transition_moves [of t m "td_cutover s" r nxt now "Metadata md"] that(2,3) obtain st c where
      "tenant_transitionState t now t m nxt (Metadata md) None (td_cutover s) = (Inr st, c)"
      "map_option cr_state (row_at (t, m, None) c) = Some nxt" by auto
    then show ?thesis
      by (simp add: migration_ports_def on_cutover_def ledger_state_def mapping_status_def)
  qed
qed

lemmas whole_step = whole.cutover_step_halves and whole_rollback = whole.faulty_rollback
  and whole_rollback_again = whole.rollback_returns

subsection \<open>What the steps keep\<close>

context effect
begin

lemma within_portP: "within R m \<Longrightarrow> within R (portP m)"
  by (auto simp: within_def portP_def split: prod.splits sum.splits) (metis snd_conv)+

lemma within_cutover_step:
  assumes "within R (po_load ports)" and "within R (po_readStatus ports)"
    and "\<And>nxt md. within R (po_transition ports nxt md)"
    and "\<And>f. within R (po_setStatus ports f ''cutover'' Via_cutover)"
  shows "within R (cutover_step ports nxt md)"
proof -
  have stop: "within R (po_setStatus ports f g Via_cutover)" if "cutoverTransition w = Stop_mapping f g" for w f g
    using that assms(4) by (auto simp: cutoverTransition_def split: if_splits)
  show ?thesis
    unfolding cutover_step_def set_mapping_half_def Let_def
    by (auto intro!: within_structure within_portP assms(1-3)
        split: option.split cutover_transition.split) (erule stop)+
qed

end

lemma sound_step:
  "within (keeping (sound_tables t)) (cutover_step (migration_ports now t m actor None) nxt md)"
proof (rule keep.within_cutover_step)
  have on: "within (keeping (sound_tables t)) (on_cutover c)" for c :: "(cutover_db, store_error, 'a) prog"
  proof (rule withinI)
    fix s
    show "keeping (sound_tables t) s (snd (on_cutover c s))"
      by (cases "c (td_cutover s)"; cases "fst (c (td_cutover s))")
        (simp_all add: keeping_def on_cutover_def sound_frame(3))
  qed
  show "within (keeping (sound_tables t)) (po_load (migration_ports now t m actor None))"
    "within (keeping (sound_tables t)) (po_transition (migration_ports now t m actor None) nxt md)" for nxt md
    by (simp_all add: migration_ports_def on)
  show "within (keeping (sound_tables t)) (po_readStatus (migration_ports now t m actor None))"
    by (auto simp: within_def keeping_def migration_ports_def on_lifecycle_def mappingPort_readStatus_def
        split: option.splits)
  show "within (keeping (sound_tables t)) (po_setStatus (migration_ports now t m actor None) f ''cutover'' Via_cutover)" for f
  proof (rule withinI)
    fix s
    have "''cutover'' \<in> set PATH_STATES" by (simp add: PATH_STATES_def)
    moreover obtain u where "applyMappingStatusChange now t m f ''cutover'' actor ''cutover'' False None s = (Inr (), u)"
      "sound_tables t s \<Longrightarrow> ''cutover'' \<in> set PATH_STATES \<Longrightarrow> sound_tables t u"
      by (rule apply_status [of now t m f "''cutover''" actor "''cutover''" False s]) blast
    ultimately show "keeping (sound_tables t) s
        (snd (po_setStatus (migration_ports now t m actor None) f ''cutover'' Via_cutover s))"
      by (simp add: keeping_def migration_ports_def on_lifecycle_def)
  qed
qed

lemma apply_path:
  assumes "fst (pathPort_readStatus t m d db) = Inr w"
  shows "\<exists>v. applyPathStatusChange now t m d from to actor via None db = (Inr (), v) \<and>
    td_cutover v = td_cutover db \<and> path_state m d v = Some to"
proof -
  have "List.find (is_mapping t m) (td_mappings db) \<noteq> None"
    using assms by (auto simp: pathPort_readStatus_def readTheMigration_def split: option.splits)
  then obtain status phases where found: "readTheMigration t m (move_path now t m to d db) = Some (status, phases)"
    by (auto simp: readTheMigration_def)
  obtain r where "path_at m d (move_path now t m to d db) = Some r" "pl_state r = to"
    using path_at_move [of m d now t to db] by blast
  then have "path_state m d (move_path now t m to d db) = Some to" by (simp add: path_state_def)
  with found show ?thesis
    by (auto simp: applyPathStatusChange_def in_tenant_def writeTheRollUp_def run_simps run_hook_def Let_def
        split: option.split)
qed

subsection \<open>Properties\<close>

text \<open>
  C14: whatever fails, the rollback of a whole migration leaves nothing that a rollback does not finish.
  Let any of its four calls be lost, or its answer be. A rollback that is refused has written nothing.
  The ledger is never at ROLLED_BACK with the migration still stopped: either nothing was written; or the
  migration is back at \<open>active\<close>, or where it was before its cutover, and the ledger stands at ROLLED_BACK
  too; or it does not yet, the call threw, and one that reaches the database sets it there. A rollback
  that returns has done both.
\<close>
theorem a_rollback_can_always_be_finished:
  assumes "performRollback now by reason None (faulty fs e (migration_ports now t m actor None)) db = (out, db')"
  shows "(\<forall>why. out = Inl (Step_refused why) \<longrightarrow> db' = db) \<and>
    (isl out \<and> db' = db \<or>
     (\<exists>c w. ledger_state t m None db = Some c \<and> isValidTransition c ROLLED_BACK \<and> mapping_status t m db = Some w \<and>
        mapping_status t m db' = Some (if w \<in> {''cutover'', ''continuous''} then ''active'' else w) \<and>
        mapping_status t m db' \<in> {Some ''active'', Some ''paused''} \<and>
        (ledger_state t m None db' = Some ROLLED_BACK \<or>
         isl out \<and> ledger_state t m None db' = Some c \<and>
         (\<forall>later who why. \<exists>r db''. performRollback later who why None (migration_ports later t m actor None) db' = (Inr r, db'') \<and>
            ledger_state t m None db'' = Some ROLLED_BACK \<and> mapping_status t m db'' = mapping_status t m db'))))"
proof (cases "isl out \<and> db' = db")
  case False
  with whole_rollback [OF assms] have "\<exists>c w. ledger_state t m None db = Some c \<and> isValidTransition c ROLLED_BACK \<and>
    mapping_status t m db = Some w \<and> w \<in> {''cutover'', ''continuous'', ''active'', ''paused''} \<and>
    (\<forall>why. out \<noteq> Inl (Step_refused why)) \<and>
    mapping_status t m db' = Some (if w \<in> {''cutover'', ''continuous''} then ''active'' else w) \<and>
    (ledger_state t m None db' = Some ROLLED_BACK \<or> isl out \<and> ledger_state t m None db' = ledger_state t m None db)"
    by (simp only: simp_thms)
  then obtain c w where left: "ledger_state t m None db = Some c" "isValidTransition c ROLLED_BACK"
    "mapping_status t m db = Some w" "w \<in> {''cutover'', ''continuous'', ''active'', ''paused''}"
    "\<forall>why. out \<noteq> Inl (Step_refused why)"
    "mapping_status t m db' = Some (if w \<in> {''cutover'', ''continuous''} then ''active'' else w)"
    "ledger_state t m None db' = Some ROLLED_BACK \<or> isl out \<and> ledger_state t m None db' = Some c"
    by (elim exE conjE) (rule that, simp_all)
  let ?v = "if w \<in> {''cutover'', ''continuous''} then ''active'' else w"
  have v: "?v \<in> {''cutover'', ''continuous'', ''active'', ''paused''}" "?v \<notin> {''cutover'', ''continuous''}"
    "?v \<in> {''active'', ''paused''}" using left(4) by auto
  have again: "\<exists>r db''. performRollback later who why None (migration_ports later t m actor None) db' = (Inr r, db'') \<and>
      ledger_state t m None db'' = Some ROLLED_BACK \<and> mapping_status t m db'' = mapping_status t m db'"
    if "ledger_state t m None db' = Some c" for later who why
    using whole_rollback_again [OF that left(2,6) v(1), of later who why later actor] v(2) left(6) by simp
  have "mapping_status t m db' \<in> {Some ''active'', Some ''paused''}" unfolding left(6) using v(3) by blast
  moreover from left(7) again have "ledger_state t m None db' = Some ROLLED_BACK \<or>
      isl out \<and> ledger_state t m None db' = Some c \<and>
      (\<forall>later who why. \<exists>r db''. performRollback later who why None (migration_ports later t m actor None) db' = (Inr r, db'') \<and>
         ledger_state t m None db'' = Some ROLLED_BACK \<and> mapping_status t m db'' = mapping_status t m db')"
    by blast
  ultimately show ?thesis using left(1-3,5,6) by blast
qed simp

text \<open>The migration of the example, executed and in its grace period.\<close>

definition in_grace :: "discovery_domain option \<Rightarrow> string \<Rightarrow> tenant_db" where
  "in_grace domain status = set_status ''t'' ''m'' status mail_cut_over\<lparr>td_cutover :=
     \<lparr>cd_states = [inserted_row 3 ((initial_status 3 ''t'' ''m'' domain None None)
        \<lparr>cs_state := GRACE_PERIOD, cs_phase := GRACE\<rparr>)], cd_events = []\<rparr>\<rparr>"

definition approved :: tenant_db where
  "approved = mail_cut_over\<lparr>td_cutover := \<lparr>cd_states = [inserted_row 3 ((initial_status 3 ''t'' ''m'' None None None)
     \<lparr>cs_state := APPROVED\<rparr>)], cd_events = []\<rparr>\<rparr>"

text \<open>The second write is lost, and the rollback is run again.\<close>

definition ledger_lost :: port_faults where
  "ledger_lost = \<lparr>pf_load = Answered, pf_transition = Lost, pf_readStatus = Answered, pf_setStatus = Answered\<rparr>"

theorem a_rollback_can_always_be_finished_witness:
  "let half = snd (performRollback 9 ''owner'' ''mail bounced'' None
        (faulty ledger_lost (Ledger_error Other_tenant) (migration_ports 9 ''t'' ''m'' ''owner'' None)) (in_grace None ''cutover''))
   in mapping_status ''t'' ''m'' half = Some ''active'' \<and> ledger_state ''t'' ''m'' None half = Some GRACE_PERIOD \<and>
      ledger_state ''t'' ''m'' None (snd (performRollback 10 ''owner'' ''again'' None
        (migration_ports 10 ''t'' ''m'' ''owner'' None) half)) = Some ROLLED_BACK"
proof -
  obtain out half where run: "performRollback 9 ''owner'' ''mail bounced'' None
      (faulty ledger_lost (Ledger_error Other_tenant) (migration_ports 9 ''t'' ''m'' ''owner'' None)) (in_grace None ''cutover'')
      = (out, half)"
    by fastforce
  have "mapping_status ''t'' ''m'' (snd (performRollback 9 ''owner'' ''mail bounced'' None
      (faulty ledger_lost (Ledger_error Other_tenant) (migration_ports 9 ''t'' ''m'' ''owner'' None)) (in_grace None ''cutover'')))
      = Some ''active''"
    "ledger_state ''t'' ''m'' None (snd (performRollback 9 ''owner'' ''mail bounced'' None
      (faulty ledger_lost (Ledger_error Other_tenant) (migration_ports 9 ''t'' ''m'' ''owner'' None)) (in_grace None ''cutover'')))
      = Some GRACE_PERIOD"
    "mapping_status ''t'' ''m'' (in_grace None ''cutover'') = Some ''cutover''"
    by code_simp+
  with run have half: "mapping_status ''t'' ''m'' half = Some ''active''" "ledger_state ''t'' ''m'' None half = Some GRACE_PERIOD"
    "half \<noteq> in_grace None ''cutover''" by auto
  with a_rollback_can_always_be_finished [OF run] have "\<forall>later who why. \<exists>r db''. performRollback later who why None
      (migration_ports later ''t'' ''m'' ''owner'' None) half = (Inr r, db'') \<and>
      ledger_state ''t'' ''m'' None db'' = Some ROLLED_BACK \<and> mapping_status ''t'' ''m'' db'' = Some ''active''"
    by auto
  then obtain r db'' where "performRollback 10 ''owner'' ''again'' None (migration_ports 10 ''t'' ''m'' ''owner'' None) half = (Inr r, db'')"
    "ledger_state ''t'' ''m'' None db'' = Some ROLLED_BACK" by blast
  with half run show ?thesis by (auto simp: Let_def)
qed

text \<open>
  C11: executing a whole migration's cutover ends its source's authority, or does nothing.
  If \<open>enterCutover\<close> throws, the database is as it was. If it returns, the ledger moved from
  APPROVED to CUTOVER_IN_PROGRESS, the grace period copies exactly if the migration was
  \<open>active\<close>, and whatever a pass reads from then on says the source decides for no data type.
\<close>
theorem entering_a_cutover_ends_the_authority:
  assumes "enterCutover now by (migration_ports now t m actor None) db = (out, db')"
    and "tables_of t db" and "known_words db"
  shows "case out of
      Inl e \<Rightarrow> db' = db
    | Inr r \<Rightarrow> so_from r = APPROVED \<and> ledger_state t m None db' = Some CUTOVER_IN_PROGRESS \<and>
        so_copiesThroughGrace r = (mapping_status t m db = Some ''active'') \<and>
        (\<forall>later d. \<not> sourceStillDecides (map_option mp_phases (readPathPhases later t m db')) d)"
proof (cases out)
  case (Inl e)
  with whole_step [OF assms(1) [unfolded enterCutover_def]] show ?thesis by simp
next
  case (Inr r)
  with whole_step [OF assms(1) [unfolded enterCutover_def]]
  have r: "isValidTransition (so_from r) CUTOVER_IN_PROGRESS" "ledger_state t m None db' = Some CUTOVER_IN_PROGRESS"
    "mapping_status t m db = Some (mh_from (so_mapping r))" "mapping_status t m db' = Some (mh_to (so_mapping r))"
    "isAfterCutover (mh_to (so_mapping r))"
    "so_copiesThroughGrace r = (mh_from (so_mapping r) = ''active'')"
    by (auto simp: isAfterCutover_def)
  have "sound_tables t db'"
    using withinD [OF sound_step assms(1) [unfolded enterCutover_def]] assms(2,3)
    by (simp add: keeping_def sound_tables_def)
  with r(4,5) have "\<not> sourceStillDecides (map_option mp_phases (readPathPhases later t m db')) d" for later d
    by (intro stored_cutover_no_authority) (simp_all add: sound_tables_def)
  moreover have "so_from r = APPROVED"
    using r(1) by (cases "so_from r") (simp_all add: isValidTransition_def)
  ultimately show ?thesis using r Inr by simp
qed

theorem entering_a_cutover_ends_the_authority_witness:
  "\<not> sourceStillDecides (map_option mp_phases (readPathPhases 9 ''t'' ''m''
     (snd (enterCutover 9 ''cli'' (migration_ports 9 ''t'' ''m'' ''owner'' None) approved)))) File"
proof -
  obtain out db' where run: "enterCutover 9 ''cli'' (migration_ports 9 ''t'' ''m'' ''owner'' None) approved = (out, db')"
    by fastforce
  have "tables_of ''t'' approved" "known_words approved" by code_simp+
  note entered = entering_a_cutover_ends_the_authority [OF run this]
  have "\<not> isl (fst (enterCutover 9 ''cli'' (migration_ports 9 ''t'' ''m'' ''owner'' None) approved))"
    by code_simp
  with entered run show ?thesis by (auto split: sum.splits)
qed

text \<open>
  C21: a data type's rollback can stop halfway. Take any data type with no cutover ledger of its own,
  whose migration's ledger has an edge to ROLLED_BACK and whose path reads as cut over. Its rollback
  writes the path back to \<open>active\<close>, and is then refused by the ledger, which stays as it was: the call
  throws, with one of its two halves written.
\<close>
theorem a_data_types_rollback_stops_halfway:
  assumes "ledger_state t m (Some d) db = None"
    and "ledger_state t m None db = Some c" and "isValidTransition c ROLLED_BACK"
    and "fst (pathPort_readStatus t m d db) = Inr w" and "w \<in> {''cutover'', ''continuous''}"
    and "performRollback now by reason None (data_type_ports now t m d actor None) db = (out, db')"
  shows "(\<exists>why. out = Inl (Port_failed (Ledger_error (Refused_to_leave why)))) \<and>
    td_cutover db' = td_cutover db \<and> path_state m d db' = Some ''active''"
proof -
  from assms(2) obtain r where r: "row_at (t, m, None) (td_cutover db) = Some r" "cr_state r = c"
    by (auto simp: ledger_state_def)
  have load: "loadCutoverState t m (Some d) (td_cutover db) = Some (mapRowToStatus r)"
    using assms(1) r(1) by (simp add: load_by_row ledger_state_def)
  have whole: "cs_domain (mapRowToStatus r) = None" "cs_state (mapRowToStatus r) = c"
    using row_at_key [OF r(1)] r(2) by (simp_all add: mapRowToStatus_def row_key_def)
  obtain why where why: "leavingTheWholeLedgerRefusal c ROLLED_BACK = Some why" by (cases "c \<in> set CUTOVER_UNDER_WAY") (simp_all add: leavingTheWholeLedgerRefusal_def)
  have refused: "po_transition (data_type_ports now t m d actor None) ROLLED_BACK md v =
      (Inl (Ledger_error (Refused_to_leave why)), v)" if "td_cutover v = td_cutover db" for md v
    using that load whole why
    by (simp add: data_type_ports_def on_cutover_def tenant_transitionState_def in_tenant_def transitionState_def
        transition_refusal_def)
  have reads: "po_load (data_type_ports now t m d actor None) db = (Inr (Some (mapRowToStatus r)), db)"
    "po_readStatus (data_type_ports now t m d actor None) db = (Inr w, db)"
    using load assms(4)
    by (auto simp: data_type_ports_def on_cutover_def on_lifecycle_def tenant_loadCutoverState_def in_tenant_def run_simps
        pathPort_readStatus_def Let_def split: option.splits prod.splits)
  obtain v where v: "applyPathStatusChange now t m d w ''active'' actor ''rollback'' None db = (Inr (), v)"
    "td_cutover v = td_cutover db" "path_state m d v = Some ''active''"
    using apply_path [of t m d db w] assms(4) by blast
  then have "po_setStatus (data_type_ports now t m d actor None) w ''active'' Via_rollback db = (Inr (), v)"
    by (simp add: data_type_ports_def on_lifecycle_def)
  moreover have "rollbackTransition w = Reactivate w ''active''" using assms(5) by (auto simp: rollbackTransition_def)
  ultimately show ?thesis
    using assms(3,6) reads refused [OF v(2)] v(2,3) r(2)
    by (auto simp: performRollback_def set_mapping_half_def run_simps portP_def Let_def)
qed

theorem a_data_types_rollback_stops_halfway_witness:
  "path_state ''m'' Email (snd (performRollback 9 ''owner'' ''mail bounced'' None
      (data_type_ports 9 ''t'' ''m'' Email ''owner'' None) (in_grace None ''active''))) = Some ''active''"
proof -
  obtain out db' where run: "performRollback 9 ''owner'' ''mail bounced'' None
      (data_type_ports 9 ''t'' ''m'' Email ''owner'' None) (in_grace None ''active'') = (out, db')" by fastforce
  have "ledger_state ''t'' ''m'' (Some Email) (in_grace None ''active'') = None"
    "ledger_state ''t'' ''m'' None (in_grace None ''active'') = Some GRACE_PERIOD"
    "isValidTransition GRACE_PERIOD ROLLED_BACK"
    "fst (pathPort_readStatus ''t'' ''m'' Email (in_grace None ''active'')) = Inr ''cutover''"
    by code_simp+
  from a_data_types_rollback_stops_halfway [OF this _ run] run show ?thesis by simp
qed

end
