(* ===== verification/Failure_Category.thy ===== *)
theory Failure_Category
  imports Ports
begin

text \<open>
  \<open>classifyFailure\<close> (\<open>packages/shared/src/failure-category.ts\<close>): which kind of failure a
  message is. The rules are the code's own, in their order, as values of the small language
  of patterns they are written in; \<open>finds\<close> is the search a case-insensitive regular
  expression makes, between two word boundaries. Characters are bytes, so the wider
  whitespace and letters of Unicode are outside the model.
\<close>

subsection \<open>Patterns\<close>

datatype re_class = Space | Non_word | Separator

datatype re =
  Word_of string
| Maybe re_class
| Some_of re_class
| Any_of re_class
| In_order "re list"
| One_of "re list"

definition code_of :: "char \<Rightarrow> nat" where
  "code_of c = of_char c"

definition lower :: "char \<Rightarrow> nat" where
  "lower c = (let n = code_of c in if 65 \<le> n \<and> n \<le> 90 then n + 32 else n)"

definition is_word :: "char \<Rightarrow> bool" where
  "is_word c \<longleftrightarrow> is_scheme_char c \<or> c = CHR ''_''"

definition is_space :: "char \<Rightarrow> bool" where
  "is_space c \<longleftrightarrow> (let n = code_of c in (9 \<le> n \<and> n \<le> 13) \<or> n = 32 \<or> n = 160)"

fun in_class :: "re_class \<Rightarrow> char \<Rightarrow> bool" where
  "in_class Space c = is_space c"
| "in_class Non_word c = (\<not> is_word c)"
| "in_class Separator c = (is_space c \<or> c = CHR ''_'' \<or> c = CHR ''-'')"

fun after_word :: "string \<Rightarrow> string \<Rightarrow> string list" where
  "after_word [] s = [s]"
| "after_word (w # ws) [] = []"
| "after_word (w # ws) (c # s) = (if lower w = lower c then after_word ws s else [])"

fun after_any :: "re_class \<Rightarrow> string \<Rightarrow> string list" where
  "after_any k [] = [[]]"
| "after_any k (c # s) = (c # s) # (if in_class k c then after_any k s else [])"

text \<open>What can be left of a text after a pattern has matched at its start.\<close>

fun after_re :: "re \<Rightarrow> string \<Rightarrow> string list"
  and after_seq :: "re list \<Rightarrow> string \<Rightarrow> string list"
  and after_alt :: "re list \<Rightarrow> string \<Rightarrow> string list" where
  "after_re (Word_of w) s = after_word w s"
| "after_re (Maybe k) s = s # (case s of [] \<Rightarrow> [] | c # t \<Rightarrow> if in_class k c then [t] else [])"
| "after_re (Some_of k) s = (case s of [] \<Rightarrow> [] | c # t \<Rightarrow> if in_class k c then after_any k t else [])"
| "after_re (Any_of k) s = after_any k s"
| "after_re (In_order rs) s = after_seq rs s"
| "after_re (One_of rs) s = after_alt rs s"
| "after_seq [] s = [s]"
| "after_seq (r # rs) s = concat (map (after_seq rs) (after_re r s))"
| "after_alt [] s = []"
| "after_alt (r # rs) s = after_re r s @ after_alt rs s"

definition word_at :: "char option \<Rightarrow> bool" where
  "word_at c \<longleftrightarrow> (case c of None \<Rightarrow> False | Some c \<Rightarrow> is_word c)"

definition first_char :: "string \<Rightarrow> char option" where
  "first_char s = (case s of [] \<Rightarrow> None | c # _ \<Rightarrow> Some c)"

definition last_taken :: "char option \<Rightarrow> string \<Rightarrow> string \<Rightarrow> char option" where
  "last_taken before s rest =
     (if length rest < length s then Some (s ! (length s - length rest - 1)) else before)"

definition matches_here :: "re \<Rightarrow> char option \<Rightarrow> string \<Rightarrow> bool" where
  "matches_here r before s \<longleftrightarrow> word_at before \<noteq> word_at (first_char s) \<and>
     list_ex (\<lambda>rest. word_at (last_taken before s rest) \<noteq> word_at (first_char rest)) (after_re r s)"

text \<open>\<open>/\b(..)\b/i.test(message)\<close>: the pattern between word boundaries, anywhere.\<close>

fun finds_from :: "re \<Rightarrow> char option \<Rightarrow> string \<Rightarrow> bool" where
  "finds_from r before [] = matches_here r before []"
| "finds_from r before (c # s) = (matches_here r before (c # s) \<or> finds_from r (Some c) s)"

definition finds :: "re \<Rightarrow> string \<Rightarrow> bool" where
  "finds r message = finds_from r None message"

subsection \<open>The rules\<close>

record failure_rule =
  ru_category :: failure_category
  ru_test :: re
  ru_whenSource :: "failure_category option"

definition words :: "string list \<Rightarrow> re list" where
  "words ws = map Word_of ws"

text \<open>Words with whitespace between them.\<close>

fun phrase :: "string list \<Rightarrow> re list" where
  "phrase [] = []"
| "phrase [w] = [Word_of w]"
| "phrase (w # ws) = Word_of w # Some_of Space # phrase ws"

definition spaced :: "string list \<Rightarrow> re" where
  "spaced ws = In_order (phrase ws)"

definition RULES :: "failure_rule list" where
  "RULES =
    [\<lparr>ru_category = Rate_limited,
      ru_test = One_of (words [''userratelimitexceeded'', ''ratelimitexceeded'']),
      ru_whenSource = None\<rparr>,
     \<lparr>ru_category = Quota_exceeded,
      ru_test = One_of
        [spaced [''daily'', ''limit''], In_order [Word_of ''quota'', Any_of Space, Word_of ''exceeded''],
         Word_of ''quotaexceeded'', spaced [''over'', ''quota''], Word_of ''dailylimitexceeded'',
         spaced [''byte'', ''per'', ''day''], spaced [''bytes'', ''per'', ''day''], spaced [''daily'', ''ceiling'']],
      ru_whenSource = None\<rparr>,
     \<lparr>ru_category = Rate_limited,
      ru_test = One_of
        [Word_of ''429'',
         In_order [Word_of ''rate'', Maybe Separator, One_of (words [''limit'', ''limited'', ''limiting''])],
         spaced [''too'', ''many'', ''requests''], Word_of ''throttled'', Word_of ''throttling'',
         spaced [''try'', ''again'', ''later''], Word_of ''backoff''],
      ru_whenSource = None\<rparr>,
     \<lparr>ru_category = Auth_expired,
      ru_test = One_of
        [Word_of ''invalid_grant'', Word_of ''invalid_token'',
         In_order [Word_of ''token'', Maybe Separator, Word_of ''expired''],
         In_order [Word_of ''expired'', Maybe Separator, Word_of ''token''],
         Word_of ''authenticationfailed'', spaced [''authentication'', ''failed''],
         Word_of ''unauthorized'', Word_of ''unauthorised'', Word_of ''401'',
         Word_of ''invalid_client'', Word_of ''revoked''],
      ru_whenSource = None\<rparr>,
     \<lparr>ru_category = Target_refused,
      ru_test = One_of
        [spaced [''status'', ''413''], spaced [''request'', ''entity'', ''too'', ''large''],
         spaced [''payload'', ''too'', ''large''], spaced [''content'', ''too'', ''large'']],
      ru_whenSource = Some Source_refused\<rparr>,
     \<lparr>ru_category = Network,
      ru_test = One_of
        [Word_of ''econnrefused'', Word_of ''econnreset'', Word_of ''enotfound'', Word_of ''etimedout'',
         Word_of ''ehostunreach'', Word_of ''enetunreach'', Word_of ''epipe'', spaced [''socket'', ''hang'', ''up''],
         spaced [''network'', ''error''], Word_of ''dns'', Word_of ''getaddrinfo'', Word_of ''tls'',
         Word_of ''certificate''],
      ru_whenSource = None\<rparr>,
     \<lparr>ru_category = Format_refused,
      ru_test = One_of
        [Word_of ''415'', spaced [''unsupported'', ''media'', ''type''],
         In_order [Word_of ''invalid'', Some_of Space, Word_of ''file'', Any_of Space, Word_of ''name''],
         spaced [''reserved'', ''word''],
         In_order (phrase [''not'', ''an'', ''allowed'', ''file''] @ [Any_of Space, Word_of ''type'']),
         In_order (phrase [''forbidden'', ''file''] @ [Any_of Space, One_of (words [''name'', ''type''])]),
         spaced [''blacklisted'', ''file'']],
      ru_whenSource = Some Source_refused\<rparr>,
     \<lparr>ru_category = Format_refused,
      ru_test = One_of
        [In_order [One_of (words [''forbidden'', ''forbiddenexception'']), Some_of Non_word,
           spaced [''invalid'', ''path'']],
         spaced [''forbidden'', ''file'', ''or'', ''folder'', ''name''],
         spaced [''forbidden'', ''prefix'', ''for'', ''file'', ''or'', ''folder'', ''names''],
         spaced [''not'', ''allowed'', ''inside'', ''a'', ''file'', ''or'', ''folder'', ''name''],
         spaced [''filenames'', ''must'', ''not'', ''end'', ''with'']],
      ru_whenSource = Some Source_refused\<rparr>,
     \<lparr>ru_category = Target_refused,
      ru_test = One_of
        [Word_of ''403'', Word_of ''409'', Word_of ''412'', Word_of ''422'', Word_of ''507'',
         spaced [''status'', ''500''], spaced [''internal'', ''server'', ''error''], Word_of ''forbidden'',
         spaced [''permission'', ''denied''],
         In_order [Word_of ''insufficient'', Some_of Space, One_of (words [''permission'', ''storage'', ''quota''])],
         In_order [Word_of ''read'', Maybe Separator, Word_of ''only''], spaced [''refused'', ''the''],
         Word_of ''rejected'', Word_of ''conflict'', spaced [''precondition'', ''failed''],
         spaced [''mailbox'', ''full''], spaced [''over'', ''capacity'']],
      ru_whenSource = Some Source_refused\<rparr>]"

subsection \<open>Classifying\<close>

definition classifyFailure ::
    "string option \<Rightarrow> failure_side option \<Rightarrow> failure_category option \<Rightarrow> failure_category" where
  "classifyFailure message side stated =
     (case stated of Some c \<Rightarrow> c
      | None \<Rightarrow>
        (case message of None \<Rightarrow> Unknown_failure
         | Some text \<Rightarrow>
             if list_all is_space text then Unknown_failure
             else case List.find (\<lambda>r. finds (ru_test r) text) RULES of
                    None \<Rightarrow> Unknown_failure
                  | Some r \<Rightarrow>
                      (case ru_whenSource r of
                         Some c \<Rightarrow> if side = Some Source_side then c else ru_category r
                       | None \<Rightarrow> ru_category r)))"

lemma found_rule: "List.find p RULES = Some r \<Longrightarrow> r \<in> set RULES"
  by (blast dest: find_SomeD)

lemma rule_categories:
  "\<forall>r \<in> set RULES. ru_category r \<in> {Rate_limited, Quota_exceeded, Auth_expired, Target_refused, Network, Format_refused} \<and>
     (ru_category r \<in> {Target_refused, Format_refused} \<longleftrightarrow> ru_whenSource r = Some Source_refused) \<and>
     (ru_whenSource r = None \<or> ru_whenSource r = Some Source_refused)"
  by (simp add: RULES_def)

subsection \<open>Properties\<close>

text \<open>
  a failure on the source's side is never read as the target's refusal. Unless the error
  states its own kind, a message raised reading the source is classified by what went wrong
  with the connection or as the source's refusal, never as the target's or as a refused
  format; the kinds only the product itself decides (a policy, a size) are never guessed from
  a message; and a stated kind is always kept.
\<close>
theorem source_failures_never_blame_the_target:
  "classifyFailure message (Some Source_side) None \<notin> {Target_refused, Format_refused} \<and>
   classifyFailure message side None \<notin> {Policy_refused, Too_large} \<and>
   classifyFailure message side (Some c) = c \<and>
   classifyFailure message (Some Target_side) None \<noteq> Source_refused \<and>
   classifyFailure message None None \<noteq> Source_refused"
  by (auto simp: classifyFailure_def split: option.splits if_splits
      dest!: found_rule rule_categories [THEN bspec])

text \<open>
  The order of the rules decides. A quota named in a refusal is a quota, a rate limit
  named in a 403 is a rate limit, a name the target will not store is a refused format, and
  only a refusal that says nothing more is the target's; matching is on whole words, so a
  number or a word inside a longer one counts for nothing.
\<close>
theorem rules_in_order:
  "classifyFailure (Some ''403 Over  Quota'') None None = Quota_exceeded \<and>
   classifyFailure (Some ''403: 429'') None None = Rate_limited \<and>
   classifyFailure (Some ''Forbidden: invalid path'') None None = Format_refused \<and>
   classifyFailure (Some ''403 no'') None None = Target_refused \<and>
   classifyFailure (Some ''403 no'') (Some Source_side) None = Source_refused \<and>
   classifyFailure (Some ''14030'') None None = Unknown_failure \<and>
   classifyFailure (Some ''  '') None None = Unknown_failure"
  by code_simp

end
