(* ===== verification/Ledger_Table.thy ===== *)
theory Ledger_Table
  imports Failure_Category "HOL-Library.List_Lexorder" "HOL-Library.Product_Lexorder" "HOL-Library.Char_ord"
begin

text \<open>
  The idempotency ledger of items (\<open>packages/ledger/src/ledger.ts\<close>): the table \<open>item\<close> as a list
  of rows and one function per method of \<open>PgLedger\<close> on it. A row is unique on (tenant, mapping,
  natural key hash); an \<open>INSERT .. ON CONFLICT DO NOTHING\<close> checks that key. Methods run one
  after another, so the paths for two writers at once are the ones a single writer can reach.
  The instant of a statement (\<open>now()\<close>) is an argument. Display names and the columns of
  the confirmation run are left out.
\<close>

subsection \<open>The row\<close>

record item_row =
  it_tenant_id :: string
  it_mapping_id :: string
  it_domain :: discovery_domain
  it_collection :: string
  it_natural_key :: string
  it_display_name :: "string option"
  it_natural_key_hash :: string
  it_content_hash :: "string option"
  it_size_bytes :: "nat option"
  it_target_ref :: "string option"
  it_status :: item_status
  it_source_version :: "string option"
  it_target_version :: "string option"
  it_source_ref_href :: "string option"
  it_repaired :: "string option"
  it_absent_passes :: nat
  it_deletion_reported_at :: "timestamp option"
  it_deletion_trashed_at :: "timestamp option"
  it_deletion_acknowledged_at :: "timestamp option"
  it_deletion_applied_at :: "timestamp option"
  it_moved_to_collection :: "string option"
  it_moved_to_natural_key_hash :: "string option"
  it_moved_by_identity :: bool
  it_moved_recorded_at :: "timestamp option"
  it_move_acknowledged_at :: "timestamp option"
  it_superseded_by :: "string option"
  it_superseded_at :: "timestamp option"
  it_attempt_count :: nat
  it_parked_at :: "timestamp option"
  it_last_error :: "string option"
  it_last_error_category :: "failure_category option"
  it_first_seen_at :: timestamp
  it_last_synced_at :: "timestamp option"
  it_updated_at :: timestamp

type_synonym items = "item_row list"

datatype ledger_error = No_row_to_update | Neither_inserted_nor_found

text \<open>The tenant, the mapping and the data type every statement of one pass names.\<close>

record ledger_scope =
  sp_tenant :: string
  sp_mapping :: string
  sp_domain :: discovery_domain

definition of_mapping :: "string \<Rightarrow> string \<Rightarrow> item_row \<Rightarrow> bool" where
  "of_mapping tenant mapping r \<longleftrightarrow> it_tenant_id r = tenant \<and> it_mapping_id r = mapping"

definition in_scope :: "ledger_scope \<Rightarrow> item_row \<Rightarrow> bool" where
  "in_scope sc r \<longleftrightarrow> of_mapping (sp_tenant sc) (sp_mapping sc) r \<and> it_domain r = sp_domain sc"

definition at_key :: "ledger_scope \<Rightarrow> string \<Rightarrow> item_row \<Rightarrow> bool" where
  "at_key sc h r \<longleftrightarrow> in_scope sc r \<and> it_natural_key_hash r = h"

definition item_key :: "item_row \<Rightarrow> string \<times> string \<times> string" where
  "item_key r = (it_tenant_id r, it_mapping_id r, it_natural_key_hash r)"

definition live_status :: "item_status \<Rightarrow> bool" where
  "live_status st \<longleftrightarrow> st = Copied \<or> st = Updated"

subsection \<open>A row as a record\<close>

definition mapRowToRecord :: "item_row \<Rightarrow> ledger_record" where
  "mapRowToRecord r =
     \<lparr>lr_tenantId = it_tenant_id r, lr_mappingId = it_mapping_id r, lr_itemType = it_domain r,
      lr_naturalKeyHash = it_natural_key_hash r,
      lr_naturalKey = non_empty (Some (it_natural_key r)),
      lr_displayName = non_empty (it_display_name r),
      lr_repaired = None,
      lr_contentHash = (case it_content_hash r of Some c \<Rightarrow> c | None \<Rightarrow> []),
      lr_targetId = (case it_target_ref r of Some i \<Rightarrow> i | None \<Rightarrow> []),
      lr_createdAt = it_first_seen_at r, lr_sizeBytes = it_size_bytes r,
      lr_status = Some (it_status r),
      lr_supersededByNaturalKeyHash = non_empty (it_superseded_by r),
      lr_collection = non_empty (Some (it_collection r)),
      lr_targetVersion = it_target_version r,
      lr_sourceRef = non_empty (it_source_ref_href r),
      lr_absentPasses = Some (it_absent_passes r),
      lr_deletionReportedAt = it_deletion_reported_at r, lr_deletionTrashedAt = it_deletion_trashed_at r,
      lr_deletionAcknowledgedAt = it_deletion_acknowledged_at r,
      lr_deletionAppliedAt = it_deletion_applied_at r,
      lr_movedToCollection = non_empty (it_moved_to_collection r),
      lr_movedToNaturalKeyHash = non_empty (it_moved_to_natural_key_hash r),
      lr_movedByIdentity = it_moved_by_identity r, lr_movedRecordedAt = it_moved_recorded_at r,
      lr_moveAcknowledgedAt = it_move_acknowledged_at r,
      lr_attemptCount = Some (it_attempt_count r), lr_parkedAt = it_parked_at r,
      lr_lastError = it_last_error r, lr_lastErrorCategory = it_last_error_category r,
      lr_sourceVersion = it_source_version r\<rparr>"

subsection \<open>Looking up\<close>

definition find_item :: "ledger_scope \<Rightarrow> string \<Rightarrow> items \<Rightarrow> ledger_record option" where
  "find_item sc h rows = map_option mapRowToRecord (List.find (at_key sc h) rows)"

definition findMany :: "ledger_scope \<Rightarrow> string list \<Rightarrow> items \<Rightarrow> string \<Rightarrow> ledger_record option" where
  "findMany sc hashes rows =
     map_of (map (\<lambda>r. (it_natural_key_hash r, mapRowToRecord r))
       (filter (\<lambda>r. in_scope sc r \<and> it_natural_key_hash r \<in> set hashes) rows))"

definition findBySourceRef :: "ledger_scope \<Rightarrow> string \<Rightarrow> items \<Rightarrow> ledger_record option" where
  "findBySourceRef sc sourceRef rows =
     (if sourceRef = [] then None
      else map_option mapRowToRecord
        (List.find (\<lambda>r. in_scope sc r \<and> it_source_ref_href r = Some sourceRef) rows))"

subsection \<open>Other export names\<close>

definition SUPERSEDE_CHUNK :: nat where
  "SUPERSEDE_CHUNK = 1000"

function chunks :: "nat \<Rightarrow> 'a list \<Rightarrow> 'a list list" where
  "chunks n xs = (if xs = [] \<or> n = 0 then [] else take n xs # chunks n (drop n xs))"
  by pat_completeness auto
termination
  by (relation "measure (length \<circ> snd)") auto

declare chunks.simps [simp del]

definition claimants :: "former_name list \<Rightarrow> string \<Rightarrow> former_name list" where
  "claimants names h = filter (\<lambda>n. fn_formerNaturalKeyHash n \<noteq> fn_naturalKeyHash n \<and>
     fn_formerNaturalKeyHash n = h) names"

text \<open>The keys of the map of claims, in the order they were first put there.\<close>

definition formers_of :: "former_name list \<Rightarrow> string list" where
  "formers_of names = rev (remdups (rev (map fn_formerNaturalKeyHash
     (filter (\<lambda>n. fn_formerNaturalKeyHash n \<noteq> fn_naturalKeyHash n) names))))"

definition claimant_of :: "former_name list \<Rightarrow> item_row \<Rightarrow> former_name option" where
  "claimant_of names r =
     (let candidates = claimants names (it_natural_key_hash r)
      in if truthy (it_source_ref_href r)
         then List.find (\<lambda>c. fn_sourceRef c = it_source_ref_href r) candidates
         else (case candidates of [] \<Rightarrow> None | c # _ \<Rightarrow> Some c))"

definition supersede_row ::
    "timestamp \<Rightarrow> ledger_scope \<Rightarrow> former_name list \<Rightarrow> item_row \<Rightarrow> items \<times> (string \<times> string) list \<Rightarrow>
     items \<times> (string \<times> string) list" where
  "supersede_row now sc names row acc =
     (case claimant_of names row of None \<Rightarrow> acc
      | Some c \<Rightarrow>
          let p = (\<lambda>r. at_key sc (it_natural_key_hash row) r \<and> it_status r = Failed);
              f = (\<lambda>r. r\<lparr>it_status := Superseded, it_superseded_by := Some (fn_naturalKeyHash c),
                it_superseded_at := Some now, it_updated_at := now\<rparr>)
          in (update_where p f (fst acc),
              if returning p f (fst acc) \<noteq> []
              then snd acc @ [(it_natural_key_hash row, fn_naturalKeyHash c)] else snd acc))"

definition supersede_chunk ::
    "timestamp \<Rightarrow> ledger_scope \<Rightarrow> former_name list \<Rightarrow> string list \<Rightarrow> items \<times> (string \<times> string) list \<Rightarrow>
     items \<times> (string \<times> string) list" where
  "supersede_chunk now sc names chunk acc =
     fold (supersede_row now sc names)
       (filter (\<lambda>r. in_scope sc r \<and> it_status r = Failed \<and> it_natural_key_hash r \<in> set chunk) (fst acc)) acc"

definition supersedeFormerNames ::
    "timestamp \<Rightarrow> ledger_scope \<Rightarrow> former_name list \<Rightarrow> items \<Rightarrow> items \<times> (string \<times> string) list" where
  "supersedeFormerNames now sc names rows =
     fold (supersede_chunk now sc names) (chunks SUPERSEDE_CHUNK (formers_of names)) (rows, [])"

definition placed_live :: "item_row \<Rightarrow> bool" where
  "placed_live r \<longleftrightarrow> live_status (it_status r) \<and> it_deletion_applied_at r = None"

definition mark_row ::
    "timestamp \<Rightarrow> ledger_scope \<Rightarrow> former_name list \<Rightarrow> item_row \<Rightarrow> items \<times> (string \<times> string) list \<Rightarrow>
     items \<times> (string \<times> string) list" where
  "mark_row now sc names row acc =
     (case claimant_of names row of None \<Rightarrow> acc
      | Some c \<Rightarrow>
          if it_superseded_by row = Some (fn_naturalKeyHash c) then acc
          else
          let p = (\<lambda>r. at_key sc (it_natural_key_hash row) r \<and> placed_live r);
              f = (\<lambda>r. r\<lparr>it_superseded_by := Some (fn_naturalKeyHash c), it_superseded_at := Some now,
                it_absent_passes := 0, it_updated_at := now\<rparr>)
          in (update_where p f (fst acc),
              if returning p f (fst acc) \<noteq> []
              then snd acc @ [(it_natural_key_hash row, fn_naturalKeyHash c)] else snd acc))"

definition mark_chunk ::
    "timestamp \<Rightarrow> ledger_scope \<Rightarrow> former_name list \<Rightarrow> string list \<Rightarrow> items \<times> (string \<times> string) list \<Rightarrow>
     items \<times> (string \<times> string) list" where
  "mark_chunk now sc names chunk acc =
     fold (mark_row now sc names)
       (filter (\<lambda>r. in_scope sc r \<and> placed_live r \<and> it_natural_key_hash r \<in> set chunk) (fst acc)) acc"

definition markEarlierExports ::
    "timestamp \<Rightarrow> ledger_scope \<Rightarrow> former_name list \<Rightarrow> items \<Rightarrow> items \<times> (string \<times> string) list" where
  "markEarlierExports now sc names rows =
     fold (mark_chunk now sc names) (chunks SUPERSEDE_CHUNK (formers_of names)) (rows, [])"

definition clearEarlierExport :: "timestamp \<Rightarrow> ledger_scope \<Rightarrow> string \<Rightarrow> items \<Rightarrow> items" where
  "clearEarlierExport now sc h rows =
     update_where (\<lambda>r. at_key sc h r \<and> live_status (it_status r) \<and> it_superseded_by r \<noteq> None)
       (\<lambda>r. r\<lparr>it_superseded_by := None, it_superseded_at := None, it_updated_at := now\<rparr>) rows"

subsection \<open>Recording a copy\<close>

definition fresh_row :: "timestamp \<Rightarrow> ledger_record \<Rightarrow> item_row" where
  "fresh_row now rc =
     \<lparr>it_tenant_id = lr_tenantId rc, it_mapping_id = lr_mappingId rc, it_domain = lr_itemType rc,
      it_collection = (case lr_collection rc of Some c \<Rightarrow> c | None \<Rightarrow> []),
      it_natural_key = (case lr_naturalKey rc of Some k \<Rightarrow> k | None \<Rightarrow> []),
      it_display_name = lr_displayName rc,
      it_natural_key_hash = lr_naturalKeyHash rc, it_content_hash = Some (lr_contentHash rc),
      it_size_bytes = lr_sizeBytes rc, it_target_ref = Some (lr_targetId rc),
      it_status = (case lr_status rc of Some st \<Rightarrow> st | None \<Rightarrow> Copied),
      it_source_version = lr_sourceVersion rc, it_target_version = lr_targetVersion rc,
      it_source_ref_href = lr_sourceRef rc, it_repaired = lr_repaired rc,
      it_absent_passes = 0, it_deletion_reported_at = None, it_deletion_trashed_at = None,
      it_deletion_acknowledged_at = None, it_deletion_applied_at = None,
      it_moved_to_collection = None, it_moved_to_natural_key_hash = None, it_moved_by_identity = False,
      it_moved_recorded_at = None, it_move_acknowledged_at = None,
      it_superseded_by = None, it_superseded_at = None,
      it_attempt_count = 0, it_parked_at = None, it_last_error = None, it_last_error_category = None,
      it_first_seen_at = now, it_last_synced_at = None, it_updated_at = now\<rparr>"

definition record_scope :: "ledger_record \<Rightarrow> ledger_scope" where
  "record_scope rc = \<lparr>sp_tenant = lr_tenantId rc, sp_mapping = lr_mappingId rc, sp_domain = lr_itemType rc\<rparr>"

definition record_key :: "ledger_record \<Rightarrow> string \<times> string \<times> string" where
  "record_key rc = (lr_tenantId rc, lr_mappingId rc, lr_naturalKeyHash rc)"

text \<open>\<open>INSERT .. ON CONFLICT DO NOTHING RETURNING\<close>.\<close>

definition insert_row :: "item_row \<Rightarrow> items \<Rightarrow> item_row option \<times> items" where
  "insert_row r rows =
     (if \<exists>q \<in> set rows. item_key q = item_key r then (None, rows) else (Some r, rows @ [r]))"

definition recordIfAbsent :: "timestamp \<Rightarrow> ledger_record \<Rightarrow> (items, ledger_error, ledger_record) prog" where
  "recordIfAbsent now rc = (\<lambda>rows.
     case insert_row (fresh_row now rc) rows of
       (Some r, rows') \<Rightarrow> (Inr (mapRowToRecord r), rows')
     | (None, rows') \<Rightarrow>
         (case find_item (record_scope rc) (lr_naturalKeyHash rc) rows' of
            Some existing \<Rightarrow> (Inr existing, rows')
          | None \<Rightarrow> (Inl Neither_inserted_nor_found, rows')))"

text \<open>\<open>...(v !== undefined && v !== '' ? { column: v } : {})\<close>.\<close>

definition keep_unless_given :: "string \<Rightarrow> string option \<Rightarrow> string" where
  "keep_unless_given old new = (case non_empty new of Some v \<Rightarrow> v | None \<Rightarrow> old)"

definition updated_by :: "timestamp \<Rightarrow> ledger_record \<Rightarrow> item_row \<Rightarrow> item_row" where
  "updated_by now rc r = r\<lparr>
     it_content_hash := Some (lr_contentHash rc),
     it_size_bytes := lr_sizeBytes rc,
     it_status := (case lr_status rc of Some st \<Rightarrow> st | None \<Rightarrow> Updated),
     it_target_ref := Some (lr_targetId rc),
     it_source_version := lr_sourceVersion rc,
     it_target_version := (case lr_targetVersion rc of Some v \<Rightarrow> Some v | None \<Rightarrow> it_target_version r),
     it_collection := (case lr_collection rc of Some c \<Rightarrow> c | None \<Rightarrow> it_collection r),
     it_source_ref_href := (case lr_sourceRef rc of Some v \<Rightarrow> Some v | None \<Rightarrow> it_source_ref_href r),
     it_natural_key := keep_unless_given (it_natural_key r) (lr_naturalKey rc),
     it_display_name := (case non_empty (lr_displayName rc) of Some v \<Rightarrow> Some v | None \<Rightarrow> it_display_name r),
     it_superseded_by := None, it_superseded_at := None,
     it_last_synced_at := Some now, it_updated_at := now\<rparr>"

definition recordUpdate :: "timestamp \<Rightarrow> ledger_record \<Rightarrow> (items, ledger_error, ledger_record) prog" where
  "recordUpdate now rc = (\<lambda>rows.
     let p = at_key (record_scope rc) (lr_naturalKeyHash rc)
     in case returning p (updated_by now rc) rows of
          [] \<Rightarrow> (Inl No_row_to_update, rows)
        | r # _ \<Rightarrow> (Inr (mapRowToRecord r), update_where p (updated_by now rc) rows))"

subsection \<open>Recording a failure\<close>

record failure_options =
  fo_park :: bool
  fo_side :: "failure_side option"
  fo_category :: "failure_category option"

definition bumped_by ::
    "timestamp \<Rightarrow> ledger_record \<Rightarrow> string \<Rightarrow> failure_options \<Rightarrow> item_row \<Rightarrow> item_row" where
  "bumped_by now rc error opts r = r\<lparr>
     it_status := Failed,
     it_attempt_count := it_attempt_count r + 1,
     it_parked_at := (if fo_park opts then (case it_parked_at r of Some t \<Rightarrow> Some t | None \<Rightarrow> Some now)
                      else it_parked_at r),
     it_last_error := Some error,
     it_last_error_category := Some (classifyFailure (Some error) (fo_side opts) (fo_category opts)),
     it_superseded_by := None, it_superseded_at := None,
     it_updated_at := now,
     it_collection := (case lr_collection rc of Some c \<Rightarrow> c | None \<Rightarrow> it_collection r),
     it_natural_key := keep_unless_given (it_natural_key r) (lr_naturalKey rc),
     it_display_name := (case non_empty (lr_displayName rc) of Some v \<Rightarrow> Some v | None \<Rightarrow> it_display_name r),
     it_source_ref_href := (case non_empty (lr_sourceRef rc) of Some v \<Rightarrow> Some v | None \<Rightarrow> it_source_ref_href r)\<rparr>"

definition failed_row ::
    "timestamp \<Rightarrow> ledger_record \<Rightarrow> string \<Rightarrow> failure_options \<Rightarrow> item_row" where
  "failed_row now rc error opts = (fresh_row now rc)\<lparr>
     it_status := Failed, it_repaired := None, it_target_version := None,
     it_source_ref_href := non_empty (lr_sourceRef rc),
     it_attempt_count := 1, it_parked_at := (if fo_park opts then Some now else None),
     it_last_error := Some error,
     it_last_error_category := Some (classifyFailure (Some error) (fo_side opts) (fo_category opts))\<rparr>"

definition recordFailure ::
    "timestamp \<Rightarrow> ledger_record \<Rightarrow> string \<Rightarrow> failure_options \<Rightarrow> (items, ledger_error, ledger_record) prog" where
  "recordFailure now rc error opts = (\<lambda>rows.
     let p = at_key (record_scope rc) (lr_naturalKeyHash rc);
         bump = bumped_by now rc error opts
     in case returning p bump rows of
          r # _ \<Rightarrow> (Inr (mapRowToRecord r), update_where p bump rows)
        | [] \<Rightarrow>
          (case insert_row (failed_row now rc error opts) rows of
             (Some r, rows') \<Rightarrow> (Inr (mapRowToRecord r), rows')
           | (None, rows') \<Rightarrow>
             (case returning p bump rows' of
                r # _ \<Rightarrow> (Inr (mapRowToRecord r), update_where p bump rows')
              | [] \<Rightarrow> (Inl Neither_inserted_nor_found, rows'))))"

subsection \<open>What is placed\<close>

record placed_item =
  pi_naturalKeyHash :: string
  pi_contentHash :: string
  pi_collection :: string
  pi_movedToCollection :: "string option"
  pi_movedToNaturalKeyHash :: "string option"
  pi_moveAcknowledgedAt :: "timestamp option"
  pi_absentPasses :: nat
  pi_deletionAcknowledgedAt :: "timestamp option"
  pi_deletionAppliedAt :: "timestamp option"
  pi_supersededByNaturalKeyHash :: "string option"
  pi_sourceRef :: "string option"

definition placedItems :: "ledger_scope \<Rightarrow> items \<Rightarrow> placed_item list" where
  "placedItems sc rows = map (\<lambda>r.
      \<lparr>pi_naturalKeyHash = it_natural_key_hash r,
       pi_contentHash = (case it_content_hash r of Some c \<Rightarrow> c | None \<Rightarrow> []),
       pi_collection = it_collection r,
       pi_movedToCollection = non_empty (it_moved_to_collection r),
       pi_movedToNaturalKeyHash = non_empty (it_moved_to_natural_key_hash r),
       pi_moveAcknowledgedAt = it_move_acknowledged_at r,
       pi_absentPasses = it_absent_passes r,
       pi_deletionAcknowledgedAt = it_deletion_acknowledged_at r,
       pi_deletionAppliedAt = it_deletion_applied_at r,
       pi_supersededByNaturalKeyHash = non_empty (it_superseded_by r),
       pi_sourceRef = non_empty (it_source_ref_href r)\<rparr>)
     (filter (\<lambda>r. in_scope sc r \<and> it_status r \<noteq> Failed \<and> it_status r \<noteq> Left_behind \<and>
        it_status r \<noteq> Superseded \<and> it_collection r \<noteq> []) rows)"

definition countAdoptedByDomain :: "string \<Rightarrow> string \<Rightarrow> items \<Rightarrow> discovery_domain \<Rightarrow> nat option" where
  "countAdoptedByDomain tenant mapping rows domain =
     (let n = length (filter (\<lambda>r. of_mapping tenant mapping r \<and> it_status r = Adopted \<and> it_domain r = domain) rows)
      in if n = 0 then None else Some n)"

subsection \<open>The queue of failures\<close>

definition asked_domain :: "discovery_domain option \<Rightarrow> item_row \<Rightarrow> bool" where
  "asked_domain domain r \<longleftrightarrow> (case domain of None \<Rightarrow> True | Some d \<Rightarrow> it_domain r = d)"

definition listFailures :: "string \<Rightarrow> string \<Rightarrow> discovery_domain option \<Rightarrow> items \<Rightarrow> item_failure list" where
  "listFailures tenant mapping domain rows = map (\<lambda>r.
      \<lparr>fl_domain = it_domain r, fl_naturalKeyHash = it_natural_key_hash r,
       fl_collection = non_empty (Some (it_collection r)),
       fl_attempts = it_attempt_count r,
       fl_lastError = (case it_last_error r of Some e \<Rightarrow> e | None \<Rightarrow> ''(no error recorded)''),
       fl_category = it_last_error_category r,
       fl_lastAttemptAt = Some (it_updated_at r),
       fl_needsDecision = (MAX_ITEM_ATTEMPTS \<le> it_attempt_count r \<or> it_parked_at r \<noteq> None),
       fl_parkedAt = it_parked_at r\<rparr>)
     (sort_key (\<lambda>r. - it_updated_at r)
       (filter (\<lambda>r. of_mapping tenant mapping r \<and> it_status r = Failed \<and> asked_domain domain r) rows))"

datatype failure_action = Retry | Accept

definition resolved_by :: "timestamp \<Rightarrow> failure_action \<Rightarrow> item_row \<Rightarrow> item_row" where
  "resolved_by now action r =
     (if action = Accept then r\<lparr>it_status := Left_behind, it_updated_at := now\<rparr>
      else r\<lparr>it_attempt_count := 0, it_parked_at := None, it_updated_at := now\<rparr>)"

definition resolveFailure ::
    "timestamp \<Rightarrow> string \<Rightarrow> string \<Rightarrow> string \<Rightarrow> failure_action \<Rightarrow> items \<Rightarrow> bool \<times> items" where
  "resolveFailure now tenant mapping h action rows =
     (let p = (\<lambda>r. of_mapping tenant mapping r \<and> it_natural_key_hash r = h \<and> it_status r = Failed)
      in (returning p (resolved_by now action) rows \<noteq> [], update_where p (resolved_by now action) rows))"

text \<open>SQL's \<open>LIKE .. ESCAPE '\\'\<close>; a pattern that ends in the escape matches nothing here.\<close>

fun sql_like :: "string \<Rightarrow> string \<Rightarrow> bool" where
  "sql_like [] s = (s = [])"
| "sql_like (p # ps) s =
     (if p = CHR ''%'' then sql_like ps s \<or> (case s of [] \<Rightarrow> False | c # t \<Rightarrow> sql_like (p # ps) t)
      else if p = CHR 92
      then (case ps of [] \<Rightarrow> False
            | q # qs \<Rightarrow> (case s of [] \<Rightarrow> False | c # t \<Rightarrow> c = q \<and> sql_like qs t))
      else (case s of [] \<Rightarrow> False | c # t \<Rightarrow> (p = CHR ''_'' \<or> c = p) \<and> sql_like ps t))"

definition likeLiteral :: "string \<Rightarrow> string" where
  "likeLiteral needle = concat (map (\<lambda>c.
     if c = CHR 92 \<or> c = CHR ''%'' \<or> c = CHR ''_'' then [CHR 92, c] else [c]) needle)"

record failure_match =
  fm_domain :: "discovery_domain option"
  fm_category :: "failure_category option"
  fm_errorContains :: "string option"

definition in_group :: "failure_match \<Rightarrow> item_row \<Rightarrow> bool" where
  "in_group g r \<longleftrightarrow> asked_domain (fm_domain g) r \<and>
     (case fm_category g of None \<Rightarrow> True | Some c \<Rightarrow> it_last_error_category r = Some c) \<and>
     (case non_empty (fm_errorContains g) of None \<Rightarrow> True
      | Some needle \<Rightarrow> (case it_last_error r of None \<Rightarrow> False
          | Some e \<Rightarrow> sql_like (CHR ''%'' # likeLiteral needle @ [CHR ''%'']) e))"

definition resolveFailureGroup ::
    "timestamp \<Rightarrow> string \<Rightarrow> string \<Rightarrow> failure_action \<Rightarrow> failure_match \<Rightarrow> items \<Rightarrow> nat \<times> items" where
  "resolveFailureGroup now tenant mapping action g rows =
     (let p = (\<lambda>r. of_mapping tenant mapping r \<and> it_status r = Failed \<and> in_group g r)
      in (length (returning p (resolved_by now action) rows), update_where p (resolved_by now action) rows))"

subsection \<open>Moves\<close>

datatype paired_by = By_content | By_identity

definition recordMove ::
    "timestamp \<Rightarrow> ledger_scope \<Rightarrow> string \<Rightarrow> string \<Rightarrow> string option \<Rightarrow> paired_by \<Rightarrow> items \<Rightarrow> items" where
  "recordMove now sc h toCollection toKey pairedBy rows =
     update_where (at_key sc h) (\<lambda>r.
       let another = (it_moved_to_collection r \<noteq> Some toCollection \<or> it_moved_to_natural_key_hash r \<noteq> toKey)
       in r\<lparr>it_moved_to_collection := Some toCollection,
            it_moved_by_identity := (pairedBy = By_identity),
            it_moved_to_natural_key_hash := toKey,
            it_move_acknowledged_at := (if another then None else it_move_acknowledged_at r),
            it_moved_recorded_at := (if another then Some now
              else case it_moved_recorded_at r of Some t \<Rightarrow> Some t | None \<Rightarrow> Some now),
            it_updated_at := now\<rparr>) rows"

definition clearMove :: "timestamp \<Rightarrow> ledger_scope \<Rightarrow> string \<Rightarrow> items \<Rightarrow> items" where
  "clearMove now sc h rows =
     update_where (at_key sc h) (\<lambda>r. r\<lparr>it_moved_to_collection := None, it_moved_to_natural_key_hash := None,
        it_moved_by_identity := False, it_moved_recorded_at := None, it_move_acknowledged_at := None,
        it_updated_at := now\<rparr>) rows"

text \<open>\<open>ASC NULLS FIRST\<close>, then the hash: undecided first.\<close>

definition nulls_first :: "timestamp option \<Rightarrow> bool \<times> timestamp" where
  "nulls_first t = (case t of None \<Rightarrow> (False, 0) | Some v \<Rightarrow> (True, v))"

definition listMoves :: "string \<Rightarrow> string \<Rightarrow> discovery_domain option \<Rightarrow> items \<Rightarrow> item_move list" where
  "listMoves tenant mapping domain rows = map (\<lambda>r.
      \<lparr>mv_domain = it_domain r, mv_naturalKeyHash = it_natural_key_hash r, mv_from = it_collection r,
       mv_to = (case it_moved_to_collection r of Some c \<Rightarrow> c | None \<Rightarrow> []),
       mv_toNaturalKeyHash = non_empty (it_moved_to_natural_key_hash r),
       mv_recordedAt = it_moved_recorded_at r, mv_acknowledgedAt = it_move_acknowledged_at r,
       mv_decided = (if it_move_acknowledged_at r = None then None
         else Some (if it_deletion_applied_at r \<noteq> None then Move_applied else Move_kept))\<rparr>)
     (sort_key (\<lambda>r. nulls_first (it_move_acknowledged_at r)) (sort_key it_natural_key_hash
       (filter (\<lambda>r. of_mapping tenant mapping r \<and> it_moved_to_collection r \<noteq> None \<and> asked_domain domain r) rows)))"

datatype queue_action = Keep | Other_action

definition resolveMove ::
    "timestamp \<Rightarrow> string \<Rightarrow> string \<Rightarrow> string \<Rightarrow> queue_action \<Rightarrow> items \<Rightarrow> bool \<times> items" where
  "resolveMove now tenant mapping h action rows =
     (if action \<noteq> Keep then (False, rows)
      else
        let p = (\<lambda>r. of_mapping tenant mapping r \<and> it_natural_key_hash r = h \<and>
                  it_moved_to_collection r \<noteq> None \<and> it_move_acknowledged_at r = None);
            f = (\<lambda>r. r\<lparr>it_move_acknowledged_at := Some now, it_updated_at := now\<rparr>)
        in (returning p f rows \<noteq> [], update_where p f rows))"

subsection \<open>Evidence that an item is gone at the source\<close>

definition recordAbsent :: "timestamp \<Rightarrow> ledger_scope \<Rightarrow> string \<Rightarrow> items \<Rightarrow> nat \<times> items" where
  "recordAbsent now sc h rows =
     (let f = (\<lambda>r. r\<lparr>it_absent_passes := it_absent_passes r + 1, it_updated_at := now\<rparr>)
      in ((case returning (at_key sc h) f rows of r # _ \<Rightarrow> it_absent_passes r | [] \<Rightarrow> 0),
          update_where (at_key sc h) f rows))"

definition recordReportedDeletion :: "timestamp \<Rightarrow> ledger_scope \<Rightarrow> string \<Rightarrow> items \<Rightarrow> bool \<times> items" where
  "recordReportedDeletion now sc h rows =
     (let p = (\<lambda>r. at_key sc h r \<and> it_deletion_reported_at r = None);
          f = (\<lambda>r. r\<lparr>it_deletion_reported_at := Some now, it_updated_at := now\<rparr>)
      in if returning p f rows \<noteq> [] then (True, update_where p f rows)
         else (List.find (at_key sc h) rows \<noteq> None, update_where p f rows))"

definition recordTrashedDeletion :: "timestamp \<Rightarrow> ledger_scope \<Rightarrow> string \<Rightarrow> items \<Rightarrow> bool \<times> items" where
  "recordTrashedDeletion now sc h rows =
     (let p = (\<lambda>r. at_key sc h r \<and> it_deletion_trashed_at r = None);
          f = (\<lambda>r. r\<lparr>it_deletion_trashed_at := Some now, it_updated_at := now\<rparr>)
      in if returning p f rows \<noteq> [] then (True, update_where p f rows)
         else (List.find (at_key sc h) rows \<noteq> None, update_where p f rows))"

definition clearAbsent :: "timestamp \<Rightarrow> ledger_scope \<Rightarrow> string \<Rightarrow> items \<Rightarrow> items" where
  "clearAbsent now sc h rows =
     update_where (\<lambda>r. at_key sc h r \<and> (0 < it_absent_passes r \<or> it_deletion_reported_at r \<noteq> None \<or>
          it_deletion_trashed_at r \<noteq> None \<or> it_deletion_acknowledged_at r \<noteq> None))
       (\<lambda>r. r\<lparr>it_absent_passes := 0, it_deletion_reported_at := None, it_deletion_trashed_at := None,
          it_deletion_acknowledged_at := None, it_updated_at := now\<rparr>) rows"

definition removedByRelocation :: "item_row \<Rightarrow> bool" where
  "removedByRelocation r \<longleftrightarrow> it_moved_to_natural_key_hash r \<noteq> None \<and>
     it_move_acknowledged_at r \<noteq> None \<and> it_move_acknowledged_at r = it_deletion_applied_at r"

text \<open>\<open>DESC NULLS LAST\<close>: the latest first, what has no date after all that have one.\<close>

definition nulls_last_desc :: "timestamp option \<Rightarrow> bool \<times> timestamp" where
  "nulls_last_desc t = (case t of None \<Rightarrow> (True, 0) | Some v \<Rightarrow> (False, - v))"

definition deletion_of :: "item_row \<Rightarrow> item_deletion" where
  "deletion_of r =
     \<lparr>dl_domain = it_domain r, dl_naturalKeyHash = it_natural_key_hash r, dl_collection = it_collection r,
      dl_absentPasses = it_absent_passes r,
      dl_confirmed = (it_deletion_reported_at r \<noteq> None \<or> it_deletion_trashed_at r \<noteq> None \<or>
         DELETION_CONFIRMATIONS \<le> it_absent_passes r),
      dl_evidence = (if it_deletion_reported_at r \<noteq> None then Reported
         else if it_deletion_trashed_at r \<noteq> None then Trashed else Inferred),
      dl_reportedAt = it_deletion_reported_at r, dl_trashedAt = it_deletion_trashed_at r,
      dl_acknowledgedAt = it_deletion_acknowledged_at r,
      dl_decided = (if it_deletion_acknowledged_at r = None then None
         else Some (if it_deletion_applied_at r = None then Deletion_kept
                    else if removedByRelocation r then Deletion_relocated else Deletion_applied))\<rparr>"

definition listDeletions :: "string \<Rightarrow> string \<Rightarrow> discovery_domain option \<Rightarrow> items \<Rightarrow> item_deletion list" where
  "listDeletions tenant mapping domain rows = map deletion_of
     (sort_key (\<lambda>r. nulls_first (it_deletion_acknowledged_at r))
     (sort_key (\<lambda>r. nulls_last_desc (it_deletion_reported_at r))
     (sort_key (\<lambda>r. nulls_last_desc (it_deletion_trashed_at r))
     (sort_key (\<lambda>r. - int (it_absent_passes r))
     (sort_key it_natural_key_hash
       (filter (\<lambda>r. of_mapping tenant mapping r \<and> asked_domain domain r \<and>
          (0 < it_absent_passes r \<or> it_deletion_reported_at r \<noteq> None \<or> it_deletion_trashed_at r \<noteq> None)) rows))))))"

definition listEarlierExports :: "string \<Rightarrow> string \<Rightarrow> discovery_domain option \<Rightarrow> items \<Rightarrow> earlier_export list" where
  "listEarlierExports tenant mapping domain rows = map (\<lambda>r.
      \<lparr>ee_domain = it_domain r, ee_naturalKeyHash = it_natural_key_hash r, ee_collection = it_collection r,
       ee_exportedAs = (case it_superseded_by r of Some h \<Rightarrow> h | None \<Rightarrow> []),
       ee_markedAt = it_superseded_at r, ee_acknowledgedAt = it_deletion_acknowledged_at r\<rparr>)
     (sort_key (\<lambda>r. nulls_first (it_deletion_acknowledged_at r))
     (sort_key (\<lambda>r. case it_superseded_at r of None \<Rightarrow> (True, 0) | Some t \<Rightarrow> (False, t))
     (sort_key it_natural_key_hash
       (filter (\<lambda>r. of_mapping tenant mapping r \<and> asked_domain domain r \<and> placed_live r \<and>
          it_superseded_by r \<noteq> None) rows))))"

subsection \<open>Deciding and applying\<close>

definition resolveDeletion ::
    "timestamp \<Rightarrow> string \<Rightarrow> string \<Rightarrow> string \<Rightarrow> queue_action \<Rightarrow> items \<Rightarrow> bool \<times> items" where
  "resolveDeletion now tenant mapping h action rows =
     (if action \<noteq> Keep then (False, rows)
      else
        let p = (\<lambda>r. of_mapping tenant mapping r \<and> it_natural_key_hash r = h \<and>
              (DELETION_CONFIRMATIONS \<le> it_absent_passes r \<or> it_deletion_reported_at r \<noteq> None \<or>
               it_deletion_trashed_at r \<noteq> None \<or>
               (it_superseded_by r \<noteq> None \<and> live_status (it_status r))) \<and>
              it_deletion_acknowledged_at r = None);
            f = (\<lambda>r. r\<lparr>it_deletion_acknowledged_at := Some now, it_updated_at := now\<rparr>)
        in (returning p f rows \<noteq> [], update_where p f rows))"

definition deletion_applies :: "ledger_scope \<Rightarrow> string \<Rightarrow> item_row \<Rightarrow> bool" where
  "deletion_applies sc h r \<longleftrightarrow> at_key sc h r \<and>
     (it_deletion_reported_at r \<noteq> None \<or> it_deletion_trashed_at r \<noteq> None) \<and>
     it_deletion_applied_at r = None \<and> live_status (it_status r)"

definition tombstone :: "timestamp \<Rightarrow> item_row \<Rightarrow> item_row" where
  "tombstone now r = r\<lparr>it_status := Tombstoned, it_deletion_applied_at := Some now,
     it_deletion_acknowledged_at := Some now, it_updated_at := now\<rparr>"

definition ledger_applyDeletion :: "timestamp \<Rightarrow> ledger_scope \<Rightarrow> string \<Rightarrow> items \<Rightarrow> bool \<times> items" where
  "ledger_applyDeletion now sc h rows =
     (returning (deletion_applies sc h) (tombstone now) rows \<noteq> [],
      update_where (deletion_applies sc h) (tombstone now) rows)"

text \<open>The row that took over: under the key moved to, on the target, with the bytes or the identity.\<close>

definition arrived :: "ledger_scope \<Rightarrow> item_row \<Rightarrow> item_row \<Rightarrow> bool" where
  "arrived sc r arrival \<longleftrightarrow> in_scope sc arrival \<and>
     it_moved_to_natural_key_hash r = Some (it_natural_key_hash arrival) \<and>
     it_natural_key_hash arrival \<noteq> it_natural_key_hash r \<and> live_status (it_status arrival) \<and>
     ((truthy (it_content_hash arrival) \<and> it_content_hash arrival = it_content_hash r) \<or>
      (it_moved_by_identity r \<and> truthy (it_source_ref_href arrival) \<and>
       it_source_ref_href arrival = it_source_ref_href r))"

definition relocation_applies :: "ledger_scope \<Rightarrow> string \<Rightarrow> items \<Rightarrow> item_row \<Rightarrow> bool" where
  "relocation_applies sc h rows r \<longleftrightarrow> at_key sc h r \<and> it_moved_to_natural_key_hash r \<noteq> None \<and>
     it_deletion_applied_at r = None \<and> it_move_acknowledged_at r = None \<and> live_status (it_status r) \<and>
     list_ex (arrived sc r) rows"

definition relocated :: "timestamp \<Rightarrow> item_row \<Rightarrow> item_row" where
  "relocated now r = r\<lparr>it_status := Tombstoned, it_deletion_applied_at := Some now,
     it_move_acknowledged_at := Some now,
     it_deletion_acknowledged_at :=
       (if it_deletion_reported_at r \<noteq> None \<or> it_deletion_trashed_at r \<noteq> None \<or> 0 < it_absent_passes r
        then Some now else it_deletion_acknowledged_at r),
     it_updated_at := now\<rparr>"

definition ledger_applyRelocation :: "timestamp \<Rightarrow> ledger_scope \<Rightarrow> string \<Rightarrow> items \<Rightarrow> bool \<times> items" where
  "ledger_applyRelocation now sc h rows =
     (returning (relocation_applies sc h rows) (relocated now) rows \<noteq> [],
      update_where (relocation_applies sc h rows) (relocated now) rows)"

end
