(* ===== verification/Texts.thy ===== *)
theory Texts
  imports Prelude "HOL-Library.Sublist"
begin

text \<open>
  The string operations of JavaScript the modelled code uses: a number written in decimal and
  read back, \<open>padStart\<close>, \<open>trim\<close>, \<open>toLowerCase\<close> and \<open>includes\<close> (\<open>occurs_in\<close>), on strings of ASCII characters.
\<close>

definition char_code :: "char \<Rightarrow> nat" where
  "char_code c = of_char c"

definition is_digit :: "char \<Rightarrow> bool" where
  "is_digit c \<longleftrightarrow> 48 \<le> char_code c \<and> char_code c \<le> 57"

definition digit_of :: "nat \<Rightarrow> char" where
  "digit_of n = char_of (48 + n)"

fun decimal :: "nat \<Rightarrow> string" where
  "decimal n = (if n < 10 then [digit_of n] else decimal (n div 10) @ [digit_of (n mod 10)])"

declare decimal.simps [simp del]

definition decimal_int :: "int \<Rightarrow> string" where
  "decimal_int i = (if i < 0 then CHR ''-'' # decimal (nat (- i)) else decimal (nat i))"

definition number_of :: "string \<Rightarrow> nat" where
  "number_of s = foldl (\<lambda>a c. 10 * a + (char_code c - 48)) 0 s"

definition pad_start :: "nat \<Rightarrow> string \<Rightarrow> string" where
  "pad_start n s = replicate (n - length s) CHR ''0'' @ s"

definition pad_end :: "nat \<Rightarrow> string \<Rightarrow> string" where
  "pad_end n s = s @ replicate (n - length s) CHR ''0''"

definition blank :: "char \<Rightarrow> bool" where
  "blank c \<longleftrightarrow> c = CHR '' '' \<or> 9 \<le> char_code c \<and> char_code c \<le> 13"

definition trim :: "string \<Rightarrow> string" where
  "trim s = rev (dropWhile blank (rev (dropWhile blank s)))"

definition to_lower :: "string \<Rightarrow> string" where
  "to_lower = map (\<lambda>c. if 65 \<le> char_code c \<and> char_code c \<le> 90 then char_of (char_code c + 32) else c)"

fun occurs_in :: "string \<Rightarrow> string \<Rightarrow> bool" where
  "occurs_in w [] = (w = [])"
| "occurs_in w (c # s) = (prefix w (c # s) \<or> occurs_in w s)"

subsection \<open>Reading back what was written\<close>

lemma digit_value [simp]: "n < 10 \<Longrightarrow> char_code (digit_of n) = 48 + n"
  by (simp add: char_code_def digit_of_def of_char_of)

lemma digit_is_digit [simp]: "n < 10 \<Longrightarrow> is_digit (digit_of n)"
  by (simp add: is_digit_def)

lemma number_of_append [simp]: "number_of (s @ [c]) = 10 * number_of s + (char_code c - 48)"
  by (simp add: number_of_def)

lemma number_of_Nil [simp]: "number_of [] = 0"
  by (simp add: number_of_def)

lemma number_of_decimal [simp]: "number_of (decimal n) = n"
proof (induction n rule: decimal.induct)
  case (1 n)
  show ?case
  proof (cases "n < 10")
    case True
    then show ?thesis by (simp add: decimal.simps [of n] number_of_def)
  next
    case False
    then show ?thesis using 1 by (simp add: decimal.simps [of n])
  qed
qed

lemma decimal_digits: "c \<in> set (decimal n) \<Longrightarrow> is_digit c"
proof (induction n rule: decimal.induct)
  case (1 n)
  then show ?case by (cases "n < 10") (auto simp: decimal.simps [of n])
qed

lemma all_digits_decimal [simp]: "list_all is_digit (decimal n)"
  by (auto simp: list_all_iff intro: decimal_digits)

lemma decimal_nonempty [simp]: "decimal n \<noteq> []"
  by (simp add: decimal.simps [of n])

lemma length_decimal: "n < 10 ^ k \<Longrightarrow> 0 < k \<Longrightarrow> length (decimal n) \<le> k"
proof (induction k arbitrary: n)
  case 0
  then show ?case by simp
next
  case (Suc k)
  show ?case
  proof (cases "n < 10")
    case True
    then show ?thesis by (simp add: decimal.simps [of n])
  next
    case False
    with Suc.prems have k: "0 < k" by (cases k) auto
    have "n div 10 < 10 ^ k" using Suc.prems by (simp add: less_mult_imp_div_less)
    with Suc.IH [OF this k] False show ?thesis by (simp add: decimal.simps [of n])
  qed
qed

lemma number_of_zeros: "number_of (replicate k CHR ''0'' @ s) = number_of s"
proof -
  have "foldl (\<lambda>a c. 10 * a + (char_code c - 48)) 0 (replicate k CHR ''0'') = 0"
    by (induction k) (auto simp: char_code_def)
  then show ?thesis by (simp add: number_of_def)
qed

lemma number_of_padded [simp]: "number_of (pad_start k s) = number_of s"
  by (simp add: pad_start_def number_of_zeros)

lemma zeros_are_digits [simp]: "list_all is_digit (replicate n CHR ''0'')"
  by (induction n) (auto simp: is_digit_def char_code_def)

lemma all_digits_padded [simp]: "list_all is_digit (pad_start k s) = list_all is_digit s"
  unfolding pad_start_def list_all_append by simp

lemma length_padded: "length s \<le> k \<Longrightarrow> length (pad_start k s) = k"
  by (simp add: pad_start_def)

lemma digits_not_blank: "is_digit c \<Longrightarrow> \<not> blank c"
  by (auto simp: is_digit_def blank_def char_code_def)

lemma trim_id:
  assumes "s \<noteq> []" and "\<not> blank (hd s)" and "\<not> blank (last s)"
  shows "trim s = s"
proof -
  have "dropWhile blank s = s" using assms by (simp add: dropWhile_eq_self_iff)
  moreover have "dropWhile blank (rev s) = rev s" using assms by (simp add: dropWhile_eq_self_iff hd_rev)
  ultimately show ?thesis by (simp add: trim_def)
qed

subsection \<open>The same on integers, to compute with\<close>

definition digit_char :: "int \<Rightarrow> char" where
  "digit_char k = (if k < 5
     then if k < 2 then if k < 1 then CHR ''0'' else CHR ''1''
       else if k < 3 then CHR ''2'' else if k < 4 then CHR ''3'' else CHR ''4''
     else if k < 7 then if k < 6 then CHR ''5'' else CHR ''6''
       else if k < 8 then CHR ''7'' else if k < 9 then CHR ''8'' else CHR ''9'')"

lemma digit_chars:
  "char_of (48 :: int) = CHR ''0''" "char_of (49 :: int) = CHR ''1''" "char_of (50 :: int) = CHR ''2''"
  "char_of (51 :: int) = CHR ''3''" "char_of (52 :: int) = CHR ''4''" "char_of (53 :: int) = CHR ''5''"
  "char_of (54 :: int) = CHR ''6''" "char_of (55 :: int) = CHR ''7''" "char_of (56 :: int) = CHR ''8''"
  "char_of (57 :: int) = CHR ''9''"
  by (simp_all add: char_of_def bit_simps)

lemma char_of_digit:
  assumes "0 \<le> k" and "k < 10"
  shows "char_of (48 + k) = digit_char k"
proof -
  from assms(1) obtain n where "k = int n" by (rule nonneg_int_cases)
  with assms(2) show ?thesis
    by (auto simp: digit_char_def digit_chars eval_nat_numeral less_Suc_eq)
qed

function decimal_digits_of :: "int \<Rightarrow> string" where
  "decimal_digits_of n = (if n < 10 then [digit_char n]
     else decimal_digits_of (n div 10) @ [digit_char (n mod 10)])"
  by pat_completeness auto

termination
  by (relation "measure nat") (auto simp: nat_less_iff)

declare decimal_digits_of.simps [simp del]

definition number_int :: "string \<Rightarrow> int" where
  "number_int s = foldl (\<lambda>a c. 10 * a + max 0 (of_char c - 48)) 0 s"

lemma decimal_on_integers: "0 \<le> n \<Longrightarrow> decimal (nat n) = decimal_digits_of n"
proof (induction n rule: decimal_digits_of.induct)
  case (1 n)
  have c: "char_of (48 + nat k) = (char_of (48 + k) :: char)" if "0 \<le> k" for k
    using char_of_nat [of "48 + nat k", where ?'a = int] that by simp
  show ?case
  proof (cases "n < 10")
    case True
    with 1(2) show ?thesis
      by (simp add: decimal.simps [of "nat n"] decimal_digits_of.simps [of n] digit_of_def c nat_less_iff char_of_digit)
  next
    case False
    with 1 show ?thesis
      by (simp add: decimal.simps [of "nat n"] decimal_digits_of.simps [of n] digit_of_def nat_less_iff
        char_of_digit [symmetric] c [symmetric] nat_div_distrib nat_mod_distrib)
  qed
qed

lemma decimal_int_code [code]:
  "decimal_int i = (if i < 0 then CHR ''-'' # decimal_digits_of (- i) else decimal_digits_of i)"
  by (simp add: decimal_int_def decimal_on_integers)

lemma of_char_int: "(of_char c :: int) = int (char_code c)"
  unfolding char_code_def by (rule of_nat_of_char [symmetric])

lemma number_int_code [code_unfold]: "int (number_of s) = number_int s"
proof -
  have c: "int (char_code c - 48) = max 0 (of_char c - 48)" for c
    by (simp add: of_char_int max_def)
  have "int (foldl (\<lambda>a c. 10 * a + (char_code c - 48)) a s) = foldl (\<lambda>a c. 10 * a + max 0 (of_char c - 48)) (int a) s" for a
    by (induction s arbitrary: a) (simp_all add: c)
  then show ?thesis by (simp add: number_of_def number_int_def)
qed

lemma is_digit_code [code]: "is_digit c \<longleftrightarrow> (let k = of_char c :: int in 48 \<le> k \<and> k \<le> 57)"
  by (simp add: is_digit_def Let_def of_char_int)

subsection \<open>Words that do not occur\<close>

lemma occurs_in_set: "occurs_in w s \<Longrightarrow> set w \<subseteq> set s"
proof (induction s)
  case (Cons c s)
  then show ?case using set_mono_prefix [of w "c # s"] by auto
qed simp

lemma occurs_in_not: "c \<in> set w \<Longrightarrow> c \<notin> set s \<Longrightarrow> \<not> occurs_in w s"
  using occurs_in_set by blast

lemma to_lower_append [simp]: "to_lower (s @ t) = to_lower s @ to_lower t"
  by (simp add: to_lower_def)

lemma to_lower_digits: "list_all is_digit s \<Longrightarrow> to_lower s = s"
  unfolding to_lower_def by (rule map_idI) (auto simp: list_all_iff is_digit_def)

end
