(* ===== verification/Verification.thy ===== *)
theory Verification
  imports Ledger_Table Texts Complex_Main "HOL-Library.Word"
begin

text \<open>
  The verification gate: the report (\<open>packages/shared/src/verification-report.ts\<close>), the engine
  that measures each data type and gives the verdict (\<open>packages/core/src/verification.ts\<close>), and
  what it reads, the ledger (\<open>packages/ledger/src/verification-queries.ts\<close>) and each data
  type's own target (\<open>verification-implementations.ts\<close>). A target is a record of the two calls
  the engine makes of it, over an arbitrary state; SHA-256 is a parameter. The shares and the
  score are exact fractions where the code has floating point. The words of an issue or of a
  recommendation are the constructor that names it and what it quotes; the names of the tenant
  and the mapping and the time of the report, which it only copies, are left out, as are the
  ids of the samples and of the missing and extra items, which nothing reads. The
  hashes that are sorted are hexadecimal, which \<open>localeCompare\<close> and the database order as their
  character codes do.
\<close>

subsection \<open>The report\<close>

datatype verification_domain = Mail | Calendars | Contacts | Files | Tasks

definition VERIFICATION_DOMAINS :: "verification_domain list" where
  "VERIFICATION_DOMAINS = [Mail, Calendars, Contacts, Files, Tasks]"

datatype verdict = PASS | WARN | FAIL | SKIPPED | NOT_VERIFIABLE

datatype severity = ERROR | WARNING

datatype issue_id =
  Id_SKIPPED | Id_NOT_VERIFIABLE | Id_TARGET_UNREAD | Id_TARGET_FOLDER_MISSING
| Id_CHECKSUM_NOT_SAMPLED | Id_CHECKSUM_NOT_COMPARED | Id_CHECKSUM_UNAVAILABLE
| Id_MISSING | Id_EXTRA | Id_CHECKSUM

datatype issue_message =
  Disabled_in_the_config
| Stopped_by_you
| Nothing_recorded
| No_reindexer nat
| Could_not_be_read nat string
| Folder_is_gone string nat
| No_sample nat bool
| Nothing_compared nat
| Not_comparable nat nat
| Missing_items nat
| Extra_items nat
| Content_mismatches nat

record issue =
  is_id :: issue_id
  is_severity :: severity
  is_message :: issue_message

record data_type_verification =
  dv_dataType :: verification_domain
  dv_status :: verdict
  dv_sourceCount :: nat
  dv_targetCount :: nat
  dv_matchedCount :: int
  dv_missingOnTarget :: nat
  dv_extraOnTarget :: nat
  dv_checksumSampleSize :: nat
  dv_checksumMatches :: nat
  dv_checksumMismatches :: nat
  dv_checksumUnavailable :: nat
  dv_totalBytesSource :: nat
  dv_totalBytesTarget :: "nat option"
  dv_issues :: "issue list"

datatype content_evidence = Checked | Partial | No_evidence

datatype recommendation =
  Fix_all_errors | Review_the_report
| Review_the_warnings | Consider_more_verification
| It_did_not_answer verification_domain
| No_way_to_read verification_domain
| Restore_the_folder verification_domain
| Was_not_verified verification_domain "issue_message option"
| No_content_compared verification_domain
| Not_content_verified nat verification_domain
| Sync_again nat verification_domain
| Investigate nat verification_domain
| All_passed

record verification_result =
  vr_overallStatus :: verdict
  vr_contentEvidence :: content_evidence
  vr_score :: rat
  vr_byDomain :: "verification_domain \<Rightarrow> data_type_verification"
  vr_totalItemsSource :: nat
  vr_totalItemsTarget :: nat
  vr_totalDiscrepancies :: nat
  vr_totalBytesTransferred :: nat
  vr_canProceedToCutover :: bool
  vr_recommendations :: "recommendation list"

subsection \<open>What the engine is given\<close>

record verification_config =
  vc_checksumSamplePercentage :: rat
  vc_minSampleSize :: nat
  vc_maxSampleSize :: nat
  vc_requiredMatchPercentage :: rat
  vc_maxDiscrepancyPercentage :: rat
  vc_verifyMail :: bool
  vc_verifyCalendar :: bool
  vc_verifyContacts :: bool
  vc_verifyFiles :: bool
  vc_verifyTasks :: bool
  vc_stoppedByOwner :: "verification_domain list option"

text \<open>
  A thrown error as the engine looks at it: a refusal with its code, a listing that found its
  own folder missing, or any other, each with its message.
\<close>

datatype gate_error =
  Credential_refusal (refusal_code: string) (error_message: string)
| Target_folder_missing (missing_folder: string) (error_message: string)
| Other_failure (error_message: string)

definition ACCOUNT_CLOSED :: string where
  "ACCOUNT_CLOSED = ''account_closed''"

definition organisation_closed :: gate_error where
  "organisation_closed = Credential_refusal ACCOUNT_CLOSED
     ''This organisation was closed. No new work starts with the access it gave.''"

type_synonym ('s, 'a) reading = "('s, gate_error, 'a) prog"

definition refuseOnceClosed :: "('s, bool) reading option \<Rightarrow> ('s, unit) reading" where
  "refuseOnceClosed isOpen = (case isOpen of
     None \<Rightarrow> ret ()
   | Some ask \<Rightarrow> bindP ask (\<lambda>still_open. if \<not> still_open then throw organisation_closed else ret ()))"

datatype content = Text_content string | Byte_content "8 word list"

record sample =
  sa_naturalKeyHash :: string
  sa_content :: content

record 's verification_deps =
  vd_config :: verification_config
  vd_getSourceCount :: "verification_domain \<Rightarrow> ('s, nat) reading"
  vd_getTargetCount :: "verification_domain \<Rightarrow> ('s, nat) reading"
  vd_getSourceSamples :: "verification_domain \<Rightarrow> nat \<Rightarrow> ('s, sample list) reading"
  vd_getTargetSamples :: "verification_domain \<Rightarrow> nat \<Rightarrow> string list \<Rightarrow> ('s, sample list) reading"
  vd_findMissingOnTarget :: "verification_domain \<Rightarrow> ('s, string list) reading"
  vd_findExtraOnTarget :: "verification_domain \<Rightarrow> ('s, string list) reading"
  vd_getTotalBytesSource :: "verification_domain \<Rightarrow> ('s, nat) reading"
  vd_getTotalBytesTarget :: "(verification_domain \<Rightarrow> ('s, nat option) reading) option"
  vd_canVerifyTarget :: "(verification_domain \<Rightarrow> bool) option"
  vd_targetCanHash :: "verification_domain \<Rightarrow> bool"
  vd_organisationIsOpen :: "('s, bool) reading option"

definition readingOnlyWhileOpen :: "'s verification_deps \<Rightarrow> 's verification_deps" where
  "readingOnlyWhileOpen deps = (case vd_organisationIsOpen deps of
     None \<Rightarrow> deps
   | Some _ \<Rightarrow>
       (let asked = refuseOnceClosed (vd_organisationIsOpen deps)
        in deps\<lparr>vd_getTargetCount := (\<lambda>d. thenP asked (vd_getTargetCount deps d)),
             vd_getTargetSamples := (\<lambda>d n hs. thenP asked (vd_getTargetSamples deps d n hs)),
             vd_findMissingOnTarget := (\<lambda>d. thenP asked (vd_findMissingOnTarget deps d)),
             vd_findExtraOnTarget := (\<lambda>d. thenP asked (vd_findExtraOnTarget deps d)),
             vd_getTotalBytesTarget := map_option (\<lambda>bytes d. thenP asked (bytes d)) (vd_getTotalBytesTarget deps)\<rparr>))"

fun isDataTypeEnabled :: "verification_config \<Rightarrow> verification_domain \<Rightarrow> bool" where
  "isDataTypeEnabled config Mail = vc_verifyMail config"
| "isDataTypeEnabled config Calendars = vc_verifyCalendar config"
| "isDataTypeEnabled config Contacts = vc_verifyContacts config"
| "isDataTypeEnabled config Files = vc_verifyFiles config"
| "isDataTypeEnabled config Tasks = vc_verifyTasks config"

subsection \<open>A data type that was not measured\<close>

definition notMeasured ::
    "verification_domain \<Rightarrow> verdict \<Rightarrow> issue_message \<Rightarrow> nat \<Rightarrow> issue_id \<Rightarrow> data_type_verification" where
  "notMeasured dataType status message sourceCount issue =
     \<lparr>dv_dataType = dataType, dv_status = status, dv_sourceCount = sourceCount, dv_targetCount = 0,
      dv_matchedCount = 0, dv_missingOnTarget = 0, dv_extraOnTarget = 0, dv_checksumSampleSize = 0,
      dv_checksumMatches = 0, dv_checksumMismatches = 0, dv_checksumUnavailable = 0,
      dv_totalBytesSource = 0, dv_totalBytesTarget = None,
      dv_issues = [\<lparr>is_id = issue, is_severity = (if status = NOT_VERIFIABLE then ERROR else WARNING),
        is_message = message\<rparr>]\<rparr>"

definition targetFolderMissing :: "verification_domain \<Rightarrow> nat \<Rightarrow> string \<Rightarrow> data_type_verification" where
  "targetFolderMissing dataType recorded folder =
     (notMeasured dataType NOT_VERIFIABLE Nothing_recorded recorded Id_NOT_VERIFIABLE)
       \<lparr>dv_status := FAIL, dv_missingOnTarget := recorded,
        dv_issues := [\<lparr>is_id = Id_TARGET_FOLDER_MISSING, is_severity = ERROR,
          is_message = Folder_is_gone folder recorded\<rparr>]\<rparr>"

subsection \<open>Comparing the samples\<close>

definition calculateSampleSize :: "nat \<Rightarrow> verification_config \<Rightarrow> nat" where
  "calculateSampleSize totalCount config =
     (if totalCount = 0 then 0
      else let calculated = nat \<lfloor>of_nat totalCount * (vc_checksumSamplePercentage config / 100)\<rfloor>;
               wanted = max (vc_minSampleSize config) (min calculated (vc_maxSampleSize config))
           in min wanted totalCount)"

fun isComparableContent :: "content \<Rightarrow> bool" where
  "isComparableContent (Text_content t) = (0 < length t)"
| "isComparableContent (Byte_content b) = (0 < length b)"

fun sameHashAlgorithm :: "content \<Rightarrow> content \<Rightarrow> bool" where
  "sameHashAlgorithm (Text_content a) (Text_content b) = sameFingerprintVersion a b"
| "sameHashAlgorithm _ _ = True"

fun compareContent :: "content \<Rightarrow> content \<Rightarrow> bool" where
  "compareContent (Text_content a) (Text_content b) = (a = b)"
| "compareContent (Byte_content a) (Byte_content b) = (a = b)"
| "compareContent _ _ = False"

record tally =
  ta_matches :: nat
  ta_mismatches :: nat
  ta_unavailable :: nat
  ta_hashedByTarget :: nat

text \<open>The target's samples in a \<open>Map\<close> by their key: of two with one key the later is kept.\<close>

definition targetSamplesByHash :: "sample list \<Rightarrow> string \<Rightarrow> content option" where
  "targetSamplesByHash samples = map_of (rev (map (\<lambda>s. (sa_naturalKeyHash s, sa_content s)) samples))"

definition compare_sample :: "(string \<Rightarrow> content option) \<Rightarrow> tally \<Rightarrow> sample \<Rightarrow> tally" where
  "compare_sample byHash t source = (case byHash (sa_naturalKeyHash source) of
     Some target \<Rightarrow>
       if isComparableContent target
       then let t' = t\<lparr>ta_hashedByTarget := ta_hashedByTarget t + 1\<rparr>
            in if \<not> sameHashAlgorithm (sa_content source) target
               then t'\<lparr>ta_unavailable := ta_unavailable t' + 1\<rparr>
               else if compareContent (sa_content source) target
               then t'\<lparr>ta_matches := ta_matches t' + 1\<rparr>
               else t'\<lparr>ta_mismatches := ta_mismatches t' + 1\<rparr>
       else t\<lparr>ta_unavailable := ta_unavailable t + 1\<rparr>
   | None \<Rightarrow> t\<lparr>ta_unavailable := ta_unavailable t + 1\<rparr>)"

definition compare_samples :: "sample list \<Rightarrow> sample list \<Rightarrow> tally" where
  "compare_samples sources targets =
     foldl (compare_sample (targetSamplesByHash targets))
       \<lparr>ta_matches = 0, ta_mismatches = 0, ta_unavailable = 0, ta_hashedByTarget = 0\<rparr> sources"

subsection \<open>The verdict on a data type\<close>

definition determineVerificationStatus ::
    "rat \<Rightarrow> rat \<Rightarrow> nat \<Rightarrow> nat \<Rightarrow> verification_config \<Rightarrow> nat \<Rightarrow> verdict" where
  "determineVerificationStatus matchPercentage checksumMatchPercentage missingCount extraCount config sourceCount =
     (let totalDiscrepancies = missingCount + extraCount;
          discrepancyPercentage = (if 0 < sourceCount then of_nat missingCount / of_nat sourceCount else 0)
      in if matchPercentage < vc_requiredMatchPercentage config \<or>
            checksumMatchPercentage < vc_requiredMatchPercentage config \<or>
            discrepancyPercentage > vc_maxDiscrepancyPercentage config then FAIL
         else if 0 < totalDiscrepancies then WARN else PASS)"

definition issues_found ::
    "verification_config \<Rightarrow> nat \<Rightarrow> nat \<Rightarrow> bool \<Rightarrow> tally \<Rightarrow> nat \<Rightarrow> nat \<Rightarrow> issue list" where
  "issues_found config sourceCount sampled contentHeld t missing extra =
     (if 0 < sourceCount \<and> sampled = 0
      then [\<lparr>is_id = Id_CHECKSUM_NOT_SAMPLED, is_severity = (if contentHeld then ERROR else WARNING),
             is_message = No_sample sourceCount contentHeld\<rparr>]
      else if contentHeld
      then [\<lparr>is_id = Id_CHECKSUM_NOT_COMPARED, is_severity = ERROR, is_message = Nothing_compared sampled\<rparr>]
      else []) @
     (if 0 < ta_unavailable t \<and> \<not> contentHeld
      then [\<lparr>is_id = Id_CHECKSUM_UNAVAILABLE, is_severity = WARNING,
             is_message = Not_comparable (ta_unavailable t) sampled\<rparr>] else []) @
     (if 0 < missing
      then [\<lparr>is_id = Id_MISSING,
             is_severity = (if of_nat missing > of_nat sourceCount * vc_maxDiscrepancyPercentage config
                            then ERROR else WARNING),
             is_message = Missing_items missing\<rparr>] else []) @
     (if 0 < extra
      then [\<lparr>is_id = Id_EXTRA, is_severity = WARNING, is_message = Extra_items extra\<rparr>] else []) @
     (if 0 < ta_mismatches t
      then [\<lparr>is_id = Id_CHECKSUM, is_severity = ERROR, is_message = Content_mismatches (ta_mismatches t)\<rparr>]
      else [])"

definition verdict_of ::
    "verification_config \<Rightarrow> verification_domain \<Rightarrow> bool \<Rightarrow> nat \<Rightarrow> nat \<Rightarrow> nat \<Rightarrow> nat \<Rightarrow> sample list \<Rightarrow> sample list \<Rightarrow>
     nat \<Rightarrow> nat option \<Rightarrow> data_type_verification \<times> bool" where
  "verdict_of config dataType canHash sourceCount targetCount missing extra sourceSamples targetSamples
     bytesSource bytesTarget =
     (let matchedCount = int sourceCount - int missing;
          t = compare_samples sourceSamples targetSamples;
          matchPercentage = (if 0 < sourceCount then of_int matchedCount / of_nat sourceCount else 1);
          comparable = ta_matches t + ta_mismatches t;
          checksumMatchPercentage = (if 0 < comparable then of_nat (ta_matches t) / of_nat comparable else 1);
          contentHeld = (canHash \<and> 0 < sourceCount \<and> ta_hashedByTarget t = 0);
          status = (if contentHeld then FAIL
                    else determineVerificationStatus matchPercentage checksumMatchPercentage missing extra
                           config sourceCount)
      in (\<lparr>dv_dataType = dataType, dv_status = status, dv_sourceCount = sourceCount,
           dv_targetCount = targetCount, dv_matchedCount = matchedCount, dv_missingOnTarget = missing,
           dv_extraOnTarget = extra, dv_checksumSampleSize = length sourceSamples,
           dv_checksumMatches = ta_matches t, dv_checksumMismatches = ta_mismatches t,
           dv_checksumUnavailable = ta_unavailable t, dv_totalBytesSource = bytesSource,
           dv_totalBytesTarget = bytesTarget,
           dv_issues = issues_found config sourceCount (length sourceSamples) contentHeld t missing extra\<rparr>,
          contentHeld))"

definition verifyDataType ::
    "'s verification_deps \<Rightarrow> verification_domain \<Rightarrow> ('s, data_type_verification \<times> bool) reading" where
  "verifyDataType deps dataType =
     bindP (vd_getSourceCount deps dataType) (\<lambda>sourceCount.
     bindP (vd_getTargetCount deps dataType) (\<lambda>targetCount.
     bindP (vd_findMissingOnTarget deps dataType) (\<lambda>missingOnTarget.
     bindP (vd_findExtraOnTarget deps dataType) (\<lambda>extraOnTarget.
     let sampleSize = calculateSampleSize sourceCount (vd_config deps) in
     bindP (vd_getSourceSamples deps dataType sampleSize) (\<lambda>sourceSamples.
     bindP (vd_getTargetSamples deps dataType sampleSize (map sa_naturalKeyHash sourceSamples)) (\<lambda>targetSamples.
     bindP (vd_getTotalBytesSource deps dataType) (\<lambda>bytesSource.
     bindP (case vd_getTotalBytesTarget deps of None \<Rightarrow> ret None | Some bytes \<Rightarrow> bytes dataType) (\<lambda>bytesTarget.
     ret (verdict_of (vd_config deps) dataType (vd_targetCanHash deps dataType) sourceCount targetCount
       (length missingOnTarget) (length extraOnTarget) sourceSamples targetSamples bytesSource bytesTarget)))))))))"

text \<open>
  One data type, or why it was not measured. What its target throws decides about this data
  type alone, except the refusal of a closed organisation, which ends the run.
\<close>

definition verifyDomain ::
    "'s verification_deps \<Rightarrow> verification_domain \<Rightarrow> ('s, data_type_verification \<times> bool) reading" where
  "verifyDomain deps dataType =
     (if \<not> isDataTypeEnabled (vd_config deps) dataType
      then ret (notMeasured dataType SKIPPED Disabled_in_the_config 0 Id_SKIPPED, False)
      else if case vc_stoppedByOwner (vd_config deps) of None \<Rightarrow> False | Some stopped \<Rightarrow> dataType \<in> set stopped
      then ret (notMeasured dataType SKIPPED Stopped_by_you 0 Id_SKIPPED, False)
      else bindP (vd_getSourceCount deps dataType) (\<lambda>recorded.
        if recorded = 0
        then ret (notMeasured dataType SKIPPED Nothing_recorded 0 Id_SKIPPED, False)
        else if case vd_canVerifyTarget deps of None \<Rightarrow> False | Some can \<Rightarrow> \<not> can dataType
        then ret (notMeasured dataType NOT_VERIFIABLE (No_reindexer recorded) recorded Id_NOT_VERIFIABLE, False)
        else catchP (verifyDataType deps dataType) (\<lambda>err.
          case err of
            Credential_refusal code msg \<Rightarrow>
              if code = ACCOUNT_CLOSED then throw err
              else ret (notMeasured dataType NOT_VERIFIABLE (Could_not_be_read recorded msg) recorded Id_TARGET_UNREAD, False)
          | Target_folder_missing folder _ \<Rightarrow> ret (targetFolderMissing dataType recorded folder, False)
          | Other_failure msg \<Rightarrow>
              ret (notMeasured dataType NOT_VERIFIABLE (Could_not_be_read recorded msg) recorded Id_TARGET_UNREAD, False))))"

subsection \<open>The verdict on the migration\<close>

definition summariseContentEvidence :: "data_type_verification list \<Rightarrow> content_evidence" where
  "summariseContentEvidence verifications =
     (let compared = sum_list (map (\<lambda>v. dv_checksumMatches v + dv_checksumMismatches v) verifications);
          unavailable = sum_list (map dv_checksumUnavailable verifications)
      in if compared = 0 then No_evidence else if unavailable = 0 then Checked else Partial)"

definition calculateOverallStatus :: "data_type_verification list \<Rightarrow> verdict" where
  "calculateOverallStatus verifications =
     (let hasFail = (\<exists>v \<in> set verifications. dv_status v = FAIL \<or> dv_status v = NOT_VERIFIABLE);
          hasWarn = (\<exists>v \<in> set verifications. dv_status v = WARN)
      in if hasFail then FAIL
         else if hasWarn then WARN
         else if 0 < length verifications \<and> (\<forall>v \<in> set verifications. dv_status v = SKIPPED) then FAIL
         else PASS)"

definition domain_score :: "verification_domain list \<Rightarrow> data_type_verification \<Rightarrow> rat" where
  "domain_score contentHeld v =
     (let matchRatio = (if 0 < dv_sourceCount v then of_int (dv_matchedCount v) / of_nat (dv_sourceCount v) else 1);
          comparable = dv_checksumMatches v + dv_checksumMismatches v;
          checksumRatio = (if 0 < comparable then of_nat (dv_checksumMatches v) / of_nat comparable
                           else if dv_dataType v \<in> set contentHeld then 0 else 1)
      in matchRatio * (7/10) + checksumRatio * (3/10))"

definition calculateVerificationScore :: "data_type_verification list \<Rightarrow> verification_domain list \<Rightarrow> rat" where
  "calculateVerificationScore verifications contentHeld =
     (let measured = filter (\<lambda>v. dv_status v \<noteq> SKIPPED \<and> dv_status v \<noteq> NOT_VERIFIABLE) verifications
      in if length measured = 0 then 0
         else sum_list (map (domain_score contentHeld) measured) / of_nat (length measured))"

definition said :: "data_type_verification \<Rightarrow> issue_id \<Rightarrow> bool" where
  "said v what \<longleftrightarrow> (\<exists>i \<in> set (dv_issues v). is_id i = what)"

definition recommendations_for :: "verification_domain list \<Rightarrow> data_type_verification \<Rightarrow> recommendation list" where
  "recommendations_for contentHeld v =
     (if dv_status v = NOT_VERIFIABLE
      then [if said v Id_TARGET_UNREAD then It_did_not_answer (dv_dataType v) else No_way_to_read (dv_dataType v)]
      else []) @
     (if said v Id_TARGET_FOLDER_MISSING then [Restore_the_folder (dv_dataType v)]
      else
        (if dv_status v = SKIPPED
         then [Was_not_verified (dv_dataType v) (case dv_issues v of [] \<Rightarrow> None | i # _ \<Rightarrow> Some (is_message i))]
         else []) @
        (if dv_dataType v \<in> set contentHeld then [No_content_compared (dv_dataType v)]
         else if 0 < dv_checksumUnavailable v
         then [Not_content_verified (dv_checksumUnavailable v) (dv_dataType v)] else []) @
        (if 0 < dv_missingOnTarget v then [Sync_again (dv_missingOnTarget v) (dv_dataType v)] else []) @
        (if 0 < dv_checksumMismatches v then [Investigate (dv_checksumMismatches v) (dv_dataType v)] else []))"

definition generateRecommendations ::
    "data_type_verification list \<Rightarrow> verdict \<Rightarrow> verification_domain list \<Rightarrow> recommendation list" where
  "generateRecommendations verifications overallStatus contentHeld =
     (let recommendations =
            (if overallStatus = FAIL then [Fix_all_errors, Review_the_report] else []) @
            (if overallStatus = WARN then [Review_the_warnings, Consider_more_verification] else []) @
            concat (map (recommendations_for contentHeld) verifications)
      in if recommendations = [] then [All_passed] else recommendations)"

definition report_of ::
    "(verification_domain \<times> data_type_verification \<times> bool) list \<Rightarrow> verification_result" where
  "report_of found =
     (let allVerifications = map (\<lambda>(_, v, _). v) found;
          contentHeld = map fst (filter (\<lambda>(_, _, held). held) found);
          overallStatus = calculateOverallStatus allVerifications;
          score = calculateVerificationScore allVerifications contentHeld
      in \<lparr>vr_overallStatus = overallStatus,
          vr_contentEvidence = summariseContentEvidence allVerifications,
          vr_score = score,
          vr_byDomain = (\<lambda>d. the (map_of (map (\<lambda>(d, v, _). (d, v)) found) d)),
          vr_totalItemsSource = sum_list (map dv_sourceCount allVerifications),
          vr_totalItemsTarget = sum_list (map dv_targetCount allVerifications),
          vr_totalDiscrepancies = sum_list (map (\<lambda>v. dv_missingOnTarget v + dv_extraOnTarget v) allVerifications),
          vr_totalBytesTransferred = sum_list (map dv_totalBytesSource allVerifications),
          vr_canProceedToCutover =
            (overallStatus = PASS \<or> (overallStatus = WARN \<and> score \<ge> 95/100)),
          vr_recommendations = generateRecommendations allVerifications overallStatus contentHeld\<rparr>)"

primrec verify_domains ::
    "'s verification_deps \<Rightarrow> verification_domain list \<Rightarrow>
     ('s, (verification_domain \<times> data_type_verification \<times> bool) list) reading" where
  "verify_domains deps [] = ret []"
| "verify_domains deps (d # ds) =
     bindP (verifyDomain deps d) (\<lambda>r. bindP (verify_domains deps ds) (\<lambda>rs. ret ((d, r) # rs)))"

definition runVerification :: "'s verification_deps \<Rightarrow> ('s, verification_result) reading" where
  "runVerification given =
     bindP (verify_domains (readingOnlyWhileOpen given) VERIFICATION_DOMAINS) (\<lambda>found. ret (report_of found))"

subsection \<open>What the ledger answers\<close>

record 's verification_reader =
  rd_countItems :: "discovery_domain \<Rightarrow> ('s, nat) reading"
  rd_totalSizeBytes :: "discovery_domain \<Rightarrow> ('s, nat) reading"
  rd_getSamples :: "discovery_domain \<Rightarrow> nat \<Rightarrow> ('s, (string \<times> string) list) reading"
  rd_getAllNaturalKeyHashes :: "discovery_domain \<Rightarrow> ('s, string list) reading"

text \<open>The rows every one of the four statements is about.\<close>

definition counted_rows :: "string \<Rightarrow> string \<Rightarrow> discovery_domain \<Rightarrow> items \<Rightarrow> items" where
  "counted_rows tenant mapping domain rows =
     filter (\<lambda>r. it_tenant_id r = tenant \<and> it_mapping_id r = mapping \<and> it_domain r = domain \<and>
       it_status r \<noteq> Left_behind \<and> it_status r \<noteq> Superseded) rows"

definition or_zero :: "nat option \<Rightarrow> nat" where
  "or_zero n = (case n of None \<Rightarrow> 0 | Some k \<Rightarrow> k)"

definition or_empty :: "string option \<Rightarrow> string" where
  "or_empty t = (case t of None \<Rightarrow> [] | Some v \<Rightarrow> v)"

definition createLedgerVerificationReader ::
    "('s \<Rightarrow> items) \<Rightarrow> string \<Rightarrow> string \<Rightarrow> 's verification_reader" where
  "createLedgerVerificationReader items_of tenant mapping =
     \<lparr>rd_countItems = (\<lambda>domain. readP (\<lambda>s. length (counted_rows tenant mapping domain (items_of s)))),
      rd_totalSizeBytes = (\<lambda>domain. readP (\<lambda>s.
        sum_list (map (\<lambda>r. or_zero (it_size_bytes r)) (counted_rows tenant mapping domain (items_of s))))),
      rd_getSamples = (\<lambda>domain count. readP (\<lambda>s.
        map (\<lambda>r. (it_natural_key_hash r, or_empty (it_content_hash r)))
          (take count (sort_key it_natural_key_hash (counted_rows tenant mapping domain (items_of s)))))),
      rd_getAllNaturalKeyHashes = (\<lambda>domain. readP (\<lambda>s.
        map it_natural_key_hash (counted_rows tenant mapping domain (items_of s))))\<rparr>"

subsection \<open>What a target answers\<close>

record target_entry =
  te_naturalKey :: string
  te_targetId :: string
  te_mailboxId :: string
  te_contentHash :: "string option"
  te_sizeBytes :: "nat option"

record 's target_reindexer =
  ti_listEntries :: "('s, target_entry list) reading"
  ti_contentHashFor :: "(target_entry \<Rightarrow> ('s, string option) reading) option"

fun mapDataTypeToDomain :: "verification_domain \<Rightarrow> discovery_domain" where
  "mapDataTypeToDomain Mail = Email"
| "mapDataTypeToDomain Calendars = Calendar"
| "mapDataTypeToDomain Contacts = Contact"
| "mapDataTypeToDomain Files = File"
| "mapDataTypeToDomain Tasks = Task"

text \<open>\<open>/^<(.*)>$/\<close>: one pair of angle brackets around a text without a line break.\<close>

definition without_angles :: "string \<Rightarrow> string" where
  "without_angles s =
     (if 2 \<le> length s \<and> hd s = CHR ''<'' \<and> List.last s = CHR ''>'' \<and>
         list_all (\<lambda>c. char_code c \<noteq> 10 \<and> char_code c \<noteq> 13) (butlast (tl s))
      then butlast (tl s) else s)"

definition normalizeMessageId :: "string \<Rightarrow> string" where
  "normalizeMessageId messageId = trim (without_angles (trim messageId))"

text \<open>The five key functions of \<open>hash.ts\<close>, with \<open>sha256Hex\<close> a parameter.\<close>

definition naturalKeyHash :: "(string \<Rightarrow> string) \<Rightarrow> string \<Rightarrow> string" where
  "naturalKeyHash sha256Hex messageId = sha256Hex (''mid:'' @ normalizeMessageId messageId)"

definition calendarNaturalKeyHash :: "(string \<Rightarrow> string) \<Rightarrow> string \<Rightarrow> string" where
  "calendarNaturalKeyHash sha256Hex uid = sha256Hex (''cal:'' @ to_lower uid)"

definition contactNaturalKeyHash :: "(string \<Rightarrow> string) \<Rightarrow> string \<Rightarrow> string" where
  "contactNaturalKeyHash sha256Hex uid = sha256Hex (''card:'' @ uid)"

definition fileNaturalKeyHash :: "(string \<Rightarrow> string) \<Rightarrow> string \<Rightarrow> string" where
  "fileNaturalKeyHash sha256Hex path = sha256Hex (''file:'' @ path)"

definition taskNaturalKeyHash :: "(string \<Rightarrow> string) \<Rightarrow> string \<Rightarrow> string" where
  "taskNaturalKeyHash sha256Hex uid = sha256Hex (''todo:'' @ to_lower uid)"

fun hashTargetNaturalKey :: "(string \<Rightarrow> string) \<Rightarrow> verification_domain \<Rightarrow> string \<Rightarrow> string" where
  "hashTargetNaturalKey sha256Hex Mail = naturalKeyHash sha256Hex"
| "hashTargetNaturalKey sha256Hex Calendars = calendarNaturalKeyHash sha256Hex"
| "hashTargetNaturalKey sha256Hex Contacts = contactNaturalKeyHash sha256Hex"
| "hashTargetNaturalKey sha256Hex Files = fileNaturalKeyHash sha256Hex"
| "hashTargetNaturalKey sha256Hex Tasks = taskNaturalKeyHash sha256Hex"

type_synonym key_hash = "verification_domain \<Rightarrow> string \<Rightarrow> string"

definition no_target_reindexer :: gate_error where
  "no_target_reindexer = Other_failure ''No target reindexer''"

definition getTargetCountFromReindexer ::
    "key_hash \<Rightarrow> 's target_reindexer option \<Rightarrow> 's verification_reader \<Rightarrow> verification_domain \<Rightarrow> ('s, nat) reading" where
  "getTargetCountFromReindexer key reindexer reader dataType = (case reindexer of
     None \<Rightarrow> throw no_target_reindexer
   | Some target \<Rightarrow>
       bindP (rd_getAllNaturalKeyHashes reader (mapDataTypeToDomain dataType)) (\<lambda>ledgerHashes.
       bindP (ti_listEntries target) (\<lambda>entries.
         ret (length (filter (\<lambda>e. key dataType (te_naturalKey e) \<in> set ledgerHashes) entries)))))"

definition getSourceSamplesFromLedger ::
    "'s verification_reader \<Rightarrow> verification_domain \<Rightarrow> nat \<Rightarrow> ('s, sample list) reading" where
  "getSourceSamplesFromLedger reader dataType count =
     bindP (rd_getSamples reader (mapDataTypeToDomain dataType) count) (\<lambda>samples.
       ret (map (\<lambda>(h, c). \<lparr>sa_naturalKeyHash = h, sa_content = Text_content c\<rparr>) samples))"

text \<open>The samples drawn, each with the key it was listed under and the hash it has so far.\<close>

primrec hash_samples ::
    "('s, bool) reading option \<Rightarrow> (target_entry \<Rightarrow> ('s, string option) reading) \<Rightarrow>
     (string \<times> string \<times> target_entry) list \<Rightarrow> ('s, sample list) reading" where
  "hash_samples isOpen hashFor [] = ret []"
| "hash_samples isOpen hashFor (x # xs) = (case x of (h, content, entry) \<Rightarrow>
     bindP (if content \<noteq> [] then ret content
            else thenP (refuseOnceClosed isOpen)
              (bindP (hashFor entry) (\<lambda>hash. ret (if truthy hash then the hash else content)))) (\<lambda>c.
     bindP (hash_samples isOpen hashFor xs) (\<lambda>rest.
       ret (\<lparr>sa_naturalKeyHash = h, sa_content = Text_content c\<rparr> # rest))))"

definition all_entries :: "key_hash \<Rightarrow> verification_domain \<Rightarrow> target_entry list \<Rightarrow> (string \<times> string \<times> target_entry) list" where
  "all_entries key dataType entries =
     sort_key fst (map (\<lambda>e. (key dataType (te_naturalKey e), or_empty (te_contentHash e), e)) entries)"

definition sampled_entries ::
    "nat \<Rightarrow> string list \<Rightarrow> (string \<times> string \<times> target_entry) list \<Rightarrow> (string \<times> string \<times> target_entry) list" where
  "sampled_entries count wanted entries =
     (if wanted \<noteq> [] then filter (\<lambda>(h, _). h \<in> set wanted) entries else take count entries)"

definition getTargetSamplesFromReindexer ::
    "key_hash \<Rightarrow> 's target_reindexer option \<Rightarrow> ('s, bool) reading option \<Rightarrow> verification_domain \<Rightarrow> nat \<Rightarrow> string list \<Rightarrow>
     ('s, sample list) reading" where
  "getTargetSamplesFromReindexer key reindexer isOpen dataType count wanted = (case reindexer of
     None \<Rightarrow> throw no_target_reindexer
   | Some target \<Rightarrow>
       bindP (ti_listEntries target) (\<lambda>entries.
         let sampled = sampled_entries count wanted (all_entries key dataType entries)
         in case ti_contentHashFor target of
              Some hashFor \<Rightarrow> hash_samples isOpen hashFor sampled
            | None \<Rightarrow> ret (map (\<lambda>(h, c, _). \<lparr>sa_naturalKeyHash = h, sa_content = Text_content c\<rparr>) sampled)))"

definition findMissingOnTarget ::
    "key_hash \<Rightarrow> 's target_reindexer option \<Rightarrow> 's verification_reader \<Rightarrow> verification_domain \<Rightarrow>
     ('s, string list) reading" where
  "findMissingOnTarget key reindexer reader dataType = (case reindexer of
     None \<Rightarrow> throw no_target_reindexer
   | Some target \<Rightarrow>
       bindP (rd_getAllNaturalKeyHashes reader (mapDataTypeToDomain dataType)) (\<lambda>ledgerHashes.
       bindP (ti_listEntries target) (\<lambda>entries.
         let targetKeys = map (\<lambda>e. key dataType (te_naturalKey e)) entries
         in ret (filter (\<lambda>h. h \<notin> set targetKeys) ledgerHashes))))"

definition findExtraOnTarget ::
    "key_hash \<Rightarrow> 's target_reindexer option \<Rightarrow> 's verification_reader \<Rightarrow> verification_domain \<Rightarrow>
     ('s, string list) reading" where
  "findExtraOnTarget key reindexer reader dataType = (case reindexer of
     None \<Rightarrow> throw no_target_reindexer
   | Some target \<Rightarrow>
       bindP (rd_getAllNaturalKeyHashes reader (mapDataTypeToDomain dataType)) (\<lambda>ledgerHashes.
       if ledgerHashes = [] then ret []
       else bindP (ti_listEntries target) (\<lambda>entries.
         ret (map te_targetId (filter (\<lambda>e. key dataType (te_naturalKey e) \<notin> set ledgerHashes) entries)))))"

definition getTotalBytesFromReindexer ::
    "key_hash \<Rightarrow> 's target_reindexer option \<Rightarrow> 's verification_reader \<Rightarrow> verification_domain \<Rightarrow>
     ('s, nat option) reading" where
  "getTotalBytesFromReindexer key reindexer reader dataType = (case reindexer of
     None \<Rightarrow> ret None
   | Some target \<Rightarrow>
       bindP (rd_getAllNaturalKeyHashes reader (mapDataTypeToDomain dataType)) (\<lambda>ledgerHashes.
       bindP (ti_listEntries target) (\<lambda>entries.
         let matched = filter (\<lambda>e. key dataType (te_naturalKey e) \<in> set ledgerHashes) entries;
             sizes = List.map_filter te_sizeBytes matched
         in ret (if length matched = 0 then Some 0
                 else if length sizes = length matched then Some (sum_list sizes) else None))))"

subsection \<open>The engine on the ledger and the targets\<close>

record 's real_deps =
  re_config :: verification_config
  re_targetReindexer :: "'s target_reindexer option"
  re_targetReindexers :: "verification_domain \<Rightarrow> 's target_reindexer option"
  re_verificationReader :: "'s verification_reader"
  re_organisationIsOpen :: "('s, bool) reading option"

definition reindexerFor :: "'s real_deps \<Rightarrow> verification_domain \<Rightarrow> 's target_reindexer option" where
  "reindexerFor deps dataType = (case re_targetReindexers deps dataType of
     Some target \<Rightarrow> Some target
   | None \<Rightarrow> if dataType = Mail then re_targetReindexer deps else None)"

definition createRealVerificationDeps :: "key_hash \<Rightarrow> 's real_deps \<Rightarrow> 's verification_deps" where
  "createRealVerificationDeps key deps =
     (let reader = re_verificationReader deps
      in \<lparr>vd_config = re_config deps,
          vd_getSourceCount = (\<lambda>d. rd_countItems reader (mapDataTypeToDomain d)),
          vd_getTargetCount = (\<lambda>d. getTargetCountFromReindexer key (reindexerFor deps d) reader d),
          vd_getSourceSamples = getSourceSamplesFromLedger reader,
          vd_getTargetSamples = (\<lambda>d. getTargetSamplesFromReindexer key (reindexerFor deps d) (re_organisationIsOpen deps) d),
          vd_findMissingOnTarget = (\<lambda>d. findMissingOnTarget key (reindexerFor deps d) reader d),
          vd_findExtraOnTarget = (\<lambda>d. findExtraOnTarget key (reindexerFor deps d) reader d),
          vd_getTotalBytesSource = (\<lambda>d. rd_totalSizeBytes reader (mapDataTypeToDomain d)),
          vd_getTotalBytesTarget = Some (\<lambda>d. getTotalBytesFromReindexer key (reindexerFor deps d) reader d),
          vd_canVerifyTarget = Some (\<lambda>d. reindexerFor deps d \<noteq> None),
          vd_targetCanHash = (\<lambda>d. case reindexerFor deps d of None \<Rightarrow> False | Some target \<Rightarrow> ti_contentHashFor target \<noteq> None),
          vd_organisationIsOpen = re_organisationIsOpen deps\<rparr>)"

subsection \<open>What the cutover gate asks for\<close>

text \<open>\<open>GATE_NAME\<close> (\<open>target-fan-out.ts\<close>), and the gate's thresholds and selection (\<open>cutover-gate.ts\<close>).\<close>

fun GATE_NAME :: "discovery_domain \<Rightarrow> verification_domain" where
  "GATE_NAME Email = Mail"
| "GATE_NAME Calendar = Calendars"
| "GATE_NAME Contact = Contacts"
| "GATE_NAME File = Files"
| "GATE_NAME Task = Tasks"

definition verificationConfigFor :: "discovery_domain list \<Rightarrow> discovery_domain list \<Rightarrow> verification_config" where
  "verificationConfigFor selected stopped =
     \<lparr>vc_checksumSamplePercentage = 5, vc_minSampleSize = 10, vc_maxSampleSize = 1000,
      vc_requiredMatchPercentage = 99/100, vc_maxDiscrepancyPercentage = 1/100,
      vc_verifyMail = Email \<in> set selected, vc_verifyCalendar = Calendar \<in> set selected,
      vc_verifyContacts = Contact \<in> set selected, vc_verifyFiles = File \<in> set selected,
      vc_verifyTasks = Task \<in> set selected, vc_stoppedByOwner = Some (map GATE_NAME stopped)\<rparr>"

definition gateScope :: "discovery_domain list \<Rightarrow> discovery_domain option \<Rightarrow> discovery_domain list" where
  "gateScope carried only = filter (\<lambda>d. only = None \<or> Some d = only) carried"

end
