(* ===== verification/Verification_Laws.thy ===== *)
theory Verification_Laws
  imports Verification
begin

text \<open>
  What the verification gate promises. Every report is well formed and its score a share;
  the gate opens only where the recorded items are on the targets, and a whole copy does open
  it; once the organisation is closed no target is read; and a target that cannot be read
  decides about its own data type alone.
\<close>

subsection \<open>Readings within a relation\<close>

text \<open>\<open>reads_within R deps\<close>: whatever is read, the state after it is related to the state before.\<close>

definition reads_within :: "('s \<Rightarrow> 's \<Rightarrow> bool) \<Rightarrow> 's verification_deps \<Rightarrow> bool" where
  "reads_within R deps \<longleftrightarrow>
     (\<forall>d. relates R (vd_getSourceCount deps d) \<and> relates R (vd_getTargetCount deps d) \<and>
        relates R (vd_findMissingOnTarget deps d) \<and> relates R (vd_findExtraOnTarget deps d) \<and>
        relates R (vd_getTotalBytesSource deps d)) \<and>
     (\<forall>d n. relates R (vd_getSourceSamples deps d n)) \<and>
     (\<forall>d n hs. relates R (vd_getTargetSamples deps d n hs)) \<and>
     (\<forall>bytes d. vd_getTotalBytesTarget deps = Some bytes \<longrightarrow> relates R (bytes d)) \<and>
     (\<forall>ask. vd_organisationIsOpen deps = Some ask \<longrightarrow> relates R ask)"

lemma refusal_within:
  assumes "effect R" and "\<And>ask. isOpen = Some ask \<Longrightarrow> relates R ask"
  shows "relates R (refuseOnceClosed isOpen)"
  using assms(2)
  by (auto simp: refuseOnceClosed_def intro!: effect.within_structure [OF assms(1)] split: option.splits if_split)

lemma reading_while_open_within:
  assumes "effect R" and "reads_within R deps"
  shows "reads_within R (readingOnlyWhileOpen deps)"
proof (cases "vd_organisationIsOpen deps")
  case None
  with assms(2) show ?thesis by (simp add: readingOnlyWhileOpen_def)
next
  case (Some ask)
  with assms have asked: "relates R (refuseOnceClosed (Some ask))"
    by (intro refusal_within) (auto simp: reads_within_def)
  with Some assms(2) show ?thesis
    by (auto simp: reads_within_def readingOnlyWhileOpen_def Let_def intro: effect.within_then [OF assms(1)])
qed

lemma verifyDataType_within:
  assumes "effect R" and "reads_within R deps"
  shows "relates R (verifyDataType deps d)"
  using assms(2)
  by (auto simp: verifyDataType_def reads_within_def Let_def intro!: effect.within_structure [OF assms(1)]
      split: option.splits)

lemma verifyDomain_within:
  assumes "effect R" and "reads_within R deps"
  shows "relates R (verifyDomain deps d)"
  using assms(2) verifyDataType_within [OF assms]
  by (auto simp: verifyDomain_def reads_within_def intro!: effect.within_structure [OF assms(1)]
      split: option.splits gate_error.splits)

lemma verifyDataType_returns:
  assumes "verifyDataType deps d s = (Inr (v, held), u)" and "effect R" and "reads_within R deps"
  obtains n tn missing extra ss ts bs bt s1 s2 s3 s4 s5 s6 where
    "vd_getSourceCount deps d s = (Inr n, s1)" "R s s2"
    "vd_findMissingOnTarget deps d s2 = (Inr missing, s3)" "R s s3"
    "vd_findExtraOnTarget deps d s3 = (Inr extra, s4)" "R s s4"
    "vd_getSourceSamples deps d (calculateSampleSize n (vd_config deps)) s4 = (Inr ss, s5)" "R s s5"
    "vd_getTargetSamples deps d (calculateSampleSize n (vd_config deps)) (map sa_naturalKeyHash ss) s5 = (Inr ts, s6)"
    "(v, held) = verdict_of (vd_config deps) d (vd_targetCanHash deps d) n tn (length missing) (length extra) ss ts bs bt"
proof -
  note trans = effect.effect_trans [OF assms(2)]
  from assms(1) obtain n s1 where 1: "vd_getSourceCount deps d s = (Inr n, s1)"
    and k1: "bindP (vd_getTargetCount deps d) (\<lambda>targetCount.
     bindP (vd_findMissingOnTarget deps d) (\<lambda>missingOnTarget.
     bindP (vd_findExtraOnTarget deps d) (\<lambda>extraOnTarget.
     let sampleSize = calculateSampleSize n (vd_config deps) in
     bindP (vd_getSourceSamples deps d sampleSize) (\<lambda>sourceSamples.
     bindP (vd_getTargetSamples deps d sampleSize (map sa_naturalKeyHash sourceSamples)) (\<lambda>targetSamples.
     bindP (vd_getTotalBytesSource deps d) (\<lambda>bytesSource.
     bindP (case vd_getTotalBytesTarget deps of None \<Rightarrow> ret None | Some bytes \<Rightarrow> bytes d) (\<lambda>bytesTarget.
     ret (verdict_of (vd_config deps) d (vd_targetCanHash deps d) n targetCount
       (length missingOnTarget) (length extraOnTarget) sourceSamples targetSamples bytesSource bytesTarget))))))))
       s1 = (Inr (v, held), u)"
    unfolding verifyDataType_def by (rule returned_bind)
  from k1 obtain tn s2 where 2: "vd_getTargetCount deps d s1 = (Inr tn, s2)" by (rule returned_bind)
  with k1 obtain missing s3 where 3: "vd_findMissingOnTarget deps d s2 = (Inr missing, s3)"
    by (auto simp: run_bind split: prod.splits sum.splits)
  with k1 2 obtain extra s4 where 4: "vd_findExtraOnTarget deps d s3 = (Inr extra, s4)"
    by (auto simp: run_bind split: prod.splits sum.splits)
  let ?size = "calculateSampleSize n (vd_config deps)"
  from k1 2 3 4 obtain ss s5 where 5: "vd_getSourceSamples deps d ?size s4 = (Inr ss, s5)"
    by (auto simp: run_bind Let_def split: prod.splits sum.splits)
  with k1 2 3 4 obtain ts s6 where 6: "vd_getTargetSamples deps d ?size (map sa_naturalKeyHash ss) s5 = (Inr ts, s6)"
    by (auto simp: run_bind Let_def split: prod.splits sum.splits)
  from k1 2 3 4 5 6 obtain bs bt where "verdict_of (vd_config deps) d (vd_targetCanHash deps d) n tn
      (length missing) (length extra) ss ts bs bt = (v, held)"
    by (auto simp: run_simps Let_def split: prod.splits sum.splits)
  then have 7: "(v, held) = verdict_of (vd_config deps) d (vd_targetCanHash deps d) n tn
      (length missing) (length extra) ss ts bs bt" by simp
  from assms(3) have within_all: "relates R (vd_getSourceCount deps d)" "relates R (vd_getTargetCount deps d)"
    "relates R (vd_findMissingOnTarget deps d)" "relates R (vd_findExtraOnTarget deps d)"
    "relates R (vd_getSourceSamples deps d ?size)"
    by (simp_all add: reads_within_def)
  note r1 = withinD [OF within_all(1) 1]
  note r2 = trans [OF r1 withinD [OF within_all(2) 2]]
  note r3 = trans [OF r2 withinD [OF within_all(3) 3]]
  note r4 = trans [OF r3 withinD [OF within_all(4) 4]]
  note r5 = trans [OF r4 withinD [OF within_all(5) 5]]
  show thesis by (rule that [OF 1 r2 3 r3 4 r4 5 r5 6 7])
qed

lemma verify_domains_run:
  assumes "verify_domains deps ds s = (Inr found, u)" and "effect R" and "\<And>d. relates R (verifyDomain deps d)"
  shows "map fst found = ds \<and> (\<forall>(d, r) \<in> set found. \<exists>t t'. R s t \<and> verifyDomain deps d t = (Inr r, t'))"
  using assms(1)
proof (induction ds arbitrary: s found)
  case Nil
  then show ?case by (simp add: run_simps)
next
  case (Cons d ds)
  from Cons.prems obtain r t where r: "verifyDomain deps d s = (Inr r, t)"
    and "bindP (verify_domains deps ds) (\<lambda>rs. ret ((d, r) # rs)) t = (Inr found, u)"
    by (auto elim: returned_bind)
  then obtain rs where rs: "verify_domains deps ds t = (Inr rs, u)" "found = (d, r) # rs"
    by (auto simp: run_simps split: prod.splits sum.splits)
  have st: "R s t" using assms(3) r by (rule withinD)
  from Cons.IH [OF rs(1)] have names: "map fst rs = ds"
    and runs: "\<And>d' r'. (d', r') \<in> set rs \<Longrightarrow> \<exists>w w'. R t w \<and> verifyDomain deps d' w = (Inr r', w')"
    by auto
  have "\<exists>w w'. R s w \<and> verifyDomain deps d' w = (Inr r', w')" if "(d', r') \<in> set found" for d' r'
  proof (cases "(d', r') \<in> set rs")
    case True
    with runs st show ?thesis by (blast intro: effect.effect_trans [OF assms(2)])
  next
    case False
    with that rs(2) r show ?thesis by (auto intro: effect.effect_refl [OF assms(2)])
  qed
  with names rs(2) show ?case by auto
qed

subsection \<open>Every sample is tallied once\<close>

abbreviation tallied :: "tally \<Rightarrow> nat" where
  "tallied t \<equiv> ta_matches t + ta_mismatches t + ta_unavailable t"

lemma compare_sample_counts:
  "tallied (compare_sample f t x) = tallied t + 1"
  "ta_matches t + ta_mismatches t \<le> ta_hashedByTarget t \<Longrightarrow>
     ta_matches (compare_sample f t x) + ta_mismatches (compare_sample f t x) \<le> ta_hashedByTarget (compare_sample f t x)"
  by (auto simp: compare_sample_def Let_def split: option.splits)

lemma foldl_compare_counts:
  "tallied (foldl (compare_sample f) t xs) = tallied t + length xs"
  by (induction xs arbitrary: t) (auto simp: compare_sample_counts)

lemma foldl_compare_hashed:
  "ta_matches t + ta_mismatches t \<le> ta_hashedByTarget t \<Longrightarrow>
     ta_matches (foldl (compare_sample f) t xs) + ta_mismatches (foldl (compare_sample f) t xs)
       \<le> ta_hashedByTarget (foldl (compare_sample f) t xs)"
proof (induction xs arbitrary: t)
  case (Cons x xs)
  show ?case unfolding foldl_Cons by (rule Cons.IH) (rule compare_sample_counts(2) [OF Cons.prems])
qed simp

lemma compare_samples_counts:
  "tallied (compare_samples sources targets) = length sources"
  "ta_matches (compare_samples sources targets) + ta_mismatches (compare_samples sources targets)
     \<le> ta_hashedByTarget (compare_samples sources targets)"
  by (simp_all add: compare_samples_def foldl_compare_counts foldl_compare_hashed)

text \<open>A sample the target answered, if any was.\<close>

lemma foldl_compare_answered:
  assumes "ta_hashedByTarget (foldl (compare_sample f) t xs) \<noteq> ta_hashedByTarget t"
  shows "\<exists>x \<in> set xs. \<exists>c. f (sa_naturalKeyHash x) = Some c \<and> isComparableContent c"
  using assms
proof (induction xs arbitrary: t)
  case (Cons x xs)
  show ?case
  proof (cases "\<exists>c. f (sa_naturalKeyHash x) = Some c \<and> isComparableContent c")
    case False
    then have "ta_hashedByTarget (compare_sample f t x) = ta_hashedByTarget t"
      by (auto simp: compare_sample_def split: option.splits)
    with Cons.prems have "ta_hashedByTarget (foldl (compare_sample f) (compare_sample f t x) xs)
        \<noteq> ta_hashedByTarget (compare_sample f t x)"
      by simp
    from Cons.IH [OF this] show ?thesis by auto
  qed auto
qed simp

lemma compare_samples_answered:
  assumes "ta_hashedByTarget (compare_samples sources targets) \<noteq> 0"
  obtains x y where "x \<in> set sources" "y \<in> set targets" "sa_naturalKeyHash y = sa_naturalKeyHash x"
    "isComparableContent (sa_content y)"
proof -
  let ?t0 = "\<lparr>ta_matches = 0, ta_mismatches = 0, ta_unavailable = 0, ta_hashedByTarget = 0\<rparr>"
  from assms have "ta_hashedByTarget (foldl (compare_sample (targetSamplesByHash targets)) ?t0 sources)
      \<noteq> ta_hashedByTarget ?t0"
    by (simp add: compare_samples_def)
  from foldl_compare_answered [OF this] obtain x c where x: "x \<in> set sources"
    and c: "targetSamplesByHash targets (sa_naturalKeyHash x) = Some c" "isComparableContent c"
    by blast
  from map_of_SomeD [OF c(1) [unfolded targetSamplesByHash_def]] x c(2) that show thesis by auto
qed

subsection \<open>One data type's result\<close>

definition well_counted :: "data_type_verification \<Rightarrow> bool" where
  "well_counted v \<longleftrightarrow>
     dv_checksumMatches v + dv_checksumMismatches v + dv_checksumUnavailable v = dv_checksumSampleSize v \<and>
     dv_matchedCount v \<le> int (dv_sourceCount v) \<and>
     (dv_status v \<in> {PASS, WARN, FAIL} \<longrightarrow>
        dv_matchedCount v = int (dv_sourceCount v) - int (dv_missingOnTarget v)) \<and>
     (dv_status v \<in> {SKIPPED, NOT_VERIFIABLE} \<longrightarrow>
        dv_checksumSampleSize v = 0 \<and> dv_targetCount v = 0 \<and> dv_missingOnTarget v = 0 \<and> dv_extraOnTarget v = 0) \<and>
     (dv_status v = SKIPPED \<longrightarrow> dv_sourceCount v = 0) \<and>
     (dv_status v = PASS \<longrightarrow> dv_missingOnTarget v = 0 \<and> dv_extraOnTarget v = 0) \<and>
     (dv_status v \<noteq> PASS \<longrightarrow> dv_issues v \<noteq> [])"

definition sound_thresholds :: "verification_config \<Rightarrow> bool" where
  "sound_thresholds config \<longleftrightarrow>
     vc_requiredMatchPercentage config \<le> 1 \<and> 0 \<le> vc_maxDiscrepancyPercentage config"

lemma verdict_of_fields:
  assumes "(v, held) = verdict_of config d can n tn missing extra ss ts bs bt"
  shows "dv_dataType v = d" "dv_sourceCount v = n" "dv_missingOnTarget v = missing" "dv_extraOnTarget v = extra"
    "dv_matchedCount v = int n - int missing" "dv_status v \<in> {PASS, WARN, FAIL}"
    "held = (can \<and> 0 < n \<and> ta_hashedByTarget (compare_samples ss ts) = 0)"
    "held \<Longrightarrow> dv_status v = FAIL"
  using assms by (auto simp: verdict_of_def Let_def determineVerificationStatus_def)

lemma verdict_explained:
  assumes "(v, held) = verdict_of config d can n tn missing extra ss ts bs bt" and "sound_thresholds config"
    and "dv_issues v = []"
  shows "dv_status v = PASS"
proof -
  let ?t = "compare_samples ss ts"
  from assms(1,3) have none: "\<not> held" "missing = 0" "extra = 0" "ta_mismatches ?t = 0"
    by (auto simp: verdict_of_def Let_def issues_found_def split: if_splits)
  then have "(if 0 < n then of_int (int n - int missing) / of_nat n else 1) = (1 :: rat)"
    and "(if 0 < ta_matches ?t + ta_mismatches ?t
          then of_nat (ta_matches ?t) / of_nat (ta_matches ?t + ta_mismatches ?t) else 1) = (1 :: rat)"
    by auto
  with assms(1,2) none show ?thesis
    by (auto simp: verdict_of_def Let_def determineVerificationStatus_def sound_thresholds_def)
qed

lemma verdict_well_counted:
  assumes "(v, held) = verdict_of config d can n tn missing extra ss ts bs bt" and "sound_thresholds config"
  shows "well_counted v"
proof -
  from assms(1) have "dv_checksumMatches v + dv_checksumMismatches v + dv_checksumUnavailable v = dv_checksumSampleSize v"
    using compare_samples_counts(1) [of ss ts] by (auto simp: verdict_of_def Let_def)
  moreover from assms(1) have "dv_status v = PASS \<Longrightarrow> missing = 0 \<and> extra = 0"
    by (auto simp: verdict_of_def Let_def determineVerificationStatus_def split: if_splits)
  ultimately show ?thesis
    using verdict_of_fields [OF assms(1)] verdict_explained [OF assms] by (auto simp: well_counted_def)
qed

text \<open>
  The data types a configuration asks for, and those whose target can be read. A data type
  comes to its result by a run of \<open>verifyDataType\<close>, with the folder of its target gone, or not
  measured and why.
\<close>

definition asked_for :: "verification_config \<Rightarrow> verification_domain \<Rightarrow> bool" where
  "asked_for config d \<longleftrightarrow> isDataTypeEnabled config d \<and>
     (case vc_stoppedByOwner config of None \<Rightarrow> True | Some stopped \<Rightarrow> d \<notin> set stopped)"

definition readable :: "'s verification_deps \<Rightarrow> verification_domain \<Rightarrow> bool" where
  "readable deps d \<longleftrightarrow> (case vd_canVerifyTarget deps of None \<Rightarrow> True | Some can \<Rightarrow> can d)"

lemma verifyDomain_unasked:
  "\<not> asked_for (vd_config deps) d \<Longrightarrow>
     \<exists>why. verifyDomain deps d = ret (notMeasured d SKIPPED why 0 Id_SKIPPED, False)"
  by (auto simp: verifyDomain_def asked_for_def split: option.splits)

lemma verifyDomain_asked:
  assumes "asked_for (vd_config deps) d"
  shows "verifyDomain deps d = bindP (vd_getSourceCount deps d) (\<lambda>recorded.
        if recorded = 0
        then ret (notMeasured d SKIPPED Nothing_recorded 0 Id_SKIPPED, False)
        else if \<not> readable deps d
        then ret (notMeasured d NOT_VERIFIABLE (No_reindexer recorded) recorded Id_NOT_VERIFIABLE, False)
        else catchP (verifyDataType deps d) (\<lambda>err.
          case err of
            Credential_refusal code msg \<Rightarrow>
              if code = ACCOUNT_CLOSED then throw err
              else ret (notMeasured d NOT_VERIFIABLE (Could_not_be_read recorded msg) recorded Id_TARGET_UNREAD, False)
          | Target_folder_missing folder _ \<Rightarrow> ret (targetFolderMissing d recorded folder, False)
          | Other_failure msg \<Rightarrow>
              ret (notMeasured d NOT_VERIFIABLE (Could_not_be_read recorded msg) recorded Id_TARGET_UNREAD, False)))"
proof -
  have can: "(case vd_canVerifyTarget deps of None \<Rightarrow> False | Some can \<Rightarrow> \<not> can d) = (\<not> readable deps d)"
    by (simp add: readable_def split: option.splits)
  have enabled: "isDataTypeEnabled (vd_config deps) d = True"
    and stopped: "(case vc_stoppedByOwner (vd_config deps) of None \<Rightarrow> False | Some stopped \<Rightarrow> d \<in> set stopped) = False"
    using assms by (auto simp: asked_for_def split: option.splits)
  show ?thesis
    by (simp only: verifyDomain_def can enabled stopped not_True_eq_False if_False)
qed

lemma verifyDomain_cases [consumes 1, case_names measured folder_gone unread unreadable skipped]:
  assumes "verifyDomain deps d s = (Inr (v, held), u)"
  obtains (measured) n t where "asked_for (vd_config deps) d" "readable deps d"
      "vd_getSourceCount deps d s = (Inr n, t)" "n \<noteq> 0" "verifyDataType deps d t = (Inr (v, held), u)"
  | (folder_gone) n folder where "v = targetFolderMissing d n folder" "\<not> held"
  | (unread) n msg where "v = notMeasured d NOT_VERIFIABLE (Could_not_be_read n msg) n Id_TARGET_UNREAD" "\<not> held"
  | (unreadable) n where "v = notMeasured d NOT_VERIFIABLE (No_reindexer n) n Id_NOT_VERIFIABLE" "\<not> held"
  | (skipped) why where "v = notMeasured d SKIPPED why 0 Id_SKIPPED" "\<not> held"
      "asked_for (vd_config deps) d \<Longrightarrow> vd_getSourceCount deps d s = (Inr 0, u)"
proof (cases "asked_for (vd_config deps) d")
  case False
  with verifyDomain_unasked [OF False] assms skipped show thesis by (auto simp: run_simps)
next
  case asked: True
  note run = assms [unfolded verifyDomain_asked [OF asked]]
  then obtain n t where n: "vd_getSourceCount deps d s = (Inr n, t)"
    by (auto simp: run_bind split: prod.splits sum.splits)
  show thesis
  proof (cases "n \<noteq> 0 \<and> readable deps d")
    case False
    with run n skipped unreadable show thesis by (auto simp: run_simps split: if_splits)
  next
    case True
    obtain x w where x: "verifyDataType deps d t = (x, w)" by fastforce
    show thesis
    proof (cases x)
      case (Inr r)
      with x n True run have "verifyDataType deps d t = (Inr (v, held), u)" by (simp add: run_simps)
      with measured asked n True show thesis by blast
    next
      case (Inl e)
      with x n True run folder_gone unread show thesis
        by (cases e) (auto simp: run_simps split: if_splits)
    qed
  qed
qed

lemma verifyDomain_named: "verifyDomain deps d s = (Inr (v, held), u) \<Longrightarrow> dv_dataType v = d"
  by (cases rule: verifyDomain_cases)
    (auto simp: notMeasured_def targetFolderMissing_def verifyDataType_def verdict_of_def run_simps Let_def
      split: prod.splits sum.splits)

lemma effect_any: "effect (\<lambda>_ _. True)"
  by unfold_locales auto

lemma measured_status:
  assumes "verifyDataType deps d s = (Inr (v, held), u)"
  shows "dv_status v \<in> {PASS, WARN, FAIL}"
proof -
  have "reads_within (\<lambda>_ _. True) deps" by (simp add: reads_within_def within_def)
  with assms effect_any obtain n tn m e ss ts bs bt where
    "(v, held) = verdict_of (vd_config deps) d (vd_targetCanHash deps d) n tn m e ss ts bs bt"
    by (rule verifyDataType_returns)
  then show ?thesis by (rule verdict_of_fields)
qed

lemma verifyDomain_well_counted:
  assumes "verifyDomain deps d s = (Inr (v, held), u)" and "sound_thresholds (vd_config deps)"
  shows "well_counted v"
  using assms(1)
proof (cases rule: verifyDomain_cases)
  case (measured n t)
  have "reads_within (\<lambda>_ _. True) deps" by (simp add: reads_within_def within_def)
  with measured(5) effect_any obtain n tn m e ss ts bs bt where
    "(v, held) = verdict_of (vd_config deps) d (vd_targetCanHash deps d) n tn m e ss ts bs bt"
    by (rule verifyDataType_returns)
  then show ?thesis using assms(2) by (rule verdict_well_counted)
qed (auto simp: notMeasured_def targetFolderMissing_def well_counted_def)

subsection \<open>The report\<close>

lemma report_entry:
  assumes "map fst found = VERIFICATION_DOMAINS"
  obtains v held where "(d, v, held) \<in> set found" "vr_byDomain (report_of found) d = v"
proof -
  have "map_of (map (\<lambda>(d, v, _). (d, v)) found) d = map_option fst (map_of found d)"
    by (induction found) auto
  moreover have "d \<in> set (map fst found)"
    unfolding assms by (cases d) (auto simp: VERIFICATION_DOMAINS_def)
  then have "map_of found d \<noteq> None" by (simp add: map_of_eq_None_iff)
  then obtain r where "map_of found d = Some r" by auto
  ultimately show thesis
    using map_of_SomeD [of found d] that by (cases r) (auto simp: report_of_def Let_def)
qed

lemma entries_of_report:
  assumes "map fst found = VERIFICATION_DOMAINS"
  shows "set (map (\<lambda>(_, v, _). v) found) = range (vr_byDomain (report_of found))"
proof -
  from assms have distinct: "distinct (map fst found)" by (simp add: VERIFICATION_DOMAINS_def)
  have stands: "vr_byDomain (report_of found) d = v" if "(d, v, held) \<in> set found" for d v held
  proof -
    obtain v' held' where entry: "(d, v', held') \<in> set found" "vr_byDomain (report_of found) d = v'"
      using assms by (rule report_entry)
    have "(v', held') = (v, held)" using distinct entry(1) that by (rule eq_key_imp_eq_value)
    with entry(2) show ?thesis by simp
  qed
  have "v \<in> range (vr_byDomain (report_of found))" if "v \<in> set (map (\<lambda>(_, v, _). v) found)" for v
  proof -
    from that obtain d held where "(d, v, held) \<in> set found" by auto
    from stands [OF this] show ?thesis by blast
  qed
  moreover have "vr_byDomain (report_of found) d \<in> set (map (\<lambda>(_, v, _). v) found)" for d
  proof -
    obtain v held where "(d, v, held) \<in> set found" "vr_byDomain (report_of found) d = v"
      using assms by (rule report_entry)
    then show ?thesis by (auto intro!: image_eqI [where x = "(d, v, held)"])
  qed
  ultimately show ?thesis by blast
qed

lemma report_verdict:
  "vr_overallStatus (report_of found) = calculateOverallStatus (map (\<lambda>(_, v, _). v) found)"
  "vr_score (report_of found) = calculateVerificationScore (map (\<lambda>(_, v, _). v) found)
     (map fst (filter (\<lambda>(_, _, held). held) found))"
  "vr_canProceedToCutover (report_of found) = (vr_overallStatus (report_of found) = PASS \<or>
     (vr_overallStatus (report_of found) = WARN \<and> vr_score (report_of found) \<ge> 95/100))"
  by (simp_all add: report_of_def Let_def)

lemma open_verdict:
  assumes "calculateOverallStatus vs \<noteq> FAIL" and "vs \<noteq> []"
  shows "(\<forall>v \<in> set vs. dv_status v \<in> {PASS, WARN, SKIPPED}) \<and> (\<exists>v \<in> set vs. dv_status v \<in> {PASS, WARN})"
proof -
  from assms have none: "\<forall>v \<in> set vs. dv_status v \<noteq> FAIL \<and> dv_status v \<noteq> NOT_VERIFIABLE"
    and some: "(\<exists>v \<in> set vs. dv_status v = WARN) \<or> \<not> (\<forall>v \<in> set vs. dv_status v = SKIPPED)"
    by (auto simp: calculateOverallStatus_def Let_def split: if_splits)
  then have all: "dv_status v \<in> {PASS, WARN, SKIPPED}" if "v \<in> set vs" for v
    using that by (cases "dv_status v") auto
  with some show ?thesis by blast
qed

lemma report_opens:
  assumes "vr_canProceedToCutover (report_of found)" and "map fst found = VERIFICATION_DOMAINS"
  shows "(\<forall>d. dv_status (vr_byDomain (report_of found) d) \<in> {PASS, WARN, SKIPPED}) \<and>
     (\<exists>d. dv_status (vr_byDomain (report_of found) d) \<in> {PASS, WARN})"
proof -
  let ?vs = "map (\<lambda>(_, v, _). v) found"
  from assms(1) have "calculateOverallStatus ?vs \<noteq> FAIL" unfolding report_verdict by auto
  moreover have "?vs \<noteq> []" using assms(2) by (auto simp: VERIFICATION_DOMAINS_def)
  ultimately have "(\<forall>v \<in> set ?vs. dv_status v \<in> {PASS, WARN, SKIPPED}) \<and> (\<exists>v \<in> set ?vs. dv_status v \<in> {PASS, WARN})"
    by (rule open_verdict)
  then show ?thesis unfolding entries_of_report [OF assms(2)] by blast
qed

lemma domain_score_le: "dv_matchedCount v \<le> int (dv_sourceCount v) \<Longrightarrow> domain_score held v \<le> 1"
proof -
  assume "dv_matchedCount v \<le> int (dv_sourceCount v)"
  then have "(of_int (dv_matchedCount v) :: rat) \<le> of_nat (dv_sourceCount v)"
    by (metis of_int_le_iff of_int_of_nat_eq)
  then have "(if 0 < dv_sourceCount v then of_int (dv_matchedCount v) / of_nat (dv_sourceCount v) else 1) \<le> (1 :: rat)"
    by (simp add: divide_le_eq)
  moreover have "(if 0 < dv_checksumMatches v + dv_checksumMismatches v
      then of_nat (dv_checksumMatches v) / of_nat (dv_checksumMatches v + dv_checksumMismatches v)
      else if dv_dataType v \<in> set held then 0 else 1) \<le> (1 :: rat)"
    by (simp add: divide_le_eq)
  ultimately show ?thesis unfolding domain_score_def Let_def by linarith
qed

lemma domain_score_ge: "0 \<le> dv_matchedCount v \<Longrightarrow> 0 \<le> domain_score held v"
  by (simp add: domain_score_def Let_def)

lemma sum_list_le_length:
  "(\<And>x. x \<in> set xs \<Longrightarrow> f x \<le> (1 :: rat)) \<Longrightarrow> sum_list (map f xs) \<le> of_nat (length xs)"
proof (induction xs)
  case (Cons x xs)
  then have "f x \<le> 1" "sum_list (map f xs) \<le> of_nat (length xs)" by simp_all
  then show ?case by simp
qed simp

lemma score_le:
  assumes "\<And>v. v \<in> set vs \<Longrightarrow> dv_matchedCount v \<le> int (dv_sourceCount v)"
  shows "calculateVerificationScore vs held \<le> 1"
proof -
  let ?measured = "filter (\<lambda>v. dv_status v \<noteq> SKIPPED \<and> dv_status v \<noteq> NOT_VERIFIABLE) vs"
  have "sum_list (map (domain_score held) ?measured) \<le> of_nat (length ?measured)"
    using assms by (intro sum_list_le_length domain_score_le) auto
  then show ?thesis by (auto simp: calculateVerificationScore_def Let_def divide_le_eq)
qed

lemma score_ge:
  assumes "\<And>v. v \<in> set vs \<Longrightarrow> dv_status v \<notin> {SKIPPED, NOT_VERIFIABLE} \<Longrightarrow> 0 \<le> dv_matchedCount v"
  shows "0 \<le> calculateVerificationScore vs held"
  using assms by (auto simp: calculateVerificationScore_def Let_def intro!: divide_nonneg_nonneg sum_list_nonneg domain_score_ge)

definition well_formed_report :: "verification_result \<Rightarrow> bool" where
  "well_formed_report report \<longleftrightarrow>
     (\<forall>d. dv_dataType (vr_byDomain report d) = d \<and> well_counted (vr_byDomain report d)) \<and>
     vr_overallStatus report \<in> {PASS, WARN, FAIL} \<and>
     vr_score report \<le> 1 \<and>
     ((\<forall>d. dv_missingOnTarget (vr_byDomain report d) \<le> dv_sourceCount (vr_byDomain report d)) \<longrightarrow> 0 \<le> vr_score report) \<and>
     (vr_canProceedToCutover report \<longrightarrow>
        (\<forall>d. dv_status (vr_byDomain report d) \<in> {PASS, WARN, SKIPPED}) \<and>
        (\<exists>d. dv_status (vr_byDomain report d) \<in> {PASS, WARN})) \<and>
     vr_recommendations report \<noteq> []"

lemma run_found:
  assumes "runVerification deps s = (Inr report, u)" and "effect R" and "reads_within R deps"
  obtains found where "report = report_of found" "map fst found = VERIFICATION_DOMAINS"
    "\<And>d v held. (d, v, held) \<in> set found \<Longrightarrow>
       \<exists>t t'. R s t \<and> verifyDomain (readingOnlyWhileOpen deps) d t = (Inr (v, held), t')"
proof -
  note kept = verifyDomain_within [OF assms(2) reading_while_open_within [OF assms(2,3)]]
  from assms(1) obtain found where found: "verify_domains (readingOnlyWhileOpen deps) VERIFICATION_DOMAINS s = (Inr found, u)"
      "report = report_of found"
    unfolding runVerification_def by (auto simp: run_simps split: prod.splits sum.splits)
  from verify_domains_run [OF found(1) assms(2) kept] found(2) that show thesis by fastforce
qed

lemma open_config: "vd_config (readingOnlyWhileOpen deps) = vd_config deps"
  by (simp add: readingOnlyWhileOpen_def Let_def split: option.splits)

text \<open>
  C17: Every report the gate returns is well formed. Each data type stands under its own name,
  each sample is tallied once, the matched are the recorded less the missing, what was not
  measured carries no figures, and every status but a pass has an issue that explains it. The
  score is a share of one, and a report that opens the gate has no failed or unreadable data
  type and at least one that was measured.
\<close>
theorem every_report_is_well_formed:
  assumes "runVerification deps s = (Inr report, u)" and "sound_thresholds (vd_config deps)"
  shows "well_formed_report report"
proof -
  have "reads_within (\<lambda>_ _. True) deps" by (simp add: reads_within_def within_def)
  with assms(1) effect_any obtain found where found: "report = report_of found" "map fst found = VERIFICATION_DOMAINS"
    "\<And>d v held. (d, v, held) \<in> set found \<Longrightarrow>
       \<exists>t t'. verifyDomain (readingOnlyWhileOpen deps) d t = (Inr (v, held), t')"
    by (rule run_found) blast
  have each: "dv_dataType (vr_byDomain report d) = d \<and> well_counted (vr_byDomain report d)" for d
  proof -
    from report_entry [OF found(2)] obtain v held where "(d, v, held) \<in> set found" "vr_byDomain report d = v"
      unfolding found(1) by metis
    with found(3) show ?thesis
      using verifyDomain_named verifyDomain_well_counted assms(2) open_config by metis
  qed
  let ?vs = "map (\<lambda>(_, v, _). v) found"
  have entries: "set ?vs = range (vr_byDomain report)"
    using entries_of_report [OF found(2)] found(1) by simp
  have "vr_score report \<le> 1"
    unfolding found(1) report_verdict using each entries by (intro score_le) (auto simp: well_counted_def)
  moreover have "0 \<le> vr_score report"
    if few: "\<forall>d. dv_missingOnTarget (vr_byDomain report d) \<le> dv_sourceCount (vr_byDomain report d)"
  proof -
    have "0 \<le> dv_matchedCount (vr_byDomain report d)" if "dv_status (vr_byDomain report d) \<notin> {SKIPPED, NOT_VERIFIABLE}" for d
    proof -
      from that have "dv_status (vr_byDomain report d) \<in> {PASS, WARN, FAIL}"
        by (cases "dv_status (vr_byDomain report d)") auto
      with each [of d] have "dv_matchedCount (vr_byDomain report d) =
          int (dv_sourceCount (vr_byDomain report d)) - int (dv_missingOnTarget (vr_byDomain report d))"
        unfolding well_counted_def by blast
      with few [rule_format, of d] show ?thesis by simp
    qed
    then show ?thesis unfolding found(1) report_verdict using entries [unfolded found(1)] by (intro score_ge) (auto simp: found(1))
  qed
  moreover have "vr_overallStatus report \<in> {PASS, WARN, FAIL}"
    unfolding found(1) report_verdict by (auto simp: calculateOverallStatus_def Let_def)
  moreover have "(\<forall>d. dv_status (vr_byDomain report d) \<in> {PASS, WARN, SKIPPED}) \<and>
        (\<exists>d. dv_status (vr_byDomain report d) \<in> {PASS, WARN})" if "vr_canProceedToCutover report"
    using that report_opens [OF _ found(2)] unfolding found(1) by blast
  moreover have "vr_recommendations report \<noteq> []"
    unfolding found(1) by (simp add: report_of_def generateRecommendations_def Let_def)
  ultimately show ?thesis using each by (simp add: well_formed_report_def)
qed

subsection \<open>A ledger and targets that stand still\<close>

text \<open>
  The world of a run in which nothing is copied: no reading changes the ledger's rows, and a
  target that answers answers with the same entries. It may also fail, at any reading.
\<close>

definition same_items :: "('s \<Rightarrow> items) \<Rightarrow> 's \<Rightarrow> 's \<Rightarrow> bool" where
  "same_items items_of s t \<longleftrightarrow> items_of t = items_of s"

interpretation rows: effect "same_items items_of"
  by unfold_locales (auto simp: same_items_def)

definition still_target :: "('s \<Rightarrow> items) \<Rightarrow> target_entry list \<Rightarrow> 's target_reindexer \<Rightarrow> bool" where
  "still_target items_of entries target \<longleftrightarrow>
     relates (same_items items_of) (ti_listEntries target) \<and>
     (\<forall>s es t. ti_listEntries target s = (Inr es, t) \<longrightarrow> es = entries) \<and>
     (\<forall>hashFor e. ti_contentHashFor target = Some hashFor \<longrightarrow> relates (same_items items_of) (hashFor e))"

definition still_world ::
    "('s \<Rightarrow> items) \<Rightarrow> string \<Rightarrow> string \<Rightarrow> (verification_domain \<Rightarrow> target_entry list) \<Rightarrow> 's real_deps \<Rightarrow> bool" where
  "still_world items_of tenant mapping listing deps \<longleftrightarrow>
     re_verificationReader deps = createLedgerVerificationReader items_of tenant mapping \<and>
     (\<forall>d target. reindexerFor deps d = Some target \<longrightarrow> still_target items_of (listing d) target) \<and>
     (\<forall>ask. re_organisationIsOpen deps = Some ask \<longrightarrow> relates (same_items items_of) ask)"

lemma reading_fields:
  "vd_getSourceCount (readingOnlyWhileOpen deps) = vd_getSourceCount deps"
  "vd_getSourceSamples (readingOnlyWhileOpen deps) = vd_getSourceSamples deps"
  "vd_getTotalBytesSource (readingOnlyWhileOpen deps) = vd_getTotalBytesSource deps"
  "vd_targetCanHash (readingOnlyWhileOpen deps) = vd_targetCanHash deps"
  "vd_canVerifyTarget (readingOnlyWhileOpen deps) = vd_canVerifyTarget deps"
  "vd_getTargetCount (readingOnlyWhileOpen deps) d =
     thenP (refuseOnceClosed (vd_organisationIsOpen deps)) (vd_getTargetCount deps d)"
  "vd_getTargetSamples (readingOnlyWhileOpen deps) d n hs =
     thenP (refuseOnceClosed (vd_organisationIsOpen deps)) (vd_getTargetSamples deps d n hs)"
  "vd_findMissingOnTarget (readingOnlyWhileOpen deps) d =
     thenP (refuseOnceClosed (vd_organisationIsOpen deps)) (vd_findMissingOnTarget deps d)"
  "vd_findExtraOnTarget (readingOnlyWhileOpen deps) d =
     thenP (refuseOnceClosed (vd_organisationIsOpen deps)) (vd_findExtraOnTarget deps d)"
  by (simp_all add: readingOnlyWhileOpen_def Let_def refuseOnceClosed_def thenP_def ret_bind split: option.splits)

lemma reading_bytes:
  "(case vd_getTotalBytesTarget (readingOnlyWhileOpen deps) of None \<Rightarrow> ret None | Some bytes \<Rightarrow> bytes d) =
     (case vd_getTotalBytesTarget deps of None \<Rightarrow> ret None
      | Some bytes \<Rightarrow> thenP (refuseOnceClosed (vd_organisationIsOpen deps)) (bytes d))"
  by (cases "vd_getTotalBytesTarget deps")
    (simp_all add: readingOnlyWhileOpen_def Let_def refuseOnceClosed_def thenP_def ret_bind split: option.splits)

lemma hash_samples_within:
  assumes "\<And>ask. isOpen = Some ask \<Longrightarrow> relates (same_items items_of) ask"
    and "\<And>e. relates (same_items items_of) (hashFor e)"
  shows "relates (same_items items_of) (hash_samples isOpen hashFor xs)"
  using assms
  by (induction xs) (auto intro!: rows.within_structure refusal_within rows.effect_axioms split: prod.splits if_split)

lemma real_deps_within:
  assumes "still_world items_of tenant mapping listing deps"
  shows "reads_within (same_items items_of) (createRealVerificationDeps key deps)"
proof -
  have reader: "re_verificationReader deps = createLedgerVerificationReader items_of tenant mapping"
    and asks: "\<And>ask. re_organisationIsOpen deps = Some ask \<Longrightarrow> relates (same_items items_of) ask"
    using assms by (auto simp: still_world_def)
  have lists: "relates (same_items items_of) (ti_listEntries target)"
    and hashes: "ti_contentHashFor target = Some hashFor \<Longrightarrow> relates (same_items items_of) (hashFor e)"
    if "reindexerFor deps d = Some target" for d target hashFor e
    using assms that by (auto simp: still_world_def still_target_def)
  show ?thesis
    using lists hashes asks
    by (auto simp: reads_within_def createRealVerificationDeps_def Let_def reader createLedgerVerificationReader_def
        getTargetCountFromReindexer_def getSourceSamplesFromLedger_def getTargetSamplesFromReindexer_def
        findMissingOnTarget_def findExtraOnTarget_def getTotalBytesFromReindexer_def
        intro!: rows.within_structure hash_samples_within split: option.splits if_split)
qed

abbreviation recorded_rows :: "string \<Rightarrow> string \<Rightarrow> verification_domain \<Rightarrow> items \<Rightarrow> items" where
  "recorded_rows tenant mapping d rows \<equiv> counted_rows tenant mapping (mapDataTypeToDomain d) rows"

definition listed_keys :: "key_hash \<Rightarrow> verification_domain \<Rightarrow> target_entry list \<Rightarrow> string set" where
  "listed_keys key d entries = set (map (\<lambda>e. key d (te_naturalKey e)) entries)"

lemma still_missing:
  assumes "still_world items_of tenant mapping listing deps"
    and "vd_findMissingOnTarget (readingOnlyWhileOpen (createRealVerificationDeps key deps)) d s = (Inr missing, t)"
  shows "missing = filter (\<lambda>h. h \<notin> listed_keys key d (listing d))
      (map it_natural_key_hash (recorded_rows tenant mapping d (items_of s)))"
proof -
  have reader: "re_verificationReader deps = createLedgerVerificationReader items_of tenant mapping"
    using assms(1) by (simp add: still_world_def)
  from assms(2) obtain a u where u: "refuseOnceClosed (re_organisationIsOpen deps) s = (Inr a, u)"
    and found: "findMissingOnTarget key (reindexerFor deps d) (re_verificationReader deps) d u = (Inr missing, t)"
    by (auto simp: reading_fields createRealVerificationDeps_def Let_def elim: returned_then)
  have "relates (same_items items_of) (refuseOnceClosed (re_organisationIsOpen deps))"
    using assms(1) by (intro refusal_within rows.effect_axioms) (auto simp: still_world_def)
  from withinD [OF this u] have same: "items_of u = items_of s" by (simp add: same_items_def)
  from found obtain target where target: "reindexerFor deps d = Some target"
    by (auto simp: findMissingOnTarget_def run_simps split: option.splits)
  with assms(1) have "ti_listEntries target w = (Inr es, w') \<Longrightarrow> es = listing d" for w es w'
    unfolding still_world_def still_target_def by blast
  with found target same reader show ?thesis
    by (auto simp: findMissingOnTarget_def createLedgerVerificationReader_def run_simps Let_def listed_keys_def
        split: prod.splits sum.splits)
qed

text \<open>An entry whose content the target gave: in its listing, or when it was asked for it.\<close>

definition gave_content :: "'s target_reindexer \<Rightarrow> target_entry \<Rightarrow> bool" where
  "gave_content target e \<longleftrightarrow> truthy (te_contentHash e) \<or>
     (\<exists>hashFor s hash t. ti_contentHashFor target = Some hashFor \<and> hashFor e s = (Inr (Some hash), t) \<and> hash \<noteq> [])"

lemma or_empty_given: "or_empty t \<noteq> [] \<longleftrightarrow> truthy t"
  by (cases t) (simp_all add: or_empty_def truthy_def)

lemma hash_samples_given:
  assumes "hash_samples isOpen hashFor xs s = (Inr ys, t)" and "y \<in> set ys" and "isComparableContent (sa_content y)"
  shows "\<exists>content entry. (sa_naturalKeyHash y, content, entry) \<in> set xs \<and>
     (content \<noteq> [] \<or> (\<exists>u hash w. hashFor entry u = (Inr (Some hash), w) \<and> hash \<noteq> []))"
  using assms(1,2)
proof (induction xs arbitrary: s ys)
  case Nil
  then show ?case by (simp add: run_simps)
next
  case (Cons x xs)
  obtain h content entry where x: "x = (h, content, entry)" by (cases x)
  from Cons.prems(1) x obtain c u where
    c: "(if content \<noteq> [] then ret content
         else thenP (refuseOnceClosed isOpen)
           (bindP (hashFor entry) (\<lambda>hash. ret (if truthy hash then the hash else content)))) s = (Inr c, u)"
    and rest: "bindP (hash_samples isOpen hashFor xs) (\<lambda>rest.
       ret (\<lparr>sa_naturalKeyHash = h, sa_content = Text_content c\<rparr> # rest)) u = (Inr ys, t)"
    by (auto elim: returned_bind)
  from rest obtain zs where zs: "hash_samples isOpen hashFor xs u = (Inr zs, t)"
      "ys = \<lparr>sa_naturalKeyHash = h, sa_content = Text_content c\<rparr> # zs"
    by (auto simp: run_simps split: prod.splits sum.splits)
  show ?case
  proof (cases "y \<in> set zs")
    case True
    from Cons.IH [OF zs(1) True] show ?thesis by (meson list.set_intros(2))
  next
    case False
    with Cons.prems(2) zs(2) have y: "y = \<lparr>sa_naturalKeyHash = h, sa_content = Text_content c\<rparr>" by simp
    with assms(3) have "c \<noteq> []" by auto
    with c have "content \<noteq> [] \<or> (\<exists>u hash w. hashFor entry u = (Inr (Some hash), w) \<and> hash \<noteq> [])"
      by (auto simp: run_simps truthy_def split: if_splits prod.splits sum.splits option.splits)
    moreover have "(sa_naturalKeyHash y, content, entry) \<in> set (x # xs)" using y x by simp
    ultimately show ?thesis by blast
  qed
qed

lemma sampled_entries_listed:
  "(h, content, e) \<in> set (sampled_entries n wanted (all_entries key d entries)) \<Longrightarrow>
     e \<in> set entries \<and> h = key d (te_naturalKey e) \<and> content = or_empty (te_contentHash e)"
  by (auto simp: sampled_entries_def all_entries_def dest: in_set_takeD split: if_splits)

lemma still_sample_given:
  assumes "still_world items_of tenant mapping listing deps" and "reindexerFor deps d = Some target"
    and "vd_getTargetSamples (readingOnlyWhileOpen (createRealVerificationDeps key deps)) d n wanted s = (Inr ts, t)"
    and "y \<in> set ts" and "isComparableContent (sa_content y)"
  shows "\<exists>e \<in> set (listing d). key d (te_naturalKey e) = sa_naturalKeyHash y \<and> gave_content target e"
proof -
  from assms(2,3) obtain u where
    "getTargetSamplesFromReindexer key (Some target) (re_organisationIsOpen deps) d n wanted u = (Inr ts, t)"
    by (auto simp: reading_fields createRealVerificationDeps_def Let_def elim: returned_then)
  then obtain es w where es: "ti_listEntries target u = (Inr es, w)"
    and given: "(case ti_contentHashFor target of
              Some hashFor \<Rightarrow> hash_samples (re_organisationIsOpen deps) hashFor (sampled_entries n wanted (all_entries key d es))
            | None \<Rightarrow> ret (map (\<lambda>(h, c, _). \<lparr>sa_naturalKeyHash = h, sa_content = Text_content c\<rparr>)
                (sampled_entries n wanted (all_entries key d es)))) w = (Inr ts, t)"
    by (auto simp: getTargetSamplesFromReindexer_def Let_def elim: returned_bind)
  from assms(1,2) es have "es = listing d" unfolding still_world_def still_target_def by blast
  show ?thesis
  proof (cases "ti_contentHashFor target")
    case None
    with given assms(4,5) show ?thesis
      by (auto simp: run_simps gave_content_def or_empty_given \<open>es = listing d\<close> dest!: sampled_entries_listed) blast
  next
    case (Some hashFor)
    with given have "hash_samples (re_organisationIsOpen deps) hashFor
        (sampled_entries n wanted (all_entries key d (listing d))) w = (Inr ts, t)"
      by (simp add: \<open>es = listing d\<close>)
    from hash_samples_given [OF this assms(4,5)] obtain content e where
      "(sa_naturalKeyHash y, content, e) \<in> set (sampled_entries n wanted (all_entries key d (listing d)))"
      and "content \<noteq> [] \<or> (\<exists>u hash w. hashFor e u = (Inr (Some hash), w) \<and> hash \<noteq> [])"
      by blast
    with sampled_entries_listed Some show ?thesis
      by (fastforce simp: gave_content_def or_empty_given)
  qed
qed

lemma still_source_samples:
  assumes "still_world items_of tenant mapping listing deps"
    and "vd_getSourceSamples (readingOnlyWhileOpen (createRealVerificationDeps key deps)) d n s = (Inr ss, t)"
    and "x \<in> set ss"
  shows "\<exists>r \<in> set (recorded_rows tenant mapping d (items_of s)). it_natural_key_hash r = sa_naturalKeyHash x"
proof -
  have reader: "re_verificationReader deps = createLedgerVerificationReader items_of tenant mapping"
    using assms(1) by (simp add: still_world_def)
  with assms(2) have "ss = map (\<lambda>r. \<lparr>sa_naturalKeyHash = it_natural_key_hash r,
      sa_content = Text_content (or_empty (it_content_hash r))\<rparr>)
      (take n (sort_key it_natural_key_hash (recorded_rows tenant mapping d (items_of s))))"
    by (auto simp: reading_fields createRealVerificationDeps_def Let_def getSourceSamplesFromLedger_def
        createLedgerVerificationReader_def run_simps)
  with assms(3) show ?thesis by (auto dest!: in_set_takeD)
qed

lemma passing_share:
  assumes "determineVerificationStatus p q missing extra config n \<noteq> FAIL" and "0 < n"
  shows "of_nat missing \<le> vc_maxDiscrepancyPercentage config * of_nat n"
  using assms by (auto simp: determineVerificationStatus_def Let_def divide_le_eq not_less split: if_splits)

lemma passing_verdict:
  assumes "(v, held) = verdict_of config d can n tn missing extra ss ts bs bt" and "dv_status v \<in> {PASS, WARN}" and "0 < n"
  shows "\<not> held \<and> of_nat missing \<le> vc_maxDiscrepancyPercentage config * of_nat n"
proof -
  let ?t = "compare_samples ss ts"
  have status: "dv_status v = (if held then FAIL else determineVerificationStatus
      (if 0 < n then of_int (int n - int missing) / of_nat n else 1)
      (if 0 < ta_matches ?t + ta_mismatches ?t
       then of_nat (ta_matches ?t) / of_nat (ta_matches ?t + ta_mismatches ?t) else 1) missing extra config n)"
    using assms(1) unfolding verdict_of_def Let_def by (simp only: prod.inject data_type_verification.select_convs)
  with assms(2) have "\<not> held" by auto
  with status assms(2) have "determineVerificationStatus
      (if 0 < n then of_int (int n - int missing) / of_nat n else 1)
      (if 0 < ta_matches ?t + ta_mismatches ?t
       then of_nat (ta_matches ?t) / of_nat (ta_matches ?t + ta_mismatches ?t) else 1) missing extra config n \<noteq> FAIL"
    by (simp only: if_False) auto
  from passing_share [OF this assms(3)] \<open>\<not> held\<close> show ?thesis by simp
qed

text \<open>What a passing data type is worth in such a world.\<close>

definition well_placed ::
    "key_hash \<Rightarrow> verification_config \<Rightarrow> 's target_reindexer option \<Rightarrow> verification_domain \<Rightarrow> target_entry list \<Rightarrow> items \<Rightarrow> bool" where
  "well_placed key config found d entries rows \<longleftrightarrow> (case found of
     None \<Rightarrow> False
   | Some target \<Rightarrow>
       of_nat (length (filter (\<lambda>r. it_natural_key_hash r \<notin> listed_keys key d entries) rows))
         \<le> vc_maxDiscrepancyPercentage config * of_nat (length rows) \<and>
       (ti_contentHashFor target \<noteq> None \<longrightarrow>
          (\<exists>r \<in> set rows. \<exists>e \<in> set entries. key d (te_naturalKey e) = it_natural_key_hash r \<and> gave_content target e)))"

lemma passing_is_well_placed:
  assumes "still_world items_of tenant mapping listing deps"
    and "verifyDomain (readingOnlyWhileOpen (createRealVerificationDeps key deps)) d s = (Inr (v, held), u)"
    and "dv_status v \<in> {PASS, WARN}"
  shows "asked_for (re_config deps) d \<and> recorded_rows tenant mapping d (items_of s) \<noteq> [] \<and>
    well_placed key (re_config deps) (reindexerFor deps d) d (listing d) (recorded_rows tenant mapping d (items_of s))"
  using assms(2)
proof (cases rule: verifyDomain_cases)
  case (measured n0 t)
  let ?D = "readingOnlyWhileOpen (createRealVerificationDeps key deps)"
  let ?rows = "recorded_rows tenant mapping d (items_of s)"
  have reader: "re_verificationReader deps = createLedgerVerificationReader items_of tenant mapping"
    using assms(1) by (simp add: still_world_def)
  have config: "vd_config ?D = re_config deps" by (simp add: open_config createRealVerificationDeps_def Let_def)
  have count: "vd_getSourceCount ?D d = readP (\<lambda>s. length (recorded_rows tenant mapping d (items_of s)))"
    by (simp add: reading_fields createRealVerificationDeps_def Let_def reader createLedgerVerificationReader_def)
  with measured(3,4) have t: "t = s" and rows: "?rows \<noteq> []" by (auto simp: run_simps)
  from measured(2) obtain target where target: "reindexerFor deps d = Some target"
    by (auto simp: readable_def reading_fields createRealVerificationDeps_def Let_def)
  have within: "reads_within (same_items items_of) ?D"
    by (intro reading_while_open_within rows.effect_axioms real_deps_within [OF assms(1)])
  obtain n tn missing extra ss ts bs bt s1 s2 s3 s4 s5 s6 where run:
    "vd_getSourceCount ?D d s = (Inr n, s1)" "same_items items_of s s2"
    "vd_findMissingOnTarget ?D d s2 = (Inr missing, s3)" "same_items items_of s s3"
    "vd_findExtraOnTarget ?D d s3 = (Inr extra, s4)" "same_items items_of s s4"
    "vd_getSourceSamples ?D d (calculateSampleSize n (vd_config ?D)) s4 = (Inr ss, s5)" "same_items items_of s s5"
    "vd_getTargetSamples ?D d (calculateSampleSize n (vd_config ?D)) (map sa_naturalKeyHash ss) s5 = (Inr ts, s6)"
    "(v, held) = verdict_of (vd_config ?D) d (vd_targetCanHash ?D d) n tn (length missing) (length extra) ss ts bs bt"
    using measured(5) [unfolded t] rows.effect_axioms within by (rule verifyDataType_returns)
  from run(1) have n: "n = length ?rows" unfolding count by (auto simp: run_simps)
  from still_missing [OF assms(1) run(3)] run(2)
  have missing: "length missing = length (filter (\<lambda>r. it_natural_key_hash r \<notin> listed_keys key d (listing d)) ?rows)"
    by (simp add: same_items_def filter_map o_def)
  have "0 < n" using n rows by simp
  from passing_verdict [OF run(10) assms(3) this] have pass: "\<not> held"
    and few: "of_nat (length missing) \<le> vc_maxDiscrepancyPercentage (re_config deps) * of_nat n"
    unfolding config by auto
  have "\<exists>r \<in> set ?rows. \<exists>e \<in> set (listing d). key d (te_naturalKey e) = it_natural_key_hash r \<and> gave_content target e"
    if "ti_contentHashFor target \<noteq> None"
  proof -
    from that target have "vd_targetCanHash ?D d"
      by (simp add: reading_fields createRealVerificationDeps_def Let_def)
    with pass verdict_of_fields(7) [OF run(10)] n rows have "ta_hashedByTarget (compare_samples ss ts) \<noteq> 0" by simp
    then obtain x y where xy: "x \<in> set ss" "y \<in> set ts" "sa_naturalKeyHash y = sa_naturalKeyHash x"
        "isComparableContent (sa_content y)"
      by (rule compare_samples_answered)
    obtain r where r: "r \<in> set ?rows" "it_natural_key_hash r = sa_naturalKeyHash x"
      using still_source_samples [OF assms(1) run(7) xy(1)] run(6) by (auto simp: same_items_def)
    obtain e where "e \<in> set (listing d)" "key d (te_naturalKey e) = sa_naturalKeyHash y" "gave_content target e"
      using still_sample_given [OF assms(1) target run(9) xy(2,4)] by blast
    with r xy(3) show ?thesis by (intro bexI [of _ r] bexI [of _ e]) simp_all
  qed
  with few target n missing measured(1) rows show ?thesis
    by (simp add: well_placed_def config)
qed (use assms(3) in \<open>auto simp: notMeasured_def targetFolderMissing_def\<close>)

text \<open>
  C15: The gate opens only on what is there. When a run over the ledger and targets that stand
  still says the cutover can proceed, then every data type it was asked for that has recorded
  items was read on its own target, at most the allowed share of its items is missing from the
  target's listing, and a target that can be asked for content gave the content of at least one
  recorded item. At least one data type has recorded items. Targets may fail at any reading.
\<close>
theorem the_gate_opens_on_what_is_there:
  assumes "runVerification (createRealVerificationDeps key deps) s = (Inr report, u)"
    and "still_world items_of tenant mapping listing deps" and "vr_canProceedToCutover report"
  shows "(\<forall>d. asked_for (re_config deps) d \<and> recorded_rows tenant mapping d (items_of s) \<noteq> [] \<longrightarrow>
      well_placed key (re_config deps) (reindexerFor deps d) d (listing d) (recorded_rows tenant mapping d (items_of s))) \<and>
    (\<exists>d. asked_for (re_config deps) d \<and> recorded_rows tenant mapping d (items_of s) \<noteq> [])"
proof -
  let ?D = "readingOnlyWhileOpen (createRealVerificationDeps key deps)"
  obtain found where found: "report = report_of found" "map fst found = VERIFICATION_DOMAINS"
    "\<And>d v held. (d, v, held) \<in> set found \<Longrightarrow>
       \<exists>t t'. same_items items_of s t \<and> verifyDomain ?D d t = (Inr (v, held), t')"
    using assms(1) rows.effect_axioms real_deps_within [OF assms(2)] by (rule run_found) blast
  have ran: "\<exists>held t t'. items_of t = items_of s \<and> verifyDomain ?D d t = (Inr (vr_byDomain report d, held), t')" for d
    using report_entry [OF found(2), of d] found(3) unfolding found(1) same_items_def by metis
  note opens = report_opens [OF assms(3) [unfolded found(1)] found(2), folded found(1)]
  have count: "vd_getSourceCount ?D d = readP (\<lambda>s. length (recorded_rows tenant mapping d (items_of s)))" for d
    using assms(2) by (simp add: reading_fields createRealVerificationDeps_def Let_def still_world_def
        createLedgerVerificationReader_def)
  have passing: "asked_for (re_config deps) d \<and> recorded_rows tenant mapping d (items_of s) \<noteq> [] \<and>
      well_placed key (re_config deps) (reindexerFor deps d) d (listing d) (recorded_rows tenant mapping d (items_of s))"
    if "dv_status (vr_byDomain report d) \<in> {PASS, WARN}" for d
    using ran [of d] passing_is_well_placed [OF assms(2) _ that] by metis
  have "dv_status (vr_byDomain report d) \<in> {PASS, WARN}"
    if asked: "asked_for (re_config deps) d" and some: "recorded_rows tenant mapping d (items_of s) \<noteq> []" for d
  proof (rule ccontr)
    assume "dv_status (vr_byDomain report d) \<notin> {PASS, WARN}"
    with opens have skipped: "dv_status (vr_byDomain report d) = SKIPPED" by blast
    obtain held t t' where t: "items_of t = items_of s"
      and run: "verifyDomain ?D d t = (Inr (vr_byDomain report d, held), t')"
      using ran by blast
    have "asked_for (vd_config ?D) d" using asked by (simp add: open_config createRealVerificationDeps_def Let_def)
    with run have "vd_getSourceCount ?D d t = (Inr 0, t')"
    proof (cases rule: verifyDomain_cases)
      case (measured n w)
      from measured_status [OF measured(5)] skipped show ?thesis by simp
    qed (use skipped in \<open>auto simp: notMeasured_def targetFolderMissing_def\<close>)
    then show False using some t unfolding count by (simp add: run_simps)
  qed
  with passing opens show ?thesis by blast
qed

subsection \<open>Once the organisation is closed\<close>

text \<open>
  Two targets that answer alike while the organisation is open, whatever either would do after
  its close. A close may come with any answer: it is a matter of the state the reading leaves.
\<close>

definition agree_while_open ::
    "('s \<Rightarrow> bool) \<Rightarrow> 's target_reindexer option \<Rightarrow> 's target_reindexer option \<Rightarrow> bool" where
  "agree_while_open is_open a b \<longleftrightarrow> (case (a, b) of
     (None, None) \<Rightarrow> True
   | (Some x, Some y) \<Rightarrow>
       (\<forall>s. is_open s \<longrightarrow> ti_listEntries x s = ti_listEntries y s) \<and>
       (case (ti_contentHashFor x, ti_contentHashFor y) of
          (None, None) \<Rightarrow> True
        | (Some f, Some g) \<Rightarrow> \<forall>e s. is_open s \<longrightarrow> f e s = g e s
        | _ \<Rightarrow> False)
   | _ \<Rightarrow> False)"

lemma asked_first:
  assumes "\<And>s. is_open s \<Longrightarrow> m s = n s"
  shows "thenP (refuseOnceClosed (Some (readP is_open))) m = thenP (refuseOnceClosed (Some (readP is_open))) n"
  using assms by (auto simp: fun_eq_iff refuseOnceClosed_def run_simps)

lemma hash_samples_agree:
  assumes "\<And>e s. is_open s \<Longrightarrow> f e s = g e s"
  shows "hash_samples (Some (readP is_open)) f xs = hash_samples (Some (readP is_open)) g xs"
proof (induction xs)
  case (Cons x xs)
  obtain h content e where x: "x = (h, content, e)" by (cases x)
  have "thenP (refuseOnceClosed (Some (readP is_open))) (bindP (f e) k) =
      thenP (refuseOnceClosed (Some (readP is_open))) (bindP (g e) k)" for k :: "string option \<Rightarrow> ('a, string) reading"
    by (rule asked_first) (simp add: run_simps assms)
  with Cons.IH x show ?case by simp
qed simp

lemma targets_agree:
  assumes "agree_while_open is_open a b" and "is_open s"
    and reader: "reader = createLedgerVerificationReader items_of tenant mapping"
  shows count_agrees: "getTargetCountFromReindexer key a reader d s = getTargetCountFromReindexer key b reader d s"
    and samples_agree: "getTargetSamplesFromReindexer key a (Some (readP is_open)) d n hs s =
      getTargetSamplesFromReindexer key b (Some (readP is_open)) d n hs s"
    and missing_agree: "findMissingOnTarget key a reader d s = findMissingOnTarget key b reader d s"
    and extra_agree: "findExtraOnTarget key a reader d s = findExtraOnTarget key b reader d s"
    and bytes_agree: "getTotalBytesFromReindexer key a reader d s = getTotalBytesFromReindexer key b reader d s"
proof -
  have alike: "a = None \<and> b = None \<or> (\<exists>x y. a = Some x \<and> b = Some y \<and> ti_listEntries x s = ti_listEntries y s)"
    using assms(1,2) by (auto simp: agree_while_open_def split: option.splits)
  show "getTargetCountFromReindexer key a reader d s = getTargetCountFromReindexer key b reader d s"
    using alike by (auto simp: getTargetCountFromReindexer_def reader createLedgerVerificationReader_def run_simps)
  show "findMissingOnTarget key a reader d s = findMissingOnTarget key b reader d s"
    using alike by (auto simp: findMissingOnTarget_def reader createLedgerVerificationReader_def run_simps)
  show "findExtraOnTarget key a reader d s = findExtraOnTarget key b reader d s"
    using alike by (auto simp: findExtraOnTarget_def reader createLedgerVerificationReader_def run_simps)
  show "getTotalBytesFromReindexer key a reader d s = getTotalBytesFromReindexer key b reader d s"
    using alike by (auto simp: getTotalBytesFromReindexer_def reader createLedgerVerificationReader_def run_simps)
  show "getTargetSamplesFromReindexer key a (Some (readP is_open)) d n hs s =
      getTargetSamplesFromReindexer key b (Some (readP is_open)) d n hs s"
  proof (cases a; cases b)
    fix x y
    assume xy: "a = Some x" "b = Some y"
    with alike have listed: "ti_listEntries x s = ti_listEntries y s" by simp
    show ?thesis
    proof (cases "ti_contentHashFor x")
      case None
      with assms(1) xy have "ti_contentHashFor y = None" by (simp add: agree_while_open_def split: option.splits)
      with None xy listed show ?thesis by (simp add: getTargetSamplesFromReindexer_def run_bind)
    next
      case (Some f)
      with assms(1) xy obtain g where g: "ti_contentHashFor y = Some g" "\<And>e s. is_open s \<Longrightarrow> f e s = g e s"
        by (auto simp: agree_while_open_def split: option.splits)
      from hash_samples_agree [of is_open f g, OF g(2)] Some g(1) xy listed show ?thesis
        by (simp add: getTargetSamplesFromReindexer_def run_bind)
    qed
  qed (use alike in auto)
qed

text \<open>
  C16: Once the organisation is closed no target is read. A run that asks whether the organisation
  is open is the same run with any other targets that answer alike while it is: what a target
  would answer after the close, and what reading it would do, makes no difference to the report,
  to the error or to the state the run leaves. The close may land during any reading.
\<close>
theorem nothing_is_read_after_the_close:
  assumes "re_organisationIsOpen deps = Some (readP is_open)"
    and "re_verificationReader deps = createLedgerVerificationReader items_of tenant mapping"
    and "\<forall>d. agree_while_open is_open (reindexerFor deps d)
      (reindexerFor (deps\<lparr>re_targetReindexer := mail, re_targetReindexers := others\<rparr>) d)"
  shows "runVerification (createRealVerificationDeps key deps) s =
    runVerification (createRealVerificationDeps key (deps\<lparr>re_targetReindexer := mail, re_targetReindexers := others\<rparr>)) s"
proof -
  let ?other = "deps\<lparr>re_targetReindexer := mail, re_targetReindexers := others\<rparr>"
  let ?A = "createRealVerificationDeps key deps" and ?B = "createRealVerificationDeps key ?other"
  let ?reader = "createLedgerVerificationReader items_of tenant mapping"
  note agree = assms(3) [rule_format] and same = asked_first [where is_open = is_open]
  have presence: "(reindexerFor deps d \<noteq> None) = (reindexerFor ?other d \<noteq> None)"
    and hashing: "(case reindexerFor deps d of None \<Rightarrow> False | Some t \<Rightarrow> ti_contentHashFor t \<noteq> None) =
      (case reindexerFor ?other d of None \<Rightarrow> False | Some t \<Rightarrow> ti_contentHashFor t \<noteq> None)" for d
    using agree [of d] by (auto simp: agree_while_open_def split: option.splits)
  have "readingOnlyWhileOpen ?A = readingOnlyWhileOpen ?B"
    unfolding readingOnlyWhileOpen_def createRealVerificationDeps_def Let_def
    by (simp add: assms(1,2) presence [simplified] hashing
        same [OF count_agrees [OF agree _ refl [of ?reader]]] same [OF samples_agree [OF agree _ refl [of ?reader]]]
        same [OF missing_agree [OF agree _ refl [of ?reader]]] same [OF extra_agree [OF agree _ refl [of ?reader]]]
        same [OF bytes_agree [OF agree _ refl [of ?reader]]])
  then show ?thesis by (simp only: runVerification_def)
qed

subsection \<open>A target that cannot be read\<close>

text \<open>
  A reading that leaves the state as it is, and does not fail with the refusal of a closed
  organisation; and a world of such readings, in which the organisation is open.
\<close>

definition unrefused :: "gate_error \<Rightarrow> bool" where
  "unrefused e \<longleftrightarrow> (case e of Credential_refusal code _ \<Rightarrow> code \<noteq> ACCOUNT_CLOSED | _ \<Rightarrow> True)"

definition quiet_at :: "'s \<Rightarrow> ('s, 'a) reading \<Rightarrow> bool" where
  "quiet_at s m \<longleftrightarrow> snd (m s) = s \<and> (\<forall>e. fst (m s) = Inl e \<longrightarrow> unrefused e)"

lemma quiet_structure:
  "quiet_at s (ret a)"
  "quiet_at s (readP f)"
  "unrefused e \<Longrightarrow> quiet_at s (throw e)"
  "quiet_at s m \<Longrightarrow> (\<And>a. quiet_at s (g a)) \<Longrightarrow> quiet_at s (bindP m g)"
  "quiet_at s m \<Longrightarrow> quiet_at s n \<Longrightarrow> quiet_at s (thenP m n)"
  by (auto simp: quiet_at_def run_simps split: prod.splits sum.splits)

definition quiet_target :: "'s \<Rightarrow> 's target_reindexer \<Rightarrow> bool" where
  "quiet_target s target \<longleftrightarrow> quiet_at s (ti_listEntries target) \<and>
     (\<forall>hashFor e. ti_contentHashFor target = Some hashFor \<longrightarrow> quiet_at s (hashFor e))"

definition quiet_world :: "('s \<Rightarrow> items) \<Rightarrow> string \<Rightarrow> string \<Rightarrow> 's real_deps \<Rightarrow> 's \<Rightarrow> bool" where
  "quiet_world items_of tenant mapping deps s \<longleftrightarrow>
     re_verificationReader deps = createLedgerVerificationReader items_of tenant mapping \<and>
     (\<forall>d target. reindexerFor deps d = Some target \<longrightarrow> quiet_target s target) \<and>
     (\<forall>ask. re_organisationIsOpen deps = Some ask \<longrightarrow> ask s = (Inr True, s))"

lemma quiet_refusal:
  "quiet_world items_of tenant mapping deps s \<Longrightarrow> refuseOnceClosed (re_organisationIsOpen deps) s = (Inr (), s)"
  by (auto simp: quiet_world_def refuseOnceClosed_def run_simps split: option.splits)

lemma quiet_asked:
  assumes "quiet_world items_of tenant mapping deps s"
  shows "quiet_at s (refuseOnceClosed (re_organisationIsOpen deps))"
  by (simp add: quiet_at_def quiet_refusal [OF assms])

lemma quiet_hash_samples:
  assumes "quiet_at s (refuseOnceClosed isOpen)" and "\<And>e. quiet_at s (hashFor e)"
  shows "quiet_at s (hash_samples isOpen hashFor xs)"
  using assms by (induction xs) (auto intro!: quiet_structure split: prod.splits if_split)

lemma no_reindexer_unrefused: "unrefused no_target_reindexer"
  by (simp add: unrefused_def no_target_reindexer_def)

lemma quiet_verifyDataType:
  assumes "quiet_world items_of tenant mapping deps s"
  shows "quiet_at s (verifyDataType (readingOnlyWhileOpen (createRealVerificationDeps key deps)) d)"
proof -
  have reader: "re_verificationReader deps = createLedgerVerificationReader items_of tenant mapping"
    using assms by (simp add: quiet_world_def)
  have lists: "quiet_at s (ti_listEntries target)"
    and hashes: "ti_contentHashFor target = Some hashFor \<Longrightarrow> quiet_at s (hashFor e)"
    if "reindexerFor deps d = Some target" for d target hashFor e
    using assms that by (auto simp: quiet_world_def quiet_target_def)
  show ?thesis
    using lists hashes quiet_asked [OF assms] unfolding verifyDataType_def Let_def
    by (auto simp: reading_fields readingOnlyWhileOpen_def createRealVerificationDeps_def Let_def reader
        createLedgerVerificationReader_def getTargetCountFromReindexer_def getSourceSamplesFromLedger_def
        getTargetSamplesFromReindexer_def findMissingOnTarget_def findExtraOnTarget_def
        getTotalBytesFromReindexer_def no_reindexer_unrefused
        intro!: quiet_structure quiet_hash_samples split: option.splits if_split)
qed

lemma real_fields:
  "vd_config (readingOnlyWhileOpen (createRealVerificationDeps key deps)) = re_config deps"
  "readable (readingOnlyWhileOpen (createRealVerificationDeps key deps)) d \<longleftrightarrow> reindexerFor deps d \<noteq> None"
  by (simp_all add: open_config readable_def reading_fields createRealVerificationDeps_def Let_def)

lemma real_source_count:
  assumes "re_verificationReader deps = createLedgerVerificationReader items_of tenant mapping"
  shows "vd_getSourceCount (readingOnlyWhileOpen (createRealVerificationDeps key deps)) d =
    readP (\<lambda>s. length (recorded_rows tenant mapping d (items_of s)))"
  using assms by (simp add: reading_fields createRealVerificationDeps_def Let_def createLedgerVerificationReader_def)

lemma quiet_verifyDomain:
  assumes "quiet_world items_of tenant mapping deps s"
  shows "\<exists>r. verifyDomain (readingOnlyWhileOpen (createRealVerificationDeps key deps)) d s = (Inr r, s)"
proof (cases "asked_for (re_config deps) d")
  case False
  with verifyDomain_unasked [of "readingOnlyWhileOpen (createRealVerificationDeps key deps)" d]
  show ?thesis by (auto simp: real_fields run_simps)
next
  case True
  have reader: "re_verificationReader deps = createLedgerVerificationReader items_of tenant mapping"
    using assms by (simp add: quiet_world_def)
  note asked = verifyDomain_asked [of "readingOnlyWhileOpen (createRealVerificationDeps key deps)" d, unfolded real_fields, OF True]
  obtain x where x: "verifyDataType (readingOnlyWhileOpen (createRealVerificationDeps key deps)) d s = (x, s)"
      "\<And>e. x = Inl e \<Longrightarrow> unrefused e"
    using quiet_verifyDataType [OF assms, of key d]
    by (cases "verifyDataType (readingOnlyWhileOpen (createRealVerificationDeps key deps)) d s") (auto simp: quiet_at_def)
  then show ?thesis
    unfolding asked real_source_count [OF reader]
    by (cases x) (auto simp: run_simps unrefused_def split: gate_error.splits)
qed

text \<open>What a quiet world's run reports of each data type.\<close>

definition quiet_result :: "key_hash \<Rightarrow> 's real_deps \<Rightarrow> 's \<Rightarrow> verification_domain \<Rightarrow> data_type_verification \<times> bool" where
  "quiet_result key deps s d =
     projr (fst (verifyDomain (readingOnlyWhileOpen (createRealVerificationDeps key deps)) d s))"

lemma quiet_run:
  assumes "quiet_world items_of tenant mapping deps s"
  shows "runVerification (createRealVerificationDeps key deps) s =
    (Inr (report_of (map (\<lambda>d. (d, quiet_result key deps s d)) VERIFICATION_DOMAINS)), s)"
proof -
  have one: "verifyDomain (readingOnlyWhileOpen (createRealVerificationDeps key deps)) d s = (Inr (quiet_result key deps s d), s)" for d
    using quiet_verifyDomain [OF assms, of key d] by (auto simp: quiet_result_def)
  have "verify_domains (readingOnlyWhileOpen (createRealVerificationDeps key deps)) ds s =
      (Inr (map (\<lambda>d. (d, quiet_result key deps s d)) ds), s)" for ds
    by (induction ds) (simp_all add: run_simps one)
  then show ?thesis by (simp add: runVerification_def run_simps)
qed

lemma quiet_by_domain:
  "vr_byDomain (report_of (map (\<lambda>d. (d, f d)) VERIFICATION_DOMAINS)) d = fst (f d)"
proof -
  have "map fst (map (\<lambda>d. (d, f d)) VERIFICATION_DOMAINS) = VERIFICATION_DOMAINS" by (simp add: comp_def)
  then obtain v held where "(d, v, held) \<in> set (map (\<lambda>d. (d, f d)) VERIFICATION_DOMAINS)"
      "vr_byDomain (report_of (map (\<lambda>d. (d, f d)) VERIFICATION_DOMAINS)) d = v"
    by (rule report_entry)
  then show ?thesis by auto (metis fst_conv)
qed

lemma verifyDomain_by_its_target:
  assumes "reindexerFor deps d = reindexerFor other d" and "re_config deps = re_config other"
    and "re_verificationReader deps = re_verificationReader other"
    and "re_organisationIsOpen deps = re_organisationIsOpen other"
  shows "verifyDomain (readingOnlyWhileOpen (createRealVerificationDeps key deps)) d =
    verifyDomain (readingOnlyWhileOpen (createRealVerificationDeps key other)) d"
proof -
  let ?A = "readingOnlyWhileOpen (createRealVerificationDeps key deps)"
  let ?B = "readingOnlyWhileOpen (createRealVerificationDeps key other)"
  have "vd_config ?A = vd_config ?B" "vd_getSourceCount ?A d = vd_getSourceCount ?B d"
    "vd_getTargetCount ?A d = vd_getTargetCount ?B d" "vd_findMissingOnTarget ?A d = vd_findMissingOnTarget ?B d"
    "vd_findExtraOnTarget ?A d = vd_findExtraOnTarget ?B d" "vd_getSourceSamples ?A d = vd_getSourceSamples ?B d"
    "\<And>n hs. vd_getTargetSamples ?A d n hs = vd_getTargetSamples ?B d n hs"
    "vd_getTotalBytesSource ?A d = vd_getTotalBytesSource ?B d" "vd_targetCanHash ?A d = vd_targetCanHash ?B d"
    by (simp_all add: open_config reading_fields createRealVerificationDeps_def Let_def assms)
  moreover have "(case vd_getTotalBytesTarget ?A of None \<Rightarrow> ret None | Some bytes \<Rightarrow> bytes d) =
      (case vd_getTotalBytesTarget ?B of None \<Rightarrow> ret None | Some bytes \<Rightarrow> bytes d)"
    by (simp add: readingOnlyWhileOpen_def createRealVerificationDeps_def Let_def assms split: option.splits)
  moreover have "(case vd_canVerifyTarget ?A of None \<Rightarrow> False | Some can \<Rightarrow> \<not> can d) =
      (case vd_canVerifyTarget ?B of None \<Rightarrow> False | Some can \<Rightarrow> \<not> can d)"
    by (simp add: reading_fields createRealVerificationDeps_def Let_def assms)
  ultimately show ?thesis by (simp only: verifyDomain_def verifyDataType_def)
qed

lemma unreadable_verifyDomain:
  assumes "quiet_world items_of tenant mapping deps s" and "reindexerFor deps d = Some target"
    and "ti_listEntries target s = (Inl e, s)" and "unrefused e" and "asked_for (re_config deps) d"
    and "recorded_rows tenant mapping d (items_of s) \<noteq> []"
  shows "dv_status (fst (quiet_result key deps s d)) \<in> {FAIL, NOT_VERIFIABLE}"
proof -
  let ?D = "readingOnlyWhileOpen (createRealVerificationDeps key deps)"
  have reader: "re_verificationReader deps = createLedgerVerificationReader items_of tenant mapping"
    using assms(1) by (simp add: quiet_world_def)
  have "vd_getTargetCount ?D d s = (Inl e, s)"
    using assms(2,3) quiet_refusal [OF assms(1)]
    by (simp add: reading_fields createRealVerificationDeps_def Let_def getTargetCountFromReindexer_def run_simps reader
        createLedgerVerificationReader_def)
  then have "verifyDataType ?D d s = (Inl e, s)"
    by (simp add: verifyDataType_def real_source_count [OF reader] run_simps)
  with assms(2,4,6) show ?thesis
    unfolding quiet_result_def verifyDomain_asked [of ?D d, unfolded real_fields, OF assms(5)] real_source_count [OF reader]
    by (auto simp: run_simps unrefused_def notMeasured_def targetFolderMissing_def split: gate_error.splits)
qed

text \<open>
  A target that cannot be read decides about its own data type alone. In a world of readings
  that change nothing, put a target whose listing fails in the place of one data type's: the run
  still returns, every other data type is reported as before, and where the data type is asked
  for and has recorded items its status is FAIL or NOT_VERIFIABLE and the gate stays closed.
\<close>
theorem an_unreadable_target_decides_for_itself:
  assumes "quiet_world items_of tenant mapping deps s" and "quiet_target s bad"
    and "ti_listEntries bad s = (Inl e, s)" and "unrefused e"
  shows "\<exists>report report'. runVerification (createRealVerificationDeps key deps) s = (Inr report, s) \<and>
    runVerification (createRealVerificationDeps key
      (deps\<lparr>re_targetReindexers := (re_targetReindexers deps)(d := Some bad)\<rparr>)) s = (Inr report', s) \<and>
    (\<forall>d'. d' \<noteq> d \<longrightarrow> vr_byDomain report' d' = vr_byDomain report d') \<and>
    (asked_for (re_config deps) d \<and> recorded_rows tenant mapping d (items_of s) \<noteq> [] \<longrightarrow>
       dv_status (vr_byDomain report' d) \<in> {FAIL, NOT_VERIFIABLE} \<and> \<not> vr_canProceedToCutover report')"
proof -
  let ?other = "deps\<lparr>re_targetReindexers := (re_targetReindexers deps)(d := Some bad)\<rparr>"
  have targets: "reindexerFor ?other d = Some bad" "\<And>d'. d' \<noteq> d \<Longrightarrow> reindexerFor ?other d' = reindexerFor deps d'"
    by (auto simp: reindexerFor_def split: option.splits)
  have quiet: "quiet_world items_of tenant mapping ?other s"
    unfolding quiet_world_def
  proof (intro conjI allI impI)
    fix d' target
    assume "reindexerFor ?other d' = Some target"
    with targets assms(1,2) show "quiet_target s target"
      by (cases "d' = d") (auto simp: quiet_world_def)
  qed (use assms(1) in \<open>auto simp: quiet_world_def\<close>)
  let ?report = "\<lambda>deps. report_of (map (\<lambda>d. (d, quiet_result key deps s d)) VERIFICATION_DOMAINS)"
  have "vr_byDomain (?report ?other) d' = vr_byDomain (?report deps) d'" if "d' \<noteq> d" for d'
    using verifyDomain_by_its_target [OF targets(2) [OF that], of key] by (simp add: quiet_by_domain quiet_result_def)
  moreover have "dv_status (vr_byDomain (?report ?other) d) \<in> {FAIL, NOT_VERIFIABLE}"
    if "asked_for (re_config deps) d \<and> recorded_rows tenant mapping d (items_of s) \<noteq> []"
    using unreadable_verifyDomain [OF quiet targets(1) assms(3,4)] that by (simp add: quiet_by_domain)
  moreover have "map fst (map (\<lambda>d. (d, quiet_result key ?other s d)) VERIFICATION_DOMAINS) = VERIFICATION_DOMAINS"
    by (simp add: comp_def)
  then have "vr_canProceedToCutover (?report ?other) \<Longrightarrow> dv_status (vr_byDomain (?report ?other) d) \<in> {PASS, WARN, SKIPPED}"
    using report_opens by blast
  ultimately show ?thesis
    using quiet_run [OF assms(1), of key] quiet_run [OF quiet, of key] by (intro exI [of _ "?report deps"] exI [of _ "?report ?other"]) auto
qed

subsection \<open>A whole copy\<close>

lemma foldl_compare_alike:
  assumes "\<And>x. x \<in> set xs \<Longrightarrow> (case f (sa_naturalKeyHash x) of None \<Rightarrow> True | Some c \<Rightarrow> isComparableContent c \<longrightarrow> c = sa_content x)"
  shows "ta_mismatches (foldl (compare_sample f) t xs) = ta_mismatches t"
  using assms
proof (induction xs arbitrary: t)
  case (Cons x xs)
  have self: "sameHashAlgorithm c c" "compareContent c c" for c
    by (cases c; simp add: sameFingerprintVersion_def)+
  have "ta_mismatches (compare_sample f t x) = ta_mismatches t"
    using Cons.prems [of x] self by (auto simp: compare_sample_def Let_def split: option.splits)
  with Cons show ?case by simp
qed simp

lemma foldl_compare_all_hashed:
  assumes "\<And>x. x \<in> set xs \<Longrightarrow> \<exists>c. f (sa_naturalKeyHash x) = Some c \<and> isComparableContent c"
  shows "ta_hashedByTarget (foldl (compare_sample f) t xs) = ta_hashedByTarget t + length xs"
  using assms
proof (induction xs arbitrary: t)
  case (Cons x xs)
  have "ta_hashedByTarget (compare_sample f t x) = ta_hashedByTarget t + 1"
    using Cons.prems [of x] by (auto simp: compare_sample_def Let_def)
  with Cons show ?case by simp
qed simp

lemma sample_size_some:
  assumes "0 < n" and "0 < vc_minSampleSize config"
  shows "0 < calculateSampleSize n config"
  using assms by (auto simp: calculateSampleSize_def Let_def)

text \<open>
  An entry that is a true copy of a row as far as the target can tell: a target that can be asked
  for content gives the hash the ledger recorded, one that cannot gives that hash or none.
\<close>

definition true_copy :: "'s target_reindexer \<Rightarrow> 's \<Rightarrow> target_entry \<Rightarrow> item_row \<Rightarrow> bool" where
  "true_copy target s e r \<longleftrightarrow> (case ti_contentHashFor target of
     None \<Rightarrow> truthy (te_contentHash e) \<longrightarrow> te_contentHash e = it_content_hash r
   | Some hashFor \<Rightarrow> truthy (it_content_hash r) \<and>
       (if truthy (te_contentHash e) then te_contentHash e = it_content_hash r
        else hashFor e s = (Inr (it_content_hash r), s)))"

definition whole_copy ::
    "key_hash \<Rightarrow> verification_domain \<Rightarrow> 's target_reindexer \<Rightarrow> target_entry list \<Rightarrow> items \<Rightarrow> 's \<Rightarrow> bool" where
  "whole_copy key d target entries rows s \<longleftrightarrow>
     ti_listEntries target s = (Inr entries, s) \<and>
     (\<forall>r \<in> set rows. it_natural_key_hash r \<in> listed_keys key d entries) \<and>
     (\<forall>r \<in> set rows. \<forall>e \<in> set entries. key d (te_naturalKey e) = it_natural_key_hash r \<longrightarrow> true_copy target s e r)"

definition content_given :: "'s target_reindexer \<Rightarrow> 's \<Rightarrow> target_entry \<Rightarrow> string" where
  "content_given target s e = (if truthy (te_contentHash e) then the (te_contentHash e) else
     case ti_contentHashFor target of
       None \<Rightarrow> []
     | Some hashFor \<Rightarrow> (case fst (hashFor e s) of Inr h \<Rightarrow> or_empty h | Inl _ \<Rightarrow> []))"

lemma hash_samples_run:
  assumes "refuseOnceClosed isOpen s = (Inr (), s)" and "ti_contentHashFor target = Some hashFor"
    and "\<And>h content e. (h, content, e) \<in> set xs \<Longrightarrow> content = or_empty (te_contentHash e) \<and>
      (truthy (te_contentHash e) \<or> (\<exists>c. hashFor e s = (Inr c, s)))"
  shows "hash_samples isOpen hashFor xs s =
    (Inr (map (\<lambda>(h, _, e). \<lparr>sa_naturalKeyHash = h, sa_content = Text_content (content_given target s e)\<rparr>) xs), s)"
  using assms(3)
proof (induction xs)
  case (Cons x xs)
  obtain h content e where x: "x = (h, content, e)" by (cases x)
  have one: "(if content \<noteq> [] then ret content
         else thenP (refuseOnceClosed isOpen)
           (bindP (hashFor e) (\<lambda>hash. ret (if truthy hash then the hash else content)))) s =
      (Inr (content_given target s e), s)"
    using Cons.prems [of h content e] x assms(1,2)
    by (cases "te_contentHash e") (auto simp: run_simps content_given_def or_empty_def truthy_def split: option.splits)
  have "hash_samples isOpen hashFor xs s =
    (Inr (map (\<lambda>(h, _, e). \<lparr>sa_naturalKeyHash = h, sa_content = Text_content (content_given target s e)\<rparr>) xs), s)"
    by (rule Cons.IH) (rule Cons.prems, rule list.set_intros(2))
  with one x show ?case by (simp add: run_bind run_ret)
qed (simp add: run_simps)

lemma whole_copy_samples:
  assumes world: "quiet_world items_of tenant mapping deps s" and target: "reindexerFor deps d = Some target"
    and copy: "whole_copy key d target entries (recorded_rows tenant mapping d (items_of s)) s"
    and wanted: "wanted \<noteq> []" "set wanted \<subseteq> it_natural_key_hash ` set (recorded_rows tenant mapping d (items_of s))"
  shows "vd_getTargetSamples (readingOnlyWhileOpen (createRealVerificationDeps key deps)) d n wanted s =
    (Inr (map (\<lambda>(h, _, e). \<lparr>sa_naturalKeyHash = h, sa_content = Text_content (content_given target s e)\<rparr>)
      (filter (\<lambda>(h, _). h \<in> set wanted) (all_entries key d entries))), s)"
proof -
  let ?sampled = "filter (\<lambda>(h, _). h \<in> set wanted) (all_entries key d entries)"
  have sampled: "sampled_entries n wanted (all_entries key d entries) = ?sampled"
    using wanted(1) by (simp add: sampled_entries_def)
  have listed: "ti_listEntries target s = (Inr entries, s)" using copy by (simp add: whole_copy_def)
  have copies: "content = or_empty (te_contentHash e) \<and> (\<exists>r. true_copy target s e r)"
    if "(h, content, e) \<in> set ?sampled" for h content e
    using that wanted(2) copy by (fastforce simp: all_entries_def whole_copy_def)
  have "getTargetSamplesFromReindexer key (Some target) (re_organisationIsOpen deps) d n wanted s =
    (Inr (map (\<lambda>(h, _, e). \<lparr>sa_naturalKeyHash = h, sa_content = Text_content (content_given target s e)\<rparr>) ?sampled), s)"
  proof (cases "ti_contentHashFor target")
    case None
    then have "content_given target s e = or_empty (te_contentHash e)" for e
      by (cases "te_contentHash e") (auto simp: content_given_def or_empty_def truthy_def)
    with None listed sampled copies show ?thesis
      by (force simp: getTargetSamplesFromReindexer_def run_simps)
  next
    case (Some hashFor)
    have "truthy (te_contentHash e) \<or> (\<exists>c. hashFor e s = (Inr c, s))" if "(h, content, e) \<in> set ?sampled" for h content e
      using copies [OF that] Some by (auto simp: true_copy_def split: if_splits)
    with copies hash_samples_run [OF quiet_refusal [OF world] Some, of ?sampled] Some listed sampled show ?thesis
      by (simp add: getTargetSamplesFromReindexer_def run_bind)
  qed
  with target quiet_refusal [OF world] show ?thesis
    by (simp add: reading_fields createRealVerificationDeps_def Let_def run_then)
qed

lemma whole_copy_compared:
  assumes target: "reindexerFor deps d = Some target"
    and copy: "whole_copy key d target entries (recorded_rows tenant mapping d (items_of s)) s"
    and ss: "ss \<noteq> []" "\<forall>x \<in> set ss. \<exists>r \<in> set (recorded_rows tenant mapping d (items_of s)).
        x = \<lparr>sa_naturalKeyHash = it_natural_key_hash r, sa_content = Text_content (or_empty (it_content_hash r))\<rparr>"
    and ts: "ts = map (\<lambda>(h, _, e). \<lparr>sa_naturalKeyHash = h, sa_content = Text_content (content_given target s e)\<rparr>)
      (filter (\<lambda>(h, _). h \<in> set (map sa_naturalKeyHash ss)) (all_entries key d entries))"
  shows "ta_mismatches (compare_samples ss ts) = 0 \<and>
    (ti_contentHashFor target \<noteq> None \<longrightarrow> 0 < ta_hashedByTarget (compare_samples ss ts))"
proof -
  let ?rows = "recorded_rows tenant mapping d (items_of s)" and ?f = "targetSamplesByHash ts"
  have given: "\<exists>c. ?f (sa_naturalKeyHash x) = Some c \<and> (isComparableContent c \<longrightarrow> c = sa_content x) \<and>
      (ti_contentHashFor target \<noteq> None \<longrightarrow> isComparableContent c)" if "x \<in> set ss" for x
  proof -
    from ss(2) [rule_format, OF that] obtain r where r: "r \<in> set ?rows" "sa_naturalKeyHash x = it_natural_key_hash r"
        "sa_content x = Text_content (or_empty (it_content_hash r))"
      by auto
    from copy r(1) obtain e0 where "e0 \<in> set entries" "key d (te_naturalKey e0) = it_natural_key_hash r"
      by (auto simp: whole_copy_def listed_keys_def)
    then have "sa_naturalKeyHash x \<in> sa_naturalKeyHash ` set ts"
      unfolding ts using that r(2) by (force simp: all_entries_def image_iff)
    then have "?f (sa_naturalKeyHash x) \<noteq> None"
      by (auto simp: targetSamplesByHash_def map_of_eq_None_iff image_image)
    then obtain c where c: "?f (sa_naturalKeyHash x) = Some c" by auto
    then have "(sa_naturalKeyHash x, c) \<in> set (map (\<lambda>s. (sa_naturalKeyHash s, sa_content s)) ts)"
      unfolding targetSamplesByHash_def by (auto dest: map_of_SomeD)
    then obtain e where e: "e \<in> set entries" "key d (te_naturalKey e) = it_natural_key_hash r"
        "c = Text_content (content_given target s e)"
      unfolding ts using r(2) by (auto simp: all_entries_def)
    then have "true_copy target s e r" using copy r(1) by (auto simp: whole_copy_def)
    then have "(content_given target s e \<noteq> [] \<longrightarrow> content_given target s e = or_empty (it_content_hash r)) \<and>
        (ti_contentHashFor target \<noteq> None \<longrightarrow> content_given target s e \<noteq> [])"
      by (cases "it_content_hash r"; cases "te_contentHash e")
        (auto simp: true_copy_def content_given_def truthy_def or_empty_def split: option.splits if_splits)
    with c e(3) r(3) show ?thesis by auto
  qed
  then have "ta_mismatches (compare_samples ss ts) = 0"
    unfolding compare_samples_def by (subst foldl_compare_alike) (force split: option.split)+
  moreover have "ta_hashedByTarget (compare_samples ss ts) = length ss" if "ti_contentHashFor target \<noteq> None"
    unfolding compare_samples_def using given that by (subst foldl_compare_all_hashed) fastforce+
  ultimately show ?thesis using ss(1) by simp
qed

lemma full_score:
  assumes "\<And>v. v \<in> set vs \<Longrightarrow> dv_status v \<notin> {SKIPPED, NOT_VERIFIABLE} \<Longrightarrow> domain_score held v = 1"
    and "\<exists>v \<in> set vs. dv_status v \<notin> {SKIPPED, NOT_VERIFIABLE}"
  shows "calculateVerificationScore vs held = 1"
proof -
  let ?seen = "filter (\<lambda>v. dv_status v \<noteq> SKIPPED \<and> dv_status v \<noteq> NOT_VERIFIABLE) vs"
  have "map (domain_score held) ?seen = map (\<lambda>_. 1) ?seen"
    by (rule map_cong [OF refl]) (use assms(1) in auto)
  then have "sum_list (map (domain_score held) ?seen) = of_nat (length ?seen)"
    by (simp add: map_replicate_const sum_list_replicate)
  moreover have "?seen \<noteq> []" using assms(2) by (auto simp: filter_empty_conv)
  ultimately show ?thesis by (simp add: calculateVerificationScore_def Let_def)
qed

definition has_extras :: "key_hash \<Rightarrow> verification_domain \<Rightarrow> target_entry list \<Rightarrow> items \<Rightarrow> bool" where
  "has_extras key d entries rows \<longleftrightarrow>
     (\<exists>e \<in> set entries. key d (te_naturalKey e) \<notin> it_natural_key_hash ` set rows)"

lemma verdict_on_a_whole_copy:
  assumes "sound_thresholds config" and "0 < n" and "ta_mismatches (compare_samples ss ts) = 0"
    and "can \<Longrightarrow> 0 < ta_hashedByTarget (compare_samples ss ts)"
    and "(v, held) = verdict_of config d can n tn 0 extra ss ts bs bt"
  shows "\<not> held \<and> dv_status v = (if 0 < extra then WARN else PASS) \<and> (d \<notin> set holding \<longrightarrow> domain_score holding v = 1)"
  using assms
  by (auto simp: verdict_of_def Let_def determineVerificationStatus_def sound_thresholds_def domain_score_def)

lemma whole_copy_result:
  assumes world: "quiet_world items_of tenant mapping deps s" and target: "reindexerFor deps d = Some target"
    and copy: "whole_copy key d target entries (recorded_rows tenant mapping d (items_of s)) s"
    and asked: "asked_for (re_config deps) d" and some: "recorded_rows tenant mapping d (items_of s) \<noteq> []"
    and config: "sound_thresholds (re_config deps)" "0 < vc_minSampleSize (re_config deps)"
  shows "\<exists>v. quiet_result key deps s d = (v, False) \<and>
    dv_status v = (if has_extras key d entries (recorded_rows tenant mapping d (items_of s)) then WARN else PASS) \<and>
    (d \<notin> set holding \<longrightarrow> domain_score holding v = 1)"
proof -
  let ?D = "readingOnlyWhileOpen (createRealVerificationDeps key deps)"
  let ?rows = "recorded_rows tenant mapping d (items_of s)"
  have reader: "re_verificationReader deps = createLedgerVerificationReader items_of tenant mapping"
    using world by (simp add: quiet_world_def)
  have listed: "ti_listEntries target s = (Inr entries, s)" using copy by (simp add: whole_copy_def)
  note run_defs = reading_fields createRealVerificationDeps_def Let_def reader target createLedgerVerificationReader_def
    run_simps quiet_refusal [OF world] listed
  define n where "n = length ?rows"
  define ss where "ss = map (\<lambda>r. \<lparr>sa_naturalKeyHash = it_natural_key_hash r,
      sa_content = Text_content (or_empty (it_content_hash r))\<rparr>)
      (take (calculateSampleSize n (re_config deps)) (sort_key it_natural_key_hash ?rows))"
  define ts where "ts = map (\<lambda>(h, _, e). \<lparr>sa_naturalKeyHash = h, sa_content = Text_content (content_given target s e)\<rparr>)
      (filter (\<lambda>(h, _). h \<in> set (map sa_naturalKeyHash ss)) (all_entries key d entries))"
  have n: "0 < n" using some by (simp add: n_def)
  have drawn: "ss \<noteq> []"
    using sample_size_some [OF n config(2)] some by (auto simp: ss_def) (metis set_empty set_sort)
  have from_rows: "\<exists>r \<in> set ?rows. x = \<lparr>sa_naturalKeyHash = it_natural_key_hash r,
      sa_content = Text_content (or_empty (it_content_hash r))\<rparr>" if "x \<in> set ss" for x
    using that by (auto simp: ss_def dest!: in_set_takeD)
  have source: "vd_getSourceSamples ?D d (calculateSampleSize n (re_config deps)) s = (Inr ss, s)"
    by (simp add: run_defs getSourceSamplesFromLedger_def ss_def comp_def)
  have wanted: "set (map sa_naturalKeyHash ss) \<subseteq> it_natural_key_hash ` set ?rows"
    using from_rows by fastforce
  have samples: "vd_getTargetSamples ?D d (calculateSampleSize n (re_config deps)) (map sa_naturalKeyHash ss) s = (Inr ts, s)"
    unfolding ts_def using world target copy _ wanted by (rule whole_copy_samples) (simp add: drawn)
  have missing: "vd_findMissingOnTarget ?D d s = (Inr [], s)"
    using copy by (auto simp: run_defs findMissingOnTarget_def whole_copy_def listed_keys_def filter_empty_conv)
  obtain tn where count: "vd_getTargetCount ?D d s = (Inr tn, s)"
    by (simp add: run_defs getTargetCountFromReindexer_def)
  obtain extra where extra: "vd_findExtraOnTarget ?D d s = (Inr extra, s)"
      "0 < length extra \<longleftrightarrow> has_extras key d entries ?rows"
    using some by (simp add: run_defs findExtraOnTarget_def has_extras_def filter_empty_conv)
  obtain bs where bytes: "vd_getTotalBytesSource ?D d s = (Inr bs, s)" by (simp add: run_defs)
  obtain bt where target_bytes: "(case vd_getTotalBytesTarget ?D of None \<Rightarrow> ret None | Some m \<Rightarrow> m d) s = (Inr bt, s)"
    unfolding reading_bytes by (simp add: run_defs getTotalBytesFromReindexer_def)
  define r where "r = verdict_of (re_config deps) d (vd_targetCanHash ?D d) n tn 0 (length extra) ss ts bs bt"
  have "vd_getSourceCount ?D d s = (Inr n, s)" by (simp add: run_defs n_def)
  then have "verifyDataType ?D d s = (Inr r, s)"
    by (simp add: verifyDataType_def run_bind run_ret Let_def count missing extra(1) real_fields source samples bytes
        target_bytes r_def)
  with n target have result: "quiet_result key deps s d = r"
    by (simp add: quiet_result_def verifyDomain_asked [of ?D d, unfolded real_fields, OF asked]
        real_source_count [OF reader] run_simps n_def)
  have "vd_targetCanHash ?D d \<longleftrightarrow> ti_contentHashFor target \<noteq> None" by (simp add: run_defs)
  moreover have "\<forall>x \<in> set ss. \<exists>r \<in> set ?rows. x = \<lparr>sa_naturalKeyHash = it_natural_key_hash r,
      sa_content = Text_content (or_empty (it_content_hash r))\<rparr>"
    using from_rows by blast
  note whole_copy_compared [where items_of = items_of and s = s and tenant = tenant and mapping = mapping,
    OF target copy drawn this ts_def]
  ultimately
  have compared: "ta_mismatches (compare_samples ss ts) = 0"
      "vd_targetCanHash ?D d \<Longrightarrow> 0 < ta_hashedByTarget (compare_samples ss ts)"
    by auto
  obtain v held where v: "(v, held) = r" by (metis prod.exhaust_sel)
  from verdict_on_a_whole_copy [OF config(1) n compared v [unfolded r_def]] v result extra(2) show ?thesis by auto
qed

lemma whole_copy_report:
  assumes "quiet_world items_of tenant mapping deps s"
    and "sound_thresholds (re_config deps)" and "0 < vc_minSampleSize (re_config deps)"
    and "\<forall>d. asked_for (re_config deps) d \<and> recorded_rows tenant mapping d (items_of s) \<noteq> [] \<longrightarrow>
      (\<exists>target. reindexerFor deps d = Some target \<and>
         whole_copy key d target (listing d) (recorded_rows tenant mapping d (items_of s)) s)"
    and "asked_for (re_config deps) d0" and "recorded_rows tenant mapping d0 (items_of s) \<noteq> []"
  shows "\<exists>report. runVerification (createRealVerificationDeps key deps) s = (Inr report, s) \<and>
    vr_canProceedToCutover report \<and> vr_score report = 1 \<and>
    vr_overallStatus report = (if \<exists>d. asked_for (re_config deps) d \<and>
        recorded_rows tenant mapping d (items_of s) \<noteq> [] \<and>
        has_extras key d (listing d) (recorded_rows tenant mapping d (items_of s)) then WARN else PASS)"
proof -
  let ?rows = "\<lambda>d. recorded_rows tenant mapping d (items_of s)" and ?result = "quiet_result key deps s"
  let ?measured = "\<lambda>d. asked_for (re_config deps) d \<and> ?rows d \<noteq> []"
  have reader: "re_verificationReader deps = createLedgerVerificationReader items_of tenant mapping"
    using assms(1) by (simp add: quiet_world_def)
  have skipped: "\<exists>v. ?result d = (v, False) \<and> dv_status v = SKIPPED" if "\<not> ?measured d" for d
  proof (cases "asked_for (re_config deps) d")
    case True
    with that show ?thesis
      by (simp add: quiet_result_def verifyDomain_asked [of "readingOnlyWhileOpen (createRealVerificationDeps key deps)" d,
            unfolded real_fields] real_source_count [OF reader] run_simps notMeasured_def)
  next
    case False
    with verifyDomain_unasked [of "readingOnlyWhileOpen (createRealVerificationDeps key deps)" d] show ?thesis
      by (auto simp: real_fields quiet_result_def run_simps notMeasured_def)
  qed
  have measured: "\<exists>v. ?result d = (v, False) \<and>
      dv_status v = (if has_extras key d (listing d) (?rows d) then WARN else PASS) \<and> domain_score [] v = 1"
    if "?measured d" for d
    using assms(4) [rule_format, OF that] whole_copy_result [OF assms(1) _ _ _ _ assms(2,3), of d _ key "listing d" "[]"] that
    by auto
  have unheld: "\<not> snd (?result d)" for d using skipped [of d] measured [of d] by (cases "?measured d") auto
  let ?found = "map (\<lambda>d. (d, ?result d)) VERIFICATION_DOMAINS" and ?vs = "map (\<lambda>d. fst (?result d)) VERIFICATION_DOMAINS"
  have vs: "map (\<lambda>(_, v, _). v) ?found = ?vs" by (auto simp: comp_def split: prod.split)
  have held: "map fst (filter (\<lambda>(_, _, held). held) ?found) = []" using unheld by (auto simp: filter_empty_conv) (metis snd_conv)
  have every: "d \<in> set VERIFICATION_DOMAINS" for d by (cases d) (simp_all add: VERIFICATION_DOMAINS_def)
  have status: "dv_status (fst (?result d)) = (if ?measured d then if has_extras key d (listing d) (?rows d) then WARN else PASS
      else SKIPPED)" for d
    using skipped [of d] measured [of d] by (cases "?measured d") auto
  have warned: "(dv_status (fst (?result d)) = WARN) = (?measured d \<and> has_extras key d (listing d) (?rows d))" for d
    using status [of d] by (auto split: if_splits)
  have all: "set ?vs = range (\<lambda>d. fst (?result d))" using every by auto
  have "(\<exists>v \<in> set ?vs. dv_status v = FAIL \<or> dv_status v = NOT_VERIFIABLE) = False"
    unfolding all using status by simp
  moreover have "(\<exists>v \<in> set ?vs. dv_status v = WARN) = (\<exists>d. ?measured d \<and> has_extras key d (listing d) (?rows d))"
    unfolding all using warned by simp
  moreover have "(0 < length ?vs \<and> (\<forall>v \<in> set ?vs. dv_status v = SKIPPED)) = False"
    unfolding all using status [of d0] assms(5,6) by (metis rangeI verdict.distinct(5) verdict.distinct(11))
  ultimately have "calculateOverallStatus ?vs = (if \<exists>d. ?measured d \<and> has_extras key d (listing d) (?rows d) then WARN else PASS)"
    by (simp only: calculateOverallStatus_def Let_def if_False)
  moreover have "domain_score [] v = 1" if "v \<in> set ?vs" "dv_status v \<notin> {SKIPPED, NOT_VERIFIABLE}" for v
  proof -
    from that(1) obtain d where d: "v = fst (?result d)" by auto
    with that(2) status [of d] have "?measured d" by (auto split: if_splits)
    from measured [OF this] d show ?thesis by auto
  qed
  then have "calculateVerificationScore ?vs [] = 1"
  proof (rule full_score)
    have "fst (?result d0) \<in> set ?vs" using every [of d0] by simp
    moreover have "dv_status (fst (?result d0)) \<notin> {SKIPPED, NOT_VERIFIABLE}" using status [of d0] assms(5,6) by simp
    ultimately show "\<exists>v \<in> set ?vs. dv_status v \<notin> {SKIPPED, NOT_VERIFIABLE}" by blast
  qed
  ultimately show ?thesis
    using quiet_run [OF assms(1), of key]
    by (intro exI [of _ "report_of ?found"]) (simp add: report_verdict vs held del: map_map)
qed

text \<open>
  C18: A whole copy opens the gate. Where every data type asked for that has recorded items is
  listed whole by its target, and a target that can be asked for content gives the hashes the
  ledger recorded, the run returns a report that lets the cutover proceed, with the full score.
  Its status is WARN only where a target holds items the ledger does not know, and PASS otherwise.
\<close>
theorem a_whole_copy_opens_the_gate:
  assumes "quiet_world items_of tenant mapping deps s"
    and "sound_thresholds (re_config deps)" and "0 < vc_minSampleSize (re_config deps)"
    and "\<forall>d. asked_for (re_config deps) d \<and> recorded_rows tenant mapping d (items_of s) \<noteq> [] \<longrightarrow>
      (\<exists>target. reindexerFor deps d = Some target \<and>
         whole_copy key d target (listing d) (recorded_rows tenant mapping d (items_of s)) s)"
    and "asked_for (re_config deps) d0" and "recorded_rows tenant mapping d0 (items_of s) \<noteq> []"
  shows "\<exists>report. runVerification (createRealVerificationDeps key deps) s = (Inr report, s) \<and>
    vr_canProceedToCutover report \<and> vr_score report = 1 \<and>
    vr_overallStatus report = (if \<exists>d. asked_for (re_config deps) d \<and>
        recorded_rows tenant mapping d (items_of s) \<noteq> [] \<and>
        has_extras key d (listing d) (recorded_rows tenant mapping d (items_of s)) then WARN else PASS)"
  using assms by (rule whole_copy_report)

subsection \<open>A copy that differs\<close>

text \<open>
  A copy that differs can pass. Where nothing is missing or extra and the target answered,
  differing samples within the allowed share leave the status PASS, though the report then
  carries an issue of severity ERROR: the comparison of contents has no status between PASS and
  FAIL, while one missing item makes the status WARN.
\<close>
theorem a_differing_copy_can_pass:
  assumes "0 < ta_mismatches (compare_samples ss ts)"
    and "vc_requiredMatchPercentage config * of_nat (ta_matches (compare_samples ss ts) + ta_mismatches (compare_samples ss ts))
      \<le> of_nat (ta_matches (compare_samples ss ts))"
    and "sound_thresholds config"
  shows "\<exists>v. verdict_of config d can n tn 0 0 ss ts bs bt = (v, False) \<and> dv_status v = PASS \<and>
    (\<exists>i \<in> set (dv_issues v). is_severity i = ERROR)"
proof -
  let ?t = "compare_samples ss ts"
  have "0 < ta_hashedByTarget ?t" using assms(1) compare_samples_counts(2) [of ss ts] by linarith
  moreover have "vc_requiredMatchPercentage config \<le>
      (if 0 < ta_matches ?t + ta_mismatches ?t then of_nat (ta_matches ?t) / of_nat (ta_matches ?t + ta_mismatches ?t) else 1)"
    using assms(1,2) by (simp add: le_divide_eq)
  ultimately show ?thesis
    using assms(1,3) by (auto simp: verdict_of_def Let_def determineVerificationStatus_def sound_thresholds_def issues_found_def not_less)
qed

subsection \<open>A small migration\<close>

text \<open>One message, recorded and listed; a target that gives its hash; and one that fails.\<close>

definition recorded_mail :: item_row where
  "recorded_mail = \<lparr>it_tenant_id = ''t'', it_mapping_id = ''m'', it_domain = Email, it_collection = ''INBOX'',
     it_natural_key = ''1'', it_display_name = None, it_natural_key_hash = ''mid:1'', it_content_hash = Some ''aa'',
     it_size_bytes = Some 5, it_target_ref = Some ''x'', it_status = Copied, it_source_version = None,
     it_target_version = None, it_source_ref_href = None, it_repaired = None, it_absent_passes = 0,
     it_deletion_reported_at = None, it_deletion_trashed_at = None, it_deletion_acknowledged_at = None,
     it_deletion_applied_at = None, it_moved_to_collection = None, it_moved_to_natural_key_hash = None,
     it_moved_by_identity = False, it_moved_recorded_at = None, it_move_acknowledged_at = None,
     it_superseded_by = None, it_superseded_at = None, it_attempt_count = 0, it_parked_at = None,
     it_last_error = None, it_last_error_category = None, it_first_seen_at = 0, it_last_synced_at = None,
     it_updated_at = 0\<rparr>"

definition its_entry :: target_entry where
  "its_entry = \<lparr>te_naturalKey = ''1'', te_targetId = ''x'', te_mailboxId = ''b'', te_contentHash = None, te_sizeBytes = Some 5\<rparr>"

definition giving_target :: "'s target_reindexer" where
  "giving_target = \<lparr>ti_listEntries = ret [its_entry], ti_contentHashFor = Some (\<lambda>e. ret (Some ''aa''))\<rparr>"

definition failing_target :: "'s target_reindexer" where
  "failing_target = \<lparr>ti_listEntries = throw (Target_folder_missing ''/Mail'' ''gone''), ti_contentHashFor = None\<rparr>"

definition small_migration :: "('s, bool) reading option \<Rightarrow> 's real_deps" where
  "small_migration isOpen = \<lparr>re_config = verificationConfigFor [Email, File] [], re_targetReindexer = None,
     re_targetReindexers = (\<lambda>d. if d = Mail then Some giving_target else None),
     re_verificationReader = createLedgerVerificationReader (\<lambda>_. [recorded_mail]) ''t'' ''m'',
     re_organisationIsOpen = isOpen\<rparr>"

definition plain_key :: key_hash where
  "plain_key d raw = (case d of Mail \<Rightarrow> ''mid:'' @ raw | _ \<Rightarrow> raw)"

lemma small_rows:
  "counted_rows ''t'' ''m'' domain [recorded_mail] = (if domain = Email then [recorded_mail] else [])"
  "mapDataTypeToDomain d = Email \<longleftrightarrow> d = Mail"
  by (simp add: counted_rows_def recorded_mail_def) (cases d; simp)

lemma small_targets:
  "reindexerFor (small_migration isOpen) d = (if d = Mail then Some giving_target else None)"
  "reindexerFor (small_migration isOpen\<lparr>re_targetReindexer := target, re_targetReindexers := (\<lambda>_. None)\<rparr>) d =
     (if d = Mail then target else None)"
  by (simp_all add: reindexerFor_def small_migration_def)

lemma small_config:
  "re_config (small_migration isOpen) = verificationConfigFor [Email, File] []"
  "re_verificationReader (small_migration isOpen) = createLedgerVerificationReader (\<lambda>_. [recorded_mail]) ''t'' ''m''"
  "re_organisationIsOpen (small_migration isOpen) = isOpen"
  by (simp_all add: small_migration_def)

lemma gate_thresholds:
  "sound_thresholds (verificationConfigFor selected stopped)"
  "0 < vc_minSampleSize (verificationConfigFor selected stopped)"
  by (simp_all add: sound_thresholds_def verificationConfigFor_def)

lemma mail_asked: "asked_for (verificationConfigFor [Email, File] []) Mail"
  by (simp add: asked_for_def verificationConfigFor_def)

lemma small_quiet:
  "quiet_world (\<lambda>_. [recorded_mail]) ''t'' ''m'' (small_migration None) s"
  by (auto simp: quiet_world_def small_config small_targets quiet_target_def giving_target_def quiet_structure)

lemma small_whole:
  "whole_copy plain_key Mail giving_target [its_entry] [recorded_mail] s"
  by (simp add: whole_copy_def giving_target_def run_simps listed_keys_def its_entry_def recorded_mail_def plain_key_def
      true_copy_def truthy_def)

lemma small_copies:
  "\<forall>d. asked_for (re_config (small_migration None)) d \<and> recorded_rows ''t'' ''m'' d [recorded_mail] \<noteq> [] \<longrightarrow>
     (\<exists>target. reindexerFor (small_migration None) d = Some target \<and>
        whole_copy plain_key d target [its_entry] (recorded_rows ''t'' ''m'' d [recorded_mail]) s)"
  by (auto simp: small_rows small_targets small_whole)

lemma small_asked:
  "asked_for (re_config (small_migration None)) Mail" "recorded_rows ''t'' ''m'' Mail [recorded_mail] \<noteq> []"
  by (simp_all add: small_config mail_asked small_rows)

lemma small_thresholds:
  "sound_thresholds (re_config (small_migration None))" "0 < vc_minSampleSize (re_config (small_migration None))"
  by (simp_all add: small_config gate_thresholds)

lemma small_report:
  obtains report where "runVerification (createRealVerificationDeps plain_key (small_migration None)) s = (Inr report, s)"
    "vr_canProceedToCutover report"
proof -
  have "\<exists>report. runVerification (createRealVerificationDeps plain_key (small_migration None)) s = (Inr report, s) \<and>
      vr_canProceedToCutover report"
    using whole_copy_report [where listing = "\<lambda>_. [its_entry]" and key = plain_key and s = s,
      OF small_quiet small_thresholds small_copies small_asked]
    by (elim exE conjE) (intro exI conjI)
  then show thesis using that by (elim exE conjE)
qed

theorem every_report_is_well_formed_witness:
  "\<exists>report. runVerification (createRealVerificationDeps plain_key (small_migration None)) () = (Inr report, ()) \<and>
     well_formed_report report"
proof -
  obtain report where run: "runVerification (createRealVerificationDeps plain_key (small_migration None)) () = (Inr report, ())"
    by (rule small_report)
  have "sound_thresholds (vd_config (createRealVerificationDeps plain_key (small_migration None)))"
    by (simp add: createRealVerificationDeps_def Let_def small_config gate_thresholds)
  with run have "well_formed_report report" by (rule every_report_is_well_formed)
  with run show ?thesis by blast
qed

theorem the_gate_opens_on_what_is_there_witness:
  "well_placed plain_key (verificationConfigFor [Email, File] []) (Some (giving_target :: unit target_reindexer)) Mail
     [its_entry] [recorded_mail]"
proof -
  obtain report where run: "runVerification (createRealVerificationDeps plain_key (small_migration None)) () = (Inr report, ())"
      "vr_canProceedToCutover report"
    by (rule small_report)
  have "still_world (\<lambda>_. [recorded_mail]) ''t'' ''m'' (\<lambda>_. [its_entry]) (small_migration None)"
    by (auto simp: still_world_def small_config small_targets still_target_def giving_target_def run_simps
        same_items_def within_def)
  from the_gate_opens_on_what_is_there [OF run(1) this run(2)] show ?thesis
    by (auto simp: small_config small_targets small_rows mail_asked split: if_splits)
qed

theorem nothing_is_read_after_the_close_witness:
  "runVerification (createRealVerificationDeps plain_key (small_migration (Some (readP (\<lambda>s. s))))) False =
   runVerification (createRealVerificationDeps plain_key (small_migration (Some (readP (\<lambda>s. s)))
     \<lparr>re_targetReindexer := Some \<lparr>ti_listEntries = (\<lambda>s. if s then (Inr [its_entry], s) else (Inl (Other_failure ''read''), s)),
        ti_contentHashFor = Some (\<lambda>e. ret (Some ''aa''))\<rparr>, re_targetReindexers := (\<lambda>_. None)\<rparr>)) False"
  by (rule nothing_is_read_after_the_close [where items_of = "\<lambda>_. [recorded_mail]" and tenant = "''t''" and mapping = "''m''"])
    (auto simp: small_config small_targets agree_while_open_def giving_target_def run_simps)

theorem an_unreadable_target_decides_for_itself_witness:
  "\<exists>report'. runVerification (createRealVerificationDeps plain_key ((small_migration None)
      \<lparr>re_targetReindexers := (re_targetReindexers (small_migration None))(Mail := Some failing_target)\<rparr>)) () = (Inr report', ()) \<and>
    dv_status (vr_byDomain report' Mail) \<in> {FAIL, NOT_VERIFIABLE} \<and> \<not> vr_canProceedToCutover report'"
proof -
  have bad: "quiet_target () failing_target"
      "ti_listEntries failing_target () = (Inl (Target_folder_missing ''/Mail'' ''gone''), ())"
      "unrefused (Target_folder_missing ''/Mail'' ''gone'')"
    by (simp_all add: quiet_target_def failing_target_def quiet_structure unrefused_def run_simps)
  from an_unreadable_target_decides_for_itself [OF small_quiet bad, of plain_key Mail] show ?thesis
    by (auto simp: small_config small_rows mail_asked)
qed

theorem a_whole_copy_opens_the_gate_witness:
  "\<exists>report. runVerification (createRealVerificationDeps plain_key (small_migration None)) () = (Inr report, ()) \<and>
     vr_overallStatus report = PASS \<and> vr_score report = 1"
proof -
  have "\<not> has_extras plain_key Mail [its_entry] [recorded_mail]"
    by (simp add: has_extras_def its_entry_def recorded_mail_def plain_key_def)
  then have "\<not> has_extras plain_key d [its_entry] (recorded_rows ''t'' ''m'' d [recorded_mail])"
    if "recorded_rows ''t'' ''m'' d [recorded_mail] \<noteq> []" for d
    using that by (auto simp: small_rows split: if_splits)
  then show ?thesis
    using a_whole_copy_opens_the_gate [where listing = "\<lambda>_. [its_entry]" and key = plain_key,
        OF small_quiet small_thresholds small_copies small_asked, of "()"]
    by auto
qed

lemma foldl_compare_replicate:
  assumes "f (sa_naturalKeyHash x) = Some c" and "isComparableContent c" and "sameHashAlgorithm (sa_content x) c"
    and "compareContent (sa_content x) c"
  shows "foldl (compare_sample f) t (replicate n x) =
    t\<lparr>ta_matches := ta_matches t + n, ta_hashedByTarget := ta_hashedByTarget t + n\<rparr>"
  using assms by (induction n arbitrary: t) (simp_all add: compare_sample_def Let_def)

theorem a_differing_copy_can_pass_witness:
  "\<exists>v. verdict_of (verificationConfigFor [Email] []) Mail True 2000 2000 0 0
      (replicate 99 \<lparr>sa_naturalKeyHash = ''a'', sa_content = Text_content ''x''\<rparr> @
        [\<lparr>sa_naturalKeyHash = ''b'', sa_content = Text_content ''y''\<rparr>])
      [\<lparr>sa_naturalKeyHash = ''a'', sa_content = Text_content ''x''\<rparr>, \<lparr>sa_naturalKeyHash = ''b'', sa_content = Text_content ''z''\<rparr>]
      0 None = (v, False) \<and> dv_status v = PASS \<and> (\<exists>i \<in> set (dv_issues v). is_severity i = ERROR)"
proof (rule a_differing_copy_can_pass)
  let ?ss = "replicate 99 \<lparr>sa_naturalKeyHash = ''a'', sa_content = Text_content ''x''\<rparr> @
        [\<lparr>sa_naturalKeyHash = ''b'', sa_content = Text_content ''y''\<rparr>]"
  let ?ts = "[\<lparr>sa_naturalKeyHash = ''a'', sa_content = Text_content ''x''\<rparr>, \<lparr>sa_naturalKeyHash = ''b'', sa_content = Text_content ''z''\<rparr>]"
  have "compare_samples ?ss ?ts = \<lparr>ta_matches = 99, ta_mismatches = 1, ta_unavailable = 0, ta_hashedByTarget = 100\<rparr>"
    by (simp add: compare_samples_def foldl_compare_replicate targetSamplesByHash_def sameFingerprintVersion_def
        del: replicate.simps) (simp add: compare_sample_def sameFingerprintVersion_def versionOf_def is_scheme_char_def)
  then have counts: "ta_mismatches (compare_samples ?ss ?ts) = 1" "ta_matches (compare_samples ?ss ?ts) = 99" by simp_all
  show "0 < ta_mismatches (compare_samples ?ss ?ts)" unfolding counts by simp
  show "vc_requiredMatchPercentage (verificationConfigFor [Email] []) *
      of_nat (ta_matches (compare_samples ?ss ?ts) + ta_mismatches (compare_samples ?ss ?ts)) \<le> of_nat (ta_matches (compare_samples ?ss ?ts))"
    unfolding counts by (simp add: verificationConfigFor_def)
qed (rule gate_thresholds)

end
