(* ===== verification/Ledger_Laws.thy ===== *)
theory Ledger_Laws
  imports Ledger_Table
begin

text \<open>
  What the methods of the ledger keep and promise. \<open>ledger_step\<close> is one call of any method that
  writes; the keys and the invariant of the rows are kept by every such step, so they hold of
  every table a history of calls can reach.
\<close>

subsection \<open>Keys\<close>

definition keys_unique :: "items \<Rightarrow> bool" where
  "keys_unique rows \<longleftrightarrow> distinct (map item_key rows)"

lemma key_fields [simp]:
  "item_key (updated_by now rc r) = item_key r" "item_key (bumped_by now rc e opts r) = item_key r"
  "item_key (resolved_by now action r) = item_key r" "item_key (tombstone now r) = item_key r"
  "item_key (relocated now r) = item_key r"
  by (simp_all add: item_key_def updated_by_def bumped_by_def resolved_by_def tombstone_def relocated_def)

lemma item_key_updates [simp]:
  "item_key (r\<lparr>it_collection := v0\<rparr>) = item_key r"
  "item_key (r\<lparr>it_status := v1\<rparr>) = item_key r"
  "item_key (r\<lparr>it_superseded_by := v2\<rparr>) = item_key r"
  "item_key (r\<lparr>it_superseded_at := v3\<rparr>) = item_key r"
  "item_key (r\<lparr>it_updated_at := v4\<rparr>) = item_key r"
  "item_key (r\<lparr>it_absent_passes := v5\<rparr>) = item_key r"
  "item_key (r\<lparr>it_deletion_reported_at := v6\<rparr>) = item_key r"
  "item_key (r\<lparr>it_deletion_trashed_at := v7\<rparr>) = item_key r"
  "item_key (r\<lparr>it_deletion_acknowledged_at := v8\<rparr>) = item_key r"
  "item_key (r\<lparr>it_deletion_applied_at := v9\<rparr>) = item_key r"
  "item_key (r\<lparr>it_moved_to_collection := v10\<rparr>) = item_key r"
  "item_key (r\<lparr>it_moved_to_natural_key_hash := v11\<rparr>) = item_key r"
  "item_key (r\<lparr>it_moved_by_identity := v12\<rparr>) = item_key r"
  "item_key (r\<lparr>it_moved_recorded_at := v13\<rparr>) = item_key r"
  "item_key (r\<lparr>it_move_acknowledged_at := v14\<rparr>) = item_key r"
  "item_key (r\<lparr>it_attempt_count := v15\<rparr>) = item_key r"
  "item_key (r\<lparr>it_parked_at := v16\<rparr>) = item_key r"
  by (simp_all add: item_key_def)

lemma scope_fields [simp]:
  "in_scope sc (updated_by now rc r) = in_scope sc r" "in_scope sc (bumped_by now rc e opts r) = in_scope sc r"
  "in_scope sc (tombstone now r) = in_scope sc r" "in_scope sc (relocated now r) = in_scope sc r"
  "at_key sc h (updated_by now rc r) = at_key sc h r" "at_key sc h (bumped_by now rc e opts r) = at_key sc h r"
  "at_key sc h (tombstone now r) = at_key sc h r" "at_key sc h (relocated now r) = at_key sc h r"
  by (simp_all add: in_scope_def at_key_def of_mapping_def updated_by_def bumped_by_def tombstone_def relocated_def)

text \<open>How a method may change the table: rows in place under their keys, or one row of a new key.\<close>

definition same_keys :: "items \<Rightarrow> items \<Rightarrow> bool" where
  "same_keys rows rows' \<longleftrightarrow> map item_key rows' = map item_key rows"

definition grows :: "items \<Rightarrow> items \<Rightarrow> bool" where
  "grows rows rows' \<longleftrightarrow> same_keys rows rows' \<or>
     (\<exists>r. item_key r \<notin> set (map item_key rows) \<and> rows' = rows @ [r])"

lemma same_keys_refl [simp]: "same_keys rows rows"
  by (simp add: same_keys_def)

lemma same_keys_grows: "same_keys rows rows' \<Longrightarrow> grows rows rows'"
  by (simp add: grows_def)

lemma same_keys_trans: "same_keys a b \<Longrightarrow> same_keys b c \<Longrightarrow> same_keys a c"
  by (simp add: same_keys_def)

lemma same_keys_update:
  "(\<And>r. p r \<Longrightarrow> item_key (f r) = item_key r) \<Longrightarrow> same_keys rows (update_where p f rows)"
  by (simp add: same_keys_def map_update_where)

lemma grows_insert: "grows rows (snd (insert_row r rows))"
  by (auto simp: grows_def insert_row_def image_iff)

lemma keys_unique_grows: "keys_unique rows \<Longrightarrow> grows rows rows' \<Longrightarrow> keys_unique rows'"
  by (auto simp: keys_unique_def grows_def same_keys_def)

subsection \<open>What a row says of itself\<close>

definition row_ok :: "item_row \<Rightarrow> bool" where
  "row_ok r \<longleftrightarrow>
     (it_status r = Tombstoned \<longrightarrow> it_deletion_applied_at r \<noteq> None) \<and>
     (it_status r = Superseded \<longrightarrow> it_superseded_by r \<noteq> None) \<and>
     (it_superseded_by r \<noteq> None \<longrightarrow> it_status r \<in> {Superseded, Copied, Updated, Tombstoned}) \<and>
     (it_moved_to_natural_key_hash r \<noteq> None \<longrightarrow> it_moved_to_collection r \<noteq> None) \<and>
     (it_move_acknowledged_at r \<noteq> None \<longrightarrow> it_moved_to_collection r \<noteq> None) \<and>
     (it_parked_at r \<noteq> None \<longrightarrow> 0 < it_attempt_count r)"

text \<open>The statuses the pass writes: a tombstone and a superseded name have doors of their own.\<close>

definition plain_record :: "ledger_record \<Rightarrow> bool" where
  "plain_record rc \<longleftrightarrow> lr_status rc \<noteq> Some Tombstoned \<and> lr_status rc \<noteq> Some Superseded"

lemma row_ok_update:
  assumes "list_all row_ok rows" and "\<And>r. p r \<Longrightarrow> row_ok r \<Longrightarrow> row_ok (f r)"
  shows "list_all row_ok (update_where p f rows)"
  using assms by (auto simp: list_all_iff in_update_where)

lemma row_ok_fresh: "plain_record rc \<Longrightarrow> row_ok (fresh_row now rc)"
  by (auto simp: row_ok_def fresh_row_def plain_record_def split: option.splits)

lemma row_ok_failed: "row_ok (failed_row now rc e opts)"
  by (simp add: row_ok_def failed_row_def fresh_row_def)

lemma row_ok_updated: "plain_record rc \<Longrightarrow> row_ok r \<Longrightarrow> row_ok (updated_by now rc r)"
  by (auto simp: row_ok_def updated_by_def plain_record_def split: option.splits)

lemma row_ok_bumped: "row_ok r \<Longrightarrow> row_ok (bumped_by now rc e opts r)"
  by (auto simp: row_ok_def bumped_by_def split: option.splits)

lemma row_ok_resolved: "row_ok r \<Longrightarrow> it_status r = Failed \<Longrightarrow> row_ok (resolved_by now action r)"
  by (auto simp: row_ok_def resolved_by_def)

lemma row_ok_tombstone: "row_ok r \<Longrightarrow> row_ok (tombstone now r)"
  by (auto simp: row_ok_def tombstone_def)

lemma row_ok_relocated: "row_ok r \<Longrightarrow> it_moved_to_natural_key_hash r \<noteq> None \<Longrightarrow> row_ok (relocated now r)"
  by (auto simp: row_ok_def relocated_def)

subsection \<open>The other names of one document\<close>

definition claimed_by :: "former_name list \<Rightarrow> item_row \<Rightarrow> string \<Rightarrow> bool" where
  "claimed_by names r h \<longleftrightarrow> (\<exists>c \<in> set names. fn_formerNaturalKeyHash c = it_natural_key_hash r \<and>
     fn_naturalKeyHash c = h \<and> h \<noteq> it_natural_key_hash r \<and>
     (truthy (it_source_ref_href r) \<longrightarrow> fn_sourceRef c = it_source_ref_href r))"

lemma claimant_claims: "claimant_of names r = Some c \<Longrightarrow> claimed_by names r (fn_naturalKeyHash c)"
  unfolding claimed_by_def claimant_of_def claimants_def Let_def
  by (rule bexI [of _ c]) (auto split: if_splits list.splits dest!: find_SomeD simp: filter_eq_Cons_iff)

lemma concat_chunks: "0 < n \<Longrightarrow> concat (chunks n xs) = xs"
  by (induction n xs rule: chunks.induct) (subst chunks.simps, simp)

text \<open>One row of the table before and after: untouched, or superseded by a name that claims it.\<close>

definition superseded_or_same :: "former_name list \<Rightarrow> item_row \<Rightarrow> item_row \<Rightarrow> bool" where
  "superseded_or_same names r r' \<longleftrightarrow> r' = r \<or>
     (it_status r = Failed \<and> it_status r' = Superseded \<and>
      (\<exists>h. it_superseded_by r' = Some h \<and> claimed_by names r h) \<and> it_content_hash r' = it_content_hash r \<and>
      it_target_ref r' = it_target_ref r \<and> item_key r' = item_key r \<and> it_domain r' = it_domain r \<and>
      it_source_ref_href r' = it_source_ref_href r)"

lemma superseded_or_same_trans:
  "superseded_or_same names a b \<Longrightarrow> superseded_or_same names b c \<Longrightarrow> superseded_or_same names a c"
  by (auto simp: superseded_or_same_def claimed_by_def item_key_def)

lemma all2_update_where:
  assumes "list_all2 R rows0 rows" and "\<And>r0 r. r0 \<in> set rows0 \<Longrightarrow> R r0 r \<Longrightarrow> p r \<Longrightarrow> R r0 (f r)"
  shows "list_all2 R rows0 (update_where p f rows)"
proof -
  have "\<And>r0 r. r0 \<in> set rows0 \<Longrightarrow> R r0 r \<Longrightarrow> R r0 (if p r then f r else r)"
    using assms(2) by simp
  with assms(1) show ?thesis
    unfolding update_where_def list.rel_map by (rule list.rel_mono_strong) blast+
qed

lemma update_where_elim:
  assumes "r \<in> set (update_where p f rows)"
  obtains (changed) q where "q \<in> set rows" "p q" "r = f q" | (same) "r \<in> set rows" "\<not> p r"
  using assms that unfolding in_update_where by metis

lemma all2_in: "list_all2 R xs ys \<Longrightarrow> y \<in> set ys \<Longrightarrow> \<exists>x \<in> set xs. R x y"
  by (induction rule: list_all2_induct) auto

lemma same_row:
  assumes "keys_unique rows" and "r \<in> set rows" and "q \<in> set rows" and "item_key r = item_key q"
  shows "r = q"
  using assms by (auto simp: keys_unique_def distinct_map inj_on_def)

lemma at_key_same: "at_key sc (it_natural_key_hash q) r \<Longrightarrow> in_scope sc q \<Longrightarrow> item_key r = item_key q"
  by (simp add: at_key_def in_scope_def of_mapping_def item_key_def)

lemma failed_is_untouched: "superseded_or_same names r0 r \<Longrightarrow> it_status r = Failed \<Longrightarrow> r = r0"
  by (auto simp: superseded_or_same_def)

lemma superseded_row:
  assumes "keys_unique rows0" and "row \<in> set rows0" and "in_scope sc row"
    and "list_all2 (superseded_or_same names) rows0 (fst acc)"
  shows "list_all2 (superseded_or_same names) rows0 (fst (supersede_row now sc names row acc))"
proof (cases "claimant_of names row")
  case None
  with assms(4) show ?thesis by (simp add: supersede_row_def)
next
  case (Some c)
  then have claims: "claimed_by names row (fn_naturalKeyHash c)" by (rule claimant_claims)
  have "superseded_or_same names r0 (r\<lparr>it_status := Superseded, it_superseded_by := Some (fn_naturalKeyHash c),
        it_superseded_at := Some now, it_updated_at := now\<rparr>)"
    if "r0 \<in> set rows0" "superseded_or_same names r0 r" "at_key sc (it_natural_key_hash row) r \<and> it_status r = Failed"
    for r0 r
  proof -
    from that have "r = r0" by (blast intro: failed_is_untouched)
    with that assms have "r = row" by (blast intro: same_row at_key_same)
    with \<open>r = r0\<close> claims that(3) show ?thesis by (simp add: superseded_or_same_def item_key_def)
  qed
  with assms(4) Some show ?thesis
    by (simp add: supersede_row_def Let_def all2_update_where)
qed

lemma superseded_chunk:
  assumes "keys_unique rows0" and "list_all2 (superseded_or_same names) rows0 (fst acc)"
  shows "list_all2 (superseded_or_same names) rows0 (fst (supersede_chunk now sc names chunk acc))"
proof -
  have one: "list_all2 (superseded_or_same names) rows0 (fst (fold (supersede_row now sc names) rs acc))"
    if "list_all2 (superseded_or_same names) rows0 (fst acc)" "\<forall>r \<in> set rs. r \<in> set rows0 \<and> in_scope sc r" for rs acc
    using that by (induction rs arbitrary: acc) (auto simp: superseded_row [OF assms(1)])
  have "r \<in> set rows0" if "r \<in> set (fst acc)" "it_status r = Failed" for r
    using all2_in [OF assms(2) that(1)] failed_is_untouched [OF _ that(2)] by blast
  then show ?thesis unfolding supersede_chunk_def by (intro one assms(2)) auto
qed

lemma superseded_names:
  assumes "keys_unique rows"
  shows "list_all2 (superseded_or_same names) rows (fst (supersedeFormerNames now sc names rows))"
proof -
  have "list_all2 (superseded_or_same names) rows (fst (fold (supersede_chunk now sc names) cs acc))"
    if "list_all2 (superseded_or_same names) rows (fst acc)" for cs acc
    using that by (induction cs arbitrary: acc) (simp_all add: superseded_chunk [OF assms])
  moreover have "list_all2 (superseded_or_same names) rows rows"
    by (simp add: list.rel_refl superseded_or_same_def)
  ultimately show ?thesis by (simp add: supersedeFormerNames_def)
qed

text \<open>Whatever a statement of either queue keeps of the table, the whole call keeps.\<close>

lemma supersede_keeps:
  assumes "\<And>row acc. I (fst acc) \<Longrightarrow> I (fst (supersede_row now sc names row acc))" and "I rows"
  shows "I (fst (supersedeFormerNames now sc names rows))"
proof -
  have rows: "I (fst (fold (supersede_row now sc names) rs acc))" if "I (fst acc)" for rs acc
    using that by (induction rs arbitrary: acc) (simp_all add: assms(1))
  have "I (fst (fold (supersede_chunk now sc names) cs acc))" if "I (fst acc)" for cs acc
    using that by (induction cs arbitrary: acc) (simp_all add: supersede_chunk_def rows)
  with assms(2) show ?thesis by (simp add: supersedeFormerNames_def)
qed

lemma mark_keeps:
  assumes "\<And>row acc. I (fst acc) \<Longrightarrow> I (fst (mark_row now sc names row acc))" and "I rows"
  shows "I (fst (markEarlierExports now sc names rows))"
proof -
  have rows: "I (fst (fold (mark_row now sc names) rs acc))" if "I (fst acc)" for rs acc
    using that by (induction rs arbitrary: acc) (simp_all add: assms(1))
  have "I (fst (fold (mark_chunk now sc names) cs acc))" if "I (fst acc)" for cs acc
    using that by (induction cs arbitrary: acc) (simp_all add: mark_chunk_def rows)
  with assms(2) show ?thesis by (simp add: markEarlierExports_def)
qed

subsection \<open>One call of the ledger\<close>

inductive ledger_step :: "items \<Rightarrow> items \<Rightarrow> bool" where
  copied: "plain_record rc \<Longrightarrow> ledger_step rows (snd (recordIfAbsent now rc rows))"
| updated: "plain_record rc \<Longrightarrow> ledger_step rows (snd (recordUpdate now rc rows))"
| failed: "ledger_step rows (snd (recordFailure now rc e opts rows))"
| superseded: "ledger_step rows (fst (supersedeFormerNames now sc names rows))"
| marked: "ledger_step rows (fst (markEarlierExports now sc names rows))"
| unmarked: "ledger_step rows (clearEarlierExport now sc h rows)"
| resolved: "ledger_step rows (snd (resolveFailure now t m h action rows))"
| group_resolved: "ledger_step rows (snd (resolveFailureGroup now t m action g rows))"
| moved: "ledger_step rows (recordMove now sc h c k pb rows)"
| unmoved: "ledger_step rows (clearMove now sc h rows)"
| move_kept: "ledger_step rows (snd (resolveMove now t m h act rows))"
| absent: "ledger_step rows (snd (recordAbsent now sc h rows))"
| reported: "ledger_step rows (snd (recordReportedDeletion now sc h rows))"
| trashed: "ledger_step rows (snd (recordTrashedDeletion now sc h rows))"
| present: "ledger_step rows (clearAbsent now sc h rows)"
| deletion_kept: "ledger_step rows (snd (resolveDeletion now t m h act rows))"
| deleted: "ledger_step rows (snd (ledger_applyDeletion now sc h rows))"
| relocated_away: "ledger_step rows (snd (ledger_applyRelocation now sc h rows))"

inductive ledger_history :: "items \<Rightarrow> bool" where
  empty: "ledger_history []"
| step: "ledger_history rows \<Longrightarrow> ledger_step rows rows' \<Longrightarrow> ledger_history rows'"

lemmas writer_defs =
  clearEarlierExport_def resolveFailure_def resolveFailureGroup_def recordMove_def clearMove_def
  resolveMove_def recordAbsent_def recordReportedDeletion_def recordTrashedDeletion_def clearAbsent_def
  resolveDeletion_def ledger_applyDeletion_def ledger_applyRelocation_def

lemma same_keys_supersede: "same_keys rows (fst (supersedeFormerNames now sc names rows))"
proof (rule supersede_keeps [where I = "same_keys rows"])
  show "same_keys rows (fst (supersede_row now sc names row acc))" if "same_keys rows (fst acc)" for now sc names row acc
    using that by (auto simp: supersede_row_def Let_def split: option.split
        intro: same_keys_trans intro!: same_keys_update)
qed simp

lemma same_keys_mark: "same_keys rows (fst (markEarlierExports now sc names rows))"
proof (rule mark_keeps [where I = "same_keys rows"])
  show "same_keys rows (fst (mark_row now sc names row acc))" if "same_keys rows (fst acc)" for now sc names row acc
    using that by (auto simp: mark_row_def Let_def split: option.split
        intro: same_keys_trans intro!: same_keys_update)
qed simp

lemma record_grows: "grows rows (snd (recordIfAbsent now rc rows))"
  using grows_insert [of rows "fresh_row now rc"]
  by (auto simp: recordIfAbsent_def split: prod.splits option.splits)

lemma failure_grows: "grows rows (snd (recordFailure now rc e opts rows))"
  using grows_insert [of rows "failed_row now rc e opts"]
  by (auto simp: recordFailure_def Let_def grows_def insert_row_def same_keys_update
      split: prod.splits option.splits list.splits if_splits)

lemma ledger_step_grows: "ledger_step rows rows' \<Longrightarrow> grows rows rows'"
proof (induction rule: ledger_step.induct)
  case (updated rc rows now)
  show ?case by (auto simp: recordUpdate_def Let_def grows_def same_keys_update split: list.splits)
qed (auto simp: writer_defs Let_def
    intro!: record_grows failure_grows same_keys_grows same_keys_update same_keys_supersede same_keys_mark)

subsection \<open>The invariant of the rows\<close>

lemma row_ok_supersede: "list_all row_ok rows \<Longrightarrow> list_all row_ok (fst (supersedeFormerNames now sc names rows))"
proof (rule supersede_keeps [where I = "list_all row_ok"])
  show "list_all row_ok (fst (supersede_row now sc names row acc))" if "list_all row_ok (fst acc)"
    for now sc names row acc
    using that by (auto simp: supersede_row_def Let_def row_ok_def split: option.split intro!: row_ok_update)
qed

lemma row_ok_mark: "list_all row_ok rows \<Longrightarrow> list_all row_ok (fst (markEarlierExports now sc names rows))"
proof (rule mark_keeps [where I = "list_all row_ok"])
  show "list_all row_ok (fst (mark_row now sc names row acc))" if "list_all row_ok (fst acc)"
    for now sc names row acc
    using that by (auto simp: mark_row_def Let_def row_ok_def placed_live_def live_status_def
        split: option.split intro!: row_ok_update)
qed

lemma row_ok_recorded:
  assumes "plain_record rc" and "list_all row_ok rows"
  shows "list_all row_ok (snd (recordIfAbsent now rc rows))"
  using assms row_ok_fresh [OF assms(1), of now]
  by (auto simp: recordIfAbsent_def insert_row_def split: option.splits)

lemma row_ok_failure:
  assumes "list_all row_ok rows"
  shows "list_all row_ok (snd (recordFailure now rc e opts rows))"
  using assms row_ok_failed [of now rc e opts]
  by (auto simp: recordFailure_def Let_def insert_row_def row_ok_update row_ok_bumped split: list.splits)

lemma row_ok_step:
  assumes "ledger_step rows rows'" and "list_all row_ok rows"
  shows "list_all row_ok rows'"
  using assms
proof (induction rule: ledger_step.induct)
  case (updated rc rows now)
  then show ?case by (auto simp: recordUpdate_def Let_def row_ok_update row_ok_updated split: list.splits)
next
  case (unmarked rows now sc h)
  then show ?case by (auto simp: writer_defs Let_def intro!: row_ok_update) (auto simp: row_ok_def live_status_def)
next
  case (moved rows now sc h c k pb)
  then show ?case by (auto simp: writer_defs Let_def intro!: row_ok_update) (auto simp: row_ok_def live_status_def)
next
  case (unmoved rows now sc h)
  then show ?case by (auto simp: writer_defs Let_def intro!: row_ok_update) (auto simp: row_ok_def live_status_def)
next
  case (move_kept rows now t m h act)
  then show ?case by (auto simp: writer_defs Let_def intro!: row_ok_update) (auto simp: row_ok_def live_status_def)
next
  case (relocated_away rows now sc h)
  then show ?case by (auto simp: writer_defs relocation_applies_def intro!: row_ok_update row_ok_relocated)
next
  case (absent rows now sc h)
  then show ?case by (auto simp: writer_defs Let_def intro!: row_ok_update) (auto simp: row_ok_def live_status_def)
next
  case (reported rows now sc h)
  then show ?case by (auto simp: writer_defs Let_def intro!: row_ok_update) (auto simp: row_ok_def live_status_def)
next
  case (trashed rows now sc h)
  then show ?case by (auto simp: writer_defs Let_def intro!: row_ok_update) (auto simp: row_ok_def live_status_def)
next
  case (present rows now sc h)
  then show ?case by (auto simp: writer_defs Let_def intro!: row_ok_update) (auto simp: row_ok_def live_status_def)
next
  case (deletion_kept rows now t m h act)
  then show ?case by (auto simp: writer_defs Let_def intro!: row_ok_update) (auto simp: row_ok_def live_status_def)
qed (auto simp: row_ok_supersede row_ok_mark row_ok_recorded row_ok_failure resolveFailure_def
    resolveFailureGroup_def ledger_applyDeletion_def Let_def intro!: row_ok_update row_ok_resolved row_ok_tombstone)

lemma history_sound: "ledger_history rows \<Longrightarrow> keys_unique rows \<and> list_all row_ok rows"
proof (induction rule: ledger_history.induct)
  case empty
  show ?case by (simp add: keys_unique_def)
next
  case (step rows rows')
  then show ?case by (blast intro: keys_unique_grows ledger_step_grows row_ok_step)
qed

subsection \<open>Single rows\<close>

lemma find_at_update:
  assumes "\<And>r. p r \<Longrightarrow> at_key sc h (f r) = at_key sc h r"
  shows "List.find (at_key sc h) (update_where p f rows) =
    map_option (\<lambda>r. if p r then f r else r) (List.find (at_key sc h) rows)"
  using assms by (rule find_update_where)

lemma find_at_insert:
  assumes "\<nexists>q. q \<in> set rows \<and> item_key q = item_key r" and "at_key sc h r"
  shows "List.find (at_key sc h) (rows @ [r]) = Some r"
proof -
  have "List.find (at_key sc h) rows = None"
    using assms by (intro find_NoneI) (auto simp: at_key_def in_scope_def of_mapping_def item_key_def)
  with assms(2) show ?thesis by (simp add: find_append)
qed

lemma at_key_fresh: "at_key (record_scope rc) (lr_naturalKeyHash rc) (fresh_row now rc)"
  by (simp add: at_key_def in_scope_def of_mapping_def record_scope_def fresh_row_def)

lemma recorded_found:
  assumes "recordIfAbsent now rc rows = (Inr a, rows')"
  shows "find_item (record_scope rc) (lr_naturalKeyHash rc) rows' = Some a"
proof (cases "\<exists>q \<in> set rows. item_key q = item_key (fresh_row now rc)")
  case True
  with assms show ?thesis
    by (auto simp: recordIfAbsent_def insert_row_def split: option.splits)
next
  case False
  then have "List.find (at_key (record_scope rc) (lr_naturalKeyHash rc)) (rows @ [fresh_row now rc]) = Some (fresh_row now rc)"
    by (intro find_at_insert at_key_fresh) auto
  with False assms show ?thesis
    by (auto simp: recordIfAbsent_def insert_row_def find_item_def)
qed

subsection \<open>Failures in a row\<close>

definition attempts_at :: "ledger_scope \<Rightarrow> string \<Rightarrow> items \<Rightarrow> nat" where
  "attempts_at sc h rows = (case List.find (at_key sc h) rows of None \<Rightarrow> 0 | Some r \<Rightarrow> it_attempt_count r)"

definition key_is_of :: "ledger_record \<Rightarrow> items \<Rightarrow> bool" where
  "key_is_of rc rows \<longleftrightarrow> list_all (\<lambda>q. item_key q = record_key rc \<longrightarrow> it_domain q = lr_itemType rc) rows"

lemma at_record_key: "at_key (record_scope rc) (lr_naturalKeyHash rc) q \<longleftrightarrow>
    item_key q = record_key rc \<and> it_domain q = lr_itemType rc"
  by (auto simp: at_key_def in_scope_def of_mapping_def record_scope_def item_key_def record_key_def)

lemma failure_recorded:
  assumes "key_is_of rc rows"
  obtains r rows' where "recordFailure now rc e opts rows = (Inr (mapRowToRecord r), rows')"
    "List.find (at_key (record_scope rc) (lr_naturalKeyHash rc)) rows' = Some r"
    "it_status r = Failed" "it_attempt_count r = Suc (attempts_at (record_scope rc) (lr_naturalKeyHash rc) rows)"
    "fo_park opts \<Longrightarrow> it_parked_at r \<noteq> None" "key_is_of rc rows'"
proof (cases "List.find (at_key (record_scope rc) (lr_naturalKeyHash rc)) rows")
  case None
  let ?new = "failed_row now rc e opts"
  have none: "filter (at_key (record_scope rc) (lr_naturalKeyHash rc)) rows = []"
    using find_NoneD [OF None] by (auto simp: filter_empty_conv)
  have key: "item_key ?new = record_key rc" "it_domain ?new = lr_itemType rc"
    by (simp_all add: failed_row_def fresh_row_def item_key_def record_key_def)
  have absent: "\<not> (\<exists>q \<in> set rows. item_key q = item_key ?new)"
    using assms find_NoneD [OF None] by (auto simp: key key_is_of_def list_all_iff at_record_key)
  show thesis
  proof (rule that [of ?new "rows @ [?new]"])
    show "recordFailure now rc e opts rows = (Inr (mapRowToRecord ?new), rows @ [?new])"
      using none absent by (simp add: recordFailure_def Let_def returning_def insert_row_def)
    show "List.find (at_key (record_scope rc) (lr_naturalKeyHash rc)) (rows @ [?new]) = Some ?new"
      using None key by (simp add: find_append at_record_key)
    show "key_is_of rc (rows @ [?new])" using assms key by (simp add: key_is_of_def)
  qed (simp_all add: failed_row_def attempts_at_def None)
next
  case (Some old)
  let ?p = "at_key (record_scope rc) (lr_naturalKeyHash rc)" and ?f = "bumped_by now rc e opts"
  have hd: "\<exists>rest. returning ?p ?f rows = ?f old # rest" using Some
    by (induction rows) (auto simp: returning_def split: if_splits)
  have dom: "it_domain (?f r) = it_domain r" for r by (simp add: bumped_by_def)
  show thesis
  proof (rule that [of "?f old" "update_where ?p ?f rows"])
    show "recordFailure now rc e opts rows = (Inr (mapRowToRecord (?f old)), update_where ?p ?f rows)"
      using hd by (auto simp: recordFailure_def Let_def)
    show "List.find ?p (update_where ?p ?f rows) = Some (?f old)"
      using find_SomeD [OF Some] by (simp add: find_at_update Some)
    show "key_is_of rc (update_where ?p ?f rows)"
      using assms by (auto simp: key_is_of_def list_all_iff in_update_where dom split: if_splits)
  qed (simp_all add: bumped_by_def attempts_at_def Some split: option.split)
qed

text \<open>\<open>n\<close> failures of one item, one after another.\<close>

fun fail_times :: "timestamp \<Rightarrow> ledger_record \<Rightarrow> string \<Rightarrow> failure_options \<Rightarrow> nat \<Rightarrow> items \<Rightarrow> items" where
  "fail_times now rc e opts 0 rows = rows"
| "fail_times now rc e opts (Suc n) rows = snd (recordFailure now rc e opts (fail_times now rc e opts n rows))"

lemma fail_times_key: "key_is_of rc rows \<Longrightarrow> key_is_of rc (fail_times now rc e opts n rows)"
proof (induction n)
  case (Suc n)
  then show ?case using failure_recorded [of rc "fail_times now rc e opts n rows" now e opts] by fastforce
qed simp

lemma fail_times_row:
  assumes "key_is_of rc rows"
  shows "\<exists>r. List.find (at_key (record_scope rc) (lr_naturalKeyHash rc)) (fail_times now rc e opts (Suc n) rows) = Some r \<and>
    it_status r = Failed \<and>
    it_attempt_count r = attempts_at (record_scope rc) (lr_naturalKeyHash rc) rows + Suc n"
proof (induction n)
  case 0
  obtain r rows' where "recordFailure now rc e opts rows = (Inr (mapRowToRecord r), rows')"
    "List.find (at_key (record_scope rc) (lr_naturalKeyHash rc)) rows' = Some r" "it_status r = Failed"
    "it_attempt_count r = Suc (attempts_at (record_scope rc) (lr_naturalKeyHash rc) rows)"
    by (rule failure_recorded [OF assms, of now e opts])
  then show ?case by simp
next
  case (Suc n)
  let ?rows = "fail_times now rc e opts (Suc n) rows"
  obtain r rows' where "recordFailure now rc e opts ?rows = (Inr (mapRowToRecord r), rows')"
    "List.find (at_key (record_scope rc) (lr_naturalKeyHash rc)) rows' = Some r" "it_status r = Failed"
    "it_attempt_count r = Suc (attempts_at (record_scope rc) (lr_naturalKeyHash rc) ?rows)"
    by (rule failure_recorded [OF fail_times_key [OF assms], of now e opts])
  with Suc.IH show ?case by (auto simp: attempts_at_def)
qed

subsection \<open>Patterns\<close>

lemma like_literal: "sql_like (likeLiteral needle @ rest) s \<longleftrightarrow> (\<exists>t. s = needle @ t \<and> sql_like rest t)"
proof (induction needle arbitrary: s)
  case Nil
  then show ?case by (simp add: likeLiteral_def)
next
  case (Cons c needle)
  have step: "likeLiteral (c # needle) =
      (if c = CHR 92 \<or> c = CHR ''%'' \<or> c = CHR ''_'' then [CHR 92, c] else [c]) @ likeLiteral needle"
    by (simp add: likeLiteral_def)
  show ?case
    by (cases s) (auto simp: step Cons.IH)
qed

lemma like_percent: "sql_like [CHR ''%''] s"
  by (induction s) simp_all

lemma like_anywhere: "sql_like (CHR ''%'' # ps) s \<longleftrightarrow> (\<exists>a b. s = a @ b \<and> sql_like ps b)"
proof (induction s)
  case Nil
  then show ?case by simp
next
  case (Cons c s)
  then show ?case by (auto simp: Cons_eq_append_conv)
qed

subsection \<open>Properties\<close>

text \<open>One message, for the examples.\<close>

definition a_message :: ledger_record where
  "a_message = \<lparr>lr_tenantId = ''t'', lr_mappingId = ''m'', lr_itemType = Email, lr_naturalKeyHash = ''h1'',
     lr_naturalKey = Some ''<1@x>'', lr_displayName = None, lr_repaired = None, lr_contentHash = ''c1'',
     lr_targetId = ''7'', lr_createdAt = 0, lr_sizeBytes = Some 10, lr_status = Some Copied,
     lr_supersededByNaturalKeyHash = None, lr_collection = Some ''INBOX'', lr_targetVersion = None,
     lr_sourceRef = None, lr_absentPasses = None, lr_deletionReportedAt = None, lr_deletionTrashedAt = None,
     lr_deletionAcknowledgedAt = None, lr_deletionAppliedAt = None, lr_movedToCollection = None,
     lr_movedToNaturalKeyHash = None, lr_movedByIdentity = False, lr_movedRecordedAt = None,
     lr_moveAcknowledgedAt = None, lr_attemptCount = None, lr_parkedAt = None, lr_lastError = None,
     lr_lastErrorCategory = None, lr_sourceVersion = None\<rparr>"

definition no_options :: failure_options where
  "no_options = \<lparr>fo_park = False, fo_side = None, fo_category = Some Network\<rparr>"

definition mail_scope :: ledger_scope where
  "mail_scope = record_scope a_message"

definition moved_message :: item_row where
  "moved_message = (fresh_row 5 a_message)\<lparr>it_moved_to_natural_key_hash := Some ''h2'',
     it_moved_recorded_at := Some 6\<rparr>"

text \<open>
  C13: the ledger holds at most one row per tenant, mapping and natural key, and its rows never
  contradict themselves, whatever calls of its methods are made in whatever order: a tombstone
  has the date it was applied, a superseded row names what superseded it and a row that names
  one is superseded or still placed, a key moved to or an answered move has a move, and what
  is parked has failed at least once.
\<close>
theorem ledger_histories_are_sound:
  assumes "ledger_history rows"
  shows "distinct (map item_key rows) \<and> list_all row_ok rows"
  using history_sound [OF assms] by (simp add: keys_unique_def)

theorem ledger_histories_are_sound_witness:
  "list_all row_ok (snd (recordFailure 5 a_message ''timeout'' no_options []))"
  by (rule ledger_histories_are_sound [THEN conjunct2],
      rule ledger_history.step [OF ledger_history.empty ledger_step.failed])

text \<open>
  a copy is recorded once. Whatever \<open>recordIfAbsent\<close> answered for a key, recording any
  other record under that key later answers the same row and writes nothing, and no row that
  was there before the first call was touched by it.
\<close>
theorem a_copy_is_recorded_once:
  assumes "recordIfAbsent now rc rows = (Inr a, rows')"
    and "record_scope rc' = record_scope rc" and "lr_naturalKeyHash rc' = lr_naturalKeyHash rc"
  shows "recordIfAbsent later rc' rows' = (Inr a, rows') \<and> take (length rows) rows' = rows"
proof -
  have key: "item_key (fresh_row later rc') = item_key (fresh_row now rc)"
    using assms(2,3) by (simp add: item_key_def fresh_row_def record_scope_def)
  have found: "find_item (record_scope rc') (lr_naturalKeyHash rc') rows' = Some a"
    using recorded_found [OF assms(1)] assms(2,3) by simp
  then obtain r where "r \<in> set rows'" "at_key (record_scope rc') (lr_naturalKeyHash rc') r"
    by (auto simp: find_item_def dest: find_SomeD)
  then have "\<exists>q \<in> set rows'. item_key q = item_key (fresh_row later rc')"
    by (intro bexI [of _ r]) (auto simp: at_record_key record_key_def item_key_def fresh_row_def)
  with found have "recordIfAbsent later rc' rows' = (Inr a, rows')"
    by (simp add: recordIfAbsent_def insert_row_def)
  moreover have "take (length rows) rows' = rows"
    using assms(1) by (auto simp: recordIfAbsent_def insert_row_def split: if_splits option.splits)
  ultimately show ?thesis ..
qed

theorem a_copy_is_recorded_once_witness:
  "snd (recordIfAbsent 9 (a_message\<lparr>lr_targetId := ''8'', lr_contentHash := ''c2''\<rparr>)
     (snd (recordIfAbsent 5 a_message []))) = snd (recordIfAbsent 5 a_message [])"
proof -
  have "recordIfAbsent 5 a_message [] = (Inr (mapRowToRecord (fresh_row 5 a_message)), [fresh_row 5 a_message])"
    by (simp add: recordIfAbsent_def insert_row_def)
  from a_copy_is_recorded_once [OF this, of "a_message\<lparr>lr_targetId := ''8'', lr_contentHash := ''c2''\<rparr>" 9] this
  show ?thesis by (simp add: record_scope_def)
qed

text \<open>
  applying a relocation never removes the last copy. If the ledger says the row was
  tombstoned as relocated, then another row stands untouched for the same data type, copied or
  updated on the target under the key the item moved to, holding the same bytes, or the same
  source document where the pair was made by identity; the row had not been applied or
  answered before; and no row of another key changed.
\<close>
theorem relocation_leaves_a_copy:
  assumes "ledger_applyRelocation now sc h rows = (True, rows')"
  shows "(\<exists>r \<in> set rows. at_key sc h r \<and> live_status (it_status r) \<and> it_deletion_applied_at r = None \<and>
       it_move_acknowledged_at r = None \<and>
       (\<exists>a \<in> set rows. a \<in> set rows' \<and> in_scope sc a \<and> it_natural_key_hash a \<noteq> h \<and>
          it_moved_to_natural_key_hash r = Some (it_natural_key_hash a) \<and> live_status (it_status a) \<and>
          ((truthy (it_content_hash a) \<and> it_content_hash a = it_content_hash r) \<or>
           (it_moved_by_identity r \<and> it_source_ref_href a = it_source_ref_href r)))) \<and>
     filter (\<lambda>r. \<not> at_key sc h r) rows' = filter (\<lambda>r. \<not> at_key sc h r) rows"
proof -
  let ?p = "relocation_applies sc h rows"
  have rows': "rows' = update_where ?p (relocated now) rows" and "returning ?p (relocated now) rows \<noteq> []"
    using assms by (simp_all add: ledger_applyRelocation_def)
  then obtain r where r: "r \<in> set rows" "?p r" by (auto simp: returning_def filter_empty_conv)
  then obtain a where a: "a \<in> set rows" "arrived sc r a" "at_key sc h r"
    by (auto simp: relocation_applies_def list_ex_iff)
  then have "it_natural_key_hash a \<noteq> h" by (auto simp: arrived_def at_key_def)
  moreover from this a(1) have "a \<in> set rows'"
    by (auto simp: rows' in_update_where relocation_applies_def at_key_def intro!: bexI [of _ a])
  moreover have "filter (\<lambda>r. \<not> at_key sc h r) rows' = filter (\<lambda>r. \<not> at_key sc h r) rows"
    unfolding rows' by (rule filter_update_where) (auto simp: relocation_applies_def)
  ultimately show ?thesis using r a by (auto simp: relocation_applies_def arrived_def)
qed

theorem relocation_leaves_a_copy_witness:
  "\<exists>a \<in> set (snd (ledger_applyRelocation 9 mail_scope ''h1'' (moved_message # [fresh_row 5
     (a_message\<lparr>lr_naturalKeyHash := ''h2'', lr_targetId := ''8''\<rparr>)]))). it_natural_key_hash a \<noteq> ''h1'' \<and> live_status (it_status a)"
proof -
  let ?rows = "moved_message # [fresh_row 5 (a_message\<lparr>lr_naturalKeyHash := ''h2'', lr_targetId := ''8''\<rparr>)]"
  have "fst (ledger_applyRelocation 9 mail_scope ''h1'' ?rows)" by code_simp
  then have "ledger_applyRelocation 9 mail_scope ''h1'' ?rows = (True, snd (ledger_applyRelocation 9 mail_scope ''h1'' ?rows))"
    by (simp add: prod_eq_iff)
  from relocation_leaves_a_copy [OF this] show ?thesis by blast
qed

text \<open>
  applying a deletion needs evidence, and happens once. The ledger says it was applied
  exactly when the key has a row that is copied or updated, whose source reported it deleted or
  was seen with it in its bin, and that was not applied before; asking again is refused and
  writes nothing; and no other row changes, nor any adopted one.
\<close>
theorem deletion_needs_evidence:
  assumes "ledger_applyDeletion now sc h rows = (done, rows')"
  shows "(done \<longleftrightarrow> (\<exists>r \<in> set rows. at_key sc h r \<and> live_status (it_status r) \<and> it_deletion_applied_at r = None \<and>
        (it_deletion_reported_at r \<noteq> None \<or> it_deletion_trashed_at r \<noteq> None))) \<and>
     ledger_applyDeletion later sc h rows' = (False, rows') \<and>
     filter (\<lambda>r. \<not> at_key sc h r) rows' = filter (\<lambda>r. \<not> at_key sc h r) rows \<and>
     filter (\<lambda>r. it_status r = Adopted) rows' = filter (\<lambda>r. it_status r = Adopted) rows"
proof -
  let ?p = "deletion_applies sc h"
  have rows': "rows' = update_where ?p (tombstone now) rows" and out: "done = (returning ?p (tombstone now) rows \<noteq> [])"
    using assms by (auto simp: ledger_applyDeletion_def)
  have dead: "\<not> ?p (tombstone now r)" for r
    by (simp add: deletion_applies_def tombstone_def)
  have gone: "\<not> ?p q" if "q \<in> set rows'" for q
  proof -
    from that obtain r where "q = (if ?p r then tombstone now r else r)" by (auto simp: rows' in_update_where)
    then show ?thesis using dead by (cases "?p r") simp_all
  qed
  then have "filter ?p rows' = []" by (simp add: filter_empty_conv)
  then have "ledger_applyDeletion later sc h rows' = (False, rows')"
    using gone by (simp add: ledger_applyDeletion_def returning_def update_where_none)
  moreover have "filter (\<lambda>r. \<not> at_key sc h r) rows' = filter (\<lambda>r. \<not> at_key sc h r) rows"
    unfolding rows' by (rule filter_update_where) (auto simp: deletion_applies_def)
  moreover have "filter (\<lambda>r. it_status r = Adopted) rows' = filter (\<lambda>r. it_status r = Adopted) rows"
    unfolding rows' by (rule filter_update_where) (auto simp: deletion_applies_def tombstone_def live_status_def)
  ultimately show ?thesis
    by (auto simp: out returning_def filter_empty_conv deletion_applies_def)
qed

theorem deletion_needs_evidence_witness:
  "fst (ledger_applyDeletion 9 mail_scope ''h1'' [moved_message\<lparr>it_deletion_trashed_at := Some 7\<rparr>])"
proof -
  let ?rows = "[moved_message\<lparr>it_deletion_trashed_at := Some 7\<rparr>]"
  obtain b rows' where run: "ledger_applyDeletion 9 mail_scope ''h1'' ?rows = (b, rows')" by fastforce
  have "\<exists>r \<in> set ?rows. at_key mail_scope ''h1'' r \<and> live_status (it_status r) \<and> it_deletion_applied_at r = None \<and>
      (it_deletion_reported_at r \<noteq> None \<or> it_deletion_trashed_at r \<noteq> None)"
    by code_simp
  with deletion_needs_evidence [OF run] run show ?thesis by simp
qed

text \<open>
  an item asks for a decision at its fifth failure, not before. After \<open>n + 1\<close> failures in a
  row of an item the ledger did not hold, its one row counts \<open>n + 1\<close> attempts, it is on the queue
  of failures, and its entry needs a decision exactly from the fifth on (none of them parked).
\<close>
theorem the_fifth_failure_asks:
  assumes "\<not> fo_park opts"
  shows "case listFailures (lr_tenantId rc) (lr_mappingId rc) None (fail_times now rc e opts (Suc n) []) of
     [f] \<Rightarrow> fl_naturalKeyHash f = lr_naturalKeyHash rc \<and> fl_attempts f = Suc n \<and>
        (fl_needsDecision f \<longleftrightarrow> 5 \<le> Suc n)
   | _ \<Rightarrow> False"
proof -
  have "\<exists>r. fail_times now rc e opts (Suc n) [] = [r] \<and> at_key (record_scope rc) (lr_naturalKeyHash rc) r \<and>
      it_status r = Failed \<and> it_attempt_count r = Suc n \<and> it_parked_at r = None"
  proof (induction n)
    case 0
    have "at_key (record_scope rc) (lr_naturalKeyHash rc) (failed_row now rc e opts)"
      by (simp add: at_key_def in_scope_def of_mapping_def record_scope_def failed_row_def fresh_row_def)
    then show ?case
      using assms by (simp add: recordFailure_def Let_def returning_def insert_row_def)
        (simp add: failed_row_def)
  next
    case (Suc n)
    then obtain r where r: "fail_times now rc e opts (Suc n) [] = [r]"
      "at_key (record_scope rc) (lr_naturalKeyHash rc) r" "it_attempt_count r = Suc n" "it_parked_at r = None"
      by blast
    then show ?case
      using assms
      by (simp add: recordFailure_def Let_def returning_def table_simps del: fail_times.simps(2) add: fail_times.simps(2) [of _ _ _ _ "Suc n"])
        (simp add: bumped_by_def)
  qed
  then show ?thesis
    by (auto simp: listFailures_def at_key_def in_scope_def of_mapping_def record_scope_def asked_domain_def
        MAX_ITEM_ATTEMPTS_def simp del: fail_times.simps)
qed

theorem the_fifth_failure_asks_witness:
  "map fl_needsDecision (listFailures ''t'' ''m'' None (fail_times 3 a_message ''timeout'' no_options 5 [])) = [True]"
  using the_fifth_failure_asks [where opts = no_options and rc = a_message and now = 3 and e = "''timeout''" and n = 4]
  by (simp add: no_options_def a_message_def eval_nat_numeral del: fail_times.simps split: list.splits)

text \<open>
  Reconciling the names of exports loses no row. Of a table with one row per key,
  \<open>supersedeFormerNames\<close> keeps every row in its place and changes only failed ones, which become
  superseded by a name that claims theirs: another key given for the same former name, and of
  the same source document where the row knows its document. However many names there are, in
  chunks of a thousand or fewer, each former name is read once.
\<close>
theorem superseding_touches_only_failures:
  assumes "keys_unique rows"
  shows "list_all2 (superseded_or_same names) rows (fst (supersedeFormerNames now sc names rows)) \<and>
    concat (chunks SUPERSEDE_CHUNK (formers_of names)) = formers_of names \<and> distinct (formers_of names)"
  using superseded_names [OF assms] by (simp add: concat_chunks SUPERSEDE_CHUNK_def formers_of_def)

theorem superseding_touches_only_failures_witness:
  "length (fst (supersedeFormerNames 9 mail_scope
     [\<lparr>fn_formerNaturalKeyHash = ''h1'', fn_naturalKeyHash = ''h2'', fn_sourceRef = None\<rparr>]
     [failed_row 5 a_message ''timeout'' no_options])) = 1"
proof -
  have "keys_unique [failed_row 5 a_message ''timeout'' no_options]" by (simp add: keys_unique_def)
  from superseding_touches_only_failures [OF this] show ?thesis
    by (metis list_all2_lengthD One_nat_def length_Cons list.size(3))
qed

text \<open>
  the group a decision is pressed on is the group the owner saw. The pattern
  \<open>resolveFailureGroup\<close> sends the database matches an error exactly when the words the owner gave
  stand in it as they are, whatever percent signs, underscores and backslashes they hold.
\<close>
theorem group_pattern_is_the_words:
  "sql_like (CHR ''%'' # likeLiteral needle @ [CHR ''%'']) text \<longleftrightarrow> (\<exists>a b. text = a @ needle @ b)"
proof -
  have "sql_like (likeLiteral needle @ [CHR ''%'']) s \<longleftrightarrow> (\<exists>t. s = needle @ t)" for s
    using like_percent by (auto simp: like_literal simp del: sql_like.simps)
  then show ?thesis by (auto simp: like_anywhere simp del: sql_like.simps)
qed

text \<open>
  An item that is back is listed as gone no more, and a first sighting is never moved. After
  \<open>clearAbsent\<close> no entry of the deletions queue is about that item; a report or a sighting in the
  bin keeps the first date however often it is recorded again; and every entry is confirmed
  exactly by the source's own word or by enough passes without the item.
\<close>
theorem evidence_is_kept_and_cleared:
  "filter (\<lambda>d. dl_naturalKeyHash d = h \<and> dl_domain d = sp_domain sc)
     (listDeletions (sp_tenant sc) (sp_mapping sc) domain (clearAbsent now sc h rows)) = [] \<and>
   snd (recordReportedDeletion later sc h (snd (recordReportedDeletion now sc h rows))) =
     snd (recordReportedDeletion now sc h rows) \<and>
   snd (recordTrashedDeletion later sc h (snd (recordTrashedDeletion now sc h rows))) =
     snd (recordTrashedDeletion now sc h rows) \<and>
   filter (\<lambda>d. dl_confirmed d \<noteq> (Inferred < dl_evidence d \<or> DELETION_CONFIRMATIONS \<le> dl_absentPasses d))
     (listDeletions t m domain rows) = []"
proof -
  have cleared: "it_absent_passes r = 0 \<and> it_deletion_reported_at r = None \<and> it_deletion_trashed_at r = None"
    if "r \<in> set (clearAbsent now sc h rows)" "at_key sc h r" for r
    using that unfolding clearAbsent_def by (cases rule: update_where_elim) simp_all
  have "filter (\<lambda>d. dl_naturalKeyHash d = h \<and> dl_domain d = sp_domain sc)
     (listDeletions (sp_tenant sc) (sp_mapping sc) domain (clearAbsent now sc h rows)) = []"
    using cleared by (fastforce simp: listDeletions_def filter_empty_conv deletion_of_def at_key_def in_scope_def)
  moreover have "update_where p f (update_where p f' rows') = update_where p f' rows'"
    if "\<And>r. \<not> p (f' r)" for p :: "item_row \<Rightarrow> bool" and f f' rows'
    using that by (intro update_where_none) (auto elim: update_where_elim)
  ultimately show ?thesis
    by (auto simp: recordReportedDeletion_def recordTrashedDeletion_def Let_def listDeletions_def filter_empty_conv
        deletion_of_def stated_evidence)
qed

text \<open>
  Reading ahead answers what reading each time would. For the hashes asked, \<open>findMany\<close> gives
  each one the record \<open>find\<close> gives it, and nothing for any other; a key found is found in its own
  scope with its own hash.
\<close>
theorem reading_ahead_is_reading:
  "findMany sc hashes rows h = (if h \<in> set hashes then find_item sc h rows else None) \<and>
   (case find_item sc h rows of None \<Rightarrow> filter (at_key sc h) rows = []
    | Some rc \<Rightarrow> lr_naturalKeyHash rc = h \<and> record_scope rc = sc)"
proof -
  have "map_of (map (\<lambda>r. (it_natural_key_hash r, mapRowToRecord r)) (filter p rows)) h =
      map_option mapRowToRecord (List.find (\<lambda>r. p r \<and> it_natural_key_hash r = h) rows)" for p
    by (induction rows) auto
  then have "findMany sc hashes rows h =
      map_option mapRowToRecord (List.find (\<lambda>r. (in_scope sc r \<and> it_natural_key_hash r \<in> set hashes) \<and>
        it_natural_key_hash r = h) rows)"
    by (simp add: findMany_def)
  also have "\<dots> = (if h \<in> set hashes then find_item sc h rows else None)"
    by (auto simp: find_item_def at_key_def intro!: arg_cong [where f = "map_option mapRowToRecord"] find_cong find_NoneI)
  finally show ?thesis
    by (auto simp: find_item_def mapRowToRecord_def record_scope_def at_key_def in_scope_def of_mapping_def
        filter_empty_conv dest: find_SomeD find_NoneD split: option.split)
qed

end
