(* ===== verification/Apply_Removal.thy ===== *)
theory Apply_Removal
  imports Ledger_Laws Mapping_Paths
begin

text \<open>
  The only operations that remove anything from a target
  (\<open>packages/core/src/apply-deletion.ts\<close>): applying a deletion, applying a relocation, and the
  unattended relocations at the end of a pass. They are programs over ports: the ledger's
  methods, the authority check and the target's own. A target that cannot remove or cannot
  confirm presence lacks the port (\<open>canRemove\<close>, \<open>canConfirmPresence\<close>). Log lines and the
  sentences of refusals are left out; a refusal keeps its code.
\<close>

subsection \<open>Ports and outcomes\<close>

datatype apply_refusal =
  Not_enabled | Target_cannot_remove | Not_found | Not_confirmed | Weak_evidence | Not_ours
| Already_applied | After_cutover | Edited_on_target | Version_unknown | Mass_deletion_suspected
| Mass_relocation_suspected | Already_kept | Not_relocated | Relocation_unconfirmed
| Target_cannot_confirm | Removed_not_recorded

datatype apply_outcome = Removed removal_kind | Refused apply_refusal

record removal_options =
  ro_expectedTargetVersion :: "string option"
  ro_collection :: "string option"

record ('s, 'e) removal_deps =
  rd_allowApplyDeletions :: bool
  rd_targetFolderPrefix :: "string option"
  rd_stillTheAuthority :: "('s, 'e, bool) prog"
  rd_find :: "string \<Rightarrow> ('s, 'e, ledger_record option) prog"
  rd_placedItems :: "('s, 'e, placed_item list) prog"
  rd_listDeletions :: "('s, 'e, item_deletion list) prog"
  rd_listMoves :: "('s, 'e, item_move list) prog"
  rd_applyDeletion :: "string \<Rightarrow> ('s, 'e, bool) prog"
  rd_applyRelocation :: "string \<Rightarrow> ('s, 'e, bool) prog"
  rd_removeItem :: "(string \<Rightarrow> removal_options \<Rightarrow> ('s, 'e, removal_result) prog) option"
  rd_hasItem :: "(string \<Rightarrow> string option \<Rightarrow> ('s, 'e, bool) prog) option"
  rd_recordAuditEvent :: "string \<Rightarrow> removal_kind \<Rightarrow> ('s, 'e, unit) prog"

definition MASS_DELETION_MIN_ITEMS :: nat where
  "MASS_DELETION_MIN_ITEMS = 20"

text \<open>\<open>share <= MASS_DELETION_FRACTION\<close>, a fifth.\<close>

definition small_share :: "nat \<Rightarrow> nat \<Rightarrow> bool" where
  "small_share pending placed \<longleftrightarrow> 5 * pending \<le> placed"

text \<open>A check refuses with a code or lets the operation go on.\<close>

definition refuse_or :: "apply_refusal option \<Rightarrow> ('s, 'e, 'a) prog \<Rightarrow> (apply_refusal \<Rightarrow> 'a) \<Rightarrow> ('s, 'e, 'a) prog" where
  "refuse_or check go refusal = (case check of Some c \<Rightarrow> ret (refusal c) | None \<Rightarrow> go)"

subsection \<open>The checks\<close>

definition afterCutoverCheck :: "('s, 'e) removal_deps \<Rightarrow> ('s, 'e, apply_refusal option) prog" where
  "afterCutoverCheck deps =
     bindP (rd_stillTheAuthority deps) (\<lambda>authority. ret (if authority then None else Some After_cutover))"

definition evidence_of :: "ledger_record \<Rightarrow> deletion_evidence" where
  "evidence_of row =
     (if lr_deletionReportedAt row \<noteq> None then Reported
      else if lr_deletionTrashedAt row \<noteq> None then Trashed else Inferred)"

definition absent_of :: "ledger_record \<Rightarrow> nat" where
  "absent_of row = (case lr_absentPasses row of Some n \<Rightarrow> n | None \<Rightarrow> 0)"

definition evidence_check :: "ledger_record \<Rightarrow> apply_refusal option" where
  "evidence_check row =
     (if evidence_of row = Inferred
      then Some (if 0 < absent_of row then Weak_evidence else Not_confirmed) else None)"

definition already_applied :: "ledger_record \<Rightarrow> bool" where
  "already_applied row \<longleftrightarrow> lr_deletionAppliedAt row \<noteq> None \<or> lr_status row = Some Tombstoned"

definition ownershipCheck :: "ledger_record \<Rightarrow> apply_refusal option" where
  "ownershipCheck row =
     (if lr_status row = Some Copied \<or> lr_status row = Some Updated then None
      else if \<not> isOnTarget (lr_status row) then Some Not_ours
      else if lr_status row = Some Adopted then Some Not_ours
      else Some Not_ours)"

definition massDeletionCheck :: "('s, 'e) removal_deps \<Rightarrow> ('s, 'e, apply_refusal option) prog" where
  "massDeletionCheck deps =
     bindP (rd_placedItems deps) (\<lambda>placed.
     if length placed < MASS_DELETION_MIN_ITEMS then ret None
     else bindP (rd_listDeletions deps) (\<lambda>deletions.
       let pending = filter (\<lambda>d. dl_confirmed d \<and> dl_acknowledgedAt d = None) deletions
       in ret (if small_share (length pending) (length placed) then None else Some Mass_deletion_suspected)))"

definition open_move :: "item_move \<Rightarrow> bool" where
  "open_move m \<longleftrightarrow> mv_toNaturalKeyHash m \<noteq> None \<and> mv_acknowledgedAt m = None"

definition massRelocationCheck :: "('s, 'e) removal_deps \<Rightarrow> ('s, 'e, apply_refusal option) prog" where
  "massRelocationCheck deps =
     bindP (rd_placedItems deps) (\<lambda>placed.
     if length placed < MASS_DELETION_MIN_ITEMS then ret None
     else bindP (rd_listMoves deps) (\<lambda>moves.
       let pending = filter open_move moves
       in ret (if small_share (length pending) (length placed) then None else Some Mass_relocation_suspected)))"

text \<open>\<open>(await massDeletionCheck(deps)) ?? (await massRelocationCheck(deps))\<close>.\<close>

definition mass_checks :: "('s, 'e) removal_deps \<Rightarrow> ('s, 'e, apply_refusal option) prog" where
  "mass_checks deps = bindP (massDeletionCheck deps) (\<lambda>c.
     case c of Some refusal \<Rightarrow> ret (Some refusal) | None \<Rightarrow> massRelocationCheck deps)"

definition relocationCheck :: "('s, 'e) removal_deps \<Rightarrow> ledger_record \<Rightarrow> ('s, 'e, apply_refusal option) prog" where
  "relocationCheck deps row =
     (if lr_moveAcknowledgedAt row \<noteq> None then ret (Some Already_kept)
      else if lr_movedToNaturalKeyHash row = Some (lr_naturalKeyHash row) then ret (Some Relocation_unconfirmed)
      else if \<not> truthy (lr_movedToNaturalKeyHash row) then ret (Some Not_relocated)
      else bindP (rd_find deps (the (lr_movedToNaturalKeyHash row))) (\<lambda>found.
        case found of None \<Rightarrow> ret (Some Relocation_unconfirmed)
        | Some arrival \<Rightarrow>
            if lr_status arrival \<noteq> Some Copied \<and> lr_status arrival \<noteq> Some Updated
            then ret (Some Relocation_unconfirmed)
            else if lr_targetId arrival \<noteq> [] \<and> lr_targetId arrival = lr_targetId row
            then ret (Some Relocation_unconfirmed)
            else if lr_movedByIdentity row
            then (if \<not> truthy (lr_sourceRef row) \<or> lr_sourceRef arrival \<noteq> lr_sourceRef row
                  then ret (Some Relocation_unconfirmed) else ret None)
            else if lr_contentHash row = [] \<or> lr_contentHash arrival = [] then ret (Some Relocation_unconfirmed)
            else if \<not> sameFingerprintVersion (lr_contentHash arrival) (lr_contentHash row)
            then ret (Some Relocation_unconfirmed)
            else if lr_contentHash arrival \<noteq> lr_contentHash row then ret (Some Relocation_unconfirmed)
            else bindP (rd_placedItems deps) (\<lambda>placed.
              ret (if 2 < length (filter (\<lambda>i. pi_contentHash i = lr_contentHash row) placed)
                   then Some Relocation_unconfirmed else None))))"

subsection \<open>The removal itself\<close>

definition removal_options_of :: "('s, 'e) removal_deps \<Rightarrow> ledger_record \<Rightarrow> removal_options" where
  "removal_options_of deps row =
     \<lparr>ro_expectedTargetVersion = lr_targetVersion row,
      ro_collection = map_option (applyTargetFolderPrefix (rd_targetFolderPrefix deps)) (lr_collection row)\<rparr>"

definition remove_and_record ::
    "(string \<Rightarrow> removal_options \<Rightarrow> ('s, 'e, removal_result) prog) \<Rightarrow> ('s, 'e) removal_deps \<Rightarrow>
     (string \<Rightarrow> ('s, 'e, bool) prog) \<Rightarrow> ledger_record \<Rightarrow> string \<Rightarrow> ('s, 'e, apply_outcome) prog" where
  "remove_and_record removeItem deps recordIt row h =
     bindP (removeItem (lr_targetId row) (removal_options_of deps row)) (\<lambda>removal.
     if rr_conflicted removal then ret (Refused Edited_on_target)
     else if rr_unversioned removal then ret (Refused Version_unknown)
     else case rr_kind removal of
       None \<Rightarrow> ret (Refused Target_cannot_remove)
     | Some kind \<Rightarrow> bindP (recordIt h) (\<lambda>recorded.
         ret (if recorded then Removed kind else Refused Removed_not_recorded)))"

subsection \<open>Deletions\<close>

definition evaluateApplyDeletion ::
    "('s, 'e) removal_deps \<Rightarrow> string \<Rightarrow> ('s, 'e, apply_refusal option) prog" where
  "evaluateApplyDeletion deps h =
     (if \<not> rd_allowApplyDeletions deps then ret (Some Not_enabled)
      else bindP (rd_find deps h) (\<lambda>found.
        case found of None \<Rightarrow> ret (Some Not_found)
        | Some row \<Rightarrow>
            if already_applied row then ret (Some Already_applied)
            else bindP (afterCutoverCheck deps) (\<lambda>cutOver.
              refuse_or cutOver
                (refuse_or (evidence_check row)
                  (refuse_or (ownershipCheck row) (massDeletionCheck deps) Some) Some) Some)))"

definition applyDeletion ::
    "('s, 'e) removal_deps \<Rightarrow> string \<Rightarrow> ('s, 'e, apply_outcome) prog" where
  "applyDeletion deps h =
     (if \<not> rd_allowApplyDeletions deps then ret (Refused Not_enabled)
      else case rd_removeItem deps of None \<Rightarrow> ret (Refused Target_cannot_remove)
      | Some removeItem \<Rightarrow>
        bindP (rd_find deps h) (\<lambda>found.
        case found of None \<Rightarrow> ret (Refused Not_found)
        | Some row \<Rightarrow>
            if already_applied row then ret (Refused Already_applied)
            else bindP (afterCutoverCheck deps) (\<lambda>cutOver.
              refuse_or cutOver
                (refuse_or (evidence_check row)
                  (refuse_or (ownershipCheck row)
                    (bindP (massDeletionCheck deps) (\<lambda>breaker.
                      refuse_or breaker
                        (remove_and_record removeItem deps (rd_applyDeletion deps) row h) Refused))
                  Refused) Refused) Refused)))"

subsection \<open>Relocations\<close>

definition evaluateApplyRelocation ::
    "('s, 'e) removal_deps \<Rightarrow> string \<Rightarrow> ('s, 'e, apply_refusal option) prog" where
  "evaluateApplyRelocation deps h =
     (if \<not> rd_allowApplyDeletions deps then ret (Some Not_enabled)
      else bindP (rd_find deps h) (\<lambda>found.
        case found of None \<Rightarrow> ret (Some Not_found)
        | Some row \<Rightarrow>
            if already_applied row then ret (Some Already_applied)
            else bindP (afterCutoverCheck deps) (\<lambda>cutOver.
              refuse_or cutOver
                (bindP (relocationCheck deps row) (\<lambda>relocation.
                  refuse_or relocation (refuse_or (ownershipCheck row) (mass_checks deps) Some) Some)) Some)))"

text \<open>After the checks the arrival is in the ledger; were it not, reading its fields would throw.\<close>

definition applyRelocation ::
    "'e \<Rightarrow> ('s, 'e) removal_deps \<Rightarrow> string \<Rightarrow> ('s, 'e, apply_outcome) prog" where
  "applyRelocation type_error deps h =
     (if \<not> rd_allowApplyDeletions deps then ret (Refused Not_enabled)
      else case rd_removeItem deps of None \<Rightarrow> ret (Refused Target_cannot_remove)
      | Some removeItem \<Rightarrow>
        bindP (rd_find deps h) (\<lambda>found.
        case found of None \<Rightarrow> ret (Refused Not_found)
        | Some row \<Rightarrow>
            if already_applied row then ret (Refused Already_applied)
            else bindP (afterCutoverCheck deps) (\<lambda>cutOver.
              refuse_or cutOver
                (bindP (relocationCheck deps row) (\<lambda>relocation.
                  refuse_or relocation
                    (refuse_or (ownershipCheck row)
                      (bindP (mass_checks deps) (\<lambda>breaker.
                        refuse_or breaker
                          (bindP (rd_find deps (the (lr_movedToNaturalKeyHash row))) (\<lambda>arrival.
                            case rd_hasItem deps of None \<Rightarrow> ret (Refused Target_cannot_confirm)
                            | Some hasItem \<Rightarrow>
                              (case arrival of None \<Rightarrow> throw type_error
                               | Some a \<Rightarrow>
                                 bindP (hasItem (lr_targetId a)
                                   (map_option (applyTargetFolderPrefix (rd_targetFolderPrefix deps)) (lr_collection a)))
                                 (\<lambda>present.
                                   if \<not> present then ret (Refused Relocation_unconfirmed)
                                   else remove_and_record removeItem deps (rd_applyRelocation deps) row h))))
                          Refused))
                      Refused)
                  Refused)) Refused)))"

subsection \<open>Unattended relocations\<close>

definition AUTO_APPLY_RELOCATIONS_CAP :: nat where
  "AUTO_APPLY_RELOCATIONS_CAP = 50"

datatype left_code =
  Cap_reached | Not_survived_pass | Paired_by_identity | Hash_not_unique | Left_refused apply_refusal

record auto_report =
  ar_enabled :: bool
  ar_considered :: nat
  ar_applied :: "(string \<times> removal_kind) list"
  ar_leftForReview :: "(string \<times> left_code) list"
  ar_stopped :: "apply_refusal option"

definition no_auto :: auto_report where
  "no_auto = \<lparr>ar_enabled = True, ar_considered = 0, ar_applied = [], ar_leftForReview = [], ar_stopped = None\<rparr>"

text \<open>How many placed items hold these bytes; an item without a hash counts for none.\<close>

definition sharers_of :: "placed_item list \<Rightarrow> ledger_record option \<Rightarrow> nat" where
  "sharers_of placed row = (case row of None \<Rightarrow> 0
     | Some r \<Rightarrow> if lr_contentHash r = [] then 0
                 else length (filter (\<lambda>i. pi_contentHash i = lr_contentHash r) placed))"

text \<open>The audit row of a removal: one that cannot be written is logged, and the loop goes on.\<close>

definition audit_removal :: "('s, 'e) removal_deps \<Rightarrow> string \<Rightarrow> removal_kind \<Rightarrow> ('s, 'e, unit) prog" where
  "audit_removal deps h kind = catchP (rd_recordAuditEvent deps h kind) (\<lambda>_. ret ())"

fun auto_apply_moves ::
    "'e \<Rightarrow> ('s, 'e) removal_deps \<Rightarrow> (string \<Rightarrow> removal_kind \<Rightarrow> ('s, 'e, unit) prog) option \<Rightarrow> placed_item list \<Rightarrow>
     timestamp \<Rightarrow> nat \<Rightarrow> item_move list \<Rightarrow> (string \<times> removal_kind) list \<Rightarrow> (string \<times> left_code) list \<Rightarrow>
     ('s, 'e, (string \<times> removal_kind) list \<times> (string \<times> left_code) list) prog" where
  "auto_apply_moves err deps onApplied placed passStartedAt cap [] applied left = ret (applied, left)"
| "auto_apply_moves err deps onApplied placed passStartedAt cap (m # moves) applied left =
    (let h = mv_naturalKeyHash m;
         leave = (\<lambda>code. auto_apply_moves err deps onApplied placed passStartedAt cap moves applied (left @ [(h, code)]))
     in if cap \<le> length applied then leave Cap_reached
        else if (case mv_recordedAt m of None \<Rightarrow> True | Some t \<Rightarrow> passStartedAt \<le> t) then leave Not_survived_pass
        else bindP (rd_find deps h) (\<lambda>row.
          if (case row of None \<Rightarrow> False | Some r \<Rightarrow> lr_movedByIdentity r) then leave Paired_by_identity
          else if sharers_of placed row \<noteq> 2 then leave Hash_not_unique
          else bindP (applyRelocation err deps h) (\<lambda>outcome.
            case outcome of
              Refused code \<Rightarrow> leave (Left_refused code)
            | Removed kind \<Rightarrow>
                thenP (audit_removal deps h kind)
                (thenP (case onApplied of None \<Rightarrow> ret () | Some hook \<Rightarrow> hook h kind)
                (auto_apply_moves err deps onApplied placed passStartedAt cap moves (applied @ [(h, kind)]) left)))))"

definition autoApplyRelocations ::
    "'e \<Rightarrow> ('s, 'e) removal_deps \<Rightarrow> bool \<Rightarrow> (string \<Rightarrow> removal_kind \<Rightarrow> ('s, 'e, unit) prog) option \<Rightarrow>
     timestamp \<Rightarrow> nat \<Rightarrow> ('s, 'e, auto_report) prog" where
  "autoApplyRelocations err deps auto onApplied passStartedAt cap =
     (if \<not> auto then ret (no_auto\<lparr>ar_enabled := False\<rparr>)
      else bindP (rd_stillTheAuthority deps) (\<lambda>authority.
        if \<not> authority then ret (no_auto\<lparr>ar_stopped := Some After_cutover\<rparr>)
        else bindP (rd_listMoves deps) (\<lambda>moves.
          let opened = filter open_move moves
          in if opened = [] then ret no_auto
             else bindP (mass_checks deps) (\<lambda>breaker.
               case breaker of
                 Some code \<Rightarrow> ret (no_auto\<lparr>ar_considered := length opened, ar_stopped := Some code\<rparr>)
               | None \<Rightarrow>
                   bindP (rd_placedItems deps) (\<lambda>placed.
                   bindP (auto_apply_moves err deps onApplied placed passStartedAt cap opened [] []) (\<lambda>(applied, left).
                     ret (no_auto\<lparr>ar_considered := length opened, ar_applied := applied,
                                   ar_leftForReview := left\<rparr>)))))))"

subsection \<open>What is refused, as a function of the table\<close>

text \<open>
  The abstract specification of both decisions: the code of the refusal as a function of the
  switch, the authority and the ledger's table, with no effects and no order of reads.
\<close>

definition mass_deletion :: "ledger_scope \<Rightarrow> items \<Rightarrow> bool" where
  "mass_deletion sc rows \<longleftrightarrow> MASS_DELETION_MIN_ITEMS \<le> length (placedItems sc rows) \<and>
     \<not> small_share (length (filter (\<lambda>d. dl_confirmed d \<and> dl_acknowledgedAt d = None)
          (listDeletions (sp_tenant sc) (sp_mapping sc) (Some (sp_domain sc)) rows)))
        (length (placedItems sc rows))"

definition mass_relocation :: "ledger_scope \<Rightarrow> items \<Rightarrow> bool" where
  "mass_relocation sc rows \<longleftrightarrow> MASS_DELETION_MIN_ITEMS \<le> length (placedItems sc rows) \<and>
     \<not> small_share (length (filter open_move
          (listMoves (sp_tenant sc) (sp_mapping sc) (Some (sp_domain sc)) rows)))
        (length (placedItems sc rows))"

definition first_refusal :: "apply_refusal option list \<Rightarrow> apply_refusal option" where
  "first_refusal checks = (case filter (\<lambda>c. c \<noteq> None) checks of [] \<Rightarrow> None | c # _ \<Rightarrow> c)"

definition refusal_when :: "bool \<Rightarrow> apply_refusal \<Rightarrow> apply_refusal option" where
  "refusal_when b c = (if b then Some c else None)"

definition deletion_refusal ::
    "bool \<Rightarrow> bool \<Rightarrow> ledger_scope \<Rightarrow> items \<Rightarrow> string \<Rightarrow> apply_refusal option" where
  "deletion_refusal allow authority sc rows h =
     (if \<not> allow then Some Not_enabled
      else case find_item sc h rows of None \<Rightarrow> Some Not_found
      | Some row \<Rightarrow> first_refusal
          [refusal_when (already_applied row) Already_applied,
           refusal_when (\<not> authority) After_cutover,
           evidence_check row, ownershipCheck row,
           refusal_when (mass_deletion sc rows) Mass_deletion_suspected])"

definition relocation_proved :: "ledger_scope \<Rightarrow> items \<Rightarrow> ledger_record \<Rightarrow> ledger_record \<Rightarrow> bool" where
  "relocation_proved sc rows row arrival \<longleftrightarrow>
     (lr_status arrival = Some Copied \<or> lr_status arrival = Some Updated) \<and>
     (lr_targetId arrival = [] \<or> lr_targetId arrival \<noteq> lr_targetId row) \<and>
     (if lr_movedByIdentity row
      then truthy (lr_sourceRef row) \<and> lr_sourceRef arrival = lr_sourceRef row
      else lr_contentHash row \<noteq> [] \<and> lr_contentHash arrival = lr_contentHash row \<and>
           length (filter (\<lambda>i. pi_contentHash i = lr_contentHash row) (placedItems sc rows)) \<le> 2)"

definition relocation_check :: "ledger_scope \<Rightarrow> items \<Rightarrow> ledger_record \<Rightarrow> apply_refusal option" where
  "relocation_check sc rows row = first_refusal
     [refusal_when (lr_moveAcknowledgedAt row \<noteq> None) Already_kept,
      refusal_when (lr_movedToNaturalKeyHash row = Some (lr_naturalKeyHash row)) Relocation_unconfirmed,
      refusal_when (\<not> truthy (lr_movedToNaturalKeyHash row)) Not_relocated,
      refusal_when (case find_item sc (the (lr_movedToNaturalKeyHash row)) rows of
          None \<Rightarrow> True | Some arrival \<Rightarrow> \<not> relocation_proved sc rows row arrival) Relocation_unconfirmed]"

definition relocation_refusal ::
    "bool \<Rightarrow> bool \<Rightarrow> ledger_scope \<Rightarrow> items \<Rightarrow> string \<Rightarrow> apply_refusal option" where
  "relocation_refusal allow authority sc rows h =
     (if \<not> allow then Some Not_enabled
      else case find_item sc h rows of None \<Rightarrow> Some Not_found
      | Some row \<Rightarrow> first_refusal
          [refusal_when (already_applied row) Already_applied,
           refusal_when (\<not> authority) After_cutover,
           relocation_check sc rows row, ownershipCheck row,
           refusal_when (mass_deletion sc rows) Mass_deletion_suspected,
           refusal_when (mass_relocation sc rows) Mass_relocation_suspected])"

lemma first_refusal_simps [simp]:
  "first_refusal [] = None"
  "first_refusal (None # cs) = first_refusal cs"
  "first_refusal (Some c # cs) = Some c"
  "first_refusal [o1] = o1"
  by (simp_all add: first_refusal_def)

lemma refusal_when_simps [simp]: "refusal_when True c = Some c" "refusal_when False c = None"
  by (simp_all add: refusal_when_def)

lemma first_refusal_None: "first_refusal (c # cs) = None \<longleftrightarrow> c = None \<and> first_refusal cs = None"
  by (cases c) simp_all

lemma refusal_when_None [simp]: "refusal_when b c = None \<longleftrightarrow> \<not> b"
  by (simp add: refusal_when_def)

subsection \<open>What an unattended run may leave\<close>

definition hook_ok :: "('s \<Rightarrow> items) \<Rightarrow> (string \<Rightarrow> removal_kind \<Rightarrow> ('s, 'e, unit) prog) option \<Rightarrow> bool" where
  "hook_ok table onApplied \<longleftrightarrow> (\<forall>hook h k. onApplied = Some hook \<longrightarrow> within (\<lambda>s t. table t = table s) (hook h k))"

definition others_kept :: "ledger_scope \<Rightarrow> string set \<Rightarrow> items \<Rightarrow> items \<Rightarrow> bool" where
  "others_kept sc hs rows rows' \<longleftrightarrow> filter (\<lambda>r. \<not> (in_scope sc r \<and> it_natural_key_hash r \<in> hs)) rows' =
     filter (\<lambda>r. \<not> (in_scope sc r \<and> it_natural_key_hash r \<in> hs)) rows"

lemma others_kept_refl [simp]: "others_kept sc hs rows rows"
  by (simp add: others_kept_def)

lemma others_kept_trans:
  assumes "others_kept sc hs rows rows'" and "others_kept sc hs' rows' rows''"
  shows "others_kept sc (hs \<union> hs') rows rows''"
proof -
  let ?keep = "\<lambda>ks r. \<not> (in_scope sc r \<and> it_natural_key_hash r \<in> ks)"
  have first: "filter (?keep (hs \<union> hs')) xs = filter (?keep hs') (filter (?keep hs) xs)" for xs
    by (induction xs) auto
  have second: "filter (?keep (hs \<union> hs')) xs = filter (?keep hs) (filter (?keep hs') xs)" for xs
    by (induction xs) auto
  have "filter (?keep (hs \<union> hs')) rows'' = filter (?keep (hs \<union> hs')) rows'"
    using assms(2) unfolding others_kept_def second by simp
  also have "\<dots> = filter (?keep (hs \<union> hs')) rows"
    using assms(1) unfolding others_kept_def first by simp
  finally show ?thesis
    unfolding others_kept_def .
qed

definition auto_post ::
    "ledger_scope \<Rightarrow> timestamp \<Rightarrow> nat \<Rightarrow> item_move list \<Rightarrow> (string \<times> removal_kind) list \<Rightarrow> (string \<times> left_code) list \<Rightarrow> items \<Rightarrow>
     (string \<times> removal_kind) list \<Rightarrow> (string \<times> left_code) list \<Rightarrow> items \<Rightarrow> bool" where
  "auto_post sc start cap moves applied left rows applied' left' rows' \<longleftrightarrow>
     (\<exists>more. applied' = applied @ more \<and> length applied' \<le> max cap (length applied) \<and>
       length applied' + length left' = length applied + length left + length moves \<and>
       (\<forall>x \<in> set more. \<exists>m \<in> set moves. mv_naturalKeyHash m = fst x \<and>
          (\<exists>r. mv_recordedAt m = Some r \<and> r < start)) \<and>
       others_kept sc (fst ` set more) rows rows')"

lemma auto_post_nil: "auto_post sc start cap [] applied left rows applied left rows"
  by (simp add: auto_post_def)

lemma auto_post_leave:
  "auto_post sc start cap moves applied (left @ [x]) rows applied' left' rows' \<Longrightarrow>
   auto_post sc start cap (m # moves) applied left rows applied' left' rows'"
  unfolding auto_post_def by fastforce

lemma auto_post_apply:
  assumes "auto_post sc start cap moves (applied @ [(mv_naturalKeyHash m, k)]) left u applied' left' rows'"
    and "others_kept sc {mv_naturalKeyHash m} rows u" and "length applied < cap"
    and "mv_recordedAt m = Some r" and "r < start"
  shows "auto_post sc start cap (m # moves) applied left rows applied' left' rows'"
proof -
  from assms(1) obtain more where more: "applied' = (applied @ [(mv_naturalKeyHash m, k)]) @ more"
    "length applied' \<le> max cap (Suc (length applied))"
    "length applied' + length left' = Suc (length applied) + length left + length moves"
    "\<forall>x \<in> set more. \<exists>m \<in> set moves. mv_naturalKeyHash m = fst x \<and> (\<exists>r. mv_recordedAt m = Some r \<and> r < start)"
    "others_kept sc (fst ` set more) u rows'"
    unfolding auto_post_def by auto
  with others_kept_trans [OF assms(2) more(5)] assms(3-5) show ?thesis
    unfolding auto_post_def by (intro exI [of _ "(mv_naturalKeyHash m, k) # more"]) auto
qed

subsection \<open>The contract of the ports\<close>

text \<open>
  What the operations rely on: the ledger's methods are the table's, the authority is read and
  not written, and neither port of the target touches the ledger.
\<close>

locale removal_ports =
  fixes deps :: "('s, 'e) removal_deps"
    and sc :: ledger_scope
    and table :: "'s \<Rightarrow> items"
    and authority :: "'s \<Rightarrow> bool"
    and now :: timestamp
  assumes find_reads: "rd_find deps h s = (Inr (find_item sc h (table s)), s)"
    and placed_reads: "rd_placedItems deps s = (Inr (placedItems sc (table s)), s)"
    and deletions_read: "rd_listDeletions deps s =
      (Inr (listDeletions (sp_tenant sc) (sp_mapping sc) (Some (sp_domain sc)) (table s)), s)"
    and moves_read: "rd_listMoves deps s =
      (Inr (listMoves (sp_tenant sc) (sp_mapping sc) (Some (sp_domain sc)) (table s)), s)"
    and authority_read: "rd_stillTheAuthority deps s = (Inr (authority s), s)"
    and deletion_recorded: "\<exists>t. rd_applyDeletion deps h s = (Inr (fst (ledger_applyDeletion now sc h (table s))), t) \<and>
      table t = snd (ledger_applyDeletion now sc h (table s)) \<and> authority t = authority s"
    and relocation_recorded: "\<exists>t. rd_applyRelocation deps h s = (Inr (fst (ledger_applyRelocation now sc h (table s))), t) \<and>
      table t = snd (ledger_applyRelocation now sc h (table s)) \<and> authority t = authority s"
    and target_removes: "rd_removeItem deps = Some rm \<Longrightarrow> rm i opts s = (x, t) \<Longrightarrow>
      table t = table s \<and> authority t = authority s"
    and target_reads: "rd_hasItem deps = Some has \<Longrightarrow> has i c s = (y, t) \<Longrightarrow>
      table t = table s \<and> authority t = authority s"
    and audit_writes: "rd_recordAuditEvent deps h k s = (z, t) \<Longrightarrow> table t = table s \<and> authority t = authority s"
begin

lemma mass_deletion_run: "massDeletionCheck deps s =
    (Inr (refusal_when (mass_deletion sc (table s)) Mass_deletion_suspected), s)"
  by (auto simp: massDeletionCheck_def run_simps placed_reads deletions_read Let_def mass_deletion_def)

lemma mass_relocation_run: "massRelocationCheck deps s =
    (Inr (refusal_when (mass_relocation sc (table s)) Mass_relocation_suspected), s)"
  by (auto simp: massRelocationCheck_def run_simps placed_reads moves_read Let_def mass_relocation_def)

lemma mass_run: "mass_checks deps s = (Inr (first_refusal
    [refusal_when (mass_deletion sc (table s)) Mass_deletion_suspected,
     refusal_when (mass_relocation sc (table s)) Mass_relocation_suspected]), s)"
  by (cases "mass_deletion sc (table s)"; cases "mass_relocation sc (table s)")
    (simp_all add: mass_checks_def run_simps mass_deletion_run mass_relocation_run)

lemma cutover_run': "afterCutoverCheck deps s = (Inr (refusal_when (\<not> authority s) After_cutover), s)"
  by (simp add: afterCutoverCheck_def run_simps authority_read)

lemma relocation_run: "relocationCheck deps row s = (Inr (relocation_check sc (table s) row), s)"
  by (auto simp: relocationCheck_def run_simps find_reads placed_reads relocation_check_def relocation_proved_def
      sameFingerprintVersion_def not_le split: option.splits)

lemma evaluate_deletion_run: "evaluateApplyDeletion deps h s =
    (Inr (deletion_refusal (rd_allowApplyDeletions deps) (authority s) sc (table s) h), s)"
proof (cases "find_item sc h (table s)")
  case None
  then show ?thesis by (simp add: evaluateApplyDeletion_def deletion_refusal_def run_simps find_reads)
next
  case (Some row)
  then show ?thesis
    by (cases "already_applied row"; cases "authority s"; cases "evidence_check row"; cases "ownershipCheck row")
      (auto simp: evaluateApplyDeletion_def deletion_refusal_def run_simps find_reads refuse_or_def
        cutover_run' mass_deletion_run)
qed

lemma apply_deletion_run: "applyDeletion deps h s =
    (case rd_removeItem deps of
       None \<Rightarrow> (Inr (Refused (if rd_allowApplyDeletions deps then Target_cannot_remove else Not_enabled)), s)
     | Some rm \<Rightarrow>
        (case deletion_refusal (rd_allowApplyDeletions deps) (authority s) sc (table s) h of
           Some c \<Rightarrow> (Inr (Refused c), s)
         | None \<Rightarrow> remove_and_record rm deps (rd_applyDeletion deps) (the (find_item sc h (table s))) h s))"
proof (cases "find_item sc h (table s)")
  case None
  then show ?thesis
    by (auto simp: applyDeletion_def deletion_refusal_def run_simps find_reads split: option.split)
next
  case (Some row)
  then show ?thesis
    by (cases "already_applied row"; cases "authority s"; cases "evidence_check row"; cases "ownershipCheck row";
        cases "mass_deletion sc (table s)"; cases "rd_removeItem deps")
      (auto simp: applyDeletion_def deletion_refusal_def run_simps find_reads refuse_or_def
        cutover_run' mass_deletion_run)
qed

lemma evaluate_relocation_run: "evaluateApplyRelocation deps h s =
    (Inr (relocation_refusal (rd_allowApplyDeletions deps) (authority s) sc (table s) h), s)"
proof (cases "find_item sc h (table s)")
  case None
  then show ?thesis by (simp add: evaluateApplyRelocation_def relocation_refusal_def run_simps find_reads)
next
  case (Some row)
  then show ?thesis
    by (cases "already_applied row"; cases "authority s"; cases "relocation_check sc (table s) row";
        cases "ownershipCheck row")
      (auto simp: evaluateApplyRelocation_def relocation_refusal_def run_simps find_reads refuse_or_def
        cutover_run' mass_run relocation_run)
qed

text \<open>Where nothing is refused the row and its arrival are in the ledger.\<close>

lemma not_refused:
  assumes "relocation_refusal allow auth sc rows h = None"
  obtains row arrival where "find_item sc h rows = Some row" "\<not> already_applied row" "auth" "allow"
    "ownershipCheck row = None" "lr_moveAcknowledgedAt row = None"
    "truthy (lr_movedToNaturalKeyHash row)" "lr_movedToNaturalKeyHash row \<noteq> Some (lr_naturalKeyHash row)"
    "find_item sc (the (lr_movedToNaturalKeyHash row)) rows = Some arrival"
    "relocation_proved sc rows row arrival" "\<not> mass_deletion sc rows" "\<not> mass_relocation sc rows"
  using assms by (auto simp: relocation_refusal_def relocation_check_def first_refusal_None
      split: if_splits option.splits)

lemma apply_relocation_run: "applyRelocation err deps h s =
    (case rd_removeItem deps of
       None \<Rightarrow> (Inr (Refused (if rd_allowApplyDeletions deps then Target_cannot_remove else Not_enabled)), s)
     | Some rm \<Rightarrow>
        (case relocation_refusal (rd_allowApplyDeletions deps) (authority s) sc (table s) h of
           Some c \<Rightarrow> (Inr (Refused c), s)
         | None \<Rightarrow>
            let row = the (find_item sc h (table s));
                a = the (find_item sc (the (lr_movedToNaturalKeyHash row)) (table s))
            in case rd_hasItem deps of None \<Rightarrow> (Inr (Refused Target_cannot_confirm), s)
               | Some has \<Rightarrow>
                  bindP (has (lr_targetId a)
                      (map_option (applyTargetFolderPrefix (rd_targetFolderPrefix deps)) (lr_collection a)))
                    (\<lambda>present. if \<not> present then ret (Refused Relocation_unconfirmed)
                       else remove_and_record rm deps (rd_applyRelocation deps) row h) s))"
proof (cases "relocation_refusal (rd_allowApplyDeletions deps) (authority s) sc (table s) h")
  case None
  then show ?thesis
  proof (rule not_refused)
    fix row arrival
    assume "find_item sc h (table s) = Some row" "\<not> already_applied row" "authority s"
      "rd_allowApplyDeletions deps" "ownershipCheck row = None" "lr_moveAcknowledgedAt row = None"
      "truthy (lr_movedToNaturalKeyHash row)" "lr_movedToNaturalKeyHash row \<noteq> Some (lr_naturalKeyHash row)"
      and arrival: "find_item sc (the (lr_movedToNaturalKeyHash row)) (table s) = Some arrival"
      and "relocation_proved sc (table s) row arrival"
      "\<not> mass_deletion sc (table s)" "\<not> mass_relocation sc (table s)"
    moreover from this have "relocation_check sc (table s) row = None"
      by (simp add: relocation_check_def)
    ultimately show ?thesis using None
      by (simp add: applyRelocation_def run_simps find_reads refuse_or_def cutover_run' mass_run relocation_run
          split: option.split)
  qed
next
  case (Some c)
  show ?thesis
  proof (cases "find_item sc h (table s)")
    case None
    with Some show ?thesis
      by (auto simp: applyRelocation_def relocation_refusal_def run_simps find_reads split: option.split)
  next
    case row: (Some row)
    with Some show ?thesis
      by (cases "already_applied row"; cases "authority s"; cases "relocation_check sc (table s) row";
          cases "ownershipCheck row"; cases "mass_deletion sc (table s)"; cases "mass_relocation sc (table s)")
        (auto simp: applyRelocation_def relocation_refusal_def run_simps find_reads refuse_or_def
          cutover_run' mass_run relocation_run split: option.split if_splits)
  qed
qed

lemma recorded_deletion:
  assumes "deletion_refusal allow auth sc rows h = None"
  shows "fst (ledger_applyDeletion now sc h rows)"
proof -
  from assms obtain r where r: "List.find (at_key sc h) rows = Some r" "\<not> already_applied (mapRowToRecord r)"
    "evidence_check (mapRowToRecord r) = None" "ownershipCheck (mapRowToRecord r) = None"
    by (auto simp: deletion_refusal_def find_item_def first_refusal_None split: if_splits option.splits)
  then have "deletion_applies sc h r"
    by (auto simp: deletion_applies_def already_applied_def mapRowToRecord_def evidence_check_def evidence_of_def
        ownershipCheck_def live_status_def dest: find_SomeD split: if_splits)
  with find_SomeD [OF r(1)] show ?thesis
    by (auto simp: ledger_applyDeletion_def returning_def filter_empty_conv)
qed

lemma recorded_relocation:
  assumes "relocation_refusal allow auth sc rows h = None"
  shows "fst (ledger_applyRelocation now sc h rows)"
  using assms
proof (rule not_refused)
  fix row arrival
  assume found: "find_item sc h rows = Some row"
    "find_item sc (the (lr_movedToNaturalKeyHash row)) rows = Some arrival"
    and row: "\<not> already_applied row" "ownershipCheck row = None" "lr_moveAcknowledgedAt row = None"
    "truthy (lr_movedToNaturalKeyHash row)" "lr_movedToNaturalKeyHash row \<noteq> Some (lr_naturalKeyHash row)"
    and proved: "relocation_proved sc rows row arrival"
  from found obtain r a where r: "List.find (at_key sc h) rows = Some r" "row = mapRowToRecord r"
    and a: "List.find (at_key sc (the (lr_movedToNaturalKeyHash row))) rows = Some a" "arrival = mapRowToRecord a"
    by (auto simp: find_item_def)
  have at: "at_key sc h r" "r \<in> set rows" "in_scope sc a" "a \<in> set rows"
    "it_natural_key_hash a = the (lr_movedToNaturalKeyHash row)"
    using find_SomeD [OF r(1)] find_SomeD [OF a(1)] by (auto simp: at_key_def)
  from row(4) obtain k where k: "it_moved_to_natural_key_hash r = Some k" "k \<noteq> []" "lr_movedToNaturalKeyHash row = Some k"
    by (cases "it_moved_to_natural_key_hash r") (auto simp: r(2) mapRowToRecord_def non_empty_def truthy_def split: if_splits)
  have "arrived sc r a"
    using proved at k row(5)
    by (auto simp: arrived_def relocation_proved_def r(2) a(2) mapRowToRecord_def live_status_def non_empty_def truthy_def
        split: if_splits option.splits)
  with at row k have "relocation_applies sc h rows r"
    by (auto simp: relocation_applies_def list_ex_iff already_applied_def ownershipCheck_def r(2) mapRowToRecord_def
        live_status_def split: if_splits)
  with at show ?thesis
    by (auto simp: ledger_applyRelocation_def returning_def filter_empty_conv)
qed

text \<open>What either removal leaves, whatever the target answers.\<close>

lemma removal_outcome:
  assumes "rd_removeItem deps = Some rm" and "remove_and_record rm deps rec row h s = (Inr out, t)"
    and "\<And>s. \<exists>t. rec h s = (Inr (fst (mark (table s))), t) \<and> table t = snd (mark (table s)) \<and> authority t = authority s"
    and "fst (mark (table s))"
  shows "authority t = authority s \<and> (case out of
      Removed k \<Rightarrow> table t = snd (mark (table s))
    | Refused c \<Rightarrow> c \<in> {Edited_on_target, Version_unknown, Target_cannot_remove} \<and> table t = table s)"
proof (cases "rm (lr_targetId row) (removal_options_of deps row) s")
  case (Pair x u)
  then have same: "table u = table s" "authority u = authority s" using target_removes [OF assms(1)] by auto
  obtain v where v: "rec h u = (Inr (fst (mark (table u))), v)" "table v = snd (mark (table u))" "authority v = authority u"
    using assms(3) by blast
  show ?thesis
  proof (cases x)
    case Inl
    with Pair assms(2) show ?thesis by (simp add: remove_and_record_def run_simps)
  next
    case (Inr removal)
    with Pair assms(2,4) same v show ?thesis
      by (auto simp: remove_and_record_def run_simps split: if_splits option.splits)
  qed
qed

lemma deletion_outcome:
  assumes "applyDeletion deps h s = (Inr out, t)"
  shows "authority t = authority s \<and> (case out of
      Removed k \<Rightarrow> deletion_refusal (rd_allowApplyDeletions deps) (authority s) sc (table s) h = None \<and>
        table t = snd (ledger_applyDeletion now sc h (table s))
    | Refused c \<Rightarrow> c \<noteq> Removed_not_recorded \<and> table t = table s \<and>
        (deletion_refusal (rd_allowApplyDeletions deps) (authority s) sc (table s) h \<noteq> None \<longrightarrow> t = s))"
proof (cases "deletion_refusal (rd_allowApplyDeletions deps) (authority s) sc (table s) h")
  case (Some c)
  have "c \<noteq> Removed_not_recorded"
    using Some by (auto simp: deletion_refusal_def first_refusal_def evidence_check_def ownershipCheck_def
        refusal_when_def split: option.splits if_splits list.splits)
  with Some assms show ?thesis by (auto simp: apply_deletion_run split: option.splits if_splits)
next
  case None
  show ?thesis
  proof (cases "rd_removeItem deps")
    case None
    with assms show ?thesis by (auto simp: apply_deletion_run split: if_splits)
  next
    case (Some rm)
    with assms None have "remove_and_record rm deps (rd_applyDeletion deps) (the (find_item sc h (table s))) h s = (Inr out, t)"
      by (simp add: apply_deletion_run)
    from removal_outcome [OF Some this, where mark = "ledger_applyDeletion now sc h"]
      deletion_recorded recorded_deletion [OF None]
    show ?thesis using None by (fastforce split: apply_outcome.splits)
  qed
qed

lemma relocation_refusal_code: "relocation_refusal allow auth sc rows h \<noteq> Some Removed_not_recorded"
  by (auto simp: relocation_refusal_def relocation_check_def first_refusal_def ownershipCheck_def
      refusal_when_def split: option.splits if_splits list.splits)

lemma relocation_outcome:
  assumes "applyRelocation err deps h s = (Inr out, t)"
  shows "authority t = authority s \<and> (case out of
      Removed k \<Rightarrow> relocation_refusal (rd_allowApplyDeletions deps) (authority s) sc (table s) h = None \<and>
        table t = snd (ledger_applyRelocation now sc h (table s))
    | Refused c \<Rightarrow> c \<noteq> Removed_not_recorded \<and> table t = table s \<and>
        (relocation_refusal (rd_allowApplyDeletions deps) (authority s) sc (table s) h \<noteq> None \<longrightarrow> t = s))"
proof (cases "relocation_refusal (rd_allowApplyDeletions deps) (authority s) sc (table s) h")
  case (Some c)
  with relocation_refusal_code assms show ?thesis
    by (fastforce simp: apply_relocation_run split: option.splits if_splits)
next
  case None
  show ?thesis
  proof (cases "rd_removeItem deps")
    case None
    with assms show ?thesis by (auto simp: apply_relocation_run split: if_splits)
  next
    case rm: (Some rm)
    show ?thesis
    proof (cases "rd_hasItem deps")
      case None
      with assms rm \<open>relocation_refusal _ _ _ _ _ = None\<close> show ?thesis by (auto simp: apply_relocation_run Let_def)
    next
      case has: (Some has)
      let ?row = "the (find_item sc h (table s))"
      let ?a = "the (find_item sc (the (lr_movedToNaturalKeyHash ?row)) (table s))"
      obtain y u where asked: "has (lr_targetId ?a)
          (map_option (applyTargetFolderPrefix (rd_targetFolderPrefix deps)) (lr_collection ?a)) s = (y, u)"
        by fastforce
      then have same: "table u = table s" "authority u = authority s" using target_reads [OF has] by auto
      show ?thesis
      proof (cases "y = Inr True")
        case False
        with assms rm has asked same None show ?thesis
          by (cases y) (auto simp: apply_relocation_run Let_def run_simps)
      next
        case True
        with assms rm has asked None have "remove_and_record rm deps (rd_applyRelocation deps) ?row h u = (Inr out, t)"
          by (simp add: apply_relocation_run Let_def run_simps)
        from removal_outcome [OF rm this, where mark = "ledger_applyRelocation now sc h"]
          relocation_recorded recorded_relocation [OF None] same
        show ?thesis using None by (fastforce split: apply_outcome.splits)
      qed
    qed
  qed
qed

lemma relocation_others: "others_kept sc {h} rows (snd (ledger_applyRelocation now sc h rows))"
  unfolding others_kept_def ledger_applyRelocation_def snd_conv
  by (rule filter_update_where) (auto simp: relocation_applies_def at_key_def relocated_def in_scope_def of_mapping_def)

lemma auto_moves_outcome:
  assumes "auto_apply_moves err deps onApplied placed start cap moves applied left s = (Inr (applied', left'), t)"
    and "hook_ok table onApplied"
  shows "auto_post sc start cap moves applied left (table s) applied' left' (table t)"
  using assms(1)
proof (induction moves arbitrary: applied left s)
  case Nil
  then show ?case by (simp add: run_simps auto_post_nil)
next
  case (Cons m moves)
  let ?h = "mv_naturalKeyHash m" and ?row = "find_item sc (mv_naturalKeyHash m) (table s)"
  have left_here: ?case if "auto_apply_moves err deps onApplied placed start cap moves applied (left @ [(?h, code)]) u =
      (Inr (applied', left'), t)" "table u = table s" for code u
    using Cons.IH [OF that(1)] that(2) by (simp add: auto_post_leave)
  show ?case
  proof (cases "cap \<le> length applied \<or> (case mv_recordedAt m of None \<Rightarrow> True | Some r \<Rightarrow> start \<le> r)")
    case True
    with Cons.prems show ?thesis by (cases "cap \<le> length applied") (simp_all add: Let_def left_here)
  next
    case False
    then obtain r where recorded: "mv_recordedAt m = Some r" "r < start" "length applied < cap"
      by (auto split: option.splits)
    show ?thesis
    proof (cases "(case ?row of None \<Rightarrow> False | Some r \<Rightarrow> lr_movedByIdentity r) \<or> sharers_of placed ?row \<noteq> 2")
      case True
      with recorded Cons.prems show ?thesis
        by (cases "case ?row of None \<Rightarrow> False | Some r \<Rightarrow> lr_movedByIdentity r")
          (simp_all add: Let_def run_simps find_reads left_here)
    next
      case go: False
      obtain x u where ap: "applyRelocation err deps ?h s = (x, u)" by fastforce
      show ?thesis
      proof (cases x)
        case (Inl e)
        with recorded go Cons.prems ap show ?thesis by (simp add: Let_def run_simps find_reads)
      next
        case (Inr out)
        note outcome = relocation_outcome [OF ap [unfolded Inr]]
        show ?thesis
        proof (cases out)
          case (Refused c)
          with outcome have "table u = table s" by simp
          moreover from recorded go Cons.prems ap Inr Refused have
            "auto_apply_moves err deps onApplied placed start cap moves applied (left @ [(?h, Left_refused c)]) u =
              (Inr (applied', left'), t)" by (simp add: Let_def run_simps find_reads)
          ultimately show ?thesis by (blast intro: left_here)
        next
          case (Removed k)
          obtain z v where v: "rd_recordAuditEvent deps ?h k u = (z, v)" by fastforce
          then have tv: "table v = table u" using audit_writes by blast
          have au: "audit_removal deps ?h k u = (Inr (), v)"
            using v by (cases z) (simp_all add: audit_removal_def run_simps)
          define after where "after = (case onApplied of None \<Rightarrow> ret () | Some hook \<Rightarrow> hook ?h k)"
          obtain y w where w: "after v = (y, w)" by fastforce
          have tw: "table w = table v"
            using w assms(2) by (cases onApplied) (auto simp: after_def hook_ok_def run_simps dest: withinD)
          from recorded go Cons.prems ap Inr Removed au w have rest:
            "auto_apply_moves err deps onApplied placed start cap moves (applied @ [(?h, k)]) left w = (Inr (applied', left'), t)"
            by (cases y) (simp_all add: Let_def run_simps find_reads after_def [symmetric])
          from outcome Removed have "table u = snd (ledger_applyRelocation now sc ?h (table s))" by simp
          then have "others_kept sc {?h} (table s) (table w)" using tv tw relocation_others by simp
          with Cons.IH [OF rest] recorded show ?thesis by (blast intro: auto_post_apply)
        qed
      qed
    qed
  qed
qed

end

end
