(* ===== verification/Stored_Removal.thy ===== *)
theory Stored_Removal
  imports Apply_Removal
begin

text \<open>
  Removals on the stored ledger: the ports of \<open>apply-deletion.ts\<close> as the worker builds them,
  the ledger's methods on the items table and \<open>stillTheAuthority\<close> as the question
  \<open>sourceStillDecides\<close> asked of the phases read at that moment (\<open>orchestration.ts\<close>). The target is
  a parameter: a world \<open>'w\<close> of its own and its two optional ports. Audit rows are a list.
\<close>

subsection \<open>What the operations leave, over any ports that keep the contract\<close>

context removal_ports
begin

lemma relocation_confirmed:
  assumes "applyRelocation err deps h s = (Inr (Removed k), t)"
  obtains row arrival has where "find_item sc h (table s) = Some row"
    "find_item sc (the (lr_movedToNaturalKeyHash row)) (table s) = Some arrival"
    "relocation_proved sc (table s) row arrival" "rd_hasItem deps = Some has"
    "fst (has (lr_targetId arrival)
       (map_option (applyTargetFolderPrefix (rd_targetFolderPrefix deps)) (lr_collection arrival)) s) = Inr True"
proof -
  obtain rm where rm: "rd_removeItem deps = Some rm"
    using assms by (auto simp: apply_relocation_run split: option.splits)
  have none: "relocation_refusal (rd_allowApplyDeletions deps) (authority s) sc (table s) h = None"
    using relocation_outcome [OF assms] by simp
  then obtain row arrival where found: "find_item sc h (table s) = Some row"
    "find_item sc (the (lr_movedToNaturalKeyHash row)) (table s) = Some arrival"
    "relocation_proved sc (table s) row arrival"
    by (rule not_refused)
  from assms rm none obtain has where has: "rd_hasItem deps = Some has"
    by (auto simp: apply_relocation_run Let_def split: option.splits)
  let ?ask = "has (lr_targetId arrival)
      (map_option (applyTargetFolderPrefix (rd_targetFolderPrefix deps)) (lr_collection arrival)) s"
  have "fst ?ask = Inr True"
  proof (cases ?ask)
    case (Pair y u)
    with assms rm none has found show ?thesis
      by (cases y) (auto simp: apply_relocation_run Let_def run_simps split: if_splits)
  qed
  with found has show thesis by (blast intro: that)
qed

lemma auto_outcome:
  assumes "autoApplyRelocations err deps auto onApplied start cap s = (Inr rep, t)" and "hook_ok table onApplied"
  shows "auto_post sc start cap
      (if ar_considered rep = 0 \<or> ar_stopped rep \<noteq> None then []
       else filter open_move (listMoves (sp_tenant sc) (sp_mapping sc) (Some (sp_domain sc)) (table s)))
      [] [] (table s) (ar_applied rep) (ar_leftForReview rep) (table t)"
    and "ar_stopped rep = None \<Longrightarrow> ar_considered rep = length (ar_applied rep) + length (ar_leftForReview rep)"
    and "\<not> auto \<or> \<not> authority s \<or> mass_deletion sc (table s) \<or> mass_relocation sc (table s) \<Longrightarrow>
         ar_applied rep = [] \<and> t = s"
proof -
  let ?open = "filter open_move (listMoves (sp_tenant sc) (sp_mapping sc) (Some (sp_domain sc)) (table s))"
  have still: "auto_post sc start cap [] [] [] (table s) [] [] (table s)" by (rule auto_post_nil)
  show "auto_post sc start cap (if ar_considered rep = 0 \<or> ar_stopped rep \<noteq> None then [] else ?open)
      [] [] (table s) (ar_applied rep) (ar_leftForReview rep) (table t)"
    "ar_stopped rep = None \<Longrightarrow> ar_considered rep = length (ar_applied rep) + length (ar_leftForReview rep)"
    "\<not> auto \<or> \<not> authority s \<or> mass_deletion sc (table s) \<or> mass_relocation sc (table s) \<Longrightarrow>
         ar_applied rep = [] \<and> t = s"
  proof (atomize (full), cases "auto \<and> authority s \<and> ?open \<noteq> [] \<and>
      \<not> mass_deletion sc (table s) \<and> \<not> mass_relocation sc (table s)")
    case True
    obtain x u where loop: "auto_apply_moves err deps onApplied (placedItems sc (table s)) start cap ?open [] [] s = (x, u)"
      by fastforce
    with True assms(1) obtain applied left where x: "x = Inr (applied, left)"
      by (cases x) (auto simp: autoApplyRelocations_def run_simps authority_read moves_read placed_reads mass_run Let_def)
    with True assms(1) loop have rep: "rep = no_auto\<lparr>ar_considered := length ?open, ar_applied := applied,
        ar_leftForReview := left\<rparr>" "t = u"
      by (auto simp: autoApplyRelocations_def run_simps authority_read moves_read placed_reads mass_run Let_def)
    from auto_moves_outcome [OF loop [unfolded x] assms(2)]
    have "auto_post sc start cap ?open [] [] (table s) applied left (table t)" using rep by simp
    moreover from this have "length ?open = length applied + length left" by (simp add: auto_post_def)
    moreover from True have "0 < length ?open" by simp
    ultimately show "auto_post sc start cap (if ar_considered rep = 0 \<or> ar_stopped rep \<noteq> None then [] else ?open)
        [] [] (table s) (ar_applied rep) (ar_leftForReview rep) (table t) \<and>
      (ar_stopped rep = None \<longrightarrow> ar_considered rep = length (ar_applied rep) + length (ar_leftForReview rep)) \<and>
      (\<not> auto \<or> \<not> authority s \<or> mass_deletion sc (table s) \<or> mass_relocation sc (table s) \<longrightarrow>
         ar_applied rep = [] \<and> t = s)"
      using True rep by (auto simp: no_auto_def)
  next
    case False
    with assms(1) have "t = s" "ar_applied rep = []" "ar_leftForReview rep = []"
      "ar_considered rep = 0 \<or> ar_stopped rep \<noteq> None"
      by (auto simp: autoApplyRelocations_def run_simps authority_read moves_read placed_reads mass_run Let_def no_auto_def
          first_refusal_def refusal_when_def split: if_splits option.splits)
    with still show "auto_post sc start cap (if ar_considered rep = 0 \<or> ar_stopped rep \<noteq> None then [] else ?open)
        [] [] (table s) (ar_applied rep) (ar_leftForReview rep) (table t) \<and>
      (ar_stopped rep = None \<longrightarrow> ar_considered rep = length (ar_applied rep) + length (ar_leftForReview rep)) \<and>
      (\<not> auto \<or> \<not> authority s \<or> mass_deletion sc (table s) \<or> mass_relocation sc (table s) \<longrightarrow>
         ar_applied rep = [] \<and> t = s)"
      by auto
  qed
qed

end

subsection \<open>The ports on the stored ledger\<close>

record 'w removal_state =
  rs_db :: tenant_db
  rs_items :: items
  rs_audit :: "(string \<times> removal_kind) list"
  rs_target :: 'w

record ('w, 'e) target_ports =
  tp_removeItem :: "(string \<Rightarrow> removal_options \<Rightarrow> ('w, 'e, removal_result) prog) option"
  tp_hasItem :: "(string \<Rightarrow> string option \<Rightarrow> ('w, 'e, bool) prog) option"

definition on_target :: "('w, 'e, 'a) prog \<Rightarrow> ('w removal_state, 'e, 'a) prog" where
  "on_target m = (\<lambda>s. case m (rs_target s) of (x, w) \<Rightarrow> (x, s\<lparr>rs_target := w\<rparr>))"

definition on_items :: "(items \<Rightarrow> 'a \<times> items) \<Rightarrow> ('w removal_state, 'e, 'a) prog" where
  "on_items f = (\<lambda>s. case f (rs_items s) of (a, rows) \<Rightarrow> (Inr a, s\<lparr>rs_items := rows\<rparr>))"

definition decides_now :: "timestamp \<Rightarrow> ledger_scope \<Rightarrow> tenant_db \<Rightarrow> bool" where
  "decides_now now sc db =
     sourceStillDecides (map_option mp_phases (readPathPhases now (sp_tenant sc) (sp_mapping sc) db)) (sp_domain sc)"

definition stored_deps ::
    "timestamp \<Rightarrow> ledger_scope \<Rightarrow> bool \<Rightarrow> string option \<Rightarrow> ('w, 'e) target_ports \<Rightarrow>
     ('w removal_state, 'e) removal_deps" where
  "stored_deps now sc allow prefix target =
     \<lparr>rd_allowApplyDeletions = allow,
      rd_targetFolderPrefix = prefix,
      rd_stillTheAuthority = readP (\<lambda>s. decides_now now sc (rs_db s)),
      rd_find = (\<lambda>h. readP (\<lambda>s. find_item sc h (rs_items s))),
      rd_placedItems = readP (\<lambda>s. placedItems sc (rs_items s)),
      rd_listDeletions = readP (\<lambda>s. listDeletions (sp_tenant sc) (sp_mapping sc) (Some (sp_domain sc)) (rs_items s)),
      rd_listMoves = readP (\<lambda>s. listMoves (sp_tenant sc) (sp_mapping sc) (Some (sp_domain sc)) (rs_items s)),
      rd_applyDeletion = (\<lambda>h. on_items (ledger_applyDeletion now sc h)),
      rd_applyRelocation = (\<lambda>h. on_items (ledger_applyRelocation now sc h)),
      rd_removeItem = map_option (\<lambda>rm i opts. on_target (rm i opts)) (tp_removeItem target),
      rd_hasItem = map_option (\<lambda>has i c. on_target (has i c)) (tp_hasItem target),
      rd_recordAuditEvent = (\<lambda>h k. modifyP (\<lambda>s. s\<lparr>rs_audit := rs_audit s @ [(h, k)]\<rparr>))\<rparr>"

lemma fst_on_target [simp]: "fst (on_target m s) = fst (m (rs_target s))"
  by (simp add: on_target_def split: prod.split)

lemma stored_deps_simps [simp]:
  "rd_allowApplyDeletions (stored_deps now sc allow prefix target) = allow"
  "rd_targetFolderPrefix (stored_deps now sc allow prefix target) = prefix"
  "rd_removeItem (stored_deps now sc allow prefix target) =
     map_option (\<lambda>rm i opts. on_target (rm i opts)) (tp_removeItem target)"
  "rd_hasItem (stored_deps now sc allow prefix target) =
     map_option (\<lambda>has i c. on_target (has i c)) (tp_hasItem target)"
  by (simp_all add: stored_deps_def)

interpretation stored: removal_ports "stored_deps now sc allow prefix target" sc rs_items
    "\<lambda>s. decides_now now sc (rs_db s)" now
  by unfold_locales
    (auto simp: stored_deps_def run_simps on_items_def on_target_def readP_def modifyP_def split: prod.splits)

subsection \<open>Properties\<close>

text \<open>
  C12: a deletion removes only what every guard allows. Where \<open>applyDeletion\<close> says an item was
  removed, the mapping permits deletions, the source still decides for this data type, the
  ledger holds the item as copied or updated by us, the old system itself reported it deleted
  or had it in its bin, it was not applied before, no fifth of the placed items awaits the same
  decision, and exactly the ledger's own tombstone was written. Where it refuses, the ledger is
  as it was; where a guard refused, nothing at all was done, and the reason is the one
  \<open>evaluateApplyDeletion\<close> gives; and a copy that went is never left unrecorded.
\<close>
theorem a_deletion_passes_every_guard:
  assumes "applyDeletion (stored_deps now sc allow prefix target) h s = (Inr out, s')"
  shows "case out of
      Removed k \<Rightarrow> allow \<and> decides_now now sc (rs_db s) \<and> \<not> mass_deletion sc (rs_items s) \<and>
        (\<exists>row. find_item sc h (rs_items s) = Some row \<and> (lr_status row = Some Copied \<or> lr_status row = Some Updated) \<and>
           Inferred < evidence_of row \<and> lr_deletionAppliedAt row = None) \<and>
        ledger_applyDeletion now sc h (rs_items s) = (True, rs_items s')
    | Refused c \<Rightarrow> c \<noteq> Removed_not_recorded \<and> rs_items s' = rs_items s \<and>
        (\<forall>e. tp_removeItem target \<noteq> None \<longrightarrow>
           evaluateApplyDeletion (stored_deps now sc allow prefix target) h s = (Inr (Some e), s) \<longrightarrow> c = e \<and> s' = s)"
proof (cases out)
  case (Removed k)
  with stored.deletion_outcome [OF assms] have
    none: "deletion_refusal allow (decides_now now sc (rs_db s)) sc (rs_items s) h = None" and
    rows: "rs_items s' = snd (ledger_applyDeletion now sc h (rs_items s))"
    by simp_all
  from stored.recorded_deletion [OF none] rows
  have "ledger_applyDeletion now sc h (rs_items s) = (True, rs_items s')"
    by (metis (full_types) prod.collapse)
  with none Removed show ?thesis
    by (auto simp: deletion_refusal_def first_refusal_None evidence_check_def ownershipCheck_def already_applied_def
        stated_evidence split: if_splits option.splits) (metis deletion_evidence.exhaust)+
next
  case (Refused c)
  with stored.deletion_outcome [OF assms] have "c \<noteq> Removed_not_recorded" "rs_items s' = rs_items s"
    by simp_all
  moreover have "c = e \<and> s' = s" if "tp_removeItem target \<noteq> None"
    "evaluateApplyDeletion (stored_deps now sc allow prefix target) h s = (Inr (Some e), s)" for e
    using that assms Refused by (auto simp: stored.evaluate_deletion_run stored.apply_deletion_run)
  ultimately show ?thesis using Refused by simp
qed

text \<open>A file that moved: its old row, the arrival, and a target holding both copies, for the examples.\<close>

definition file_scope :: ledger_scope where
  "file_scope = \<lparr>sp_tenant = ''t'', sp_mapping = ''m'', sp_domain = File\<rparr>"

definition old_file :: item_row where
  "old_file = (fresh_row 5 (a_message\<lparr>lr_itemType := File, lr_naturalKeyHash := ''old'', lr_collection := Some ''Docs''\<rparr>))
     \<lparr>it_deletion_reported_at := Some 6, it_moved_to_natural_key_hash := Some ''new'',
      it_moved_to_collection := Some ''Archive'', it_moved_recorded_at := Some 6\<rparr>"

definition new_file :: item_row where
  "new_file = fresh_row 5 (a_message\<lparr>lr_itemType := File, lr_naturalKeyHash := ''new'',
     lr_collection := Some ''Archive'', lr_targetId := ''8''\<rparr>)"

definition plain_target :: "(string list, string) target_ports" where
  "plain_target = \<lparr>tp_removeItem = Some (\<lambda>i opts w. (Inr \<lparr>rr_kind = Some Binned, rr_conflicted = False,
       rr_unversioned = False\<rparr>, remove1 i w)),
     tp_hasItem = Some (\<lambda>i c w. (Inr (i \<in> set w), w))\<rparr>"

definition moved_state :: "string list removal_state" where
  "moved_state = \<lparr>rs_db = mail_cut_over, rs_items = [old_file, new_file], rs_audit = [], rs_target = [''7'', ''8'']\<rparr>"

theorem a_deletion_passes_every_guard_witness:
  "fst (ledger_applyDeletion 9 file_scope ''old'' (rs_items moved_state))"
proof -
  obtain out s' where run: "applyDeletion (stored_deps 9 file_scope True None plain_target) ''old'' moved_state = (out, s')"
    by fastforce
  have "fst (applyDeletion (stored_deps 9 file_scope True None plain_target) ''old'' moved_state) = Inr (Removed Binned)"
    by code_simp
  with run have "applyDeletion (stored_deps 9 file_scope True None plain_target) ''old'' moved_state = (Inr (Removed Binned), s')"
    by simp
  from a_deletion_passes_every_guard [OF this] show ?thesis by simp
qed

text \<open>
  a relocation removes the old copy only, and only beside its proven arrival. Where
  \<open>applyRelocation\<close> says the old copy was removed, every guard held, the arrival stands in the
  ledger as copied or updated with the same bytes (shared by no third item) or the same source
  document, and the target itself answered that it holds the arrival; the arrival's row is
  still there afterwards, and no row but the moved item's changed. Where it refuses, the ledger
  is as it was, and a copy that went is never left unrecorded.
\<close>
theorem a_relocation_keeps_its_arrival:
  assumes "applyRelocation err (stored_deps now sc allow prefix target) h s = (Inr out, s')"
  shows "case out of
      Removed k \<Rightarrow> allow \<and> decides_now now sc (rs_db s) \<and> \<not> mass_deletion sc (rs_items s) \<and>
        \<not> mass_relocation sc (rs_items s) \<and>
        (\<exists>row arrival has. find_item sc h (rs_items s) = Some row \<and>
           find_item sc (the (lr_movedToNaturalKeyHash row)) (rs_items s) = Some arrival \<and>
           relocation_proved sc (rs_items s) row arrival \<and> tp_hasItem target = Some has \<and>
           fst (has (lr_targetId arrival) (map_option (applyTargetFolderPrefix prefix) (lr_collection arrival))
             (rs_target s)) = Inr True) \<and>
        ledger_applyRelocation now sc h (rs_items s) = (True, rs_items s') \<and>
        others_kept sc {h} (rs_items s) (rs_items s')
    | Refused c \<Rightarrow> c \<noteq> Removed_not_recorded \<and> rs_items s' = rs_items s"
proof (cases out)
  case (Removed k)
  with stored.relocation_outcome [OF assms] have
    none: "relocation_refusal allow (decides_now now sc (rs_db s)) sc (rs_items s) h = None" and
    rows: "rs_items s' = snd (ledger_applyRelocation now sc h (rs_items s))"
    by simp_all
  from stored.recorded_relocation [OF none] rows
  have "ledger_applyRelocation now sc h (rs_items s) = (True, rs_items s')"
    by (metis (full_types) prod.collapse)
  moreover have "others_kept sc {h} (rs_items s) (rs_items s')"
    unfolding rows by (rule stored.relocation_others)
  moreover obtain row arrival has where found: "find_item sc h (rs_items s) = Some row"
    "find_item sc (the (lr_movedToNaturalKeyHash row)) (rs_items s) = Some arrival"
    "relocation_proved sc (rs_items s) row arrival" and
    asked: "rd_hasItem (stored_deps now sc allow prefix target) = Some has"
      "fst (has (lr_targetId arrival) (map_option (applyTargetFolderPrefix
         (rd_targetFolderPrefix (stored_deps now sc allow prefix target))) (lr_collection arrival)) s) = Inr True"
    using assms [unfolded Removed] by (rule stored.relocation_confirmed)
  moreover from asked obtain has0 where "tp_hasItem target = Some has0"
    "fst (has0 (lr_targetId arrival) (map_option (applyTargetFolderPrefix prefix) (lr_collection arrival))
       (rs_target s)) = Inr True"
    by auto
  moreover from none have "allow \<and> decides_now now sc (rs_db s) \<and> \<not> mass_deletion sc (rs_items s) \<and>
      \<not> mass_relocation sc (rs_items s)"
    by (rule stored.not_refused) simp
  ultimately show ?thesis using Removed by simp
next
  case (Refused c)
  with stored.relocation_outcome [OF assms] show ?thesis by simp
qed

theorem a_relocation_keeps_its_arrival_witness:
  "fst (ledger_applyRelocation 9 file_scope ''old'' (rs_items moved_state))"
proof -
  obtain out s' where run: "applyRelocation [] (stored_deps 9 file_scope True None plain_target) ''old'' moved_state = (out, s')"
    by fastforce
  have "fst (applyRelocation [] (stored_deps 9 file_scope True None plain_target) ''old'' moved_state) = Inr (Removed Binned)"
    by code_simp
  with run have "applyRelocation [] (stored_deps 9 file_scope True None plain_target) ''old'' moved_state =
      (Inr (Removed Binned), s')"
    by simp
  from a_relocation_keeps_its_arrival [OF this] show ?thesis by simp
qed

text \<open>
  C20: the preview is the decision. Both evaluations write nothing and give the code that the
  specification computes from the switch, the authority and the table; and on a target that can
  remove, the operation itself refuses with that code, doing nothing, whenever there is one.
\<close>
theorem removals_refine_their_specification:
  "let deps = stored_deps now sc allow prefix target;
       deletion = deletion_refusal allow (decides_now now sc (rs_db s)) sc (rs_items s) h;
       relocation = relocation_refusal allow (decides_now now sc (rs_db s)) sc (rs_items s) h
   in evaluateApplyDeletion deps h s = (Inr deletion, s) \<and> evaluateApplyRelocation deps h s = (Inr relocation, s) \<and>
      (case (tp_removeItem target, deletion) of
         (Some rm, Some c) \<Rightarrow> applyDeletion deps h s = (Inr (Refused c), s) | _ \<Rightarrow> True) \<and>
      (case (tp_removeItem target, relocation) of
         (Some rm, Some c) \<Rightarrow> applyRelocation err deps h s = (Inr (Refused c), s) | _ \<Rightarrow> True)"
  by (simp add: Let_def stored.evaluate_deletion_run stored.evaluate_relocation_run stored.apply_deletion_run
      stored.apply_relocation_run split: option.split)

text \<open>
  unattended relocations are bounded and accounted for. A run removes at most the cap of
  copies, each of a move recorded before the pass began; every open move it considered is either
  applied or left with a reason; no row changed but those of the keys it reports; and with the
  switch off, the authority gone or either breaker open it does nothing at all.
\<close>
theorem unattended_relocations_are_bounded:
  assumes "autoApplyRelocations err (stored_deps now sc allow prefix target) auto None start cap s = (Inr rep, s')"
  shows "length (ar_applied rep) \<le> cap \<and>
    (ar_stopped rep = None \<longrightarrow> ar_considered rep = length (ar_applied rep) + length (ar_leftForReview rep)) \<and>
    (\<forall>x \<in> set (ar_applied rep).
       \<exists>m \<in> set (listMoves (sp_tenant sc) (sp_mapping sc) (Some (sp_domain sc)) (rs_items s)).
         mv_naturalKeyHash m = fst x \<and> open_move m \<and> (\<exists>r. mv_recordedAt m = Some r \<and> r < start)) \<and>
    others_kept sc (fst ` set (ar_applied rep)) (rs_items s) (rs_items s') \<and>
    (\<not> auto \<or> \<not> decides_now now sc (rs_db s) \<or> mass_deletion sc (rs_items s) \<or> mass_relocation sc (rs_items s)
      \<longrightarrow> ar_applied rep = [] \<and> s' = s)"
proof -
  have hook: "hook_ok rs_items None" by (simp add: hook_ok_def)
  note post = stored.auto_outcome [OF assms hook]
  let ?moves = "if ar_considered rep = 0 \<or> ar_stopped rep \<noteq> None then []
    else filter open_move (listMoves (sp_tenant sc) (sp_mapping sc) (Some (sp_domain sc)) (rs_items s))"
  from post(1) have bound: "length (ar_applied rep) \<le> cap"
    and each: "\<forall>x \<in> set (ar_applied rep). \<exists>m \<in> set ?moves. mv_naturalKeyHash m = fst x \<and>
      (\<exists>r. mv_recordedAt m = Some r \<and> r < start)"
    and frame: "others_kept sc (fst ` set (ar_applied rep)) (rs_items s) (rs_items s')"
    by (simp_all add: auto_post_def)
  have "\<forall>x \<in> set (ar_applied rep).
      \<exists>m \<in> set (listMoves (sp_tenant sc) (sp_mapping sc) (Some (sp_domain sc)) (rs_items s)).
        mv_naturalKeyHash m = fst x \<and> open_move m \<and> (\<exists>r. mv_recordedAt m = Some r \<and> r < start)"
  proof
    fix x assume "x \<in> set (ar_applied rep)"
    with each obtain m where "m \<in> set ?moves" "mv_naturalKeyHash m = fst x"
      "\<exists>r. mv_recordedAt m = Some r \<and> r < start" by blast
    then show "\<exists>m \<in> set (listMoves (sp_tenant sc) (sp_mapping sc) (Some (sp_domain sc)) (rs_items s)).
        mv_naturalKeyHash m = fst x \<and> open_move m \<and> (\<exists>r. mv_recordedAt m = Some r \<and> r < start)"
      by (auto split: if_splits)
  qed
  with bound frame post(2,3) show ?thesis by blast
qed

theorem unattended_relocations_are_bounded_witness:
  "\<exists>rep s'. autoApplyRelocations [] (stored_deps 9 file_scope True None plain_target) True None 8 50 moved_state =
     (Inr rep, s') \<and> ar_applied rep = [(''old'', Binned)] \<and> length (ar_applied rep) \<le> 50"
proof -
  let ?run = "autoApplyRelocations [] (stored_deps 9 file_scope True None plain_target) True None 8 50 moved_state"
  obtain x s' where run: "?run = (x, s')" by fastforce
  have "fst ?run = Inr (no_auto\<lparr>ar_considered := 1, ar_applied := [(''old'', Binned)]\<rparr>)"
    by code_simp
  with run have "?run = (Inr (no_auto\<lparr>ar_considered := 1, ar_applied := [(''old'', Binned)]\<rparr>), s')" by simp
  moreover from unattended_relocations_are_bounded [OF this]
  have "length [(''old'', Binned)] \<le> (50::nat)" by simp
  ultimately show ?thesis by simp
qed

text \<open>
  C2: after cutover nothing is removed. Once a migration's status is past its cutover, whatever
  the queues, the switches and the target say: a deletion and a relocation applied by hand are
  refused, an unattended run applies nothing, and not one of the three changes anything.
\<close>
theorem after_cutover_nothing_is_removed:
  assumes "sound_tables (sp_tenant sc) (rs_db s)" and "isAfterCutover status"
    and "mapping_status (sp_tenant sc) (sp_mapping sc) (rs_db s) = Some status"
  shows "(\<exists>c. applyDeletion (stored_deps now sc allow prefix target) h s = (Inr (Refused c), s)) \<and>
    (\<exists>c. applyRelocation err (stored_deps now sc allow prefix target) h s = (Inr (Refused c), s)) \<and>
    (\<exists>rep. autoApplyRelocations err (stored_deps now sc allow prefix target) auto onApplied start cap s = (Inr rep, s) \<and>
       ar_applied rep = [])"
proof -
  have no: "\<not> decides_now now sc (rs_db s)"
    using stored_cutover_no_authority assms by (simp add: decides_now_def sound_tables_def)
  then have "deletion_refusal allow (decides_now now sc (rs_db s)) sc (rs_items s) h \<noteq> None"
    "relocation_refusal allow (decides_now now sc (rs_db s)) sc (rs_items s) h \<noteq> None"
    by (simp_all add: deletion_refusal_def relocation_refusal_def first_refusal_None del: not_None_eq split: option.split)
  then obtain c1 c2 where "deletion_refusal allow (decides_now now sc (rs_db s)) sc (rs_items s) h = Some c1"
    "relocation_refusal allow (decides_now now sc (rs_db s)) sc (rs_items s) h = Some c2"
    by blast
  then have "\<exists>c. applyDeletion (stored_deps now sc allow prefix target) h s = (Inr (Refused c), s)"
    "\<exists>c. applyRelocation err (stored_deps now sc allow prefix target) h s = (Inr (Refused c), s)"
    by (cases "tp_removeItem target"; simp add: stored.apply_deletion_run stored.apply_relocation_run)+
  moreover have "\<exists>rep. autoApplyRelocations err (stored_deps now sc allow prefix target) auto onApplied start cap s =
      (Inr rep, s) \<and> ar_applied rep = []"
    using no by (simp add: autoApplyRelocations_def run_simps stored.authority_read no_auto_def)
  ultimately show ?thesis by blast
qed

theorem after_cutover_nothing_is_removed_witness:
  "ar_applied (projr (fst (autoApplyRelocations [] (stored_deps 9 file_scope True None plain_target) True None 8 50
     (moved_state\<lparr>rs_db := set_status ''t'' ''m'' ''done'' mail_cut_over\<rparr>)))) = []"
proof -
  let ?s = "moved_state\<lparr>rs_db := set_status ''t'' ''m'' ''done'' mail_cut_over\<rparr>"
  have "sound_tables (sp_tenant file_scope) (rs_db ?s)" "isAfterCutover ''done''"
    "mapping_status (sp_tenant file_scope) (sp_mapping file_scope) (rs_db ?s) = Some ''done''"
    by code_simp+
  from after_cutover_nothing_is_removed [OF this, where err = "[]" and target = plain_target and now = 9
      and allow = True and prefix = None and auto = True and onApplied = None and start = 8 and cap = 50]
  obtain rep where "autoApplyRelocations [] (stored_deps 9 file_scope True None plain_target) True None 8 50 ?s =
      (Inr rep, ?s)" "ar_applied rep = []"
    by blast
  then show ?thesis by simp
qed

end
