(* ===== verification/Sync_Items.thy ===== *)
theory Sync_Items
  imports Ledger_Laws Lifecycle
begin

text \<open>
  What a pass decides about one item and one finding, as functions
  (\<open>packages/core/src/domain-sync.ts\<close>): what to do with an item the ledger already holds, which
  rows may be skipped on a row read ahead, whether a move was answered, and which of two findings
  about one item is reported. An optional function of the source that is absent is the constant
  \<open>None\<close> or the empty list.
\<close>

subsection \<open>Constants\<close>

definition ABORT_AFTER_CONSECUTIVE_FAILURES :: nat where
  "ABORT_AFTER_CONSECUTIVE_FAILURES = 25"

definition LEDGER_READ_AHEAD :: nat where
  "LEDGER_READ_AHEAD = 500"

definition ABORT_AFTER_CONSECUTIVE_UNREAD_COLLECTIONS :: nat where
  "ABORT_AFTER_CONSECUTIVE_UNREAD_COLLECTIONS = 3"

definition ENDS_THE_PASS_AT_ONCE :: "failure_category list" where
  "ENDS_THE_PASS_AT_ONCE = [Auth_expired, Rate_limited, Quota_exceeded]"

subsection \<open>An item the ledger holds\<close>

definition collectionPathOf :: "string option \<Rightarrow> string option \<Rightarrow> string" where
  "collectionPathOf path name = (if truthy path then the path else if truthy name then the name else ''/'')"

datatype known_item_action =
  Act_skip | Act_record_version | Act_rewrite | Act_relocated_away | Act_leave_adopted | Act_moved
| Act_retry_failed | Act_needs_decision | Act_left_behind | Act_tombstoned

definition attempts_of :: "ledger_record \<Rightarrow> nat" where
  "attempts_of known = (case lr_attemptCount known of Some n \<Rightarrow> n | None \<Rightarrow> 0)"

definition classifyKnownItem :: "ledger_record \<Rightarrow> string option \<Rightarrow> string option \<Rightarrow> known_item_action" where
  "classifyKnownItem known sourceVersion collection =
     (if lr_status known = Some Left_behind then Act_left_behind
      else if lr_status known = Some Superseded then Act_retry_failed
      else if lr_status known = Some Tombstoned
      then (if lr_movedToNaturalKeyHash known \<noteq> None then Act_relocated_away else Act_tombstoned)
      else if lr_status known = Some Failed
      then (if lr_parkedAt known \<noteq> None then Act_needs_decision
            else if MAX_ITEM_ATTEMPTS \<le> attempts_of known then Act_needs_decision else Act_retry_failed)
      else if truthy collection \<and> truthy (lr_collection known) \<and> lr_collection known \<noteq> collection
      then Act_moved
      else if sourceVersion = None then Act_skip
      else if lr_sourceVersion known = None then Act_record_version
      else if lr_sourceVersion known = sourceVersion then Act_skip
      else if lr_status known = Some Adopted then Act_leave_adopted
      else Act_rewrite)"

text \<open>\<open>row.absentPasses\<close> read as a condition.\<close>

definition some_passes :: "ledger_record \<Rightarrow> bool" where
  "some_passes row \<longleftrightarrow> (case lr_absentPasses row of None \<Rightarrow> False | Some n \<Rightarrow> n \<noteq> 0)"

definition gone_evidence :: "ledger_record \<Rightarrow> bool" where
  "gone_evidence row \<longleftrightarrow> some_passes row \<or> lr_deletionReportedAt row \<noteq> None \<or> lr_deletionTrashedAt row \<noteq> None"

definition quietSkip :: "ledger_record \<Rightarrow> string option \<Rightarrow> string \<Rightarrow> bool" where
  "quietSkip row sourceVersion collection \<longleftrightarrow>
     \<not> some_passes row \<and> lr_deletionReportedAt row = None \<and> lr_deletionTrashedAt row = None \<and>
     lr_movedToCollection row = None \<and> classifyKnownItem row sourceVersion (Some collection) = Act_skip"

definition decided :: "ledger_record \<Rightarrow> string \<Rightarrow> string option \<Rightarrow> bool" where
  "decided row to toNaturalKeyHash \<longleftrightarrow> lr_movedToCollection row = Some to \<and>
     lr_movedToNaturalKeyHash row = toNaturalKeyHash \<and> lr_moveAcknowledgedAt row \<noteq> None"

subsection \<open>One finding per item\<close>

text \<open>
  \<open>strongest\<close> is a \<open>Map\<close>: an item keeps the place of its first finding, the stronger evidence
  stands, and the larger count of passes without it is kept with it.
\<close>

definition stronger :: "item_deletion \<Rightarrow> item_deletion \<Rightarrow> item_deletion" where
  "stronger d held = (if dl_evidence held < dl_evidence d then d else held)
     \<lparr>dl_absentPasses := max (dl_absentPasses d) (dl_absentPasses held)\<rparr>"

fun keep_strongest :: "item_deletion \<Rightarrow> item_deletion list \<Rightarrow> item_deletion list" where
  "keep_strongest d [] = [d]"
| "keep_strongest d (held # rest) =
     (if dl_naturalKeyHash held = dl_naturalKeyHash d
      then stronger d held # rest else held # keep_strongest d rest)"

definition strongest_deletions :: "item_deletion list \<Rightarrow> item_deletion list" where
  "strongest_deletions ds = fold keep_strongest ds []"

subsection \<open>Lemmas\<close>

lemma classify_copies:
  assumes "classifyKnownItem known v c \<in> {Act_rewrite, Act_retry_failed, Act_relocated_away}"
  shows "lr_status known \<noteq> Some Left_behind \<and> lr_status known \<noteq> Some Adopted \<and>
    (lr_status known = Some Tombstoned \<longrightarrow> lr_movedToNaturalKeyHash known \<noteq> None) \<and>
    (lr_status known = Some Failed \<longrightarrow> lr_parkedAt known = None \<and> attempts_of known < MAX_ITEM_ATTEMPTS)"
  using assms by (auto simp: classifyKnownItem_def split: if_splits)

lemma record_version_plain: "classifyKnownItem known v c = Act_record_version \<Longrightarrow> plain_record known"
  by (auto simp: classifyKnownItem_def plain_record_def split: if_splits)

lemma quiet_is_settled:
  "quietSkip row v c \<longleftrightarrow> \<not> gone_evidence row \<and> lr_movedToCollection row = None \<and> classifyKnownItem row v (Some c) = Act_skip"
  by (auto simp: quietSkip_def gone_evidence_def)

lemma stronger_key [simp]:
  "dl_naturalKeyHash held = dl_naturalKeyHash d \<Longrightarrow> dl_naturalKeyHash (stronger d held) = dl_naturalKeyHash d"
  by (simp add: stronger_def)

lemma strongest_keys [simp]:
  "dl_naturalKeyHash ` set (keep_strongest d ds) = insert (dl_naturalKeyHash d) (dl_naturalKeyHash ` set ds)"
  by (induction ds) auto

lemma strongest_distinct:
  "distinct (map dl_naturalKeyHash ds) \<Longrightarrow> distinct (map dl_naturalKeyHash (keep_strongest d ds))"
  by (induction ds) auto

lemma strongest_elim:
  assumes "x \<in> set (keep_strongest d ds)" and "distinct (map dl_naturalKeyHash ds)"
  obtains (fresh) "x = d" "dl_naturalKeyHash d \<notin> dl_naturalKeyHash ` set ds"
  | (merged) held where "held \<in> set ds" "dl_naturalKeyHash held = dl_naturalKeyHash d" "x = stronger d held"
  | (kept) "x \<in> set ds" "dl_naturalKeyHash x \<noteq> dl_naturalKeyHash d"
  using assms
proof (induction ds arbitrary: thesis)
  case Nil
  then show ?case by simp
next
  case (Cons y ys)
  show ?case
  proof (cases "dl_naturalKeyHash y = dl_naturalKeyHash d")
    case True
    with Cons.prems(4,5) have "x = stronger d y \<or> (x \<in> set ys \<and> dl_naturalKeyHash x \<noteq> dl_naturalKeyHash d)"
      by (auto simp: image_iff)
    with True Cons.prems(2,3) show ?thesis by auto
  next
    case False
    with Cons.prems(4) consider "x = y" | "x \<in> set (keep_strongest d ys)" by auto
    then show ?thesis
    proof cases
      case 1
      with False Cons.prems(3) show ?thesis by simp
    next
      case 2
      show ?thesis
        by (rule Cons.IH [OF _ _ _ 2]) (use Cons.prems False in auto)
    qed
  qed
qed

text \<open>What is reported of one item, against all that was found of it.\<close>

definition weighs :: "item_deletion list \<Rightarrow> item_deletion \<Rightarrow> bool" where
  "weighs ds d \<longleftrightarrow>
     (\<forall>e \<in> set ds. dl_naturalKeyHash e = dl_naturalKeyHash d \<longrightarrow>
        dl_evidence e \<le> dl_evidence d \<and> dl_absentPasses e \<le> dl_absentPasses d) \<and>
     (\<exists>e \<in> set ds. dl_naturalKeyHash e = dl_naturalKeyHash d \<and>
        d = e\<lparr>dl_absentPasses := dl_absentPasses d\<rparr>) \<and>
     (\<exists>e \<in> set ds. dl_naturalKeyHash e = dl_naturalKeyHash d \<and> dl_absentPasses e = dl_absentPasses d)"

definition weighed :: "item_deletion list \<Rightarrow> item_deletion list \<Rightarrow> bool" where
  "weighed ds out \<longleftrightarrow> distinct (map dl_naturalKeyHash out) \<and>
     dl_naturalKeyHash ` set out = dl_naturalKeyHash ` set ds \<and> (\<forall>d \<in> set out. weighs ds d)"

lemma weighs_other: "weighs ds x \<Longrightarrow> dl_naturalKeyHash x \<noteq> dl_naturalKeyHash d \<Longrightarrow> weighs (ds @ [d]) x"
  by (auto simp: weighs_def)

lemma weighs_fresh: "dl_naturalKeyHash d \<notin> dl_naturalKeyHash ` set ds \<Longrightarrow> weighs (ds @ [d]) d"
  by (auto simp: weighs_def image_iff)

lemma weighs_stronger:
  assumes "weighs ds held" and "dl_naturalKeyHash held = dl_naturalKeyHash d"
  shows "weighs (ds @ [d]) (stronger d held)"
proof -
  have key: "dl_naturalKeyHash (stronger d held) = dl_naturalKeyHash d" using assms(2) by simp
  have top: "dl_evidence held \<le> dl_evidence (stronger d held)" "dl_evidence d \<le> dl_evidence (stronger d held)"
    "dl_absentPasses (stronger d held) = max (dl_absentPasses d) (dl_absentPasses held)"
    by (auto simp: stronger_def)
  have all: "\<forall>e \<in> set (ds @ [d]). dl_naturalKeyHash e = dl_naturalKeyHash d \<longrightarrow>
      dl_evidence e \<le> dl_evidence (stronger d held) \<and> dl_absentPasses e \<le> dl_absentPasses (stronger d held)"
  proof
    fix e assume "e \<in> set (ds @ [d])"
    then consider "e \<in> set ds" | "e = d" by auto
    then show "dl_naturalKeyHash e = dl_naturalKeyHash d \<longrightarrow>
      dl_evidence e \<le> dl_evidence (stronger d held) \<and> dl_absentPasses e \<le> dl_absentPasses (stronger d held)"
    proof cases
      case 1
      with assms have "dl_naturalKeyHash e = dl_naturalKeyHash d \<Longrightarrow>
          dl_evidence e \<le> dl_evidence held \<and> dl_absentPasses e \<le> dl_absentPasses held"
        unfolding weighs_def by simp
      with top show ?thesis by (simp add: le_max_iff_disj) (blast intro: order_trans)
    qed (simp add: top)
  qed
  from assms(1) have "\<exists>e \<in> set ds. dl_naturalKeyHash e = dl_naturalKeyHash held \<and>
      held = e\<lparr>dl_absentPasses := dl_absentPasses held\<rparr>"
    unfolding weighs_def by (rule conjunct2 [THEN conjunct1])
  then obtain e where e: "e \<in> set ds" "dl_naturalKeyHash e = dl_naturalKeyHash d"
    "held = e\<lparr>dl_absentPasses := dl_absentPasses held\<rparr>" unfolding assms(2) by blast
  have from_one: "\<exists>e \<in> set (ds @ [d]). dl_naturalKeyHash e = dl_naturalKeyHash d \<and>
      stronger d held = e\<lparr>dl_absentPasses := dl_absentPasses (stronger d held)\<rparr>"
  proof (cases "dl_evidence held < dl_evidence d")
    case True
    then show ?thesis by (intro bexI [of _ d]) (simp_all add: stronger_def)
  next
    case False
    have "stronger d held = e\<lparr>dl_absentPasses := dl_absentPasses (stronger d held)\<rparr>"
      using False arg_cong [OF e(3), of "\<lambda>x. x\<lparr>dl_absentPasses := max (dl_absentPasses d) (dl_absentPasses held)\<rparr>"]
      by (simp add: stronger_def)
    then show ?thesis using e(1,2) by (intro bexI [of _ e]) simp_all
  qed
  from assms obtain a where "a \<in> set ds" "dl_naturalKeyHash a = dl_naturalKeyHash d" "dl_absentPasses a = dl_absentPasses held"
    by (auto simp: weighs_def)
  then have "\<exists>e \<in> set (ds @ [d]). dl_naturalKeyHash e = dl_naturalKeyHash d \<and>
      dl_absentPasses e = dl_absentPasses (stronger d held)"
    unfolding top(3) by (auto simp: max_def)
  with all from_one show ?thesis by (simp add: weighs_def key)
qed

lemma weighed_step:
  assumes "weighed ds out"
  shows "weighed (ds @ [d]) (keep_strongest d out)"
proof -
  have "weighs (ds @ [d]) x" if "x \<in> set (keep_strongest d out)" for x
  proof -
    from assms have dis: "distinct (map dl_naturalKeyHash out)" by (simp add: weighed_def)
    from assms have all: "\<And>y. y \<in> set out \<Longrightarrow> weighs ds y"
      and keys: "dl_naturalKeyHash ` set out = dl_naturalKeyHash ` set ds" by (simp_all add: weighed_def)
    from that dis show ?thesis
    proof (cases rule: strongest_elim)
      case fresh
      then show ?thesis using keys weighs_fresh by metis
    next
      case (merged held)
      then show ?thesis using all weighs_stronger by metis
    next
      case kept
      then show ?thesis using all weighs_other by metis
    qed
  qed
  with assms show ?thesis by (simp add: weighed_def strongest_distinct)
qed

lemma weighed_strongest: "weighed ds (strongest_deletions ds)"
proof (induction ds rule: rev_induct)
  case Nil
  show ?case by (simp add: weighed_def strongest_deletions_def)
next
  case (snoc d ds)
  then show ?case using weighed_step [OF snoc.IH] by (simp add: strongest_deletions_def)
qed

subsection \<open>Properties\<close>

text \<open>
  the pass copies only what it may. Of an item the ledger holds, it is about to write a copy
  only where the item failed fewer than five times and waits on nobody, was closed under a former
  name, was removed by a relocation that still has an arrival, or was written by us and changed at
  its source in the collection it was copied from: never what was left behind, parked, removed by a
  decision, or found on the target and adopted. And an item asks for a decision in the pass exactly
  when the queue of failures says it does.
\<close>
theorem the_pass_copies_only_what_it_may:
  "(case classifyKnownItem known v (Some c) of
      Act_retry_failed \<Rightarrow> lr_status known = Some Superseded \<or>
        (lr_status known = Some Failed \<and> lr_parkedAt known = None \<and> attempts_of known < MAX_ITEM_ATTEMPTS)
    | Act_relocated_away \<Rightarrow> lr_status known = Some Tombstoned \<and> lr_movedToNaturalKeyHash known \<noteq> None
    | Act_rewrite \<Rightarrow> isOnTarget (lr_status known) \<and> lr_status known \<noteq> Some Adopted \<and>
        v \<noteq> None \<and> lr_sourceVersion known \<noteq> None \<and> lr_sourceVersion known \<noteq> v \<and>
        (c = [] \<or> lr_collection known \<in> {None, Some [], Some c})
    | _ \<Rightarrow> True) \<and>
   (case filter (\<lambda>f. fl_naturalKeyHash f = h \<and> fl_domain f = sp_domain sc)
       (listFailures (sp_tenant sc) (sp_mapping sc) None [r]) of
      [f] \<Rightarrow> fl_needsDecision f = (classifyKnownItem (mapRowToRecord r) v (Some c) = Act_needs_decision)
    | _ \<Rightarrow> \<not> (at_key sc h r \<and> classifyKnownItem (mapRowToRecord r) v (Some c) = Act_needs_decision))"
proof -
  have "case filter (\<lambda>f. fl_naturalKeyHash f = h \<and> fl_domain f = sp_domain sc)
       (listFailures (sp_tenant sc) (sp_mapping sc) None [r]) of
      [f] \<Rightarrow> fl_needsDecision f = (classifyKnownItem (mapRowToRecord r) v (Some c) = Act_needs_decision)
    | _ \<Rightarrow> \<not> (at_key sc h r \<and> classifyKnownItem (mapRowToRecord r) v (Some c) = Act_needs_decision)"
    by (auto simp: listFailures_def asked_domain_def classifyKnownItem_def mapRowToRecord_def attempts_of_def
        at_key_def in_scope_def)
  moreover have "case classifyKnownItem known v (Some c) of
      Act_retry_failed \<Rightarrow> lr_status known = Some Superseded \<or>
        (lr_status known = Some Failed \<and> lr_parkedAt known = None \<and> attempts_of known < MAX_ITEM_ATTEMPTS)
    | Act_relocated_away \<Rightarrow> lr_status known = Some Tombstoned \<and> lr_movedToNaturalKeyHash known \<noteq> None
    | Act_rewrite \<Rightarrow> isOnTarget (lr_status known) \<and> lr_status known \<noteq> Some Adopted \<and>
        v \<noteq> None \<and> lr_sourceVersion known \<noteq> None \<and> lr_sourceVersion known \<noteq> v \<and>
        (c = [] \<or> lr_collection known \<in> {None, Some [], Some c})
    | _ \<Rightarrow> True"
    by (auto simp: classifyKnownItem_def isOnTarget_def truthy_def split: known_item_action.split)
  ultimately show ?thesis by blast
qed

text \<open>
  one finding per item, the strongest. However the findings of a pass came in, each item it
  found gone is reported once, in a finding that was made about it, with the strongest evidence
  and the largest count of passes any finding about it had.
\<close>
theorem the_strongest_finding_is_reported:
  "weighed ds (strongest_deletions ds)"
  by (rule weighed_strongest)

end
