(* ===== verification/Sync_Findings.thy ===== *)
theory Sync_Findings
  imports Sync_Items
begin

text \<open>
  What a pass concludes after its last item about what is gone and what moved
  (\<open>resolveReportedRemovals\<close>, \<open>resolveDiscardedItems\<close> and \<open>detectPathKeyedMoves\<close> of
  \<open>packages/core/src/domain-sync.ts\<close>). Each is a function of the ledger's table; the keys seen are
  pairs of a collection and a key, in the order the pass saw them.
\<close>

type_synonym seen_keys = "(string \<times> string) list"

definition seenAnywhere :: "seen_keys \<Rightarrow> string \<Rightarrow> bool" where
  "seenAnywhere seen key \<longleftrightarrow> key \<in> set (map snd seen)"

text \<open>\<open>new Set(..)\<close> read in order: each value where it came first.\<close>

fun in_order :: "'a list \<Rightarrow> 'a list" where
  "in_order [] = []"
| "in_order (x # xs) = x # filter (\<lambda>y. y \<noteq> x) (in_order xs)"

definition found_gone :: "ledger_record \<Rightarrow> ledger_scope \<Rightarrow> string \<Rightarrow> deletion_evidence \<Rightarrow> item_deletion" where
  "found_gone row sc key evidence =
     \<lparr>dl_domain = sp_domain sc, dl_naturalKeyHash = key,
      dl_collection = (case lr_collection row of Some c \<Rightarrow> c | None \<Rightarrow> []),
      dl_absentPasses = (case lr_absentPasses row of Some n \<Rightarrow> n | None \<Rightarrow> 0),
      dl_confirmed = True, dl_evidence = evidence,
      dl_reportedAt = None, dl_trashedAt = None, dl_acknowledgedAt = None, dl_decided = None\<rparr>"

subsection \<open>Removals the source reported\<close>

fun resolve_reported ::
    "timestamp \<Rightarrow> ledger_scope \<Rightarrow> seen_keys \<Rightarrow> string list \<Rightarrow> string list \<Rightarrow> items \<Rightarrow> item_deletion list \<times> items" where
  "resolve_reported now sc seen [] closed rows = ([], rows)"
| "resolve_reported now sc seen (href # hrefs) closed rows =
     (let skip = resolve_reported now sc seen hrefs
      in case findBySourceRef sc href rows of
           None \<Rightarrow> skip closed rows
         | Some row \<Rightarrow>
             let key = lr_naturalKeyHash row
             in if \<not> isOnTarget (lr_status row) then skip closed rows
                else if seenAnywhere seen key then skip closed rows
                else if key \<in> set closed then skip closed rows
                else (case recordReportedDeletion now sc key rows of (recorded, rows') \<Rightarrow>
                  if \<not> recorded \<or> lr_deletionAcknowledgedAt row \<noteq> None then skip (key # closed) rows'
                  else (case skip (key # closed) rows' of (out, rows'') \<Rightarrow>
                    (found_gone row sc key Reported # out, rows''))))"

definition resolveReportedRemovals ::
    "timestamp \<Rightarrow> ledger_scope \<Rightarrow> seen_keys \<Rightarrow> string list \<Rightarrow> items \<Rightarrow> item_deletion list \<times> items" where
  "resolveReportedRemovals now sc seen removals rows = resolve_reported now sc seen (in_order removals) [] rows"

subsection \<open>Items found in the owner's bin\<close>

fun resolve_discarded ::
    "timestamp \<Rightarrow> ledger_scope \<Rightarrow> seen_keys \<Rightarrow> string list \<Rightarrow> items \<Rightarrow> item_deletion list \<times> items" where
  "resolve_discarded now sc seen [] rows = ([], rows)"
| "resolve_discarded now sc seen (key # keys) rows =
     (let skip = resolve_discarded now sc seen keys
      in if seenAnywhere seen key then skip rows
         else case find_item sc key rows of
           None \<Rightarrow> skip rows
         | Some row \<Rightarrow>
             if \<not> isOnTarget (lr_status row) then skip rows
             else (case recordTrashedDeletion now sc key rows of (recorded, rows') \<Rightarrow>
               if \<not> recorded \<or> lr_deletionAcknowledgedAt row \<noteq> None then skip rows'
               else (case skip rows' of (out, rows'') \<Rightarrow> (found_gone row sc key Trashed # out, rows''))))"

definition resolveDiscardedItems ::
    "timestamp \<Rightarrow> ledger_scope \<Rightarrow> seen_keys \<Rightarrow> string list \<Rightarrow> items \<Rightarrow> item_deletion list \<times> items" where
  "resolveDiscardedItems now sc seen discarded rows = resolve_discarded now sc seen (in_order discarded) rows"

subsection \<open>Moves and absences of files\<close>

record created_item =
  ci_naturalKeyHash :: string
  ci_contentHash :: string
  ci_collection :: string
  ci_identity :: "string option"

text \<open>
  \<open>arrivals\<close>: what this pass copied, by its bytes, in order; a document that has an identity of
  its own is paired by that and not here. A pair uses its arrival up.
\<close>

type_synonym arrivals = "(string \<times> string \<times> string) list"

definition arrivals_of :: "created_item list \<Rightarrow> arrivals" where
  "arrivals_of created = map (\<lambda>c. (ci_contentHash c, ci_naturalKeyHash c, ci_collection c))
     (filter (\<lambda>c. \<not> truthy (ci_identity c) \<and> ci_contentHash c \<noteq> []) created)"

definition first_arrival :: "string \<Rightarrow> arrivals \<Rightarrow> (string \<times> string \<times> string) option" where
  "first_arrival hash arrivals = (if hash = [] then None else List.find (\<lambda>a. fst a = hash) arrivals)"

text \<open>\<open>listedByIdentity\<close>: what the pass listed under an identity, in order.\<close>

type_synonym identities = "(string \<times> string \<times> string) list"

definition same_document :: "identities \<Rightarrow> placed_item list \<Rightarrow> placed_item \<Rightarrow> (string \<times> string) option" where
  "same_document identities placed row =
     (if \<not> truthy (pi_sourceRef row) then None
      else map_option snd (List.find (\<lambda>(i, key, _). Some i = pi_sourceRef row \<and>
        list_ex (\<lambda>p. pi_naturalKeyHash p = key) placed) identities))"

text \<open>\<open>placedByKey.get\<close>: of several rows with one key the last stands, as in the \<open>Map\<close> it is.\<close>

definition placed_by_key :: "placed_item list \<Rightarrow> string \<Rightarrow> placed_item option" where
  "placed_by_key placed key = List.find (\<lambda>p. pi_naturalKeyHash p = key) (rev placed)"

definition pair_of :: "placed_item list \<Rightarrow> placed_item \<Rightarrow> string \<Rightarrow> paired_by" where
  "pair_of placed row key =
     (if pi_contentHash row \<noteq> [] \<and> (case placed_by_key placed key of None \<Rightarrow> False
          | Some p \<Rightarrow> pi_contentHash row = pi_contentHash p) then By_content else By_identity)"

record move_findings =
  mf_moves :: "item_move list"
  mf_deletions :: "item_deletion list"
  mf_drift :: nat
  mf_arrivals :: arrivals
  mf_rows :: items

record pass_view =
  vw_seen :: seen_keys
  vw_movedByTheLoop :: "string list"
  vw_identities :: identities
  vw_unfinished :: "string list"

definition new_move :: "ledger_scope \<Rightarrow> placed_item \<Rightarrow> string \<Rightarrow> string option \<Rightarrow> item_move" where
  "new_move sc row to toKey =
     \<lparr>mv_domain = sp_domain sc, mv_naturalKeyHash = pi_naturalKeyHash row, mv_from = pi_collection row,
      mv_to = to, mv_toNaturalKeyHash = toKey, mv_recordedAt = None, mv_acknowledgedAt = None, mv_decided = None\<rparr>"

definition placed_seen :: "timestamp \<Rightarrow> ledger_scope \<Rightarrow> placed_item \<Rightarrow> items \<Rightarrow> items" where
  "placed_seen now sc row rows =
     (let h = pi_naturalKeyHash row;
          rows1 = (if pi_movedToCollection row \<noteq> None then clearMove now sc h rows else rows);
          rows2 = (if pi_absentPasses row \<noteq> 0 then clearAbsent now sc h rows1 else rows1)
      in if pi_supersededByNaturalKeyHash row \<noteq> None then clearEarlierExport now sc h rows2 else rows2)"

text \<open>One placed row; \<open>placed\<close> is all of them as they were read.\<close>

definition detect_row ::
    "timestamp \<Rightarrow> ledger_scope \<Rightarrow> pass_view \<Rightarrow> placed_item list \<Rightarrow> placed_item \<Rightarrow> move_findings \<Rightarrow> move_findings" where
  "detect_row now sc vw placed row f =
     (let h = pi_naturalKeyHash row; rows = mf_rows f
      in if pi_deletionAppliedAt row \<noteq> None then f
         else if (pi_collection row, h) \<in> set (vw_seen vw)
         then f\<lparr>mf_rows := placed_seen now sc row rows\<rparr>
         else if pi_collection row \<in> set (vw_unfinished vw) then f
         else if h \<in> set (vw_movedByTheLoop vw) then f
         else if pi_supersededByNaturalKeyHash row \<noteq> None then f
         else case pi_movedToCollection row of
           Some to \<Rightarrow>
             (if pi_moveAcknowledgedAt row = None
              then f\<lparr>mf_moves := mf_moves f @ [new_move sc row to (pi_movedToNaturalKeyHash row)]\<rparr> else f)
         | None \<Rightarrow>
             (case same_document (vw_identities vw) placed row of
               Some (key, collection) \<Rightarrow>
                 f\<lparr>mf_rows := clearAbsent now sc h
                     (recordMove now sc h collection (Some key) (pair_of placed row key) rows),
                   mf_moves := mf_moves f @ [new_move sc row collection (Some key)]\<rparr>
             | None \<Rightarrow>
                 (case first_arrival (pi_contentHash row) (mf_arrivals f) of
                   Some (hash, key, collection) \<Rightarrow>
                     f\<lparr>mf_arrivals := remove1 (hash, key, collection) (mf_arrivals f),
                       mf_rows := recordMove now sc h collection (Some key) By_content rows,
                       mf_moves := mf_moves f @ [new_move sc row collection (Some key)]\<rparr>
                 | None \<Rightarrow>
                     (case recordAbsent now sc h rows of (passes, rows') \<Rightarrow>
                       f\<lparr>mf_drift := mf_drift f + 1, mf_rows := rows',
                         mf_deletions := mf_deletions f @
                           (if DELETION_CONFIRMATIONS \<le> passes \<and> pi_deletionAcknowledgedAt row = None
                            then [\<lparr>dl_domain = sp_domain sc, dl_naturalKeyHash = h, dl_collection = pi_collection row,
                                   dl_absentPasses = passes, dl_confirmed = True, dl_evidence = Inferred,
                                   dl_reportedAt = None, dl_trashedAt = None, dl_acknowledgedAt = None,
                                   dl_decided = None\<rparr>]
                            else [])\<rparr>))))"

definition detectPathKeyedMoves ::
    "timestamp \<Rightarrow> ledger_scope \<Rightarrow> pass_view \<Rightarrow> created_item list \<Rightarrow> items \<Rightarrow> move_findings" where
  "detectPathKeyedMoves now sc vw created rows =
     (let placed = placedItems sc rows
      in fold (detect_row now sc vw placed) placed
           \<lparr>mf_moves = [], mf_deletions = [], mf_drift = 0, mf_arrivals = arrivals_of created, mf_rows = rows\<rparr>)"

subsection \<open>What the findings write\<close>

lemma all2_update:
  assumes "\<And>r. r \<in> set rows \<Longrightarrow> R r r" and "\<And>r. r \<in> set rows \<Longrightarrow> p r \<Longrightarrow> R r (f r)"
  shows "list_all2 R rows (update_where p f rows)"
  using assms by (simp add: update_where_def list.rel_map list_all2_same)

text \<open>A row before and after an entry of evidence: untouched, or newly dated where nothing was seen.\<close>

definition dated_or_same ::
    "timestamp \<Rightarrow> ledger_scope \<Rightarrow> seen_keys \<Rightarrow> deletion_evidence \<Rightarrow> item_row \<Rightarrow> item_row \<Rightarrow> bool" where
  "dated_or_same now sc seen evidence r r' \<longleftrightarrow> r' = r \<or>
     (in_scope sc r \<and> isOnTarget (Some (it_status r)) \<and> \<not> seenAnywhere seen (it_natural_key_hash r) \<and>
      (case evidence of
         Reported \<Rightarrow> it_deletion_reported_at r = None \<and> r' = r\<lparr>it_deletion_reported_at := Some now, it_updated_at := now\<rparr>
       | Trashed \<Rightarrow> it_deletion_trashed_at r = None \<and> r' = r\<lparr>it_deletion_trashed_at := Some now, it_updated_at := now\<rparr>
       | Inferred \<Rightarrow> False))"

lemma dated_trans:
  "dated_or_same now sc seen e a b \<Longrightarrow> dated_or_same now sc seen e b c \<Longrightarrow> dated_or_same now sc seen e a c"
proof (cases "b = a \<or> c = b")
  case False
  assume "dated_or_same now sc seen e a b" "dated_or_same now sc seen e b c"
  with False have "case e of
      Reported \<Rightarrow> it_deletion_reported_at b = None \<and> b = a\<lparr>it_deletion_reported_at := Some now, it_updated_at := now\<rparr>
    | Trashed \<Rightarrow> it_deletion_trashed_at b = None \<and> b = a\<lparr>it_deletion_trashed_at := Some now, it_updated_at := now\<rparr>
    | Inferred \<Rightarrow> False"
    by (cases e) (simp_all add: dated_or_same_def)
  then show ?thesis by (cases e) auto
qed auto

lemma dated_refl: "list_all2 (dated_or_same now sc seen e) rows rows"
  by (simp add: list_all2_same dated_or_same_def)

lemma dated_rows_trans:
  "list_all2 (dated_or_same now sc seen e) a b \<Longrightarrow> list_all2 (dated_or_same now sc seen e) b c \<Longrightarrow>
   list_all2 (dated_or_same now sc seen e) a c"
  by (rule list_all2_trans [OF dated_trans])

lemma keyed_row:
  assumes "keys_unique rows" and "q \<in> set rows" and "in_scope sc q" and "r \<in> set rows"
    and "at_key sc (it_natural_key_hash q) r"
  shows "r = q"
  by (rule same_row [OF assms(1,4,2) at_key_same [OF assms(5,3)]])

lemma dated_reported:
  assumes "keys_unique rows" and "q \<in> set rows" and "in_scope sc q" and "isOnTarget (Some (it_status q))"
    and "\<not> seenAnywhere seen (it_natural_key_hash q)"
  shows "list_all2 (dated_or_same now sc seen Reported) rows
      (snd (recordReportedDeletion now sc (it_natural_key_hash q) rows))"
proof -
  have "in_scope sc r \<and> isOnTarget (Some (it_status r)) \<and> \<not> seenAnywhere seen (it_natural_key_hash r)"
    if "r \<in> set rows" "at_key sc (it_natural_key_hash q) r" for r
    using keyed_row [OF assms(1-3) that] assms(3-5) by simp
  then show ?thesis
    unfolding recordReportedDeletion_def Let_def by (auto intro!: all2_update simp: dated_or_same_def)
qed

lemma dated_trashed:
  assumes "keys_unique rows" and "q \<in> set rows" and "in_scope sc q" and "isOnTarget (Some (it_status q))"
    and "\<not> seenAnywhere seen (it_natural_key_hash q)"
  shows "list_all2 (dated_or_same now sc seen Trashed) rows
      (snd (recordTrashedDeletion now sc (it_natural_key_hash q) rows))"
proof -
  have "in_scope sc r \<and> isOnTarget (Some (it_status r)) \<and> \<not> seenAnywhere seen (it_natural_key_hash r)"
    if "r \<in> set rows" "at_key sc (it_natural_key_hash q) r" for r
    using keyed_row [OF assms(1-3) that] assms(3-5) by simp
  then show ?thesis
    unfolding recordTrashedDeletion_def Let_def by (auto intro!: all2_update simp: dated_or_same_def)
qed

lemma found_row:
  "findBySourceRef sc href rows = Some row \<Longrightarrow> \<exists>q \<in> set rows. in_scope sc q \<and> row = mapRowToRecord q"
  "find_item sc key rows = Some row \<Longrightarrow> \<exists>q \<in> set rows. in_scope sc q \<and> it_natural_key_hash q = key \<and> row = mapRowToRecord q"
  by (auto simp: findBySourceRef_def find_item_def at_key_def split: if_splits dest!: find_SomeD)

lemma record_of_row [simp]:
  "lr_naturalKeyHash (mapRowToRecord q) = it_natural_key_hash q" "lr_status (mapRowToRecord q) = Some (it_status q)"
  by (simp_all add: mapRowToRecord_def)

lemma keys_unique_step: "keys_unique rows \<Longrightarrow> ledger_step rows rows' \<Longrightarrow> keys_unique rows'"
  by (blast intro: keys_unique_grows ledger_step_grows)

definition unseen_finding :: "seen_keys \<Rightarrow> deletion_evidence \<Rightarrow> item_deletion \<Rightarrow> bool" where
  "unseen_finding seen e d \<longleftrightarrow> \<not> seenAnywhere seen (dl_naturalKeyHash d) \<and> dl_evidence d = e \<and> dl_confirmed d"

lemma unseen_found: "\<not> seenAnywhere seen key \<Longrightarrow> unseen_finding seen e (found_gone row sc key e)"
  by (simp add: unseen_finding_def found_gone_def)

lemma reported_findings:
  assumes "keys_unique rows"
  shows "list_all2 (dated_or_same now sc seen Reported) rows (snd (resolve_reported now sc seen hrefs closed rows)) \<and>
    list_all (unseen_finding seen Reported) (fst (resolve_reported now sc seen hrefs closed rows))"
  using assms
proof (induction hrefs arbitrary: closed rows)
  case Nil
  show ?case by (simp add: dated_refl)
next
  case (Cons href hrefs)
  show ?case
  proof (cases "findBySourceRef sc href rows")
    case None
    with Cons show ?thesis by (simp add: Let_def)
  next
    case (Some row)
    then obtain q where q: "q \<in> set rows" "in_scope sc q" "row = mapRowToRecord q" using found_row(1) by blast
    let ?key = "it_natural_key_hash q"
    show ?thesis
    proof (cases "\<not> isOnTarget (Some (it_status q)) \<or> seenAnywhere seen ?key \<or> ?key \<in> set closed")
      case True
      with Cons Some q show ?thesis by (auto simp: Let_def)
    next
      case False
      obtain recorded rows' where rec: "recordReportedDeletion now sc ?key rows = (recorded, rows')" by fastforce
      from False q dated_reported [OF Cons.prems, of q sc seen now] rec
      have first: "list_all2 (dated_or_same now sc seen Reported) rows rows'" by simp
      have "keys_unique rows'"
        using keys_unique_step [OF Cons.prems ledger_step.reported [where now = now and sc = sc and h = ?key]] rec by simp
      note rest = Cons.IH [OF this, of "?key # closed"]
      from first rest have rows: "list_all2 (dated_or_same now sc seen Reported) rows
          (snd (resolve_reported now sc seen hrefs (?key # closed) rows'))"
        by (blast intro: dated_rows_trans)
      with False Some q rec rest unseen_found [of seen ?key] show ?thesis
        by (auto simp: Let_def split: prod.split)
    qed
  qed
qed

lemma discarded_findings:
  assumes "keys_unique rows"
  shows "list_all2 (dated_or_same now sc seen Trashed) rows (snd (resolve_discarded now sc seen keys rows)) \<and>
    list_all (unseen_finding seen Trashed) (fst (resolve_discarded now sc seen keys rows))"
  using assms
proof (induction keys arbitrary: rows)
  case Nil
  show ?case by (simp add: dated_refl)
next
  case (Cons key keys)
  show ?case
  proof (cases "seenAnywhere seen key \<or> find_item sc key rows = None")
    case True
    with Cons show ?thesis by (auto simp: Let_def)
  next
    case False
    then obtain q where q: "q \<in> set rows" "in_scope sc q" "it_natural_key_hash q = key"
      "find_item sc key rows = Some (mapRowToRecord q)" using found_row(2) by blast
    show ?thesis
    proof (cases "isOnTarget (Some (it_status q))")
      case False
      with \<open>\<not> (_ \<or> _)\<close> Cons q show ?thesis by (auto simp: Let_def)
    next
      case True
      obtain recorded rows' where rec: "recordTrashedDeletion now sc key rows = (recorded, rows')" by fastforce
      from True False q dated_trashed [OF Cons.prems, of q sc seen now] rec
      have first: "list_all2 (dated_or_same now sc seen Trashed) rows rows'" by simp
      have "keys_unique rows'"
        using keys_unique_step [OF Cons.prems ledger_step.trashed [where now = now and sc = sc and h = key]] rec by simp
      note rest = Cons.IH [OF this]
      from first rest have rows: "list_all2 (dated_or_same now sc seen Trashed) rows
          (snd (resolve_discarded now sc seen keys rows'))"
        by (blast intro: dated_rows_trans)
      with True False q rec rest unseen_found [of seen key] show ?thesis
        by (auto simp: Let_def split: prod.split)
    qed
  qed
qed

subsection \<open>What the detection of moves writes\<close>

text \<open>What no finding may touch, and what clearing one may.\<close>

definition core :: "item_row \<Rightarrow> (string \<times> string \<times> string) \<times> discovery_domain \<times> item_status \<times> string option \<times> string option \<times> timestamp option" where
  "core r = (item_key r, it_domain r, it_status r, it_content_hash r, it_target_ref r, it_deletion_applied_at r)"

definition cleared :: "item_row \<Rightarrow> item_row \<Rightarrow> bool" where
  "cleared r r' \<longleftrightarrow> core r' = core r \<and> it_absent_passes r' \<le> it_absent_passes r \<and>
     it_deletion_reported_at r' \<in> {None, it_deletion_reported_at r} \<and>
     it_deletion_trashed_at r' \<in> {None, it_deletion_trashed_at r} \<and>
     it_moved_to_natural_key_hash r' \<in> {None, it_moved_to_natural_key_hash r}"

lemma cleared_refl [simp]: "cleared r r"
  by (simp add: cleared_def)

lemma cleared_trans: "cleared a b \<Longrightarrow> cleared b c \<Longrightarrow> cleared a c"
  by (auto simp: cleared_def)

definition touches :: "ledger_scope \<Rightarrow> string \<Rightarrow> (item_row \<Rightarrow> item_row \<Rightarrow> bool) \<Rightarrow> items \<Rightarrow> items \<Rightarrow> bool" where
  "touches sc h Q rows rows' \<longleftrightarrow> (\<exists>F. rows' = update_where (at_key sc h) F rows \<and>
     (\<forall>r. at_key sc h r \<longrightarrow> at_key sc h (F r) \<and> Q r (F r)))"

lemma touchesI:
  assumes "\<And>r. at_key sc h r \<Longrightarrow> p r \<Longrightarrow> at_key sc h (f r) \<and> Q r (f r)" and "\<And>r. at_key sc h r \<Longrightarrow> \<not> p r \<Longrightarrow> Q r r"
    and "\<And>r. p r \<Longrightarrow> at_key sc h r"
  shows "touches sc h Q rows (update_where p f rows)"
proof -
  have "update_where p f rows = update_where (at_key sc h) (\<lambda>r. if p r then f r else r) rows"
    using assms(3) by (auto simp: update_where_def)
  with assms(1,2) show ?thesis unfolding touches_def
    by (intro exI [of _ "\<lambda>r. if p r then f r else r"]) auto
qed

lemma touches_trans:
  assumes "touches sc h Q a b" and "touches sc h Q' b c" and "\<And>x y z. Q x y \<Longrightarrow> Q' y z \<Longrightarrow> Q'' x z"
  shows "touches sc h Q'' a c"
proof -
  from assms(1) obtain F where F: "b = update_where (at_key sc h) F a"
    "\<And>r. at_key sc h r \<Longrightarrow> at_key sc h (F r) \<and> Q r (F r)" unfolding touches_def by blast
  from assms(2) obtain G where G: "c = update_where (at_key sc h) G b"
    "\<And>r. at_key sc h r \<Longrightarrow> at_key sc h (G r) \<and> Q' r (G r)" unfolding touches_def by blast
  have "c = update_where (at_key sc h) (G \<circ> F) a"
    using F(2) by (auto simp: F(1) G(1) update_where_def)
  moreover have "at_key sc h ((G \<circ> F) r) \<and> Q'' r ((G \<circ> F) r)" if "at_key sc h r" for r
    using F(2) [OF that] G(2) [of "F r"] assms(3) by auto
  ultimately show ?thesis unfolding touches_def by blast
qed

lemma touches_refl: "(\<And>r. Q r r) \<Longrightarrow> touches sc h Q rows rows"
  using touchesI [where p = "\<lambda>_. False" and rows = rows and f = id] by (simp add: update_where_def)

lemma at_key_core: "core r' = core r \<Longrightarrow> at_key sc h r' = at_key sc h r"
  by (simp add: core_def at_key_def in_scope_def of_mapping_def item_key_def)

lemma touches_core:
  assumes "\<And>r. at_key sc h r \<Longrightarrow> p r \<Longrightarrow> core (f r) = core r \<and> Q r (f r)" and "\<And>r. at_key sc h r \<Longrightarrow> \<not> p r \<Longrightarrow> Q r r"
    and "\<And>r. p r \<Longrightarrow> at_key sc h r"
  shows "touches sc h Q rows (update_where p f rows)"
  using assms at_key_core by (intro touchesI) blast+

lemma clearing:
  "touches sc h cleared rows (clearMove now sc h rows)"
  "touches sc h cleared rows (clearAbsent now sc h rows)"
  "touches sc h cleared rows (clearEarlierExport now sc h rows)"
  unfolding clearMove_def clearAbsent_def clearEarlierExport_def
  by (rule touches_core; simp add: cleared_def core_def item_key_def)+

lemma placed_seen_clears: "touches sc (pi_naturalKeyHash row) cleared rows (placed_seen now sc row rows)"
proof -
  let ?h = "pi_naturalKeyHash row"
  let ?rows1 = "if pi_movedToCollection row \<noteq> None then clearMove now sc ?h rows else rows"
  let ?rows2 = "if pi_absentPasses row \<noteq> 0 then clearAbsent now sc ?h ?rows1 else ?rows1"
  have chain: "touches sc ?h cleared a c" if "touches sc ?h cleared a b" "touches sc ?h cleared b c" for a b c
    using that cleared_trans by (rule touches_trans)
  have same: "touches sc ?h cleared a a" for a by (rule touches_refl) simp
  have "touches sc ?h cleared rows ?rows1" using clearing(1) same by simp
  moreover have "touches sc ?h cleared ?rows1 ?rows2" using clearing(2) same by simp
  moreover have "touches sc ?h cleared ?rows2 (placed_seen now sc row rows)"
    using clearing(3) same by (simp add: placed_seen_def Let_def)
  ultimately show ?thesis using chain by blast
qed

definition moves_to :: "string \<Rightarrow> item_row \<Rightarrow> item_row \<Rightarrow> bool" where
  "moves_to key r r' \<longleftrightarrow> core r' = core r \<and> it_absent_passes r' \<le> it_absent_passes r \<and>
     it_deletion_reported_at r' \<in> {None, it_deletion_reported_at r} \<and>
     it_deletion_trashed_at r' \<in> {None, it_deletion_trashed_at r} \<and> it_moved_to_natural_key_hash r' = Some key"

definition counts_absent :: "item_row \<Rightarrow> item_row \<Rightarrow> bool" where
  "counts_absent r r' \<longleftrightarrow> core r' = core r \<and> it_absent_passes r' = Suc (it_absent_passes r) \<and>
     it_deletion_reported_at r' = it_deletion_reported_at r \<and> it_deletion_trashed_at r' = it_deletion_trashed_at r \<and>
     it_moved_to_natural_key_hash r' = it_moved_to_natural_key_hash r"

lemma moving: "touches sc h (moves_to key) rows (recordMove now sc h c (Some key) pb rows)"
  unfolding recordMove_def by (rule touches_core) (auto simp: moves_to_def core_def item_key_def Let_def)

lemma moving_clears: "touches sc h (moves_to key) rows (clearAbsent now sc h (recordMove now sc h c (Some key) pb rows))"
proof (rule touches_trans [OF moving [of sc h key rows now c pb]])
  show "touches sc h (\<lambda>r r'. cleared r r' \<and> it_moved_to_natural_key_hash r' = it_moved_to_natural_key_hash r)
      (recordMove now sc h c (Some key) pb rows) (clearAbsent now sc h (recordMove now sc h c (Some key) pb rows))"
    unfolding clearAbsent_def by (rule touches_core) (simp_all add: cleared_def core_def item_key_def)
qed (auto simp: moves_to_def cleared_def)

lemma counting: "touches sc h counts_absent rows (snd (recordAbsent now sc h rows))"
  unfolding recordAbsent_def Let_def snd_conv
  by (rule touches_core) (simp_all add: counts_absent_def core_def item_key_def)

text \<open>What it takes for a pass to conclude anything of a row it did not see.\<close>

definition looked_for :: "ledger_scope \<Rightarrow> pass_view \<Rightarrow> item_row \<Rightarrow> bool" where
  "looked_for sc vw r \<longleftrightarrow> in_scope sc r \<and> (it_collection r, it_natural_key_hash r) \<notin> set (vw_seen vw) \<and>
     it_collection r \<notin> set (vw_unfinished vw) \<and> it_natural_key_hash r \<notin> set (vw_movedByTheLoop vw) \<and>
     it_deletion_applied_at r = None \<and> \<not> truthy (it_superseded_by r) \<and> \<not> truthy (it_moved_to_collection r) \<and>
     it_status r \<notin> {Failed, Left_behind, Superseded}"

definition named_keys :: "pass_view \<Rightarrow> created_item list \<Rightarrow> string set" where
  "named_keys vw created = (\<lambda>i. fst (snd i)) ` set (vw_identities vw) \<union> ci_naturalKeyHash ` set created"

definition detected :: "ledger_scope \<Rightarrow> pass_view \<Rightarrow> created_item list \<Rightarrow> item_row \<Rightarrow> item_row \<Rightarrow> bool" where
  "detected sc vw created r r' \<longleftrightarrow> r' = r \<or> cleared r r' \<or>
     (looked_for sc vw r \<and> (counts_absent r r' \<or> (\<exists>key \<in> named_keys vw created. moves_to key r r')))"

definition concluded :: "pass_view \<Rightarrow> placed_item \<Rightarrow> bool" where
  "concluded vw p \<longleftrightarrow> (pi_collection p, pi_naturalKeyHash p) \<notin> set (vw_seen vw) \<and>
     pi_collection p \<notin> set (vw_unfinished vw) \<and> pi_naturalKeyHash p \<notin> set (vw_movedByTheLoop vw) \<and>
     pi_deletionAppliedAt p = None \<and> pi_supersededByNaturalKeyHash p = None \<and> pi_movedToCollection p = None"

definition arrivals_left :: "created_item list \<Rightarrow> arrivals \<Rightarrow> bool" where
  "arrivals_left created as \<longleftrightarrow> set as \<subseteq> set (arrivals_of created)"

lemma same_document_named:
  "same_document (vw_identities vw) placed p = Some (key, c) \<Longrightarrow> key \<in> named_keys vw created"
  by (auto simp: same_document_def named_keys_def image_iff split: if_splits dest!: find_SomeD intro!: bexI)

lemma arrival_named:
  "first_arrival hash as = Some (x, key, c) \<Longrightarrow> arrivals_left created as \<Longrightarrow> key \<in> named_keys vw created"
  by (auto simp: first_arrival_def named_keys_def arrivals_left_def arrivals_of_def split: if_splits dest!: find_SomeD)

lemma detect_touches:
  assumes "arrivals_left created (mf_arrivals f)"
  shows "touches sc (pi_naturalKeyHash p) (\<lambda>r r'. r' = r \<or> cleared r r' \<or>
        (concluded vw p \<and> (counts_absent r r' \<or> (\<exists>key \<in> named_keys vw created. moves_to key r r'))))
      (mf_rows f) (mf_rows (detect_row now sc vw placed p f))"
    (is "touches sc ?h ?Q _ _")
proof -
  have mono: "touches sc ?h ?Q a b" if "touches sc ?h Q a b" "\<And>r r'. Q r r' \<Longrightarrow> ?Q r r'" for Q a b
    using that unfolding touches_def by blast
  have same: "touches sc ?h ?Q a a" for a by (rule touches_refl) simp
  show ?thesis
  proof (cases "concluded vw p")
    case False
    let ?out = "mf_rows (detect_row now sc vw placed p f)"
    from False have "?out = mf_rows f \<or> ?out = placed_seen now sc p (mf_rows f)"
      by (auto simp: detect_row_def Let_def concluded_def split: option.split)
    moreover have "touches sc ?h ?Q (mf_rows f) (placed_seen now sc p (mf_rows f))"
      by (rule mono [OF placed_seen_clears]) simp
    ultimately show ?thesis using same by auto
  next
    case True
    show ?thesis
    proof (cases "same_document (vw_identities vw) placed p")
      case (Some k)
      then obtain key c where k: "same_document (vw_identities vw) placed p = Some (key, c)" by (cases k) auto
      from same_document_named [OF this] have key: "key \<in> named_keys vw created" .
      have "mf_rows (detect_row now sc vw placed p f) =
          clearAbsent now sc ?h (recordMove now sc ?h c (Some key) (pair_of placed p key) (mf_rows f))"
        using True k by (simp add: detect_row_def Let_def concluded_def)
      moreover have "touches sc ?h ?Q (mf_rows f)
          (clearAbsent now sc ?h (recordMove now sc ?h c (Some key) (pair_of placed p key) (mf_rows f)))"
        by (rule mono [OF moving_clears]) (use True key in blast)
      ultimately show ?thesis by simp
    next
      case None
      show ?thesis
      proof (cases "first_arrival (pi_contentHash p) (mf_arrivals f)")
        case (Some a)
        then obtain x key c where a: "first_arrival (pi_contentHash p) (mf_arrivals f) = Some (x, key, c)"
          by (cases a) auto
        from arrival_named [OF this assms] have key: "key \<in> named_keys vw created" .
        have "mf_rows (detect_row now sc vw placed p f) = recordMove now sc ?h c (Some key) By_content (mf_rows f)"
          using True None a by (simp add: detect_row_def Let_def concluded_def)
        moreover have "touches sc ?h ?Q (mf_rows f) (recordMove now sc ?h c (Some key) By_content (mf_rows f))"
          by (rule mono [OF moving]) (use True key in blast)
        ultimately show ?thesis by simp
      next
        case arr: None
        with True None have "mf_rows (detect_row now sc vw placed p f) = snd (recordAbsent now sc ?h (mf_rows f))"
          by (simp add: detect_row_def Let_def concluded_def split: prod.split)
        moreover have "touches sc ?h ?Q (mf_rows f) (snd (recordAbsent now sc ?h (mf_rows f)))"
          by (rule mono [OF counting]) (use True in blast)
        ultimately show ?thesis by simp
      qed
    qed
  qed
qed

lemma detect_arrivals:
  "arrivals_left created (mf_arrivals f) \<Longrightarrow> arrivals_left created (mf_arrivals (detect_row now sc vw placed p f))"
  by (auto simp: detect_row_def Let_def arrivals_left_def split: option.split prod.split dest: notin_set_remove1 set_mp [OF set_remove1_subset])

definition placed_from :: "ledger_scope \<Rightarrow> items \<Rightarrow> placed_item \<Rightarrow> bool" where
  "placed_from sc rows p \<longleftrightarrow> (\<exists>q \<in> set rows. in_scope sc q \<and> it_natural_key_hash q = pi_naturalKeyHash p \<and>
     it_status q \<notin> {Failed, Left_behind, Superseded} \<and> it_collection q = pi_collection p \<and>
     it_deletion_applied_at q = pi_deletionAppliedAt p \<and> non_empty (it_superseded_by q) = pi_supersededByNaturalKeyHash p \<and>
     non_empty (it_moved_to_collection q) = pi_movedToCollection p)"

lemma placed_items_from: "p \<in> set (placedItems sc rows) \<Longrightarrow> placed_from sc rows p"
  by (auto simp: placedItems_def placed_from_def)

lemma non_empty_None: "non_empty v = None \<longleftrightarrow> \<not> truthy v"
  by (auto simp: non_empty_def truthy_def)

lemma placed_looked_for:
  "concluded vw p \<Longrightarrow> placed_from sc rows p \<Longrightarrow> \<exists>q \<in> set rows. at_key sc (pi_naturalKeyHash p) q \<and> it_collection q = pi_collection p \<and> looked_for sc vw q"
  by (auto simp: concluded_def placed_from_def looked_for_def at_key_def non_empty_None [symmetric])

lemma placed_distinct:
  assumes "keys_unique rows"
  shows "distinct (map pi_naturalKeyHash (placedItems sc rows))"
proof -
  let ?P = "\<lambda>r. in_scope sc r \<and> it_status r \<noteq> Failed \<and> it_status r \<noteq> Left_behind \<and>
        it_status r \<noteq> Superseded \<and> it_collection r \<noteq> []"
  have "map pi_naturalKeyHash (placedItems sc rows) = map it_natural_key_hash (filter ?P rows)"
    by (simp add: placedItems_def)
  moreover have "distinct (map item_key (filter ?P rows))"
    using assms by (simp add: keys_unique_def distinct_map_filter)
  moreover have "map item_key (filter ?P rows) =
      map (\<lambda>k. (sp_tenant sc, sp_mapping sc, k)) (map it_natural_key_hash (filter ?P rows))"
    by (auto simp: item_key_def in_scope_def of_mapping_def)
  ultimately have "distinct (map (\<lambda>k. (sp_tenant sc, sp_mapping sc, k)) (map pi_naturalKeyHash (placedItems sc rows)))"
    by simp
  then show ?thesis by (simp only: distinct_map [of "\<lambda>k. (sp_tenant sc, sp_mapping sc, k)"])
qed

definition rows_so_far :: "ledger_scope \<Rightarrow> pass_view \<Rightarrow> created_item list \<Rightarrow> placed_item list \<Rightarrow> item_row \<Rightarrow> item_row \<Rightarrow> bool" where
  "rows_so_far sc vw created todo r r' \<longleftrightarrow> detected sc vw created r r' \<and> core r' = core r \<and>
     (in_scope sc r \<and> it_natural_key_hash r \<in> pi_naturalKeyHash ` set todo \<longrightarrow> r' = r)"

lemma detect_step:
  assumes "keys_unique rows" and "placed_from sc rows p" and "distinct (map pi_naturalKeyHash (p # todo))"
    and "arrivals_left created (mf_arrivals f)"
    and "list_all2 (rows_so_far sc vw created (p # todo)) rows (mf_rows f)"
  shows "list_all2 (rows_so_far sc vw created todo) rows (mf_rows (detect_row now sc vw placed p f))"
proof -
  let ?h = "pi_naturalKeyHash p"
  from detect_touches [OF assms(4), of sc p vw now placed] obtain F where
    F: "mf_rows (detect_row now sc vw placed p f) = update_where (at_key sc ?h) F (mf_rows f)" and
    each: "\<And>r. at_key sc ?h r \<Longrightarrow> at_key sc ?h (F r) \<and> (F r = r \<or> cleared r (F r) \<or>
        (concluded vw p \<and> (counts_absent r (F r) \<or> (\<exists>key \<in> named_keys vw created. moves_to key r (F r)))))"
    unfolding touches_def by blast
  have step: "rows_so_far sc vw created todo r (if at_key sc ?h r' then F r' else r')"
    if "r \<in> set rows" and so_far: "rows_so_far sc vw created (p # todo) r r'" for r r'
  proof (cases "at_key sc ?h r'")
    case False
    with so_far show ?thesis by (simp add: rows_so_far_def)
  next
    case True
    with so_far have "at_key sc ?h r" using at_key_core [of r' r] by (auto simp: rows_so_far_def)
    with so_far have r': "r' = r" by (auto simp: rows_so_far_def at_key_def)
    have looked: "looked_for sc vw r" if "concluded vw p"
    proof -
      from placed_looked_for [OF that assms(2)] obtain q where
        q: "q \<in> set rows" "at_key sc ?h q" "looked_for sc vw q" by blast
      then have "at_key sc (it_natural_key_hash q) r" "in_scope sc q"
        using \<open>at_key sc ?h r\<close> by (simp_all add: at_key_def)
      then have "r = q" using keyed_row [OF assms(1) q(1) _ \<open>r \<in> set rows\<close>] by blast
      with q show ?thesis by simp
    qed
    have "detected sc vw created r (F r)" using each [OF \<open>at_key sc ?h r\<close>] looked by (auto simp: detected_def)
    moreover have "core (F r) = core r"
      using each [OF \<open>at_key sc ?h r\<close>] by (auto simp: cleared_def counts_absent_def moves_to_def)
    moreover have "it_natural_key_hash r \<notin> pi_naturalKeyHash ` set todo"
      using \<open>at_key sc ?h r\<close> assms(3) by (auto simp: at_key_def)
    ultimately show ?thesis using True r' by (simp add: rows_so_far_def)
  qed
  show ?thesis
    unfolding F update_where_def list.rel_map by (rule list.rel_mono_strong [OF assms(5)]) (rule step)
qed

lemma detect_rows:
  assumes "keys_unique rows"
  shows "list_all2 (detected sc vw created) rows (mf_rows (detectPathKeyedMoves now sc vw created rows))"
proof -
  have "list_all2 (rows_so_far sc vw created []) rows (mf_rows (fold (detect_row now sc vw placed) todo f))"
    if "distinct (map pi_naturalKeyHash todo)" "\<forall>p \<in> set todo. placed_from sc rows p"
      "arrivals_left created (mf_arrivals f)" "list_all2 (rows_so_far sc vw created todo) rows (mf_rows f)" for placed todo f
    using that
  proof (induction todo arbitrary: f)
    case (Cons p todo)
    then show ?case
      using detect_step [OF assms _ Cons.prems(1,3,4), of now placed] detect_arrivals by simp
  qed simp
  note run = this [where todo = "placedItems sc rows" and placed = "placedItems sc rows" and
      f = "\<lparr>mf_moves = [], mf_deletions = [], mf_drift = 0, mf_arrivals = arrivals_of created, mf_rows = rows\<rparr>"]
  have "list_all2 (rows_so_far sc vw created []) rows (mf_rows (detectPathKeyedMoves now sc vw created rows))"
    unfolding detectPathKeyedMoves_def Let_def
    by (rule run) (simp_all add: placed_distinct [OF assms] placed_items_from arrivals_left_def list_all2_same
        rows_so_far_def detected_def)
  then show ?thesis by (rule list_all2_mono) (simp add: rows_so_far_def)
qed

text \<open>A removal that is inferred: of a row that was looked for and missed in enough passes in a row.\<close>

definition inferred_finding :: "ledger_scope \<Rightarrow> pass_view \<Rightarrow> items \<Rightarrow> item_deletion \<Rightarrow> bool" where
  "inferred_finding sc vw rows d \<longleftrightarrow> dl_evidence d = Inferred \<and> DELETION_CONFIRMATIONS \<le> dl_absentPasses d \<and>
     (\<exists>q \<in> set rows. at_key sc (dl_naturalKeyHash d) q \<and> it_collection q = dl_collection d \<and>
       dl_absentPasses d = Suc (it_absent_passes q) \<and> looked_for sc vw q)"

lemma all2_partner:
  assumes "list_all2 R xs ys"
  shows "x \<in> set xs \<Longrightarrow> \<exists>y \<in> set ys. R x y" and "y \<in> set ys \<Longrightarrow> \<exists>x \<in> set xs. R x y"
  using assms by (induction rule: list_all2_induct) auto

lemma rows_to_do:
  "rows_so_far sc vw created todo r r' \<Longrightarrow> in_scope sc r \<Longrightarrow> it_natural_key_hash r \<in> pi_naturalKeyHash ` set todo \<Longrightarrow> r' = r"
  by (simp add: rows_so_far_def)

lemma absent_once_more:
  assumes "keys_unique rows" and "q \<in> set rows" and "at_key sc h q"
    and "list_all2 (rows_so_far sc vw created todo) rows rows'" and "h \<in> pi_naturalKeyHash ` set todo"
  shows "fst (recordAbsent now sc h rows') = Suc (it_absent_passes q)"
proof -
  from assms(3) have q: "in_scope sc q" "it_natural_key_hash q = h" by (simp_all add: at_key_def)
  obtain q' where q': "q' \<in> set rows'" "rows_so_far sc vw created todo q q'"
    using all2_partner(1) [OF assms(4,2)] by (elim bexE) (rule that)
  have "q' = q" using q'(2) q(1) by (rule rows_to_do) (simp only: q(2) assms(5))
  with q'(1) have "q \<in> set rows'" by (simp only:)
  then have found: "q \<in> set (filter (at_key sc h) rows')" by (simp only: set_filter mem_Collect_eq assms(3) simp_thms)
  have only: "r' = q" if r': "r' \<in> set rows'" "at_key sc h r'" for r'
  proof -
    obtain r where r: "r \<in> set rows" "rows_so_far sc vw created todo r r'"
      using all2_partner(2) [OF assms(4) r'(1)] by (elim bexE) (rule that)
    with r'(2) have at: "at_key sc h r" using at_key_core [of r' r] by (simp add: rows_so_far_def)
    with keyed_row [OF assms(1,2) q(1) r(1)] q(2) have same: "r = q" by simp
    show ?thesis using r(2) q(1) unfolding same by (rule rows_to_do) (simp only: q(2) assms(5))
  qed
  have "\<exists>rest. filter (at_key sc h) rows' = q # rest"
  proof (cases "filter (at_key sc h) rows'")
    case (Cons r rest)
    then have "r \<in> set (filter (at_key sc h) rows')" by simp
    then have "r = q" by (intro only) simp_all
    with Cons show ?thesis by blast
  qed (use found in simp)
  then obtain rest where "filter (at_key sc h) rows' = q # rest" ..
  then show ?thesis by (simp add: recordAbsent_def Let_def returning_def)
qed

lemma detect_deletions:
  assumes "keys_unique rows" and "placed_from sc rows p"
    and "list_all2 (rows_so_far sc vw created (p # todo)) rows (mf_rows f)"
    and "list_all (inferred_finding sc vw rows) (mf_deletions f)"
  shows "list_all (inferred_finding sc vw rows) (mf_deletions (detect_row now sc vw placed p f))"
proof (cases "concluded vw p \<and> same_document (vw_identities vw) placed p = None \<and>
    first_arrival (pi_contentHash p) (mf_arrivals f) = None")
  case False
  then have "mf_deletions (detect_row now sc vw placed p f) = mf_deletions f"
    by (auto simp: detect_row_def Let_def concluded_def split: option.split prod.split)
  with assms(4) show ?thesis by simp
next
  case True
  with placed_looked_for assms(2) obtain q where
    q: "q \<in> set rows" "at_key sc (pi_naturalKeyHash p) q" "it_collection q = pi_collection p" "looked_for sc vw q" by blast
  have passes: "fst (recordAbsent now sc (pi_naturalKeyHash p) (mf_rows f)) = Suc (it_absent_passes q)"
    by (rule absent_once_more [OF assms(1) q(1,2) assms(3)]) simp
  show ?thesis
    using True assms(4) q passes
    by (auto simp: detect_row_def Let_def concluded_def inferred_finding_def split: prod.split)
qed

lemma detect_findings:
  assumes "keys_unique rows"
  shows "list_all (inferred_finding sc vw rows) (mf_deletions (detectPathKeyedMoves now sc vw created rows))"
proof -
  have "list_all (inferred_finding sc vw rows) (mf_deletions (fold (detect_row now sc vw placed) todo f))"
    if "distinct (map pi_naturalKeyHash todo)" "\<forall>p \<in> set todo. placed_from sc rows p"
      "arrivals_left created (mf_arrivals f)" "list_all2 (rows_so_far sc vw created todo) rows (mf_rows f)"
      "list_all (inferred_finding sc vw rows) (mf_deletions f)" for placed todo f
    using that
  proof (induction todo arbitrary: f)
    case (Cons p todo)
    then show ?case
      using detect_step [OF assms _ Cons.prems(1,3,4), of now placed] detect_arrivals
        detect_deletions [OF assms _ Cons.prems(4,5), of now placed] by simp
  qed simp
  note run = this [where todo = "placedItems sc rows" and placed = "placedItems sc rows" and
      f = "\<lparr>mf_moves = [], mf_deletions = [], mf_drift = 0, mf_arrivals = arrivals_of created, mf_rows = rows\<rparr>"]
  show ?thesis
    unfolding detectPathKeyedMoves_def Let_def
    by (rule run) (simp_all add: placed_distinct [OF assms] placed_items_from arrivals_left_def list_all2_same
        rows_so_far_def detected_def)
qed

subsection \<open>Properties\<close>

text \<open>
  C6: nothing the pass saw in its place is reported gone, by any of the three that report it. Of a table
  with one row per key, resolving what the source reported removed, or what lay in the owner's bin,
  changes a row only by dating the new evidence, only where the pass saw its key in no collection and the
  ledger holds it on the target, and never a second time; and every finding is about a key the pass did
  not see. Every removal that the detection of moves infers is of a row the pass did not see in its
  collection, in a collection it finished, that has not moved nor been removed, and that as many passes
  in a row missed as it takes, this one the last of them.
\<close>
theorem nothing_seen_is_reported_gone:
  assumes "keys_unique rows"
  shows "list_all2 (dated_or_same now sc seen Reported) rows (snd (resolveReportedRemovals now sc seen removals rows)) \<and>
    list_all (unseen_finding seen Reported) (fst (resolveReportedRemovals now sc seen removals rows)) \<and>
    list_all2 (dated_or_same now sc seen Trashed) rows (snd (resolveDiscardedItems now sc seen discarded rows)) \<and>
    list_all (unseen_finding seen Trashed) (fst (resolveDiscardedItems now sc seen discarded rows)) \<and>
    list_all (inferred_finding sc vw rows) (mf_deletions (detectPathKeyedMoves now sc vw created rows))"
  unfolding resolveReportedRemovals_def resolveDiscardedItems_def
  using reported_findings [OF assms] discarded_findings [OF assms] detect_findings [OF assms] by blast

theorem nothing_seen_is_reported_gone_witness:
  "map dl_naturalKeyHash (fst (resolveDiscardedItems 9 mail_scope [(''INBOX'', ''h2'')] [''h1'', ''h2'', ''h1'']
     [fresh_row 5 a_message, fresh_row 5 (a_message\<lparr>lr_naturalKeyHash := ''h2''\<rparr>)])) = [''h1''] \<and>
   list_all (unseen_finding [(''INBOX'', ''h2'')] Trashed)
     (fst (resolveDiscardedItems 9 mail_scope [(''INBOX'', ''h2'')] [''h1'', ''h2'', ''h1'']
       [fresh_row 5 a_message, fresh_row 5 (a_message\<lparr>lr_naturalKeyHash := ''h2''\<rparr>)]))"
proof -
  let ?rows = "[fresh_row 5 a_message, fresh_row 5 (a_message\<lparr>lr_naturalKeyHash := ''h2''\<rparr>)]"
  have "keys_unique ?rows" by (simp add: keys_unique_def item_key_def fresh_row_def a_message_def)
  note found = nothing_seen_is_reported_gone [OF this, of _ mail_scope "[(''INBOX'', ''h2'')]"]
  have "map dl_naturalKeyHash (fst (resolveDiscardedItems 9 mail_scope [(''INBOX'', ''h2'')] [''h1'', ''h2'', ''h1''] ?rows)) = [''h1'']"
    by code_simp
  with found show ?thesis by blast
qed

text \<open>
  absence is counted only of what was looked for. Of a table with one row per key, the
  detection of moves leaves every row's key, status, content and target as they were; it counts at
  most one more pass without an item, or pairs it with a new name, only where the item is placed,
  was not seen in its collection nor moved by the pass, and the pass finished that collection; and
  a new name is one the pass listed under the same identity or copied itself.
\<close>
theorem absence_counts_only_what_was_looked_for:
  assumes "keys_unique rows"
  shows "list_all2 (\<lambda>r r'. core r' = core r \<and>
      (it_absent_passes r < it_absent_passes r' \<longrightarrow> it_absent_passes r' = Suc (it_absent_passes r) \<and> looked_for sc vw r) \<and>
      (case it_moved_to_natural_key_hash r' of None \<Rightarrow> True
       | Some key \<Rightarrow> it_moved_to_natural_key_hash r = Some key \<or> (looked_for sc vw r \<and> key \<in> named_keys vw created)))
    rows (mf_rows (detectPathKeyedMoves now sc vw created rows))"
  using detect_rows [OF assms, of sc vw created now]
  by (rule list_all2_mono)
    (auto simp: detected_def cleared_def counts_absent_def moves_to_def split: option.split)

theorem absence_counts_only_what_was_looked_for_witness:
  "length (mf_rows (detectPathKeyedMoves 9 mail_scope
     \<lparr>vw_seen = [], vw_movedByTheLoop = [], vw_identities = [], vw_unfinished = []\<rparr> [] [fresh_row 5 a_message])) = 1 \<and>
   map it_absent_passes (mf_rows (detectPathKeyedMoves 9 mail_scope
     \<lparr>vw_seen = [], vw_movedByTheLoop = [], vw_identities = [], vw_unfinished = []\<rparr> [] [fresh_row 5 a_message])) = [1]"
proof -
  let ?vw = "\<lparr>vw_seen = [], vw_movedByTheLoop = [], vw_identities = [], vw_unfinished = []\<rparr>"
  have "keys_unique [fresh_row 5 a_message]" by (simp add: keys_unique_def)
  from absence_counts_only_what_was_looked_for [OF this, of mail_scope ?vw "[]" 9]
  have "length (mf_rows (detectPathKeyedMoves 9 mail_scope ?vw [] [fresh_row 5 a_message])) = 1"
    by (auto dest: list_all2_lengthD)
  moreover have "map it_absent_passes (mf_rows (detectPathKeyedMoves 9 mail_scope ?vw [] [fresh_row 5 a_message])) = [1]"
    by code_simp
  ultimately show ?thesis by blast
qed

end
