(* ===== verification/Sync_Pass.thy ===== *)
theory Sync_Pass
  imports Sync_Findings
begin

text \<open>
  One pass over one data type: \<open>runDomainSync\<close> of \<open>packages/core/src/domain-sync.ts\<close>, the cursors of
  \<open>packages/ledger/src/cursor-store.ts\<close> and the ledger of items. What is outside the program, the
  source, the target, the clock and the owner's presses, is a world \<open>'w\<close> with the functions of
  \<open>DomainSyncDeps\<close> on it, any of which may throw; a function the code may omit is an \<open>option\<close>, or
  gives \<open>None\<close> or the empty list. The handlers of a collection's items run one after another
  (\<open>concurrency\<close> 1). The local variables of the function are fields of the state \<open>pass\<close>, because
  the handler's \<open>catch\<close> and the lines after the loop read what was written before a throw. Timings,
  log lines and the records of application events are left out.
\<close>

subsection \<open>Cursors\<close>

type_synonym cursor_table = "string \<times> string \<times> string \<Rightarrow> string option"

definition cursor_get :: "ledger_scope \<Rightarrow> string \<Rightarrow> cursor_table \<Rightarrow> string option" where
  "cursor_get sc path cs = cs (sp_tenant sc, sp_mapping sc, path)"

definition cursor_set :: "ledger_scope \<Rightarrow> string \<Rightarrow> string \<Rightarrow> cursor_table \<Rightarrow> cursor_table" where
  "cursor_set sc path value cs = cs((sp_tenant sc, sp_mapping sc, path) \<mapsto> value)"

definition cursor_clear :: "ledger_scope \<Rightarrow> cursor_table \<Rightarrow> cursor_table" where
  "cursor_clear sc cs = (\<lambda>(t, m, path). if t = sp_tenant sc \<and> m = sp_mapping sc then None else cs (t, m, path))"

subsection \<open>What the pass is given\<close>

record 'i listing =
  ls_items :: "'i list"
  ls_nextCursor :: string
  ls_removed :: "string list"
  ls_listedElsewhere :: nat

record discarded_listing =
  dd_keys :: "string list"
  dd_unnameable :: nat
  dd_reason :: "string option"

record 'r legacy_key =
  lk_naturalKeyHash :: string
  lk_naturalKey :: string
  lk_raw :: 'r

record ('w, 'i, 'r, 'f) sync_deps =
  dp_scope :: ledger_scope
  dp_dbNow :: "'w \<Rightarrow> timestamp"
  dp_hasCursors :: bool
  dp_downloadMeter :: "('w, js_error, budget_state) prog option"
  dp_firstCopyAllowed :: "(nat \<Rightarrow> bool) option"
  dp_snapshot :: bool
  dp_listFolders :: "('w, js_error, 'f list) prog"
  dp_folderPath :: "'f \<Rightarrow> string option"
  dp_folderName :: "'f \<Rightarrow> string option"
  dp_listSince :: "'f \<Rightarrow> string option \<Rightarrow> ('w, js_error, 'i listing) prog"
  dp_fetchRaw :: "'i \<Rightarrow> ('w, js_error, 'r \<times> nat) prog"
  dp_upsert :: "string \<Rightarrow> 'r \<Rightarrow> 'i \<Rightarrow> upsert_options \<Rightarrow> ('w, js_error, upsert_result) prog"
  dp_sourceVersion :: "'i \<Rightarrow> string option"
  dp_sourceRef :: "'i \<Rightarrow> string option"
  dp_identity :: "'i \<Rightarrow> string option"
  dp_formerNaturalKeys :: "'i \<Rightarrow> string list"
  dp_naturalKey :: "'i \<Rightarrow> string option"
  dp_naturalKeyText :: "'i \<Rightarrow> 'r option \<Rightarrow> string option"
  dp_displayName :: "'i \<Rightarrow> 'r option \<Rightarrow> string option"
  dp_listCollectionKeys :: "('f \<Rightarrow> ('w, js_error, string list) prog) option"
  dp_listDiscardedKeys :: "('w, js_error, discarded_listing) prog option"
  dp_naturalKeyFromRaw :: "('i \<Rightarrow> 'r \<Rightarrow> js_error + string) option"
  dp_legacyKeysFromRaw :: "'i \<Rightarrow> 'r \<Rightarrow> 'r legacy_key list"
  dp_legacyCopyOnTarget :: "(string \<Rightarrow> 'r legacy_key \<Rightarrow> ('w, js_error, bool) prog) option"
  dp_contentHash :: "'r \<Rightarrow> string"
  dp_onCollisionFail :: bool
  dp_ensureCollection :: "'f \<Rightarrow> ('w, js_error, string) prog"
  dp_sourceIsAuthority :: bool
  dp_stillTheAuthority :: "('w, js_error, bool) prog"
  dp_deadline :: "int option"
  dp_now :: "('w, js_error, int) prog"
  dp_whyItStops :: "('w, js_error, pass_stop_reason option) prog option"

subsection \<open>The state of a pass\<close>

record pass_counts =
  pc_scanned :: nat
  pc_created :: nat
  pc_skipped :: nat
  pc_firstCopyBytes :: nat
  pc_adopted :: nat
  pc_failed :: nat
  pc_updated :: nat
  pc_needsDecision :: nat
  pc_leftBehind :: nat
  pc_heldAtCeiling :: nat
  pc_reappeared :: nat
  pc_superseded :: nat
  pc_earlierExports :: nat
  pc_changedButAdopted :: nat
  pc_changedAfterCutover :: nat
  pc_moved :: nat
  pc_conflicted :: nat
  pc_drift :: nat

record unread_collection =
  uc_collection :: string
  uc_name :: string
  uc_error :: string
  uc_category :: failure_category

record item_locals =
  il_key :: "string option"
  il_keyText :: "string option"
  il_name :: "string option"
  il_hash :: string

record 'w pass =
  ps_world :: 'w
  ps_items :: items
  ps_cursors :: cursor_table
  ps_counts :: pass_counts
  ps_failures :: "item_failure list"
  ps_consecutive :: nat
  ps_moves :: "item_move list"
  ps_deletions :: "item_deletion list"
  ps_unplaceable :: "(nat \<times> string option) option"
  ps_removals :: "string list"
  ps_cursorsHeld :: "(string \<times> string) list"
  ps_seen :: seen_keys
  ps_movedByTheLoop :: "string list"
  ps_created :: "created_item list"
  ps_identities :: identities
  ps_formerNames :: "former_name list"
  ps_fullyEnumerated :: bool
  ps_budgetPause :: "budget_state option"
  ps_deadlinePause :: "(int \<times> int) option"
  ps_haltPause :: "(pass_stop_reason \<times> int \<times> int) option"
  ps_startedAt :: int
  ps_lastAskedAt :: "int option"
  ps_notReached :: nat
  ps_unread :: "unread_collection list"
  ps_firstUnreadError :: "js_error option"
  ps_unreadInARow :: nat
  ps_listedOne :: bool
  ps_unfinished :: "string list"
  ps_collection :: "(js_error + string) option"
  ps_ahead :: "(nat \<times> (string \<Rightarrow> ledger_record option)) option"
  ps_item :: item_locals

text \<open>The locals as the function begins, over the stored tables.\<close>

definition no_counts :: pass_counts where
  "no_counts = \<lparr>pc_scanned = 0, pc_created = 0, pc_skipped = 0, pc_firstCopyBytes = 0, pc_adopted = 0, pc_failed = 0,
     pc_updated = 0, pc_needsDecision = 0, pc_leftBehind = 0, pc_heldAtCeiling = 0, pc_reappeared = 0, pc_superseded = 0,
     pc_earlierExports = 0, pc_changedButAdopted = 0, pc_changedAfterCutover = 0, pc_moved = 0, pc_conflicted = 0,
     pc_drift = 0\<rparr>"

definition begin_pass :: "bool \<Rightarrow> int \<Rightarrow> 'w \<Rightarrow> items \<Rightarrow> cursor_table \<Rightarrow> 'w pass" where
  "begin_pass snapshot startedAt world rows cursors =
     \<lparr>ps_world = world, ps_items = rows, ps_cursors = cursors, ps_counts = no_counts, ps_failures = [],
      ps_consecutive = 0, ps_moves = [], ps_deletions = [], ps_unplaceable = None, ps_removals = [], ps_cursorsHeld = [],
      ps_seen = [], ps_movedByTheLoop = [], ps_created = [], ps_identities = [], ps_formerNames = [],
      ps_fullyEnumerated = (\<not> snapshot), ps_budgetPause = None, ps_deadlinePause = None, ps_haltPause = None,
      ps_startedAt = startedAt, ps_lastAskedAt = None, ps_notReached = 0, ps_unread = [], ps_firstUnreadError = None,
      ps_unreadInARow = 0, ps_listedOne = False, ps_unfinished = [], ps_collection = None, ps_ahead = None,
      ps_item = \<lparr>il_key = None, il_keyText = None, il_name = None, il_hash = []\<rparr>\<rparr>"

type_synonym ('w, 'a) pass_prog = "('w pass, js_error, 'a) prog"

subsection \<open>Calls\<close>

definition on_world :: "('w, js_error, 'a) prog \<Rightarrow> ('w, 'a) pass_prog" where
  "on_world m = (\<lambda>s. case m (ps_world s) of (x, w) \<Rightarrow> (x, s\<lparr>ps_world := w\<rparr>))"

definition thrown :: "string \<Rightarrow> js_error" where
  "thrown message = JsError message None None False False None"

definition abortError :: "string \<Rightarrow> js_error option \<Rightarrow> js_error" where
  "abortError message cause = JsError message None None False True cause"

fun ledger_thrown :: "ledger_error \<Rightarrow> js_error" where
  "ledger_thrown No_row_to_update = thrown ''recordUpdate found no row''"
| "ledger_thrown Neither_inserted_nor_found = thrown ''Failed to insert or find record''"

definition ledgerP :: "('w, 'i, 'r, 'f) sync_deps \<Rightarrow> (timestamp \<Rightarrow> (items, ledger_error, 'a) prog) \<Rightarrow> ('w, 'a) pass_prog" where
  "ledgerP deps f = (\<lambda>s. case f (dp_dbNow deps (ps_world s)) (ps_items s) of
     (Inl e, rows) \<Rightarrow> (Inl (ledger_thrown e), s\<lparr>ps_items := rows\<rparr>)
   | (Inr a, rows) \<Rightarrow> (Inr a, s\<lparr>ps_items := rows\<rparr>))"

definition writeP :: "('w, 'i, 'r, 'f) sync_deps \<Rightarrow> (timestamp \<Rightarrow> items \<Rightarrow> items) \<Rightarrow> ('w, unit) pass_prog" where
  "writeP deps f = modifyP (\<lambda>s. s\<lparr>ps_items := f (dp_dbNow deps (ps_world s)) (ps_items s)\<rparr>)"

definition count :: "(pass_counts \<Rightarrow> pass_counts) \<Rightarrow> ('w, unit) pass_prog" where
  "count f = modifyP (\<lambda>s. s\<lparr>ps_counts := f (ps_counts s)\<rparr>)"

definition unfinished :: "string \<Rightarrow> ('w, unit) pass_prog" where
  "unfinished path = modifyP (\<lambda>s. s\<lparr>ps_unfinished := ps_unfinished s @ [path]\<rparr>)"

definition folder_path :: "('w, 'i, 'r, 'f) sync_deps \<Rightarrow> 'f \<Rightarrow> string" where
  "folder_path deps folder = collectionPathOf (dp_folderPath deps folder) (dp_folderName deps folder)"

subsection \<open>Pausing\<close>

definition paused :: "'w pass \<Rightarrow> bool" where
  "paused s \<longleftrightarrow> ps_budgetPause s \<noteq> None \<or> ps_deadlinePause s \<noteq> None \<or> ps_haltPause s \<noteq> None"

definition pauseNow :: "budget_state \<Rightarrow> ('w, unit) pass_prog" where
  "pauseNow st = modifyP (\<lambda>s. if ps_budgetPause s \<noteq> None then s else s\<lparr>ps_budgetPause := Some st\<rparr>)"

definition stopIfPastDeadline :: "('w, 'i, 'r, 'f) sync_deps \<Rightarrow> ('w, bool) pass_prog" where
  "stopIfPastDeadline deps = bindP (readP (\<lambda>s. s)) (\<lambda>s.
     case dp_deadline deps of None \<Rightarrow> ret False
     | Some deadline \<Rightarrow>
         if ps_deadlinePause s \<noteq> None then ret False
         else bindP (on_world (dp_now deps)) (\<lambda>at.
           if at < deadline then ret False
           else thenP (modifyP (\<lambda>s. s\<lparr>ps_deadlinePause := Some (deadline, at - ps_startedAt s)\<rparr>)) (ret True)))"

text \<open>The question is asked again at most once in \<open>PASS_REREAD_EVERY_MS\<close>.\<close>

definition stopIfToldTo :: "('w, 'i, 'r, 'f) sync_deps \<Rightarrow> ('w, bool) pass_prog" where
  "stopIfToldTo deps = bindP (readP (\<lambda>s. s)) (\<lambda>s.
     case dp_whyItStops deps of None \<Rightarrow> ret False
     | Some ask \<Rightarrow>
         if ps_haltPause s \<noteq> None then ret False
         else bindP (on_world (dp_now deps)) (\<lambda>at.
           if (case ps_lastAskedAt s of None \<Rightarrow> False | Some asked \<Rightarrow> at - asked < PASS_REREAD_EVERY_MS) then ret False
           else thenP (modifyP (\<lambda>s. s\<lparr>ps_lastAskedAt := Some at\<rparr>))
             (bindP (on_world ask) (\<lambda>reason. case reason of None \<Rightarrow> ret False
               | Some why \<Rightarrow> thenP (modifyP (\<lambda>s. s\<lparr>ps_haltPause := Some (why, at, at - ps_startedAt s)\<rparr>)) (ret True)))))"

definition stopTakingNewWork :: "('w, 'i, 'r, 'f) sync_deps \<Rightarrow> ('w, bool) pass_prog" where
  "stopTakingNewWork deps = bindP (readP paused) (\<lambda>p. if p then ret True
     else bindP (stopIfPastDeadline deps) (\<lambda>late. if late then ret True else stopIfToldTo deps))"

subsection \<open>Reading ahead, and the collection on the target\<close>

text \<open>The target's collection is made once, and a failure to make it is remembered like its name.\<close>

definition collectionIdOf :: "('w, 'i, 'r, 'f) sync_deps \<Rightarrow> 'f \<Rightarrow> ('w, string) pass_prog" where
  "collectionIdOf deps folder = bindP (readP ps_collection) (\<lambda>made. case made of
     Some (Inl e) \<Rightarrow> throw e
   | Some (Inr i) \<Rightarrow> ret i
   | None \<Rightarrow> (\<lambda>s. case sided Target_side (on_world (dp_ensureCollection deps folder)) s of
       (x, t) \<Rightarrow> (x, t\<lparr>ps_collection := Some x\<rparr>)))"

definition window_keys :: "('w, 'i, 'r, 'f) sync_deps \<Rightarrow> 'i list \<Rightarrow> nat \<Rightarrow> string list" where
  "window_keys deps items window =
     List.map_filter (dp_naturalKey deps) (take LEDGER_READ_AHEAD (drop (window * LEDGER_READ_AHEAD) items))"

definition readAhead ::
    "('w, 'i, 'r, 'f) sync_deps \<Rightarrow> 'i list \<Rightarrow> nat \<Rightarrow> string \<Rightarrow> ('w, ledger_record option) pass_prog" where
  "readAhead deps items index key =
     (let window = index div LEDGER_READ_AHEAD
      in thenP (modifyP (\<lambda>s. if (case ps_ahead s of None \<Rightarrow> True | Some (w, _) \<Rightarrow> w < window)
           then s\<lparr>ps_ahead := Some (window, findMany (dp_scope deps) (window_keys deps items window) (ps_items s))\<rparr> else s))
         (readP (\<lambda>s. case ps_ahead s of Some (w, rows) \<Rightarrow> if w = window then rows key else None | None \<Rightarrow> None)))"

subsection \<open>An item, up to its copy\<close>

definition begin_item :: "('w, 'i, 'r, 'f) sync_deps \<Rightarrow> string \<Rightarrow> 'i \<Rightarrow> ('w, unit) pass_prog" where
  "begin_item deps path item =
     thenP (count (\<lambda>c. c\<lparr>pc_scanned := pc_scanned c + 1\<rparr>))
     (modifyP (\<lambda>s. case dp_naturalKey deps item of
        None \<Rightarrow> s\<lparr>ps_item := \<lparr>il_key = None, il_keyText = dp_naturalKeyText deps item None,
                   il_name = dp_displayName deps item None, il_hash = []\<rparr>\<rparr>
      | Some key \<Rightarrow> s\<lparr>
          ps_item := \<lparr>il_key = Some key, il_keyText = dp_naturalKeyText deps item None,
                      il_name = dp_displayName deps item None, il_hash = []\<rparr>,
          ps_seen := ps_seen s @ [(path, key)],
          ps_identities := ps_identities s @
            (if truthy (dp_identity deps item) then [(the (dp_identity deps item), key, path)] else []),
          ps_formerNames := ps_formerNames s @
            map (\<lambda>former. \<lparr>fn_formerNaturalKeyHash = former, fn_naturalKeyHash = key, fn_sourceRef = dp_sourceRef deps item\<rparr>)
              (filter (\<lambda>former. former \<noteq> key) (dp_formerNaturalKeys deps item))\<rparr>))"

text \<open>Whether the item is done with, or what is to be copied: over which row, and whether it has one.\<close>

datatype item_path = Item_done | Item_copy "ledger_record option" bool

definition done_with :: "(pass_counts \<Rightarrow> pass_counts) \<Rightarrow> ('w, item_path) pass_prog" where
  "done_with f = thenP (count f) (ret Item_done)"

definition asks_for_a_decision :: "('w, 'i, 'r, 'f) sync_deps \<Rightarrow> string \<Rightarrow> ledger_record \<Rightarrow> ('w, unit) pass_prog" where
  "asks_for_a_decision deps key known =
     thenP (count (\<lambda>c. c\<lparr>pc_needsDecision := pc_needsDecision c + 1\<rparr>))
     (modifyP (\<lambda>s. s\<lparr>ps_failures := ps_failures s @
        [\<lparr>fl_domain = sp_domain (dp_scope deps), fl_naturalKeyHash = key, fl_collection = None,
          fl_attempts = (case lr_attemptCount known of Some n \<Rightarrow> n | None \<Rightarrow> MAX_ITEM_ATTEMPTS),
          fl_lastError = (case lr_lastError known of Some e \<Rightarrow> e | None \<Rightarrow> ''(no error recorded)''),
          fl_category = None, fl_lastAttemptAt = None, fl_needsDecision = True, fl_parkedAt = None\<rparr>]\<rparr>))"

definition it_moved :: "('w, 'i, 'r, 'f) sync_deps \<Rightarrow> string \<Rightarrow> string \<Rightarrow> ledger_record \<Rightarrow> ('w, unit) pass_prog" where
  "it_moved deps path key known =
     thenP (modifyP (\<lambda>s. s\<lparr>ps_movedByTheLoop := ps_movedByTheLoop s @ [key]\<rparr>))
     (whenP (\<not> decided known path None)
       (thenP (writeP deps (\<lambda>now. recordMove now (dp_scope deps) key path None By_content))
       (thenP (count (\<lambda>c. c\<lparr>pc_moved := pc_moved c + 1\<rparr>))
         (modifyP (\<lambda>s. s\<lparr>ps_moves := ps_moves s @
            [\<lparr>mv_domain = sp_domain (dp_scope deps), mv_naturalKeyHash = key,
              mv_from = (case lr_collection known of Some c \<Rightarrow> c | None \<Rightarrow> []), mv_to = path,
              mv_toNaturalKeyHash = None, mv_recordedAt = None, mv_acknowledgedAt = None, mv_decided = None\<rparr>]\<rparr>)))))"

definition act_on_known ::
    "('w, 'i, 'r, 'f) sync_deps \<Rightarrow> string \<Rightarrow> string option \<Rightarrow> ledger_record \<Rightarrow> known_item_action \<Rightarrow> ('w, item_path) pass_prog" where
  "act_on_known deps key version known action = (case action of
       Act_skip \<Rightarrow> done_with (\<lambda>c. c\<lparr>pc_skipped := pc_skipped c + 1\<rparr>)
     | Act_record_version \<Rightarrow>
         thenP (ledgerP deps (\<lambda>now. recordUpdate now (known\<lparr>lr_sourceVersion := version\<rparr>)))
           (done_with (\<lambda>c. c\<lparr>pc_skipped := pc_skipped c + 1\<rparr>))
     | Act_leave_adopted \<Rightarrow> done_with (\<lambda>c. c\<lparr>pc_changedButAdopted := pc_changedButAdopted c + 1\<rparr>)
     | Act_left_behind \<Rightarrow> done_with (\<lambda>c. c\<lparr>pc_leftBehind := pc_leftBehind c + 1\<rparr>)
     | Act_tombstoned \<Rightarrow> done_with (\<lambda>c. c\<lparr>pc_reappeared := pc_reappeared c + 1\<rparr>)
     | Act_needs_decision \<Rightarrow> thenP (asks_for_a_decision deps key known) (ret Item_done)
     | Act_rewrite \<Rightarrow>
         if \<not> dp_sourceIsAuthority deps
         then done_with (\<lambda>c. c\<lparr>pc_changedAfterCutover := pc_changedAfterCutover c + 1\<rparr>)
         else ret (Item_copy (Some known) True)
     | _ \<Rightarrow> ret (Item_copy None True))"

definition meet_known ::
    "('w, 'i, 'r, 'f) sync_deps \<Rightarrow> string \<Rightarrow> string \<Rightarrow> string option \<Rightarrow> ledger_record \<Rightarrow> ('w, item_path) pass_prog" where
  "meet_known deps path key version known =
     thenP (whenP (gone_evidence known) (writeP deps (\<lambda>now. clearAbsent now (dp_scope deps) key)))
     (let action = classifyKnownItem known version (Some path)
      in if action = Act_moved then thenP (it_moved deps path key known) (ret Item_done)
         else thenP (whenP (lr_movedToCollection known \<noteq> None) (writeP deps (\<lambda>now. clearMove now (dp_scope deps) key)))
                (act_on_known deps key version known action))"

definition known_item ::
    "('w, 'i, 'r, 'f) sync_deps \<Rightarrow> 'i list \<Rightarrow> string \<Rightarrow> nat \<Rightarrow> 'i \<Rightarrow> ('w, item_path) pass_prog" where
  "known_item deps items path index item = (case dp_naturalKey deps item of
       None \<Rightarrow> ret (Item_copy None False)
     | Some key \<Rightarrow> bindP (readAhead deps items index key) (\<lambda>ahead.
         if (case ahead of None \<Rightarrow> False | Some row \<Rightarrow> quietSkip row (dp_sourceVersion deps item) path)
         then done_with (\<lambda>c. c\<lparr>pc_skipped := pc_skipped c + 1\<rparr>)
         else bindP (readP (\<lambda>s. find_item (dp_scope deps) key (ps_items s))) (\<lambda>known. case known of
             None \<Rightarrow> ret (Item_copy None False)
           | Some row \<Rightarrow> meet_known deps path key (dp_sourceVersion deps item) row)))"

subsection \<open>The copy\<close>

definition held_now :: "('w, 'i, 'r, 'f) sync_deps \<Rightarrow> 'w pass \<Rightarrow> bool" where
  "held_now deps s \<longleftrightarrow> (case dp_firstCopyAllowed deps of None \<Rightarrow> False
     | Some allowed \<Rightarrow> \<not> allowed (pc_firstCopyBytes (ps_counts s)))"

definition hold :: "('w, unit) pass_prog" where
  "hold = count (\<lambda>c. c\<lparr>pc_heldAtCeiling := pc_heldAtCeiling c + 1\<rparr>)"

text \<open>The day's budget is spent: the item is not this pass's.\<close>

definition take_back :: "budget_state \<Rightarrow> ('w, unit) pass_prog" where
  "take_back st = thenP (pauseNow st) (count (\<lambda>c. c\<lparr>pc_scanned := pc_scanned c - 1\<rparr>))"

fun first_known :: "ledger_scope \<Rightarrow> 'r legacy_key list \<Rightarrow> items \<Rightarrow> ('r legacy_key \<times> ledger_record) option" where
  "first_known sc [] rows = None"
| "first_known sc (legacy # earlier) rows =
     (case find_item sc (lk_naturalKeyHash legacy) rows of Some row \<Rightarrow> Some (legacy, row)
      | None \<Rightarrow> first_known sc earlier rows)"

fun ask_target ::
    "(string \<Rightarrow> 'r legacy_key \<Rightarrow> ('w, js_error, bool) prog) \<Rightarrow> string \<Rightarrow> 'r legacy_key list \<Rightarrow>
     ('w, 'r legacy_key option) pass_prog" where
  "ask_target ask collection [] = ret None"
| "ask_target ask collection (legacy # earlier) =
     bindP (on_world (ask collection legacy)) (\<lambda>there.
       if there then ret (Some legacy) else ask_target ask collection earlier)"

text \<open>The row of an item keyed by its bytes, under the key of today or an earlier one.\<close>

definition known_after_fetch ::
    "('w, 'i, 'r, 'f) sync_deps \<Rightarrow> 'f \<Rightarrow> string \<Rightarrow> 'r legacy_key list \<Rightarrow>
     ('w, ledger_record option \<times> 'r legacy_key option) pass_prog" where
  "known_after_fetch deps folder key earlier =
     bindP (readP (\<lambda>s. (find_item (dp_scope deps) key (ps_items s), first_known (dp_scope deps) earlier (ps_items s))))
     (\<lambda>(known, legacy). case known of Some row \<Rightarrow> ret (Some row, None)
      | None \<Rightarrow> (case legacy of Some (legacyKey, row) \<Rightarrow> ret (Some row, Some legacyKey)
        | None \<Rightarrow> (case dp_legacyCopyOnTarget deps of None \<Rightarrow> ret (None, None)
          | Some ask \<Rightarrow> if earlier = [] then ret (None, None)
              else bindP (collectionIdOf deps folder) (\<lambda>collection.
                bindP (ask_target ask collection earlier) (\<lambda>found. ret (None, found))))))"

text \<open>What is to be written of an item keyed by its bytes, and whether it has a row; or nothing.\<close>

definition key_from_raw ::
    "('w, 'i, 'r, 'f) sync_deps \<Rightarrow> 'f \<Rightarrow> string \<Rightarrow> 'i \<Rightarrow> 'r \<Rightarrow> ('w, ('r \<times> bool) option) pass_prog" where
  "key_from_raw deps folder path item raw = (case dp_naturalKeyFromRaw deps of
       None \<Rightarrow> throw (thrown ''naturalKey returned undefined but no naturalKeyFromRaw was supplied'')
     | Some f \<Rightarrow> (case f item raw of Inl e \<Rightarrow> throw e
       | Inr key \<Rightarrow>
          let earlier = dp_legacyKeysFromRaw deps item raw
          in thenP (modifyP (\<lambda>s. s\<lparr>ps_item := (ps_item s)\<lparr>il_key := Some key,
               il_keyText := (case dp_naturalKeyText deps item (Some raw) of Some t \<Rightarrow> Some t | None \<Rightarrow> il_keyText (ps_item s))\<rparr>\<rparr>))
             (bindP (catchP (known_after_fetch deps folder key earlier)
                (\<lambda>e. thenP (whenP (earlier \<noteq> []) (modifyP (\<lambda>s. s\<lparr>ps_item := (ps_item s)\<lparr>il_key := None\<rparr>\<rparr>))) (throw e)))
             (\<lambda>(known, legacyKey).
               let derived = (case legacyKey of None \<Rightarrow> key | Some l \<Rightarrow> lk_naturalKeyHash l);
                   raw' = (case legacyKey of None \<Rightarrow> raw | Some l \<Rightarrow> lk_raw l)
               in thenP (modifyP (\<lambda>s. s\<lparr>ps_seen := ps_seen s @ [(path, derived)],
                      ps_item := (case legacyKey of None \<Rightarrow> ps_item s
                        | Some l \<Rightarrow> (ps_item s)\<lparr>il_key := Some derived, il_keyText := Some (lk_naturalKey l)\<rparr>)\<rparr>))
                  (case known of None \<Rightarrow> ret (Some (raw', False))
                   | Some row \<Rightarrow>
                       (case classifyKnownItem row None (Some path) of
                          Act_left_behind \<Rightarrow> thenP (count (\<lambda>c. c\<lparr>pc_leftBehind := pc_leftBehind c + 1\<rparr>)) (ret None)
                        | Act_tombstoned \<Rightarrow> thenP (count (\<lambda>c. c\<lparr>pc_reappeared := pc_reappeared c + 1\<rparr>)) (ret None)
                        | Act_needs_decision \<Rightarrow> thenP (asks_for_a_decision deps derived row) (ret None)
                        | Act_retry_failed \<Rightarrow> ret (Some (raw', True))
                        | Act_relocated_away \<Rightarrow> ret (Some (raw', True))
                        | _ \<Rightarrow> thenP (count (\<lambda>c. c\<lparr>pc_skipped := pc_skipped c + 1\<rparr>)) (ret None)))))))"

definition row_for ::
    "('w, 'i, 'r, 'f) sync_deps \<Rightarrow> string \<Rightarrow> 'i \<Rightarrow> nat \<Rightarrow> upsert_result \<Rightarrow> 'w pass \<Rightarrow> ledger_record" where
  "row_for deps path item sizeBytes result s =
     \<lparr>lr_tenantId = sp_tenant (dp_scope deps), lr_mappingId = sp_mapping (dp_scope deps),
      lr_itemType = sp_domain (dp_scope deps),
      lr_naturalKeyHash = (case il_key (ps_item s) of Some key \<Rightarrow> key | None \<Rightarrow> []),
      lr_naturalKey = il_keyText (ps_item s), lr_displayName = il_name (ps_item s), lr_repaired = None,
      lr_contentHash = il_hash (ps_item s), lr_targetId = ur_targetId result,
      lr_createdAt = dp_dbNow deps (ps_world s), lr_sizeBytes = Some sizeBytes,
      lr_status = Some (if ur_created result then Copied else if ur_adopted result then Adopted else Updated),
      lr_supersededByNaturalKeyHash = None, lr_collection = Some path, lr_targetVersion = ur_targetVersion result,
      lr_sourceRef = dp_sourceRef deps item, lr_absentPasses = None, lr_deletionReportedAt = None,
      lr_deletionTrashedAt = None, lr_deletionAcknowledgedAt = None, lr_deletionAppliedAt = None,
      lr_movedToCollection = None, lr_movedToNaturalKeyHash = None, lr_movedByIdentity = False,
      lr_movedRecordedAt = None, lr_moveAcknowledgedAt = None, lr_attemptCount = None, lr_parkedAt = None,
      lr_lastError = None, lr_lastErrorCategory = None, lr_sourceVersion = dp_sourceVersion deps item\<rparr>"

definition upsert_options_for ::
    "('w, 'i, 'r, 'f) sync_deps \<Rightarrow> string \<Rightarrow> 'i \<Rightarrow> ledger_record option \<Rightarrow> upsert_options" where
  "upsert_options_for deps path item rewriteOf =
     \<lparr>uo_overwrite = (rewriteOf \<noteq> None),
      uo_expectedTargetVersion = (case rewriteOf of None \<Rightarrow> None | Some known \<Rightarrow> lr_targetVersion known),
      uo_sourceVersion = dp_sourceVersion deps item, uo_collection = Some path, uo_sourceRef = dp_sourceRef deps item\<rparr>"

text \<open>What the counters and the loop remember of a copy that was written.\<close>

definition count_copy ::
    "('w, 'i, 'r, 'f) sync_deps \<Rightarrow> string \<Rightarrow> 'i \<Rightarrow> ledger_record option \<Rightarrow> nat \<Rightarrow> upsert_result \<Rightarrow> ('w, unit) pass_prog" where
  "count_copy deps path item rewriteOf sizeBytes result =
     (if rewriteOf \<noteq> None then count (\<lambda>c. c\<lparr>pc_updated := pc_updated c + 1\<rparr>)
      else if ur_created result
      then thenP (count (\<lambda>c. c\<lparr>pc_created := pc_created c + 1, pc_firstCopyBytes := pc_firstCopyBytes c + sizeBytes\<rparr>))
        (modifyP (\<lambda>s. s\<lparr>ps_created := ps_created s @
           [\<lparr>ci_naturalKeyHash = (case il_key (ps_item s) of Some key \<Rightarrow> key | None \<Rightarrow> []),
             ci_contentHash = il_hash (ps_item s), ci_collection = path,
             ci_identity = non_empty (dp_identity deps item)\<rparr>]\<rparr>))
      else if ur_adopted result
      then thenP (count (\<lambda>c. c\<lparr>pc_adopted := pc_adopted c + 1\<rparr>))
        (whenP (dp_onCollisionFail deps) (throw (abortError ''Collision on the destination'' None)))
      else count (\<lambda>c. c\<lparr>pc_skipped := pc_skipped c + 1\<rparr>))"

definition place_item ::
    "('w, 'i, 'r, 'f) sync_deps \<Rightarrow> 'f \<Rightarrow> string \<Rightarrow> 'i \<Rightarrow> ledger_record option \<Rightarrow> bool \<Rightarrow> 'r \<Rightarrow> nat \<Rightarrow> ('w, unit) pass_prog" where
  "place_item deps folder path item rewriteOf hasRow raw sizeBytes =
     thenP (modifyP (\<lambda>s. s\<lparr>ps_item := (ps_item s)\<lparr>il_hash := dp_contentHash deps raw\<rparr>\<rparr>))
     (bindP (collectionIdOf deps folder) (\<lambda>collection.
      bindP (sided Target_side (on_world (dp_upsert deps collection raw item (upsert_options_for deps path item rewriteOf))))
      (\<lambda>result.
        if ur_conflicted result
        then thenP (count (\<lambda>c. c\<lparr>pc_conflicted := pc_conflicted c + 1\<rparr>))
          (case rewriteOf of None \<Rightarrow> throw (ledger_thrown No_row_to_update)
           | Some known \<Rightarrow>
              thenP (ledgerP deps (\<lambda>now. recordUpdate now
                  (known\<lparr>lr_status := Some Adopted, lr_targetId := ur_targetId result\<rparr>))) (ret ()))
        else bindP (readP (row_for deps path item sizeBytes result)) (\<lambda>row.
          thenP (ledgerP deps (\<lambda>now. if hasRow then recordUpdate now row else recordIfAbsent now row))
          (thenP (modifyP (\<lambda>s. s\<lparr>ps_consecutive := 0\<rparr>))
            (count_copy deps path item rewriteOf sizeBytes result))))))"

definition copy_item ::
    "('w, 'i, 'r, 'f) sync_deps \<Rightarrow> 'f \<Rightarrow> string \<Rightarrow> 'i \<Rightarrow> ledger_record option \<Rightarrow> bool \<Rightarrow> ('w, unit) pass_prog" where
  "copy_item deps folder path item rewriteOf hasRow =
     (let keyedByItsBytes = (dp_naturalKey deps item = None);
          fetch_and_place =
            bindP (sided Source_side (on_world (dp_fetchRaw deps item))) (\<lambda>(raw, sizeBytes).
            thenP (modifyP (\<lambda>s. s\<lparr>ps_item := (ps_item s)\<lparr>il_name :=
                (case dp_displayName deps item (Some raw) of Some n \<Rightarrow> Some n | None \<Rightarrow> il_name (ps_item s))\<rparr>\<rparr>))
            (if keyedByItsBytes
             then bindP (key_from_raw deps folder path item raw) (\<lambda>settled. case settled of
                 None \<Rightarrow> ret ()
               | Some (raw', hasRow') \<Rightarrow> bindP (readP (held_now deps)) (\<lambda>held.
                   if rewriteOf = None \<and> held then hold
                   else place_item deps folder path item rewriteOf (hasRow \<or> hasRow') raw' sizeBytes))
             else place_item deps folder path item rewriteOf hasRow raw sizeBytes))
      in bindP (readP (held_now deps)) (\<lambda>held.
         if \<not> keyedByItsBytes \<and> rewriteOf = None \<and> held then hold
         else case dp_downloadMeter deps of None \<Rightarrow> fetch_and_place
         | Some meter \<Rightarrow> bindP (on_world meter) (\<lambda>st.
             if bs_remainingBytes st \<le> 0 then take_back st else fetch_and_place)))"

subsection \<open>A failure of one item\<close>

definition failure_record :: "('w, 'i, 'r, 'f) sync_deps \<Rightarrow> string \<Rightarrow> 'i \<Rightarrow> string \<Rightarrow> 'w pass \<Rightarrow> ledger_record" where
  "failure_record deps path item key s =
     \<lparr>lr_tenantId = sp_tenant (dp_scope deps), lr_mappingId = sp_mapping (dp_scope deps),
      lr_itemType = sp_domain (dp_scope deps), lr_naturalKeyHash = key,
      lr_naturalKey = il_keyText (ps_item s), lr_displayName = il_name (ps_item s), lr_repaired = None,
      lr_contentHash = il_hash (ps_item s), lr_targetId = [], lr_createdAt = dp_dbNow deps (ps_world s),
      lr_sizeBytes = Some 0, lr_status = Some Failed,
      lr_supersededByNaturalKeyHash = None, lr_collection = Some path, lr_targetVersion = None,
      lr_sourceRef = dp_sourceRef deps item, lr_absentPasses = None, lr_deletionReportedAt = None,
      lr_deletionTrashedAt = None, lr_deletionAcknowledgedAt = None, lr_deletionAppliedAt = None,
      lr_movedToCollection = None, lr_movedToNaturalKeyHash = None, lr_movedByIdentity = False,
      lr_movedRecordedAt = None, lr_moveAcknowledgedAt = None, lr_attemptCount = None, lr_parkedAt = None,
      lr_lastError = None, lr_lastErrorCategory = None, lr_sourceVersion = None\<rparr>"

definition too_many_in_a_row :: "js_error \<Rightarrow> ('w, unit) pass_prog" where
  "too_many_in_a_row e = bindP (readP ps_consecutive) (\<lambda>n.
     if ABORT_AFTER_CONSECUTIVE_FAILURES \<le> n then throw (abortError ''items failed in a row'' (Some e)) else ret ())"

definition record_item_failure ::
    "('w, 'i, 'r, 'f) sync_deps \<Rightarrow> string \<Rightarrow> 'i \<Rightarrow> js_error \<Rightarrow> string \<Rightarrow> ('w, unit) pass_prog" where
  "record_item_failure deps path item e key =
     bindP (readP (failure_record deps path item key)) (\<lambda>rc.
     bindP (ledgerP deps (\<lambda>now. recordFailure now rc (err_message e)
        \<lparr>fo_park = err_decision e, fo_side = failureSideOf e, fo_category = statedFailureCategoryOf e\<rparr>)) (\<lambda>row.
       let attempts = (case lr_attemptCount row of Some n \<Rightarrow> n | None \<Rightarrow> 1);
           parked = (err_decision e \<or> MAX_ITEM_ATTEMPTS \<le> attempts)
       in thenP (whenP parked (count (\<lambda>c. c\<lparr>pc_needsDecision := pc_needsDecision c + 1\<rparr>)))
          (modifyP (\<lambda>s. s\<lparr>ps_failures := ps_failures s @
             [\<lparr>fl_domain = sp_domain (dp_scope deps), fl_naturalKeyHash = key, fl_collection = None,
               fl_attempts = attempts, fl_lastError = err_message e, fl_category = None, fl_lastAttemptAt = None,
               fl_needsDecision = parked, fl_parkedAt = None\<rparr>]\<rparr>))))"

definition item_failed :: "('w, 'i, 'r, 'f) sync_deps \<Rightarrow> string \<Rightarrow> 'i \<Rightarrow> js_error \<Rightarrow> ('w, unit) pass_prog" where
  "item_failed deps path item e =
     (if err_abort e then throw e
      else thenP (count (\<lambda>c. c\<lparr>pc_failed := pc_failed c + 1\<rparr>))
        (thenP (whenP (\<not> err_decision e) (modifyP (\<lambda>s. s\<lparr>ps_consecutive := ps_consecutive s + 1\<rparr>)))
        (bindP (readP (\<lambda>s. il_key (ps_item s))) (\<lambda>key. case key of
            None \<Rightarrow> too_many_in_a_row e
          | Some k \<Rightarrow> thenP (record_item_failure deps path item e k) (too_many_in_a_row e)))))"

definition handle_item ::
    "('w, 'i, 'r, 'f) sync_deps \<Rightarrow> 'f \<Rightarrow> string \<Rightarrow> 'i list \<Rightarrow> nat \<times> 'i \<Rightarrow> ('w, unit) pass_prog" where
  "handle_item deps folder path items = (\<lambda>(index, item).
     bindP (stopTakingNewWork deps) (\<lambda>stop.
       if stop then unfinished path
       else thenP (begin_item deps path item)
         (bindP (known_item deps items path index item) (\<lambda>p. case p of
            Item_done \<Rightarrow> ret ()
          | Item_copy rewriteOf hasRow \<Rightarrow>
              catchP (copy_item deps folder path item rewriteOf hasRow) (item_failed deps path item)))))"

subsection \<open>A collection\<close>

definition tableP :: "('w, 'i, 'r, 'f) sync_deps \<Rightarrow> (timestamp \<Rightarrow> items \<Rightarrow> 'a \<times> items) \<Rightarrow> ('w, 'a) pass_prog" where
  "tableP deps f = (\<lambda>s. case f (dp_dbNow deps (ps_world s)) (ps_items s) of (a, rows) \<Rightarrow> (Inr a, s\<lparr>ps_items := rows\<rparr>))"

text \<open>A collection that could not be listed is passed over, unless the failure ends the pass.\<close>

definition unread_folder :: "('w, 'i, 'r, 'f) sync_deps \<Rightarrow> 'f \<Rightarrow> js_error \<Rightarrow> ('w, unit) pass_prog" where
  "unread_folder deps folder e =
     (let path = folder_path deps folder;
          category = classifyFailure (Some (err_message e)) (Some Source_side) (statedFailureCategoryOf e);
          name = (if sp_domain (dp_scope deps) \<in> {Email, File} then path
                  else case dp_folderName deps folder of Some n \<Rightarrow> n | None \<Rightarrow> path)
      in if category \<in> set ENDS_THE_PASS_AT_ONCE then throw e
         else thenP (modifyP (\<lambda>s. s\<lparr>ps_unreadInARow := ps_unreadInARow s + 1\<rparr>))
           (bindP (readP ps_unreadInARow) (\<lambda>n.
              if ABORT_AFTER_CONSECUTIVE_UNREAD_COLLECTIONS \<le> n then throw e
              else thenP (modifyP (\<lambda>s. s\<lparr>
                     ps_firstUnreadError := (case ps_firstUnreadError s of None \<Rightarrow> Some e | Some first \<Rightarrow> Some first),
                     ps_unread := ps_unread s @
                       [\<lparr>uc_collection = path, uc_name = name, uc_error = err_message e, uc_category = category\<rparr>]\<rparr>))
                (unfinished path))))"

text \<open>The keys a collection holds, where the source can name them without their items.\<close>

definition list_keys :: "('w, 'i, 'r, 'f) sync_deps \<Rightarrow> 'f \<Rightarrow> string option \<Rightarrow> ('w, unit) pass_prog" where
  "list_keys deps folder prev = (case dp_listCollectionKeys deps of
       Some keys_of \<Rightarrow>
         catchP (bindP (sided Source_side (on_world (keys_of folder))) (\<lambda>keys.
             modifyP (\<lambda>s. s\<lparr>ps_seen := ps_seen s @ map (Pair (folder_path deps folder)) keys\<rparr>)))
           (\<lambda>e. modifyP (\<lambda>s. s\<lparr>ps_fullyEnumerated := False\<rparr>))
     | None \<Rightarrow> whenP (prev \<noteq> None) (modifyP (\<lambda>s. s\<lparr>ps_fullyEnumerated := False\<rparr>)))"

definition handle_items :: "('w, 'i, 'r, 'f) sync_deps \<Rightarrow> 'f \<Rightarrow> 'i list \<Rightarrow> ('w, unit) pass_prog" where
  "handle_items deps folder items =
     forP (List.enumerate 0 items) (handle_item deps folder (folder_path deps folder) items)"

definition retryablePending :: "'w pass \<Rightarrow> bool" where
  "retryablePending s \<longleftrightarrow> list_ex (\<lambda>f. \<not> fl_needsDecision f) (ps_failures s)"

definition firstReadSawNothing :: "string option \<Rightarrow> 'i listing \<Rightarrow> bool" where
  "firstReadSawNothing prev listing \<longleftrightarrow>
     prev = None \<and> ls_items listing = [] \<and> ls_removed listing = [] \<and> ls_listedElsewhere listing = 0"

definition may_advance :: "('w, 'i, 'r, 'f) sync_deps \<Rightarrow> string option \<Rightarrow> 'i listing \<Rightarrow> nat \<Rightarrow> 'w pass \<Rightarrow> bool" where
  "may_advance deps prev listing heldBefore s \<longleftrightarrow>
     dp_hasCursors deps \<and> \<not> retryablePending s \<and> \<not> paused s \<and> \<not> firstReadSawNothing prev listing \<and>
     \<not> heldBefore < pc_heldAtCeiling (ps_counts s)"

text \<open>
  The cursor of a collection that reported removals waits until they are resolved; any other
  cursor is stored at once.
\<close>

definition advance_cursor ::
    "('w, 'i, 'r, 'f) sync_deps \<Rightarrow> string \<Rightarrow> string option \<Rightarrow> 'i listing \<Rightarrow> nat \<Rightarrow> ('w, unit) pass_prog" where
  "advance_cursor deps path prev listing heldBefore =
     bindP (readP (may_advance deps prev listing heldBefore)) (\<lambda>may. whenP may
       (modifyP (\<lambda>s.
          if dp_sourceIsAuthority deps \<and> ls_removed listing \<noteq> []
          then s\<lparr>ps_cursorsHeld := ps_cursorsHeld s @ [(path, ls_nextCursor listing)]\<rparr>
          else s\<lparr>ps_cursors := cursor_set (dp_scope deps) path (ls_nextCursor listing) (ps_cursors s)\<rparr>)))"

definition read_folder ::
    "('w, 'i, 'r, 'f) sync_deps \<Rightarrow> 'f \<Rightarrow> string option \<Rightarrow> 'i listing \<Rightarrow> ('w, unit) pass_prog" where
  "read_folder deps folder prev listing =
     thenP (modifyP (\<lambda>s. s\<lparr>ps_unreadInARow := 0, ps_listedOne := True\<rparr>))
     (bindP (readP (\<lambda>s. pc_heldAtCeiling (ps_counts s))) (\<lambda>heldBefore.
       thenP (whenP (dp_sourceIsAuthority deps) (modifyP (\<lambda>s. s\<lparr>ps_removals := ps_removals s @ ls_removed listing\<rparr>)))
       (thenP (list_keys deps folder prev)
       (thenP (handle_items deps folder (ls_items listing))
              (advance_cursor deps (folder_path deps folder) prev listing heldBefore)))))"

definition prev_cursor :: "('w, 'i, 'r, 'f) sync_deps \<Rightarrow> string \<Rightarrow> 'w pass \<Rightarrow> string option" where
  "prev_cursor deps path s = (if dp_hasCursors deps then cursor_get (dp_scope deps) path (ps_cursors s) else None)"

text \<open>The listing, or \<open>None\<close> for a collection that was passed over.\<close>

definition list_folder :: "('w, 'i, 'r, 'f) sync_deps \<Rightarrow> 'f \<Rightarrow> string option \<Rightarrow> ('w, 'i listing option) pass_prog" where
  "list_folder deps folder prev =
     catchP (bindP (sided Source_side (on_world (dp_listSince deps folder prev))) (\<lambda>listing. ret (Some listing)))
       (\<lambda>e. thenP (unread_folder deps folder e) (ret None))"

definition sync_folder :: "('w, 'i, 'r, 'f) sync_deps \<Rightarrow> 'f \<Rightarrow> ('w, unit) pass_prog" where
  "sync_folder deps folder =
     bindP (stopTakingNewWork deps) (\<lambda>stop.
       if stop
       then thenP (modifyP (\<lambda>s. s\<lparr>ps_notReached := ps_notReached s + 1\<rparr>)) (unfinished (folder_path deps folder))
       else thenP (modifyP (\<lambda>s. s\<lparr>ps_collection := None, ps_ahead := None\<rparr>))
         (bindP (readP (prev_cursor deps (folder_path deps folder))) (\<lambda>prev.
           thenP (whenP (prev = None) (thenP (collectionIdOf deps folder) (ret ())))
           (bindP (list_folder deps folder prev) (\<lambda>listed. case listed of
              None \<Rightarrow> ret ()
            | Some listing \<Rightarrow> read_folder deps folder prev listing)))))"

subsection \<open>What the pass concludes\<close>

definition reachedEveryCollection :: "bool \<Rightarrow> 'w pass \<Rightarrow> bool" where
  "reachedEveryCollection listedNothing s \<longleftrightarrow> \<not> listedNothing \<and> ps_unfinished s = []"

text \<open>Removals are resolved, and their cursors stored, only once every collection was reached.\<close>

definition resolve_removals :: "('w, 'i, 'r, 'f) sync_deps \<Rightarrow> bool \<Rightarrow> bool \<Rightarrow> ('w, unit) pass_prog" where
  "resolve_removals deps stillDecides reached =
     whenP reached
       (thenP (bindP (readP (\<lambda>s. s)) (\<lambda>s.
          whenP (stillDecides \<and> ps_removals s \<noteq> [])
            (bindP (tableP deps (\<lambda>now. resolveReportedRemovals now (dp_scope deps) (ps_seen s) (ps_removals s)))
              (\<lambda>found. modifyP (\<lambda>s. s\<lparr>ps_deletions := ps_deletions s @ found\<rparr>)))))
       (whenP (dp_hasCursors deps)
         (modifyP (\<lambda>s. s\<lparr>ps_cursors :=
            fold (\<lambda>(path, cursor). cursor_set (dp_scope deps) path cursor) (ps_cursorsHeld s) (ps_cursors s)\<rparr>))))"

definition told_to_stop :: "('w, 'i, 'r, 'f) sync_deps \<Rightarrow> ('w, bool) pass_prog" where
  "told_to_stop deps = (case dp_whyItStops deps of None \<Rightarrow> ret False
     | Some ask \<Rightarrow> bindP (on_world ask) (\<lambda>reason. ret (reason \<noteq> None)))"

definition discarded_found :: "('w, 'i, 'r, 'f) sync_deps \<Rightarrow> discarded_listing \<Rightarrow> ('w, unit) pass_prog" where
  "discarded_found deps listing =
     thenP (whenP (0 < dd_unnameable listing)
         (modifyP (\<lambda>s. s\<lparr>ps_unplaceable := Some (dd_unnameable listing, non_empty (dd_reason listing))\<rparr>)))
       (bindP (readP ps_seen) (\<lambda>seen.
         whenP (dd_keys listing \<noteq> [])
           (bindP (tableP deps (\<lambda>now. resolveDiscardedItems now (dp_scope deps) seen (dd_keys listing)))
             (\<lambda>found. modifyP (\<lambda>s. s\<lparr>ps_deletions := ps_deletions s @ found\<rparr>)))))"

definition read_bin :: "('w, 'i, 'r, 'f) sync_deps \<Rightarrow> bool \<Rightarrow> bool \<Rightarrow> ('w, unit) pass_prog" where
  "read_bin deps stillDecides reached =
     (case (if stillDecides then dp_listDiscardedKeys deps else None) of None \<Rightarrow> ret ()
      | Some bin \<Rightarrow> whenP reached
          (bindP (told_to_stop deps) (\<lambda>told. whenP (\<not> told)
            (bindP (catchP (bindP (sided Source_side (on_world bin)) (\<lambda>listing. ret (Some listing))) (\<lambda>e. ret None))
              (\<lambda>listing. case listing of None \<Rightarrow> ret () | Some l \<Rightarrow> discarded_found deps l)))))"

definition close_former_names :: "('w, 'i, 'r, 'f) sync_deps \<Rightarrow> bool \<Rightarrow> ('w, unit) pass_prog" where
  "close_former_names deps reached =
     bindP (readP (\<lambda>s. s)) (\<lambda>s.
       let unlisted = filter (\<lambda>f. \<not> seenAnywhere (ps_seen s) (fn_formerNaturalKeyHash f)) (ps_formerNames s)
       in whenP (ps_fullyEnumerated s \<and> reached \<and> unlisted \<noteq> [])
         (bindP (tableP deps (\<lambda>now rows. prod.swap (supersedeFormerNames now (dp_scope deps) unlisted rows))) (\<lambda>closed.
          thenP (count (\<lambda>c. c\<lparr>pc_superseded := length closed\<rparr>))
          (bindP (tableP deps (\<lambda>now rows. prod.swap (markEarlierExports now (dp_scope deps) unlisted rows))) (\<lambda>marked.
             count (\<lambda>c. c\<lparr>pc_earlierExports := length marked\<rparr>))))))"

definition view_of :: "'w pass \<Rightarrow> pass_view" where
  "view_of s = \<lparr>vw_seen = ps_seen s, vw_movedByTheLoop = ps_movedByTheLoop s, vw_identities = ps_identities s,
     vw_unfinished = ps_unfinished s\<rparr>"

definition detect_moves :: "('w, 'i, 'r, 'f) sync_deps \<Rightarrow> bool \<Rightarrow> ('w, unit) pass_prog" where
  "detect_moves deps stillDecides =
     bindP (readP (\<lambda>s. s)) (\<lambda>s.
       whenP (sp_domain (dp_scope deps) = File \<and> ps_fullyEnumerated s \<and> stillDecides)
         (bindP (tableP deps (\<lambda>now rows.
             let f = detectPathKeyedMoves now (dp_scope deps) (view_of s) (ps_created s) rows in (f, mf_rows f)))
           (\<lambda>found. modifyP (\<lambda>s. s\<lparr>
              ps_counts := (ps_counts s)\<lparr>pc_moved := pc_moved (ps_counts s) + length (mf_moves found),
                                         pc_drift := pc_drift (ps_counts s) + mf_drift found\<rparr>,
              ps_moves := ps_moves s @ mf_moves found,
              ps_deletions := ps_deletions s @ mf_deletions found\<rparr>))))"

definition conclude :: "('w, 'i, 'r, 'f) sync_deps \<Rightarrow> bool \<Rightarrow> ('w, unit) pass_prog" where
  "conclude deps listedNothing =
     thenP (bindP (readP (\<lambda>s. s)) (\<lambda>s. case ps_firstUnreadError s of
        Some e \<Rightarrow> if ps_unread s \<noteq> [] \<and> \<not> ps_listedOne s then throw e else ret ()
      | None \<Rightarrow> ret ()))
     (bindP (if dp_sourceIsAuthority deps then on_world (dp_stillTheAuthority deps) else ret False) (\<lambda>stillDecides.
      bindP (readP (reachedEveryCollection listedNothing)) (\<lambda>reached.
        thenP (resolve_removals deps stillDecides reached)
        (thenP (read_bin deps stillDecides reached)
        (thenP (close_former_names deps reached)
               (detect_moves deps stillDecides))))))"

subsection \<open>The pass\<close>

record sync_result =
  sr_collectionsListed :: nat
  sr_counts :: pass_counts
  sr_failures :: "item_failure list"
  sr_moves :: "item_move list"
  sr_deletions :: "item_deletion list"
  sr_unplaceable :: "(nat \<times> string option) option"
  sr_unread :: "unread_collection list"
  sr_budgetPause :: "budget_state option"
  sr_deadlinePause :: "(int \<times> int) option"
  sr_haltPause :: "(pass_stop_reason \<times> int \<times> int) option"
  sr_collectionsNotReached :: nat

definition result_of :: "nat \<Rightarrow> 'w pass \<Rightarrow> sync_result" where
  "result_of listed s =
     \<lparr>sr_collectionsListed = listed, sr_counts = ps_counts s, sr_failures = ps_failures s, sr_moves = ps_moves s,
      sr_deletions = strongest_deletions (ps_deletions s), sr_unplaceable = ps_unplaceable s, sr_unread = ps_unread s,
      sr_budgetPause = ps_budgetPause s, sr_deadlinePause = ps_deadlinePause s, sr_haltPause = ps_haltPause s,
      sr_collectionsNotReached = ps_notReached s\<rparr>"

text \<open>What is asked before anything is listed: the meter, the deadline, and whoever may stop the pass.\<close>

definition open_pass :: "('w, 'i, 'r, 'f) sync_deps \<Rightarrow> ('w, unit) pass_prog" where
  "open_pass deps =
     thenP (case dp_downloadMeter deps of None \<Rightarrow> ret ()
       | Some meter \<Rightarrow> bindP (on_world meter) (\<lambda>st. whenP (bs_remainingBytes st \<le> 0) (pauseNow st)))
     (thenP (stopIfPastDeadline deps)
     (bindP (readP paused) (\<lambda>p. if p then ret () else thenP (stopIfToldTo deps) (ret ()))))"

definition pass_body :: "('w, 'i, 'r, 'f) sync_deps \<Rightarrow> ('w, sync_result) pass_prog" where
  "pass_body deps =
     thenP (open_pass deps)
     (bindP (readP paused) (\<lambda>listedNothing.
      bindP (if listedNothing then ret [] else sided Source_side (on_world (dp_listFolders deps))) (\<lambda>folders.
        thenP (whenP listedNothing (modifyP (\<lambda>s. s\<lparr>ps_fullyEnumerated := False\<rparr>)))
        (thenP (forP folders (sync_folder deps))
        (thenP (conclude deps listedNothing)
               (readP (result_of (length folders))))))))"

text \<open>What outlives the pass: the world, the ledger's items and the cursors.\<close>

type_synonym 'w stored = "'w \<times> items \<times> cursor_table"

definition runDomainSync :: "('w, 'i, 'r, 'f) sync_deps \<Rightarrow> ('w stored, js_error, sync_result) prog" where
  "runDomainSync deps = (\<lambda>(world, rows, cursors). case dp_now deps world of
       (Inl e, w) \<Rightarrow> (Inl e, (w, rows, cursors))
     | (Inr startedAt, w) \<Rightarrow>
         (case pass_body deps (begin_pass (dp_snapshot deps) startedAt w rows cursors) of
            (x, s) \<Rightarrow> (x, (ps_world s, ps_items s, ps_cursors s))))"

end
