(* ===== verification/Sync_Steps.thy ===== *)
theory Sync_Steps
  imports Sync_Pass
begin

text \<open>
  The protocol a pass follows, and that it follows it. A pass writes to the ledger by
  \<open>pass_write\<close>, calls the world by \<open>world_call\<close> and stores a cursor by \<open>cursor_write\<close>; each is a
  step relation with the conditions under which the step is allowed. \<open>runDomainSync\<close> refines
  them: whatever the source and the target answer or throw, what it leaves is reached from what it
  found by such steps. What holds of every step then holds of every pass.
\<close>

subsection \<open>Results of programs\<close>

definition gives :: "('s \<Rightarrow> 's \<Rightarrow> bool) \<Rightarrow> ('a \<Rightarrow> bool) \<Rightarrow> ('s, 'e, 'a) prog \<Rightarrow> bool" where
  "gives R P m \<longleftrightarrow> within R m \<and> (\<forall>s a t. m s = (Inr a, t) \<longrightarrow> P a)"

lemma gives_within: "gives R P m \<Longrightarrow> within R m"
  by (simp add: gives_def)

lemma gives_result: "gives R P m \<Longrightarrow> m s = (Inr a, t) \<Longrightarrow> P a"
  unfolding gives_def by blast

context effect
begin

lemma gives_ret: "P a \<Longrightarrow> gives R P (ret a)"
  by (simp add: gives_def within_ret run_ret)

lemma gives_throw: "gives R P (throw e)"
  by (simp add: gives_def within_throw run_throw)

lemma gives_read: "(\<And>s. P (f s)) \<Longrightarrow> gives R P (readP f)"
  by (auto simp: gives_def within_read run_read)

lemma gives_any: "within R m \<Longrightarrow> gives R (\<lambda>a. True) m"
  by (simp add: gives_def)

lemma within_bind_gives:
  assumes "gives R P m" and "\<And>a. P a \<Longrightarrow> within R (f a)"
  shows "within R (bindP m f)"
proof (rule withinI)
  fix s
  obtain x t where m: "m s = (x, t)" by fastforce
  with assms(1) have st: "R s t" by (auto simp: gives_def intro: withinD)
  show "R s (snd (bindP m f s))"
  proof (cases x)
    case Inl
    with m st show ?thesis by (simp add: run_simps)
  next
    case (Inr a)
    with assms m have "within R (f a)" by (auto simp: gives_def)
    then have "R t (snd (f a t))" by (simp add: within_def)
    with m st Inr show ?thesis by (simp add: run_simps effect_trans)
  qed
qed

lemma gives_bind:
  assumes "gives R P m" and "\<And>a. P a \<Longrightarrow> gives R Q (f a)"
  shows "gives R Q (bindP m f)"
proof -
  have "within R (bindP m f)" using assms by (intro within_bind_gives [OF assms(1)] gives_within)
  moreover have "Q a" if "bindP m f s = (Inr a, t)" for s a t
  proof (cases "m s")
    case (Pair x u)
    with that assms show ?thesis by (auto simp: run_bind gives_def split: sum.splits)
  qed
  ultimately show ?thesis by (simp add: gives_def)
qed

lemma gives_then: "within R m \<Longrightarrow> gives R Q n \<Longrightarrow> gives R Q (thenP m n)"
  unfolding thenP_def by (rule gives_bind [OF gives_any])

lemma gives_catch:
  assumes "gives R P m" and "\<And>e. gives R P (h e)"
  shows "gives R P (catchP m h)"
proof -
  have "within R (catchP m h)" using assms by (intro within_catch gives_within)
  moreover have "P a" if "catchP m h s = (Inr a, t)" for s a t
    using that by (auto simp: run_catch split: prod.splits sum.splits
      intro: gives_result [OF assms(1)] gives_result [OF assms(2)])
  ultimately show ?thesis by (simp add: gives_def)
qed

end

subsection \<open>The steps of a pass\<close>

text \<open>
  A write of a pass is one method of the ledger, on the rows of the pass's own mapping and data
  type. Copies and failures it may always record; what is gone it dates, and moves under a new
  name it records, only while the source decides what exists.
\<close>

inductive pass_write :: "ledger_scope \<Rightarrow> bool \<Rightarrow> items \<Rightarrow> items \<Rightarrow> bool" for sc authority where
  wr_copied: "record_scope rc = sc \<Longrightarrow> plain_record rc \<Longrightarrow> pass_write sc authority rows (snd (recordIfAbsent now rc rows))"
| wr_updated: "record_scope rc = sc \<Longrightarrow> plain_record rc \<Longrightarrow> pass_write sc authority rows (snd (recordUpdate now rc rows))"
| wr_failed: "record_scope rc = sc \<Longrightarrow> pass_write sc authority rows (snd (recordFailure now rc e opts rows))"
| wr_moved: "pass_write sc authority rows (recordMove now sc h c None By_content rows)"
| wr_unmoved: "pass_write sc authority rows (clearMove now sc h rows)"
| wr_present: "pass_write sc authority rows (clearAbsent now sc h rows)"
| wr_superseded: "pass_write sc authority rows (fst (supersedeFormerNames now sc names rows))"
| wr_marked: "pass_write sc authority rows (fst (markEarlierExports now sc names rows))"
| wr_reported: "authority \<Longrightarrow> pass_write sc authority rows (snd (recordReportedDeletion now sc h rows))"
| wr_trashed: "authority \<Longrightarrow> pass_write sc authority rows (snd (recordTrashedDeletion now sc h rows))"
| wr_absent: "authority \<Longrightarrow> pass_write sc authority rows (snd (recordAbsent now sc h rows))"
| wr_renamed: "authority \<Longrightarrow> pass_write sc authority rows (recordMove now sc h c (Some k) pb rows)"
| wr_unmarked: "authority \<Longrightarrow> pass_write sc authority rows (clearEarlierExport now sc h rows)"

text \<open>A call of the world; only a source that decides is read for its bin or overwrites a copy.\<close>

inductive world_call :: "('w, 'i, 'r, 'f) sync_deps \<Rightarrow> 'w \<Rightarrow> 'w \<Rightarrow> bool" for deps where
  wc_time: "world_call deps w (snd (dp_now deps w))"
| wc_meter: "dp_downloadMeter deps = Some meter \<Longrightarrow> world_call deps w (snd (meter w))"
| wc_folders: "world_call deps w (snd (dp_listFolders deps w))"
| wc_listing: "world_call deps w (snd (dp_listSince deps folder prev w))"
| wc_keys: "dp_listCollectionKeys deps = Some keys_of \<Longrightarrow> world_call deps w (snd (keys_of folder w))"
| wc_fetch: "world_call deps w (snd (dp_fetchRaw deps item w))"
| wc_collection: "world_call deps w (snd (dp_ensureCollection deps folder w))"
| wc_upsert: "(uo_overwrite opts \<Longrightarrow> dp_sourceIsAuthority deps) \<Longrightarrow>
    world_call deps w (snd (dp_upsert deps collection raw item opts w))"
| wc_legacy: "dp_legacyCopyOnTarget deps = Some ask \<Longrightarrow> world_call deps w (snd (ask collection legacy w))"
| wc_stop: "dp_whyItStops deps = Some why \<Longrightarrow> world_call deps w (snd (why w))"
| wc_authority: "dp_sourceIsAuthority deps \<Longrightarrow> world_call deps w (snd (dp_stillTheAuthority deps w))"
| wc_bin: "dp_sourceIsAuthority deps \<Longrightarrow> dp_listDiscardedKeys deps = Some bin \<Longrightarrow> world_call deps w (snd (bin w))"

inductive cursor_write :: "ledger_scope \<Rightarrow> cursor_table \<Rightarrow> cursor_table \<Rightarrow> bool" for sc where
  "cursor_write sc cs (cursor_set sc path v cs)"

definition ledger_writes :: "ledger_scope \<Rightarrow> bool \<Rightarrow> items \<Rightarrow> items \<Rightarrow> bool" where
  "ledger_writes sc authority = (pass_write sc authority)\<^sup>*\<^sup>*"

definition followed :: "('w, 'i, 'r, 'f) sync_deps \<Rightarrow> 'w stored \<Rightarrow> 'w stored \<Rightarrow> bool" where
  "followed deps = (\<lambda>(w, rows, cs) (w', rows', cs').
     (world_call deps)\<^sup>*\<^sup>* w w' \<and> ledger_writes (dp_scope deps) (dp_sourceIsAuthority deps) rows rows' \<and>
     (cursor_write (dp_scope deps))\<^sup>*\<^sup>* cs cs')"

definition kept_of :: "'w pass \<Rightarrow> 'w stored" where
  "kept_of s = (ps_world s, ps_items s, ps_cursors s)"

definition does :: "('w, 'i, 'r, 'f) sync_deps \<Rightarrow> 'w pass \<Rightarrow> 'w pass \<Rightarrow> bool" where
  "does deps s t \<longleftrightarrow> followed deps (kept_of s) (kept_of t)"

lemma writes_refl [simp]: "ledger_writes sc a rows rows"
  by (simp add: ledger_writes_def)

lemma writes_trans: "ledger_writes sc a r1 r2 \<Longrightarrow> ledger_writes sc a r2 r3 \<Longrightarrow> ledger_writes sc a r1 r3"
  by (simp add: ledger_writes_def)

lemma writes_one: "pass_write sc a rows rows' \<Longrightarrow> ledger_writes sc a rows rows'"
  by (simp add: ledger_writes_def)

interpretation does: effect "does deps"
  by unfold_locales (auto simp: does_def followed_def kept_of_def ledger_writes_def)

lemma does_books:
  "ps_world t = ps_world s \<Longrightarrow> ps_items t = ps_items s \<Longrightarrow> ps_cursors t = ps_cursors s \<Longrightarrow> does deps s t"
  by (simp add: does_def followed_def kept_of_def)

lemma books: "(\<And>s. ps_world (f s) = ps_world s \<and> ps_items (f s) = ps_items s \<and> ps_cursors (f s) = ps_cursors s) \<Longrightarrow>
    within (does deps) (modifyP f)"
  by (rule within_modify) (simp add: does_books)

lemma counted: "within (does deps) (count f)"
  unfolding count_def by (rule books) simp

lemma unfinished_books: "within (does deps) (unfinished path)"
  unfolding unfinished_def by (rule books) simp

lemma called: "(\<And>w. world_call deps w (snd (m w))) \<Longrightarrow> within (does deps) (on_world m)"
  by (rule withinI) (simp add: on_world_def does_def followed_def kept_of_def case_prod_beta r_into_rtranclp)

lemma table_call:
  "(\<And>now rows. ledger_writes (dp_scope deps) (dp_sourceIsAuthority deps) rows (snd (f now rows))) \<Longrightarrow>
   within (does deps) (tableP deps f)"
  by (rule withinI) (simp add: tableP_def does_def followed_def kept_of_def case_prod_beta)

lemma written:
  "(\<And>now rows. pass_write (dp_scope deps) (dp_sourceIsAuthority deps) rows (f now rows)) \<Longrightarrow>
   within (does deps) (writeP deps f)"
  unfolding writeP_def
  by (rule within_modify) (simp add: does_def followed_def kept_of_def writes_one)

lemma ledger_call:
  "(\<And>now rows. pass_write (dp_scope deps) (dp_sourceIsAuthority deps) rows (snd (f now rows))) \<Longrightarrow>
   within (does deps) (ledgerP deps f)"
  by (rule withinI)
    (auto simp: ledgerP_def does_def followed_def kept_of_def case_prod_beta split: sum.split prod.split
       intro!: writes_one dest: sym)

subsection \<open>The parts of a pass follow it\<close>

lemmas does_structure = does.within_structure does.within_sided counted unfinished_books

lemma pause_books: "within (does deps) (pauseNow st)"
  unfolding pauseNow_def by (rule books) simp

lemma deadline_follows: "within (does deps) (stopIfPastDeadline deps)"
  unfolding stopIfPastDeadline_def
  by (auto intro!: does_structure books called world_call.intros split: option.split)

lemma told_follows: "within (does deps) (stopIfToldTo deps)"
  unfolding stopIfToldTo_def
  by (auto intro!: does_structure books called world_call.intros split: option.split)

lemma stop_follows: "within (does deps) (stopTakingNewWork deps)"
  unfolding stopTakingNewWork_def by (auto intro!: does_structure deadline_follows told_follows)

lemma collection_follows: "within (does deps) (collectionIdOf deps folder)"
proof -
  have made: "within (does deps) (sided Target_side (on_world (dp_ensureCollection deps folder)))"
    by (intro does_structure called world_call.intros)
  have "within (does deps) (\<lambda>s. case sided Target_side (on_world (dp_ensureCollection deps folder)) s of
      (x, t) \<Rightarrow> (x, t\<lparr>ps_collection := Some x\<rparr>))"
  proof (rule withinI)
    fix s
    obtain x t where run: "sided Target_side (on_world (dp_ensureCollection deps folder)) s = (x, t)" by fastforce
    from withinD [OF made run] have "does deps s t" .
    moreover have "does deps t (t\<lparr>ps_collection := Some x\<rparr>)" by (rule does_books) simp_all
    ultimately show "does deps s (snd (case sided Target_side (on_world (dp_ensureCollection deps folder)) s of
        (x, t) \<Rightarrow> (x, t\<lparr>ps_collection := Some x\<rparr>)))"
      using run by (simp add: does.effect_trans)
  qed
  then show ?thesis unfolding collectionIdOf_def
    by (auto intro!: does_structure split: option.split sum.split)
qed

lemma ahead_follows: "within (does deps) (readAhead deps items index key)"
  unfolding readAhead_def Let_def by (intro does_structure books) (simp split: option.split)

lemma begin_follows: "within (does deps) (begin_item deps path item)"
  unfolding begin_item_def by (intro does_structure books) (simp split: option.split)

lemma decision_follows: "within (does deps) (asks_for_a_decision deps key known)"
  unfolding asks_for_a_decision_def by (intro does_structure books) simp

lemma moved_follows: "within (does deps) (it_moved deps path key known)"
  unfolding it_moved_def by (intro does_structure books written pass_write.intros) simp_all

text \<open>What is left to copy after the row was read: a rewrite only of a row of the scope, while the source decides.\<close>

definition may_copy :: "('w, 'i, 'r, 'f) sync_deps \<Rightarrow> item_path \<Rightarrow> bool" where
  "may_copy deps p \<longleftrightarrow> (case p of Item_done \<Rightarrow> True
     | Item_copy rewriteOf hasRow \<Rightarrow> (case rewriteOf of None \<Rightarrow> True
         | Some known \<Rightarrow> record_scope known = dp_scope deps \<and> dp_sourceIsAuthority deps))"

lemma may_copy_simps [simp]: "may_copy deps Item_done" "may_copy deps (Item_copy None h)"
  "may_copy deps (Item_copy (Some known) h) \<longleftrightarrow> record_scope known = dp_scope deps \<and> dp_sourceIsAuthority deps"
  by (simp_all add: may_copy_def)

lemma found_scope: "find_item sc key rows = Some row \<Longrightarrow> record_scope row = sc"
  by (auto simp: find_item_def mapRowToRecord_def record_scope_def at_key_def in_scope_def of_mapping_def dest!: find_SomeD)

lemma done_gives: "gives (does deps) (may_copy deps) (done_with f)"
  unfolding done_with_def by (intro does.gives_then does.gives_ret counted) simp

lemma act_gives:
  assumes "record_scope known = dp_scope deps" and "action = classifyKnownItem known version c"
  shows "gives (does deps) (may_copy deps) (act_on_known deps key version known action)"
proof (cases action)
  case Act_record_version
  with assms have "plain_record (known\<lparr>lr_sourceVersion := version\<rparr>)"
    using record_version_plain [of known version c] by (simp add: plain_record_def)
  with assms(1) Act_record_version show ?thesis
    by (auto simp: act_on_known_def record_scope_def
        intro!: does.gives_then done_gives ledger_call pass_write.wr_updated)
qed (use assms in \<open>auto simp: act_on_known_def intro!: done_gives does.gives_then does.gives_ret decision_follows\<close>)

lemma meet_gives:
  assumes "record_scope known = dp_scope deps"
  shows "gives (does deps) (may_copy deps) (meet_known deps path key version known)"
  unfolding meet_known_def Let_def
  by (auto intro!: does.gives_then does.gives_ret does_structure written pass_write.intros moved_follows
      act_gives [OF assms refl])

lemma known_gives: "gives (does deps) (may_copy deps) (known_item deps items path index item)"
proof -
  have found: "gives (does deps) (\<lambda>known. \<forall>row. known = Some row \<longrightarrow> record_scope row = dp_scope deps)
      (readP (\<lambda>s. find_item (dp_scope deps) key (ps_items s)))" for key
    by (intro does.gives_read) (blast intro: found_scope)
  show ?thesis unfolding known_item_def
    by (auto intro!: does.gives_ret done_gives meet_gives
          does.gives_bind [OF does.gives_any [OF ahead_follows]] does.gives_bind [OF found] split: option.split)
qed

lemma ask_follows:
  assumes "dp_legacyCopyOnTarget deps = Some ask"
  shows "within (does deps) (ask_target ask collection earlier)"
  by (induction earlier) (auto intro!: does_structure called world_call.wc_legacy assms)

lemma fetched_follows: "within (does deps) (known_after_fetch deps folder key earlier)"
  unfolding known_after_fetch_def
  by (auto intro!: does_structure collection_follows ask_follows split: option.split prod.split)

lemma from_raw_follows: "within (does deps) (key_from_raw deps folder path item raw)"
  unfolding key_from_raw_def Let_def
  by (auto intro!: does_structure books fetched_follows decision_follows
      split: option.split sum.split prod.split known_item_action.split)

lemma counted_copy: "within (does deps) (count_copy deps path item rewriteOf n result)"
  unfolding count_copy_def by (auto intro!: does_structure books)

lemma row_for_scope: "record_scope (row_for deps path item n result s) = dp_scope deps"
  by (simp add: row_for_def record_scope_def)

lemma row_for_plain: "plain_record (row_for deps path item n result s)"
  by (simp add: row_for_def plain_record_def)

lemma place_follows:
  assumes "may_copy deps (Item_copy rewriteOf h)"
  shows "within (does deps) (place_item deps folder path item rewriteOf hasRow raw n)"
proof -
  have upsert: "within (does deps)
      (sided Target_side (on_world (dp_upsert deps collection raw item (upsert_options_for deps path item rewriteOf))))"
    for collection
  proof (intro does_structure called world_call.wc_upsert)
    assume "uo_overwrite (upsert_options_for deps path item rewriteOf)"
    with assms show "dp_sourceIsAuthority deps" by (cases rewriteOf) (simp_all add: upsert_options_for_def)
  qed
  have row: "gives (does deps) (\<lambda>row. record_scope row = dp_scope deps \<and> plain_record row)
      (readP (row_for deps path item n result))" for result
    by (intro does.gives_read) (simp add: row_for_scope row_for_plain)
  have conflict: "within (does deps) (ledgerP deps (\<lambda>now. recordUpdate now (known\<lparr>lr_status := Some Adopted, lr_targetId := i\<rparr>)))"
    if "rewriteOf = Some known" for known i
    using assms that
    by (intro ledger_call pass_write.wr_updated) (simp_all add: record_scope_def plain_record_def)
  have recorded: "within (does deps) (ledgerP deps (\<lambda>now. if hasRow then recordUpdate now row else recordIfAbsent now row))"
    if "record_scope row = dp_scope deps \<and> plain_record row" for row
    using that by (cases hasRow) (auto intro!: ledger_call pass_write.wr_updated pass_write.wr_copied)
  have one: "within (does deps) (bindP (readP (row_for deps path item n result)) (\<lambda>row.
      thenP (ledgerP deps (\<lambda>now. if hasRow then recordUpdate now row else recordIfAbsent now row))
        (thenP (modifyP (\<lambda>s. s\<lparr>ps_consecutive := 0\<rparr>)) (count_copy deps path item rewriteOf n result))))" for result
    by (rule does.within_bind_gives [OF row]) (intro does_structure recorded books counted_copy, simp_all)
  have result: "within (does deps) (if ur_conflicted result
      then thenP (count (\<lambda>c. c\<lparr>pc_conflicted := pc_conflicted c + 1\<rparr>))
        (case rewriteOf of None \<Rightarrow> throw (ledger_thrown No_row_to_update)
         | Some known \<Rightarrow> thenP (ledgerP deps (\<lambda>now. recordUpdate now
              (known\<lparr>lr_status := Some Adopted, lr_targetId := ur_targetId result\<rparr>))) (ret ()))
      else bindP (readP (row_for deps path item n result)) (\<lambda>row.
        thenP (ledgerP deps (\<lambda>now. if hasRow then recordUpdate now row else recordIfAbsent now row))
          (thenP (modifyP (\<lambda>s. s\<lparr>ps_consecutive := 0\<rparr>)) (count_copy deps path item rewriteOf n result))))" for result
  proof (cases "ur_conflicted result")
    case True
    then show ?thesis by (cases rewriteOf) (auto intro!: does_structure conflict)
  next
    case False
    with one show ?thesis by simp
  qed
  show ?thesis unfolding place_item_def
    by (intro does.within_then does.within_bind books collection_follows upsert result) simp
qed

lemma copy_follows:
  assumes "may_copy deps (Item_copy rewriteOf h)"
  shows "within (does deps) (copy_item deps folder path item rewriteOf hasRow)"
  using assms unfolding copy_item_def Let_def hold_def take_back_def
  by (cases rewriteOf) (auto intro!: does_structure books called world_call.intros from_raw_follows place_follows [where h = False] pause_books
      split: option.split prod.split)

lemma failure_record_scope: "record_scope (failure_record deps path item key s) = dp_scope deps"
  by (simp add: failure_record_def record_scope_def)

lemma failure_follows: "within (does deps) (record_item_failure deps path item e key)"
proof -
  have row: "gives (does deps) (\<lambda>rc. record_scope rc = dp_scope deps) (readP (failure_record deps path item key))"
    by (intro does.gives_read) (simp add: failure_record_scope)
  show ?thesis unfolding record_item_failure_def Let_def
    by (rule does.within_bind_gives [OF row]) (auto intro!: does_structure ledger_call pass_write.wr_failed books)
qed

lemma item_failed_follows: "within (does deps) (item_failed deps path item e)"
  unfolding item_failed_def too_many_in_a_row_def
  by (auto intro!: does_structure books failure_follows split: option.split)

lemma item_follows: "within (does deps) (handle_item deps folder path items x)"
proof (cases x)
  case (Pair index item)
  have "within (does deps) (bindP (known_item deps items path index item) (\<lambda>p. case p of
      Item_done \<Rightarrow> ret () | Item_copy rewriteOf hasRow \<Rightarrow>
        catchP (copy_item deps folder path item rewriteOf hasRow) (item_failed deps path item)))"
    by (rule does.within_bind_gives [OF known_gives])
      (auto intro!: does_structure item_failed_follows copy_follows split: item_path.split)
  then show ?thesis
    using Pair by (auto simp: handle_item_def intro!: does_structure stop_follows begin_follows)
qed

lemma list_items_follow: "within (does deps) (handle_items deps folder items)"
  unfolding handle_items_def by (intro does.within_for item_follows)

lemma unread_follows: "within (does deps) (unread_folder deps folder e)"
  unfolding unread_folder_def Let_def by (auto intro!: does_structure books)

lemma keys_follow: "within (does deps) (list_keys deps folder prev)"
  unfolding list_keys_def
  by (auto intro!: does_structure books called world_call.wc_keys split: option.split)

lemma advance_follows: "within (does deps) (advance_cursor deps path prev listing heldBefore)"
  unfolding advance_cursor_def
  by (intro does_structure within_modify)
    (auto simp: does_def followed_def kept_of_def intro!: r_into_rtranclp cursor_write.intros)

lemma listing_follows: "within (does deps) (list_folder deps folder prev)"
  unfolding list_folder_def by (intro does_structure called world_call.wc_listing unread_follows)

lemma folder_follows: "within (does deps) (sync_folder deps folder)"
  unfolding sync_folder_def read_folder_def
  by (auto intro!: does_structure books stop_follows collection_follows listing_follows keys_follow
      list_items_follow advance_follows split: option.split)

subsection \<open>The findings follow it\<close>

lemma writes_step: "ledger_writes sc a rows0 rows \<Longrightarrow> pass_write sc a rows rows' \<Longrightarrow> ledger_writes sc a rows0 rows'"
  by (simp add: ledger_writes_def)

lemma reported_writes:
  "ledger_writes sc True rows0 rows \<Longrightarrow> ledger_writes sc True rows0 (snd (resolve_reported now sc seen hrefs closed rows))"
proof (induction hrefs arbitrary: closed rows)
  case (Cons href hrefs)
  have "ledger_writes sc True rows0 (snd (recordReportedDeletion now sc key rows))" for key
    by (rule writes_step [OF Cons.prems pass_write.wr_reported]) simp
  with Cons show ?case
    by (simp add: Let_def split: option.split prod.split) (metis snd_conv)
qed simp

lemma discarded_writes:
  "ledger_writes sc True rows0 rows \<Longrightarrow> ledger_writes sc True rows0 (snd (resolve_discarded now sc seen keys rows))"
proof (induction keys arbitrary: rows)
  case (Cons key keys)
  have "ledger_writes sc True rows0 (snd (recordTrashedDeletion now sc key rows))"
    by (rule writes_step [OF Cons.prems pass_write.wr_trashed]) simp
  with Cons show ?case
    by (simp add: Let_def split: option.split prod.split) (metis snd_conv)
qed simp

lemmas writes_of_detection =
  writes_step [OF _ pass_write.wr_unmoved] writes_step [OF _ pass_write.wr_present]
  writes_step [OF _ pass_write.wr_unmarked [OF TrueI]] writes_step [OF _ pass_write.wr_renamed [OF TrueI]]

lemma placed_seen_writes:
  "ledger_writes sc True rows0 rows \<Longrightarrow> ledger_writes sc True rows0 (placed_seen now sc row rows)"
  by (simp add: placed_seen_def Let_def writes_of_detection)

lemma detect_row_writes:
  assumes "ledger_writes sc True rows0 (mf_rows f)"
  shows "ledger_writes sc True rows0 (mf_rows (detect_row now sc vw placed p f))"
proof -
  have "ledger_writes sc True rows0 (snd (recordAbsent now sc h (mf_rows f)))" for h
    by (rule writes_step [OF assms pass_write.wr_absent]) simp
  then show ?thesis using assms
    by (simp add: detect_row_def Let_def placed_seen_writes writes_of_detection split: option.split prod.split)
      (metis snd_conv)
qed

lemma detect_writes: "ledger_writes sc True rows (mf_rows (detectPathKeyedMoves now sc vw created rows))"
proof -
  have "ledger_writes sc True rows (mf_rows (fold (detect_row now sc vw placed) todo f))"
    if "ledger_writes sc True rows (mf_rows f)" for placed todo f
    using that by (induction todo arbitrary: f) (simp_all add: detect_row_writes)
  then show ?thesis by (simp add: detectPathKeyedMoves_def Let_def)
qed

text \<open>What the end of a pass may conclude about what is gone rests on the source still deciding.\<close>

lemma found_reported: "ledger_writes sc True rows (snd (resolveReportedRemovals now sc seen removals rows))"
  unfolding resolveReportedRemovals_def by (rule reported_writes) simp

lemma found_discarded: "ledger_writes sc True rows (snd (resolveDiscardedItems now sc seen keys rows))"
  unfolding resolveDiscardedItems_def by (rule discarded_writes) simp

lemma held_cursors_follow:
  "(cursor_write sc)\<^sup>*\<^sup>* cs (fold (\<lambda>(path, cursor). cursor_set sc path cursor) held cs)"
  by (induction held arbitrary: cs)
    (auto intro: converse_rtranclp_into_rtranclp [where r = "cursor_write sc"] cursor_write.intros)

lemma removals_follow:
  assumes "stillDecides \<Longrightarrow> dp_sourceIsAuthority deps"
  shows "within (does deps) (resolve_removals deps stillDecides reached)"
proof -
  have cursors: "within (does deps) (modifyP (\<lambda>s. s\<lparr>ps_cursors :=
      fold (\<lambda>(path, cursor). cursor_set (dp_scope deps) path cursor) (ps_cursorsHeld s) (ps_cursors s)\<rparr>))"
    by (rule within_modify) (simp add: does_def followed_def kept_of_def held_cursors_follow)
  show ?thesis unfolding resolve_removals_def
    by (auto intro!: does_structure books cursors table_call simp: assms found_reported)
qed

lemma told_to_stop_follows: "within (does deps) (told_to_stop deps)"
  unfolding told_to_stop_def by (auto intro!: does_structure called world_call.wc_stop split: option.split)

lemma bin_follows:
  assumes "stillDecides \<Longrightarrow> dp_sourceIsAuthority deps"
  shows "within (does deps) (read_bin deps stillDecides reached)"
proof (cases stillDecides)
  case True
  with assms have authority: "dp_sourceIsAuthority deps" by simp
  have found: "within (does deps) (discarded_found deps l)" for l
    unfolding discarded_found_def
    by (auto intro!: does_structure books table_call simp: authority found_discarded)
  show ?thesis unfolding read_bin_def
    by (auto intro!: does_structure found told_to_stop_follows called world_call.wc_bin authority split: option.split)
qed (auto simp: read_bin_def intro: does_structure)

lemma former_names_follow: "within (does deps) (close_former_names deps reached)"
  unfolding close_former_names_def Let_def
  by (auto intro!: does_structure table_call writes_one pass_write.wr_superseded pass_write.wr_marked)

lemma moves_follow:
  assumes "stillDecides \<Longrightarrow> dp_sourceIsAuthority deps"
  shows "within (does deps) (detect_moves deps stillDecides)"
  unfolding detect_moves_def
  by (auto intro!: does_structure books table_call simp: Let_def assms detect_writes)

lemma conclude_follows: "within (does deps) (conclude deps listedNothing)"
proof -
  have decides: "gives (does deps) (\<lambda>b. b \<longrightarrow> dp_sourceIsAuthority deps)
      (if dp_sourceIsAuthority deps then on_world (dp_stillTheAuthority deps) else ret False)"
  proof (cases "dp_sourceIsAuthority deps")
    case True
    then have "within (does deps) (on_world (dp_stillTheAuthority deps))"
      by (intro called world_call.wc_authority)
    with True show ?thesis by (simp add: gives_def)
  qed (simp add: does.gives_ret)
  have rest: "within (does deps) (bindP (readP (reachedEveryCollection listedNothing)) (\<lambda>reached.
      thenP (resolve_removals deps b reached) (thenP (read_bin deps b reached)
        (thenP (close_former_names deps reached) (detect_moves deps b)))))"
    if "b \<longrightarrow> dp_sourceIsAuthority deps" for b
    using that by (intro does_structure removals_follow bin_follows former_names_follow moves_follow) auto
  have "within (does deps) (bindP (readP (\<lambda>s. s)) (\<lambda>s. case ps_firstUnreadError s of
      Some e \<Rightarrow> if ps_unread s \<noteq> [] \<and> \<not> ps_listedOne s then throw e else ret () | None \<Rightarrow> ret ()))"
    by (auto intro!: does_structure split: option.split)
  then show ?thesis unfolding conclude_def
    by (intro does.within_then does.within_bind_gives [OF decides] rest)
qed

lemma opening_follows: "within (does deps) (open_pass deps)"
  unfolding open_pass_def
  by (auto intro!: does_structure called world_call.wc_meter pause_books deadline_follows told_follows split: option.split)

lemma body_follows: "within (does deps) (pass_body deps)"
  unfolding pass_body_def
  by (auto intro!: does_structure books opening_follows folder_follows conclude_follows called world_call.wc_folders)

lemma pass_follows: "within (followed deps) (runDomainSync deps)"
proof (rule withinI)
  fix s :: "'a stored"
  obtain w rows cs where s: "s = (w, rows, cs)" by (cases s)
  obtain x w' where now: "dp_now deps w = (x, w')" by fastforce
  from world_call.wc_time [of deps w] have time: "world_call deps w w'" by (simp add: now)
  show "followed deps s (snd (runDomainSync deps s))"
  proof (cases x)
    case Inl
    with time s now show ?thesis by (auto simp: runDomainSync_def followed_def)
  next
    case (Inr at)
    let ?start = "begin_pass (dp_snapshot deps) at w' rows cs"
    obtain y t where run: "pass_body deps ?start = (y, t)" by fastforce
    from withinD [OF body_follows run] have "does deps ?start t" .
    with time have "followed deps s (kept_of t)"
      by (auto simp: does_def followed_def kept_of_def begin_pass_def s
          intro: converse_rtranclp_into_rtranclp [where r = "world_call deps"])
    with Inr now run s show ?thesis by (simp add: runDomainSync_def kept_of_def)
  qed
qed

end
