(* ===== verification/Sync_Laws.thy ===== *)
theory Sync_Laws
  imports Sync_Steps
begin

text \<open>
  What every pass promises of the ledger and the cursors, from the protocol it follows. A row
  \<open>became\<close> another when a pass may have changed it so; \<open>extended\<close> is that of a whole table, old rows
  in place and new ones after them.
\<close>

subsection \<open>What a pass makes of a row\<close>

definition became :: "ledger_scope \<Rightarrow> bool \<Rightarrow> item_row \<Rightarrow> item_row \<Rightarrow> bool" where
  "became sc authority r r' \<longleftrightarrow> r' = r \<or>
     in_scope sc r \<and> in_scope sc r' \<and> item_key r' = item_key r \<and>
     it_deletion_applied_at r' = it_deletion_applied_at r \<and>
     (it_status r' = Tombstoned \<longrightarrow> it_status r = Tombstoned) \<and>
     (authority \<or>
        it_deletion_reported_at r' \<in> {None, it_deletion_reported_at r} \<and>
        it_deletion_trashed_at r' \<in> {None, it_deletion_trashed_at r} \<and>
        it_absent_passes r' \<in> {0, it_absent_passes r})"

definition newly :: "ledger_scope \<Rightarrow> bool \<Rightarrow> item_row \<Rightarrow> bool" where
  "newly sc authority r \<longleftrightarrow> in_scope sc r \<and> it_deletion_applied_at r = None \<and> it_status r \<noteq> Tombstoned \<and>
     (authority \<or> it_deletion_reported_at r = None \<and> it_deletion_trashed_at r = None \<and> it_absent_passes r = 0)"

definition extended :: "ledger_scope \<Rightarrow> bool \<Rightarrow> items \<Rightarrow> items \<Rightarrow> bool" where
  "extended sc authority rows rows' \<longleftrightarrow>
     list_all2 (became sc authority) rows (take (length rows) rows') \<and>
     list_all (newly sc authority) (drop (length rows) rows')"

lemma became_refl [simp]: "became sc a r r"
  by (simp add: became_def)

lemma became_trans: "became sc a r1 r2 \<Longrightarrow> became sc a r2 r3 \<Longrightarrow> became sc a r1 r3"
  unfolding became_def by (elim disjE) auto

lemma newly_became: "newly sc a r \<Longrightarrow> became sc a r r' \<Longrightarrow> newly sc a r'"
  unfolding became_def newly_def by auto

lemma becameI:
  assumes "in_scope sc r" and "in_scope sc r'" and "item_key r' = item_key r"
    and "it_deletion_applied_at r' = it_deletion_applied_at r"
    and "it_status r' = Tombstoned \<Longrightarrow> it_status r = Tombstoned"
    and "a \<or> it_deletion_reported_at r' \<in> {None, it_deletion_reported_at r}"
    and "a \<or> it_deletion_trashed_at r' \<in> {None, it_deletion_trashed_at r}"
    and "a \<or> it_absent_passes r' \<in> {0, it_absent_passes r}"
  shows "became sc a r r'"
  using assms unfolding became_def by blast

lemma extendedI:
  "list_all2 (became sc a) rows mid \<Longrightarrow> list_all (newly sc a) new \<Longrightarrow> extended sc a rows (mid @ new)"
  by (simp add: extended_def list_all2_lengthD)

lemma extendedE:
  assumes "extended sc a rows rows'"
  obtains mid new where "rows' = mid @ new" "list_all2 (became sc a) rows mid" "list_all (newly sc a) new"
proof (rule that)
  show "rows' = take (length rows) rows' @ drop (length rows) rows'" by simp
qed (use assms in \<open>simp_all add: extended_def\<close>)

lemma became_rows_refl: "list_all2 (became sc a) rows rows"
  by (rule list.rel_refl) simp

lemma became_rows_trans:
  "list_all2 (became sc a) r1 r2 \<Longrightarrow> list_all2 (became sc a) r2 r3 \<Longrightarrow> list_all2 (became sc a) r1 r3"
  by (rule list_all2_trans [of "became sc a" "became sc a" "became sc a"]) (rule became_trans)

lemma extended_refl [simp]: "extended sc a rows rows"
  using extendedI [OF became_rows_refl, of sc a "[]" rows] by simp

lemma extended_became:
  assumes "list_all2 (became sc a) rows rows'"
  shows "extended sc a rows rows'"
  using extendedI [OF assms, of "[]"] by simp

lemma newly_rows_became:
  assumes "list_all (newly sc a) rows" and "list_all2 (became sc a) rows rows'"
  shows "list_all (newly sc a) rows'"
  using assms(2,1) by (induction rule: list_all2_induct) (auto intro: newly_became)

lemma extended_trans:
  assumes "extended sc a rows1 rows2" and "extended sc a rows2 rows3"
  shows "extended sc a rows1 rows3"
proof -
  obtain mid new where one: "rows2 = mid @ new" "list_all2 (became sc a) rows1 mid" "list_all (newly sc a) new"
    using assms(1) by (rule extendedE)
  obtain mid' new' where two: "rows3 = mid' @ new'" "list_all2 (became sc a) rows2 mid'" "list_all (newly sc a) new'"
    using assms(2) by (rule extendedE)
  obtain m n where split: "mid' = m @ n" "list_all2 (became sc a) mid m" "list_all2 (became sc a) new n"
    using two(2) one(1) by (auto simp: list_all2_append1)
  have "extended sc a rows1 (m @ (n @ new'))"
    using one split two(3) newly_rows_became [OF one(3) split(3)]
    by (intro extendedI became_rows_trans [OF one(2)]) auto
  with two(1) split(1) show ?thesis by simp
qed

lemma became_update:
  assumes "\<And>r. p r \<Longrightarrow> became sc a r (f r)"
  shows "list_all2 (became sc a) rows (update_where p f rows)"
  by (induction rows) (simp_all add: assms table_simps)

lemma extended_update: "(\<And>r. p r \<Longrightarrow> became sc a r (f r)) \<Longrightarrow> extended sc a rows (update_where p f rows)"
  by (intro extended_became became_update)

lemma extended_insert: "newly sc a r \<Longrightarrow> extended sc a rows (snd (insert_row r rows))"
  using extendedI [OF became_rows_refl, of sc a "[r]" rows] by (simp add: insert_row_def)

subsection \<open>Every write extends\<close>

lemma fresh_newly: "record_scope rc = sc \<Longrightarrow> plain_record rc \<Longrightarrow> newly sc a (fresh_row now rc)"
  by (auto simp: newly_def fresh_row_def in_scope_def of_mapping_def record_scope_def plain_record_def split: option.split)

lemma failed_newly: "record_scope rc = sc \<Longrightarrow> newly sc a (failed_row now rc e opts)"
  by (auto simp: newly_def failed_row_def fresh_row_def in_scope_def of_mapping_def record_scope_def)

lemma extended_copied:
  assumes "record_scope rc = sc" and "plain_record rc"
  shows "extended sc a rows (snd (recordIfAbsent now rc rows))"
  using extended_insert [OF fresh_newly [OF assms, of a now], of rows]
  by (auto simp: recordIfAbsent_def split: prod.splits option.splits)

lemma at_key_in_scope: "at_key sc h r \<Longrightarrow> in_scope sc r"
  by (simp add: at_key_def)

lemma updated_became:
  assumes "plain_record rc" and "in_scope sc r"
  shows "became sc a r (updated_by now rc r)"
proof (rule becameI)
  show "it_status r = Tombstoned" if "it_status (updated_by now rc r) = Tombstoned"
    using that assms(1) by (auto simp: plain_record_def updated_by_def split: option.splits)
qed (simp_all add: assms(2), simp_all add: updated_by_def)

lemma bumped_became:
  assumes "in_scope sc r"
  shows "became sc a r (bumped_by now rc e opts r)"
  by (rule becameI) (simp_all add: assms, simp_all add: bumped_by_def)

lemma extended_updated:
  assumes "record_scope rc = sc" and "plain_record rc"
  shows "extended sc a rows (snd (recordUpdate now rc rows))"
proof -
  have "extended sc a rows (update_where (at_key sc (lr_naturalKeyHash rc)) (updated_by now rc) rows)"
    by (intro extended_update updated_became assms at_key_in_scope)
  with assms show ?thesis by (auto simp: recordUpdate_def Let_def split: list.split)
qed

lemma extended_failed:
  assumes "record_scope rc = sc"
  shows "extended sc a rows (snd (recordFailure now rc e opts rows))"
proof -
  let ?bump = "update_where (at_key sc (lr_naturalKeyHash rc)) (bumped_by now rc e opts)"
  have bump: "extended sc a rows (?bump rows)" for rows
    by (intro extended_update bumped_became at_key_in_scope)
  obtain x rows' where insert: "insert_row (failed_row now rc e opts) rows = (x, rows')" by fastforce
  with extended_insert [OF failed_newly [OF assms, of a now e opts], of rows] have new: "extended sc a rows rows'" by simp
  from extended_trans [OF new bump] have "extended sc a rows (?bump rows')" .
  with bump [of rows] new insert assms show ?thesis
    by (auto simp: recordFailure_def Let_def split: list.split option.split)
qed

lemma in_scope_updates [simp]:
  "in_scope sc (r\<lparr>it_status := v\<rparr>) = in_scope sc r" "in_scope sc (r\<lparr>it_superseded_by := v1\<rparr>) = in_scope sc r"
  "in_scope sc (r\<lparr>it_superseded_at := v2\<rparr>) = in_scope sc r" "in_scope sc (r\<lparr>it_updated_at := v3\<rparr>) = in_scope sc r"
  "in_scope sc (r\<lparr>it_absent_passes := v4\<rparr>) = in_scope sc r"
  "in_scope sc (r\<lparr>it_deletion_reported_at := v5\<rparr>) = in_scope sc r"
  "in_scope sc (r\<lparr>it_deletion_trashed_at := v6\<rparr>) = in_scope sc r"
  "in_scope sc (r\<lparr>it_deletion_acknowledged_at := v7\<rparr>) = in_scope sc r"
  "in_scope sc (r\<lparr>it_moved_to_collection := v8\<rparr>) = in_scope sc r"
  "in_scope sc (r\<lparr>it_moved_to_natural_key_hash := v9\<rparr>) = in_scope sc r"
  "in_scope sc (r\<lparr>it_moved_by_identity := v10\<rparr>) = in_scope sc r"
  "in_scope sc (r\<lparr>it_moved_recorded_at := v11\<rparr>) = in_scope sc r"
  "in_scope sc (r\<lparr>it_move_acknowledged_at := v12\<rparr>) = in_scope sc r"
  by (simp_all add: in_scope_def of_mapping_def)

lemma extended_superseded: "extended sc a rows (fst (supersedeFormerNames now sc names rows))"
proof (rule supersede_keeps [where I = "extended sc a rows"])
  show "extended sc a rows (fst (supersede_row now sc names row acc))" if "extended sc a rows (fst acc)" for row acc
    using that unfolding supersede_row_def Let_def
    by (auto split: option.split intro!: extended_trans [OF that extended_update] becameI dest: at_key_in_scope)
qed simp

lemma extended_marked: "extended sc a rows (fst (markEarlierExports now sc names rows))"
proof (rule mark_keeps [where I = "extended sc a rows"])
  show "extended sc a rows (fst (mark_row now sc names row acc))" if "extended sc a rows (fst acc)" for row acc
    using that unfolding mark_row_def Let_def
    by (auto split: option.split intro!: extended_trans [OF that extended_update] becameI dest: at_key_in_scope)
qed simp

lemma write_extends: "pass_write sc a rows rows' \<Longrightarrow> extended sc a rows rows'"
proof (induction rule: pass_write.induct)
  case (wr_copied rc rows now)
  then show ?case by (rule extended_copied)
next
  case (wr_updated rc rows now)
  then show ?case by (rule extended_updated)
next
  case (wr_failed rc rows now e opts)
  then show ?case by (rule extended_failed)
next
  case (wr_superseded rows now names)
  show ?case by (rule extended_superseded)
next
  case (wr_marked rows now names)
  show ?case by (rule extended_marked)
qed (auto simp: writer_defs Let_def intro!: extended_update becameI dest: at_key_in_scope)

lemma writes_extend: "ledger_writes sc a rows rows' \<Longrightarrow> extended sc a rows rows'"
  unfolding ledger_writes_def
  by (induction rule: rtranclp_induct) (auto intro: extended_trans write_extends)

lemma write_step: "pass_write sc a rows rows' \<Longrightarrow> ledger_step rows rows'"
  by (induction rule: pass_write.induct) (auto intro: ledger_step.intros)

lemma writes_history: "ledger_writes sc a rows rows' \<Longrightarrow> ledger_history rows \<Longrightarrow> ledger_history rows'"
  unfolding ledger_writes_def
  by (induction rule: rtranclp_induct) (auto intro: ledger_history.step write_step)

text \<open>Cursors are only ever stored, and only the mapping's own.\<close>

definition own_cursors :: "ledger_scope \<Rightarrow> (string \<times> string \<times> string) set" where
  "own_cursors sc = {(t, m, path). t = sp_tenant sc \<and> m = sp_mapping sc}"

lemma cursor_writes:
  "(cursor_write sc)\<^sup>*\<^sup>* cs cs' \<Longrightarrow> dom cs \<subseteq> dom cs' \<and> cs' |` (- own_cursors sc) = cs |` (- own_cursors sc)"
proof (induction rule: rtranclp_induct)
  case (step cs1 cs2)
  then obtain path v where cs2: "cs2 = cursor_set sc path v cs1" by (auto elim: cursor_write.cases)
  have "(sp_tenant sc, sp_mapping sc, path) \<in> own_cursors sc" by (simp add: own_cursors_def)
  then have "cs2 |` (- own_cursors sc) = cs1 |` (- own_cursors sc)"
    unfolding cs2 cursor_set_def by simp
  moreover have "dom cs1 \<subseteq> dom cs2" unfolding cs2 cursor_set_def by auto
  ultimately show ?case using step.IH by (metis subset_trans)
qed simp

end
