(* ===== verification/Sync_Progress.thy ===== *)
theory Sync_Progress
  imports Sync_Laws
begin

text \<open>
  How far a pass got, and what it may say of it: which pauses are set, what is left unfinished,
  how many items were looked at, which cursor moves, and how many failures in a row it bears. The
  locale \<open>item_effect\<close> holds what the handling of one item does to these, whatever the item; it is
  interpreted on the two relations the properties rest on.
\<close>

subsection \<open>The course of a pass\<close>

definition course :: "'w pass \<Rightarrow> string list \<times> nat \<times> nat \<times> nat \<times> cursor_table \<times> (string \<times> string) list \<times> bool \<times> nat" where
  "course s = (ps_unfinished s, pc_scanned (ps_counts s), pc_heldAtCeiling (ps_counts s), ps_consecutive s,
     ps_cursors s, ps_cursorsHeld s, paused s, ps_unreadInARow s)"

text \<open>
  The laws of a relation that the handling of an item keeps: it may change anything outside the
  course, pause, hold an item back, take an item back as it pauses, and forget the failures in a row.
\<close>

locale item_effect = effect R
  for R :: "'w pass \<Rightarrow> 'w pass \<Rightarrow> bool" +
  assumes elsewhere: "course t = course s \<Longrightarrow> R s t"
    and pausing: "paused t \<Longrightarrow> ps_unfinished t = ps_unfinished s \<Longrightarrow> ps_cursors t = ps_cursors s \<Longrightarrow>
      ps_cursorsHeld t = ps_cursorsHeld s \<Longrightarrow> ps_consecutive t = ps_consecutive s \<Longrightarrow>
      ps_unreadInARow t = ps_unreadInARow s \<Longrightarrow>
      pc_heldAtCeiling (ps_counts t) = pc_heldAtCeiling (ps_counts s) \<Longrightarrow> R s t"
    and holding: "R s (s\<lparr>ps_counts := (ps_counts s)\<lparr>pc_heldAtCeiling := pc_heldAtCeiling (ps_counts s) + 1\<rparr>\<rparr>)"
    and recovered: "R s (s\<lparr>ps_consecutive := 0\<rparr>)"
begin

lemma outside: "(\<And>s. course (f s) = course s) \<Longrightarrow> within R (modifyP f)"
  by (rule within_modify) (rule elsewhere)

lemma world_outside: "within R (on_world m)"
  by (rule withinI) (simp add: on_world_def case_prod_beta elsewhere course_def paused_def)

lemma ledger_outside: "within R (ledgerP deps f)"
  by (rule withinI)
    (auto simp: ledgerP_def course_def paused_def case_prod_beta split: sum.split prod.split intro!: elsewhere)

lemma write_outside: "within R (writeP deps f)"
  unfolding writeP_def by (rule outside) (simp add: course_def paused_def)

lemma count_outside:
  "(\<And>c. pc_scanned (f c) = pc_scanned c \<and> pc_heldAtCeiling (f c) = pc_heldAtCeiling c) \<Longrightarrow> within R (count f)"
  unfolding count_def by (rule outside) (simp add: course_def paused_def)

lemmas item_structure = within_structure within_sided world_outside ledger_outside write_outside

lemma stop_course: "within R (stopTakingNewWork deps)"
proof -
  have late: "within R (stopIfPastDeadline deps)"
    unfolding stopIfPastDeadline_def
    by (auto intro!: item_structure within_modify pausing split: option.split simp: paused_def)
  have asked: "within R (modifyP (\<lambda>s. s\<lparr>ps_lastAskedAt := v\<rparr>))" for v
    by (rule outside) (simp add: course_def paused_def)
  have halted: "within R (modifyP (\<lambda>s. s\<lparr>ps_haltPause := Some (why, at, f s)\<rparr>))" for why at f
    by (intro within_modify pausing) (simp_all add: paused_def)
  have told: "within R (stopIfToldTo deps)"
    unfolding stopIfToldTo_def by (auto intro!: item_structure asked halted split: option.split)
  show ?thesis unfolding stopTakingNewWork_def by (auto intro!: item_structure late told)
qed

lemma pause_course: "within R (pauseNow st)"
  unfolding pauseNow_def by (rule within_modify) (auto intro!: pausing simp: paused_def effect_refl)

lemma collection_course: "within R (collectionIdOf deps folder)"
proof -
  have made: "within R (sided Target_side (on_world (dp_ensureCollection deps folder)))"
    by (intro item_structure)
  have "within R (\<lambda>s. case sided Target_side (on_world (dp_ensureCollection deps folder)) s of
      (x, t) \<Rightarrow> (x, t\<lparr>ps_collection := Some x\<rparr>))"
  proof (rule withinI)
    fix s
    obtain x t where run: "sided Target_side (on_world (dp_ensureCollection deps folder)) s = (x, t)" by fastforce
    from withinD [OF made run] have "R s t" .
    moreover have "R t (t\<lparr>ps_collection := Some x\<rparr>)" by (rule elsewhere) (simp add: course_def paused_def)
    ultimately show "R s (snd (case sided Target_side (on_world (dp_ensureCollection deps folder)) s of
        (x, t) \<Rightarrow> (x, t\<lparr>ps_collection := Some x\<rparr>)))"
      using run by (simp add: effect_trans)
  qed
  then show ?thesis unfolding collectionIdOf_def
    by (auto intro!: item_structure split: option.split sum.split)
qed

lemma course_books [simp]:
  "course (s\<lparr>ps_item := v1\<rparr>) = course s" "course (s\<lparr>ps_seen := v2\<rparr>) = course s"
  "course (s\<lparr>ps_failures := v3\<rparr>) = course s" "course (s\<lparr>ps_moves := v4\<rparr>) = course s"
  "course (s\<lparr>ps_movedByTheLoop := v5\<rparr>) = course s" "course (s\<lparr>ps_created := v6\<rparr>) = course s"
  "course (s\<lparr>ps_ahead := v7\<rparr>) = course s" "course (s\<lparr>ps_identities := v8\<rparr>) = course s"
  "course (s\<lparr>ps_formerNames := v9\<rparr>) = course s" "course (s\<lparr>ps_collection := v10\<rparr>) = course s"
  by (simp_all add: course_def paused_def)

lemma decision_course: "within R (asks_for_a_decision deps key known)"
  unfolding asks_for_a_decision_def by (intro item_structure outside count_outside) simp_all

lemma known_course: "within R (known_item deps items path index item)"
proof -
  have ahead: "within R (readAhead deps items index key)" for key
    unfolding readAhead_def Let_def by (intro item_structure outside) (simp split: option.split)
  have moved: "within R (it_moved deps path key known)" for key known
    unfolding it_moved_def by (intro item_structure outside count_outside) simp_all
  have settled: "within R (done_with f)"
    if "\<And>c. pc_scanned (f c) = pc_scanned c \<and> pc_heldAtCeiling (f c) = pc_heldAtCeiling c" for f
    unfolding done_with_def by (intro item_structure count_outside that)
  have act: "within R (act_on_known deps key version known action)" for key version known action
    unfolding act_on_known_def
    by (auto intro!: item_structure settled decision_course split: known_item_action.split)
  have meet: "within R (meet_known deps path key version known)" for key version known
    unfolding meet_known_def Let_def by (auto intro!: item_structure moved act)
  show ?thesis unfolding known_item_def
    by (auto intro!: item_structure settled meet ahead split: option.split)
qed

lemma from_raw_course: "within R (key_from_raw deps folder path item raw)"
proof -
  have ask: "within R (ask_target ask collection earlier)" for ask collection earlier
    by (induction earlier) (auto intro!: item_structure)
  have known: "within R (known_after_fetch deps folder key earlier)" for key earlier
    unfolding known_after_fetch_def
    by (auto intro!: item_structure collection_course ask split: option.split prod.split)
  show ?thesis unfolding key_from_raw_def Let_def
    by (auto intro!: item_structure outside known decision_course count_outside
        split: option.split sum.split prod.split known_item_action.split simp: course_def paused_def)
qed

lemma place_course: "within R (place_item deps folder path item rewriteOf hasRow raw n)"
proof -
  have counted: "within R (count_copy deps path item rw n result)" for rw result
    unfolding count_copy_def by (auto intro!: item_structure outside count_outside)
  have forgotten: "within R (modifyP (\<lambda>s. s\<lparr>ps_consecutive := 0\<rparr>))"
    by (intro within_modify recovered)
  show ?thesis unfolding place_item_def
    by (cases rewriteOf) (auto intro!: item_structure collection_course outside counted count_outside forgotten)
qed

lemma copy_course: "within R (copy_item deps folder path item rewriteOf hasRow)"
proof -
  have held: "within R hold"
    unfolding hold_def count_def by (intro within_modify holding)
  have taken_back: "within R (take_back st)" for st unfolding take_back_def
    by (rule withinI) (auto intro!: pausing simp: run_simps pauseNow_def count_def paused_def)
  show ?thesis unfolding copy_item_def Let_def
    by (auto intro!: item_structure outside from_raw_course place_course held taken_back split: option.split prod.split)
qed

end

subsection \<open>Looking at items\<close>

text \<open>Cursors stand, what paused stays paused, and items held back only add up.\<close>

definition stands :: "'w pass \<Rightarrow> 'w pass \<Rightarrow> bool" where
  "stands s t \<longleftrightarrow> ps_cursors t = ps_cursors s \<and> ps_cursorsHeld t = ps_cursorsHeld s \<and>
     (paused s \<longrightarrow> paused t) \<and> pc_heldAtCeiling (ps_counts s) \<le> pc_heldAtCeiling (ps_counts t)"

definition proceeds :: "'w pass \<Rightarrow> 'w pass \<Rightarrow> bool" where
  "proceeds s t \<longleftrightarrow> stands s t \<and>
     (paused t \<or> pc_scanned (ps_counts t) = pc_scanned (ps_counts s) \<and> ps_unfinished t = ps_unfinished s)"

text \<open>Failures in a row do not grow, nor do collections that could not be read.\<close>

definition calm :: "'w pass \<Rightarrow> 'w pass \<Rightarrow> bool" where
  "calm s t \<longleftrightarrow> ps_consecutive t \<le> ps_consecutive s \<and> ps_unreadInARow t \<le> ps_unreadInARow s"

interpretation stands: effect stands
  by unfold_locales (auto simp: stands_def)

interpretation proceeds: item_effect proceeds
  by unfold_locales (auto simp: proceeds_def stands_def course_def, auto simp: paused_def)

interpretation calm: item_effect calm
  by unfold_locales (auto simp: calm_def course_def)

lemma proceeds_stands: "within proceeds m \<Longrightarrow> within stands m"
  by (erule within_mono) (simp add: proceeds_def)

lemma failed_proceeds: "within proceeds (item_failed deps path item e)"
proof -
  have failed: "within proceeds (record_item_failure deps path item e key)" for key
    unfolding record_item_failure_def Let_def
    by (intro proceeds.item_structure proceeds.outside proceeds.count_outside) simp_all
  have one_more: "within proceeds (modifyP (\<lambda>s. s\<lparr>ps_consecutive := Suc (ps_consecutive s)\<rparr>))"
    by (rule within_modify) (simp add: proceeds_def stands_def paused_def)
  show ?thesis unfolding item_failed_def too_many_in_a_row_def
    by (auto intro!: proceeds.item_structure failed one_more proceeds.count_outside split: option.split)
qed

text \<open>A program that looks at \<open>n\<close> items: if it returns, and nothing paused, it looked at them all.\<close>

definition looks :: "nat \<Rightarrow> ('w, unit) pass_prog \<Rightarrow> bool" where
  "looks n m \<longleftrightarrow> within stands m \<and> (\<forall>s t. m s = (Inr (), t) \<longrightarrow> paused t \<or>
     pc_scanned (ps_counts t) = pc_scanned (ps_counts s) + n \<and> ps_unfinished t = ps_unfinished s)"

lemma looks_stands: "looks n m \<Longrightarrow> within stands m"
  by (simp add: looks_def)

lemma looksD:
  assumes "looks n m" and "m s = (Inr (), t)" and "\<not> paused t"
  shows "pc_scanned (ps_counts t) = pc_scanned (ps_counts s) + n \<and> ps_unfinished t = ps_unfinished s"
  using assms unfolding looks_def by blast

lemma proceeds_looks: "within proceeds m \<Longrightarrow> looks 0 m"
  unfolding looks_def using proceeds_stands withinD by (fastforce simp: proceeds_def)

lemma looks_then:
  assumes "looks n m" and "looks k m'"
  shows "looks (n + k) (thenP m m')"
proof -
  have stands: "within stands m" "within stands m'" using assms by (simp_all add: looks_def)
  have "paused u \<or> pc_scanned (ps_counts u) = pc_scanned (ps_counts s) + (n + k) \<and> ps_unfinished u = ps_unfinished s"
    if run: "thenP m m' s = (Inr (), u)" for s u
  proof -
    obtain t where m: "m s = (Inr (), t)" and m': "m' t = (Inr (), u)"
      using returned_then [OF run] by auto
    from withinD [OF stands(2) m'] have "paused t \<longrightarrow> paused u" by (simp add: stands_def)
    with assms m m' show ?thesis by (fastforce simp: looks_def)
  qed
  with stands show ?thesis by (simp add: looks_def stands.within_then)
qed

lemma stop_pauses: "stopTakingNewWork deps s = (Inr True, t) \<Longrightarrow> paused t"
  by (auto simp: stopTakingNewWork_def stopIfPastDeadline_def stopIfToldTo_def run_simps paused_def on_world_def
      split: prod.splits sum.splits option.splits if_splits)

lemma begin_looks: "looks 1 (begin_item deps path item)"
  unfolding looks_def begin_item_def
  by (auto intro!: withinI simp: run_simps count_def stands_def paused_def split: option.split)

lemma handle_looks: "looks 1 (handle_item deps folder path items x)"
proof (cases x)
  case (Pair index item)
  let ?item = "bindP (known_item deps items path index item) (\<lambda>p. case p of
      Item_done \<Rightarrow> ret () | Item_copy rewriteOf hasRow \<Rightarrow>
        catchP (copy_item deps folder path item rewriteOf hasRow) (item_failed deps path item))"
  let ?work = "thenP (begin_item deps path item) ?item"
  have "within proceeds ?item"
    by (auto intro!: proceeds.item_structure proceeds.known_course proceeds.copy_course failed_proceeds split: item_path.split)
  from looks_then [OF begin_looks proceeds_looks [OF this]] have work: "looks 1 ?work" by simp
  have stop: "within stands (stopTakingNewWork deps)" by (intro proceeds_stands proceeds.stop_course)
  have left: "within stands (unfinished path)"
    unfolding unfinished_def by (rule within_modify) (simp add: stands_def paused_def)
  have run: "handle_item deps folder path items x =
      bindP (stopTakingNewWork deps) (\<lambda>stop. if stop then unfinished path else ?work)"
    by (simp add: Pair handle_item_def)
  have "within stands (handle_item deps folder path items x)"
    unfolding run using work by (auto intro!: stands.within_bind stop left simp: looks_def)
  moreover have "paused u \<or> pc_scanned (ps_counts u) = pc_scanned (ps_counts s) + 1 \<and> ps_unfinished u = ps_unfinished s"
    if returns: "handle_item deps folder path items x s = (Inr (), u)" for s u
  proof -
    obtain b t where stop_run: "stopTakingNewWork deps s = (Inr b, t)"
        and rest: "(if b then unfinished path else ?work) t = (Inr (), u)"
      using returned_bind [OF returns [unfolded run]] by blast
    show ?thesis
    proof (cases b)
      case True
      with stop_run have "paused t" by (simp add: stop_pauses)
      moreover have "stands t u" using True rest withinD [OF left] by simp
      ultimately show ?thesis by (simp add: stands_def)
    next
      case False
      from withinD [OF proceeds.stop_course stop_run] have "proceeds s t" .
      moreover from False rest have "?work t = (Inr (), u)" by simp
      with work have "paused u \<or> pc_scanned (ps_counts u) = pc_scanned (ps_counts t) + 1 \<and> ps_unfinished u = ps_unfinished t"
          and "stands t u" unfolding looks_def by (blast dest: withinD)+
      ultimately show ?thesis by (auto simp: proceeds_def stands_def)
    qed
  qed
  ultimately show ?thesis by (simp add: looks_def)
qed

lemma items_look: "looks (length items) (handle_items deps folder items)"
proof -
  have "looks (length xs) (forP xs (handle_item deps folder path items))" for xs path
  proof (induction xs)
    case Nil
    show ?case using proceeds_looks [OF proceeds.within_ret] by simp
  next
    case (Cons x xs)
    from looks_then [OF handle_looks Cons.IH] show ?case by simp
  qed
  from this [of "List.enumerate 0 items"] show ?thesis by (simp add: handle_items_def)
qed

subsection \<open>A collection read whole\<close>

definition same_cursors :: "'w pass \<Rightarrow> 'w pass \<Rightarrow> bool" where
  "same_cursors s t \<longleftrightarrow> ps_cursors t = ps_cursors s \<and> ps_cursorsHeld t = ps_cursorsHeld s"

text \<open>
  What lies between two states if a collection was read whole: every item of the listing was looked
  at, none was held back, nothing paused, no recorded failure is owed a retry, and the listing
  said something; then its cursor is stored, or held with the removals it came with.
\<close>

definition read_whole ::
    "('w, 'i, 'r, 'f) sync_deps \<Rightarrow> string \<Rightarrow> string option \<Rightarrow> 'i listing \<Rightarrow> 'w pass \<Rightarrow> 'w pass \<Rightarrow> bool" where
  "read_whole deps path prev listing s t \<longleftrightarrow>
     dp_hasCursors deps \<and> \<not> firstReadSawNothing prev listing \<and> \<not> paused t \<and> \<not> retryablePending t \<and>
     pc_scanned (ps_counts t) = pc_scanned (ps_counts s) + length (ls_items listing) \<and>
     pc_heldAtCeiling (ps_counts t) = pc_heldAtCeiling (ps_counts s) \<and> ps_unfinished t = ps_unfinished s \<and>
     (if dp_sourceIsAuthority deps \<and> ls_removed listing \<noteq> []
      then ps_cursors t = ps_cursors s \<and> ps_cursorsHeld t = ps_cursorsHeld s @ [(path, ls_nextCursor listing)]
      else ps_cursors t = cursor_set (dp_scope deps) path (ls_nextCursor listing) (ps_cursors s) \<and>
           ps_cursorsHeld t = ps_cursorsHeld s)"

text \<open>
  What happens around the items changes neither what was scanned nor what is paused. The relation
  between two states that only the handling of items and the cursors may leave.
\<close>

definition aside :: "'w pass \<Rightarrow> 'w pass \<Rightarrow> bool" where
  "aside s t \<longleftrightarrow> same_cursors s t \<and> ps_unfinished t = ps_unfinished s \<and> ps_counts t = ps_counts s \<and>
     (paused s \<longrightarrow> paused t) \<and> ps_failures t = ps_failures s"

interpretation aside: effect aside
  by unfold_locales (auto simp: aside_def same_cursors_def)

lemma aside_books:
  "(\<And>s. aside s (f s)) \<Longrightarrow> within aside (modifyP f)"
  by (rule within_modify)

lemma aside_world: "within aside (on_world m)"
  by (rule withinI) (simp add: on_world_def case_prod_beta aside_def same_cursors_def paused_def)

lemma keys_aside: "within aside (list_keys deps folder prev)"
  unfolding list_keys_def
  by (auto intro!: aside.within_structure aside.within_sided aside_world aside_books
      simp: aside_def same_cursors_def paused_def split: option.split)

lemma opening_aside: "within aside (stopTakingNewWork deps)"
  unfolding stopTakingNewWork_def stopIfPastDeadline_def stopIfToldTo_def
  by (auto intro!: aside.within_structure aside_world aside_books
      simp: aside_def same_cursors_def paused_def split: option.split)

lemma collection_aside: "within aside (collectionIdOf deps folder)"
proof (rule withinI)
  fix s
  have made: "within aside (sided Target_side (on_world (dp_ensureCollection deps folder)))"
    by (intro aside.within_sided aside_world)
  obtain x t where run: "sided Target_side (on_world (dp_ensureCollection deps folder)) s = (x, t)" by fastforce
  from withinD [OF made run] show "aside s (snd (collectionIdOf deps folder s))"
    by (auto simp: collectionIdOf_def run run_simps aside_def same_cursors_def paused_def split: option.split sum.split)
qed

lemma aside_stands: "aside s t \<Longrightarrow> stands s t"
  by (simp add: aside_def stands_def same_cursors_def)

lemma keys_stand: "within stands (list_keys deps folder prev)"
  using keys_aside by (rule within_mono) (rule aside_stands)

lemma aside_then:
  assumes "within aside m" and "thenP m n s = (Inr b, u)"
  obtains t where "aside s t" "n t = (Inr b, u)"
  using returned_then [OF assms(2)] withinD [OF assms(1)] by metis

lemma read_folder_whole:
  "same_cursors s (snd (read_folder deps folder prev listing s)) \<or>
   fst (read_folder deps folder prev listing s) = Inr () \<and>
   read_whole deps (folder_path deps folder) prev listing s (snd (read_folder deps folder prev listing s))"
proof -
  let ?keys = "list_keys deps folder prev" and ?items = "handle_items deps folder (ls_items listing)"
  let ?path = "folder_path deps folder"
  let ?before = "pc_heldAtCeiling (ps_counts s)"
  let ?s1 = "s\<lparr>ps_unreadInARow := 0, ps_listedOne := True\<rparr>"
  let ?s2 = "if dp_sourceIsAuthority deps then ?s1\<lparr>ps_removals := ps_removals s @ ls_removed listing\<rparr> else ?s1"
  have s2: "aside s ?s2" by (simp add: run_simps aside_def same_cursors_def paused_def)
  have run: "read_folder deps folder prev listing s =
      thenP ?keys (thenP ?items (advance_cursor deps ?path prev listing ?before)) ?s2"
    by (simp add: read_folder_def run_simps)
  obtain x3 s3 where keys: "?keys ?s2 = (x3, s3)" by fastforce
  from aside.effect_trans [OF s2 withinD [OF keys_aside keys]] have s3: "aside s s3" .
  show ?thesis
  proof (cases x3)
    case Inl
    with run keys s3 show ?thesis by (simp add: run_then aside_def)
  next
    case (Inr u3)
    obtain x4 s4 where items: "?items s3 = (x4, s4)" by fastforce
    from withinD [OF looks_stands [OF items_look] items] have s4: "stands s3 s4" .
    show ?thesis
    proof (cases x4)
      case (Inl e)
      with run keys Inr items s3 s4 show ?thesis
        by (simp add: run_then aside_def same_cursors_def stands_def)
    next
      case (Inr u4)
      have rest: "read_folder deps folder prev listing s = advance_cursor deps ?path prev listing ?before s4"
        using run keys \<open>x3 = Inr u3\<close> items Inr by (simp add: run_then)
      show ?thesis
      proof (cases "may_advance deps prev listing ?before s4")
        case False
        with rest s3 s4 show ?thesis
          by (simp add: advance_cursor_def run_simps aside_def same_cursors_def stands_def)
      next
        case True
        then have may: "dp_hasCursors deps" "\<not> retryablePending s4" "\<not> paused s4" "\<not> firstReadSawNothing prev listing"
            "pc_heldAtCeiling (ps_counts s4) \<le> ?before"
          by (simp_all add: may_advance_def)
        from items Inr have "?items s3 = (Inr (), s4)" by simp
        from looksD [OF items_look this may(3)] have "pc_scanned (ps_counts s4) = pc_scanned (ps_counts s3) + length (ls_items listing)"
            "ps_unfinished s4 = ps_unfinished s3"
          by simp_all
        with may s3 s4 True rest show ?thesis
          by (auto simp: advance_cursor_def run_simps read_whole_def aside_def stands_def same_cursors_def
              paused_def retryablePending_def)
      qed
    qed
  qed
qed

text \<open>Up to its listing, a collection changes no cursor; a listing is what the source gave.\<close>

interpretation same_cursors: effect same_cursors
  by unfold_locales (auto simp: same_cursors_def)

lemma aside_same: "within aside m \<Longrightarrow> within same_cursors m"
  by (erule within_mono) (simp add: aside_def)

lemma listing_same: "within same_cursors (list_folder deps folder prev)"
proof -
  have world: "within same_cursors (sided Source_side (on_world m))" for m :: "('a, js_error, 'b listing) prog"
    by (intro same_cursors.within_sided aside_same aside_world)
  have unread: "within same_cursors (unread_folder deps folder e)" for e
    unfolding unread_folder_def Let_def unfinished_def
    by (auto intro!: same_cursors.within_structure within_modify simp: same_cursors_def)
  show ?thesis unfolding list_folder_def by (intro same_cursors.within_structure world unread)
qed

lemma sided_returned: "sided side m s = (Inr a, t) \<Longrightarrow> m s = (Inr a, t)"
  by (simp add: sided_def run_simps split: prod.splits sum.splits)

lemma listing_given:
  assumes "list_folder deps folder prev s = (Inr (Some listing), t)"
  shows "fst (dp_listSince deps folder prev (ps_world s)) = Inr listing \<and> aside s t"
proof -
  have world: "within aside (sided Source_side (on_world (dp_listSince deps folder prev)))"
    by (intro aside.within_sided aside_world)
  obtain x u where run: "sided Source_side (on_world (dp_listSince deps folder prev)) s = (x, u)" by fastforce
  show ?thesis
  proof (cases x)
    case (Inl e)
    with run have "list_folder deps folder prev s = thenP (unread_folder deps folder e) (ret None) u"
      by (simp add: list_folder_def run_catch run_bind)
    from assms [unfolded this] have False by (rule returned_then) (simp add: run_ret)
    then show ?thesis ..
  next
    case (Inr l)
    with assms run have "l = listing" and "u = t" by (simp_all add: list_folder_def run_catch run_bind run_ret)
    moreover from withinD [OF world run] have "aside s u" .
    moreover have "on_world (dp_listSince deps folder prev) s = (Inr l, u)"
      by (rule sided_returned [OF run [unfolded Inr]])
    ultimately show ?thesis by (auto simp: on_world_def split: prod.splits)
  qed
qed

text \<open>Before its listing a collection is opened: the stop is asked, the target's collection made.\<close>

lemma sync_folder_opens:
  "same_cursors s (snd (sync_folder deps folder s)) \<or>
   (\<exists>prev listing w v. fst (dp_listSince deps folder prev w) = Inr listing \<and> aside s v \<and>
     sync_folder deps folder s = read_folder deps folder prev listing v)"
proof -
  let ?path = "folder_path deps folder"
  obtain x1 s1 where stop: "stopTakingNewWork deps s = (x1, s1)" by fastforce
  from withinD [OF opening_aside stop] have s1: "aside s s1" .
  show ?thesis
  proof (cases "x1 = Inr False")
    case False
    have left: "same_cursors t (snd (unfinished ?path t))" for t :: "'a pass"
      by (simp add: unfinished_def run_modify same_cursors_def)
    from False stop s1 left [of "s1\<lparr>ps_notReached := ps_notReached s1 + 1\<rparr>"] show ?thesis
      by (cases x1) (auto simp: sync_folder_def run_bind run_then run_modify aside_def same_cursors_def)
  next
    case True
    let ?s2 = "s1\<lparr>ps_collection := None, ps_ahead := None\<rparr>"
    let ?prev = "prev_cursor deps ?path ?s2"
    let ?make = "whenP (?prev = None) (thenP (collectionIdOf deps folder) (ret ()))"
    have s2: "aside s ?s2" using s1 by (simp add: aside_def same_cursors_def paused_def)
    obtain x3 s3 where make: "?make ?s2 = (x3, s3)" by fastforce
    have "within aside ?make" by (intro aside.within_structure collection_aside)
    from withinD [OF this make] s2 have s3: "aside s s3" by (blast intro: aside.effect_trans)
    obtain x4 s4 where list: "list_folder deps folder ?prev s3 = (x4, s4)" by fastforce
    from withinD [OF listing_same list] s3 have s4: "same_cursors s s4" by (simp add: aside_def same_cursors_def)
    have run: "sync_folder deps folder s =
        (case ?make ?s2 of (Inl e, t) \<Rightarrow> (Inl e, t)
         | (Inr _, t) \<Rightarrow> (case list_folder deps folder ?prev t of (Inl e, v) \<Rightarrow> (Inl e, v)
           | (Inr None, v) \<Rightarrow> (Inr (), v)
           | (Inr (Some listing), v) \<Rightarrow> read_folder deps folder ?prev listing v))"
      using stop True
      by (simp add: sync_folder_def run_bind run_then run_modify run_read run_ret split: prod.split sum.split option.split)
    show ?thesis
    proof (cases "\<exists>l. x3 = Inr () \<and> x4 = Inr (Some l)")
      case True
      then obtain l where ok: "x3 = Inr ()" "x4 = Inr (Some l)" by blast
      with list have given: "fst (dp_listSince deps folder ?prev (ps_world s3)) = Inr l \<and> aside s3 s4"
        by (intro listing_given) simp
      with s3 have "aside s s4" by (blast intro: aside.effect_trans)
      moreover have "sync_folder deps folder s = read_folder deps folder ?prev l s4"
        unfolding run using ok make list by simp
      ultimately show ?thesis using given by blast
    next
      case False
      with s3 s4 make list show ?thesis unfolding run
        by (cases x3; cases x4) (auto simp: aside_def split: option.split)
    qed
  qed
qed

lemma read_whole_aside: "aside s v \<Longrightarrow> read_whole deps path prev listing v t \<Longrightarrow> read_whole deps path prev listing s t"
  by (auto simp: read_whole_def aside_def same_cursors_def)

lemma same_aside: "aside s v \<Longrightarrow> same_cursors v t \<Longrightarrow> same_cursors s t"
  by (simp add: aside_def same_cursors_def)

subsection \<open>Failures in a row\<close>

text \<open>A program that returns leaves fewer failures in a row than abort the pass, if it met fewer.\<close>

definition few :: "'w pass \<Rightarrow> bool" where
  "few s \<longleftrightarrow> ps_consecutive s < ABORT_AFTER_CONSECUTIVE_FAILURES \<and>
     ps_unreadInARow s < ABORT_AFTER_CONSECUTIVE_UNREAD_COLLECTIONS"

definition bears :: "('w, 'a) pass_prog \<Rightarrow> bool" where
  "bears m \<longleftrightarrow> (\<forall>s a t. few s \<longrightarrow> m s = (Inr a, t) \<longrightarrow> few t)"

lemma bearsI: "(\<And>s a t. few s \<Longrightarrow> m s = (Inr a, t) \<Longrightarrow> few t) \<Longrightarrow> bears m"
  unfolding bears_def by blast

lemma bearsD: "bears m \<Longrightarrow> few s \<Longrightarrow> m s = (Inr a, t) \<Longrightarrow> few t"
  unfolding bears_def by blast

lemma few_calm: "few s \<Longrightarrow> calm s t \<Longrightarrow> few t"
  by (auto simp: few_def calm_def)

lemma calm_bears: "within calm m \<Longrightarrow> bears m"
  by (rule bearsI) (erule few_calm, erule withinD)

lemma bears_bind:
  assumes "bears m" and "\<And>a. bears (f a)"
  shows "bears (bindP m f)"
proof (rule bearsI)
  fix s a t
  assume few: "few s" and run: "bindP m f s = (Inr a, t)"
  obtain b u where m: "m s = (Inr b, u)" and f: "f b u = (Inr a, t)" using run by (rule returned_bind)
  from bearsD [OF assms(2) bearsD [OF assms(1) few m] f] show "few t" .
qed

lemma bears_then: "bears m \<Longrightarrow> bears n \<Longrightarrow> bears (thenP m n)"
  unfolding thenP_def by (rule bears_bind)

lemma bears_for: "(\<And>x. bears (f x)) \<Longrightarrow> bears (forP xs f)"
  by (induction xs) (auto intro: bears_then calm_bears calm.within_ret)

lemma bears_catch:
  assumes "within calm m" and "\<And>e. bears (h e)"
  shows "bears (catchP m h)"
proof (rule bearsI)
  fix s a t
  assume few: "few s" and run: "catchP m h s = (Inr a, t)"
  obtain x u where m: "m s = (x, u)" by fastforce
  from few_calm [OF few withinD [OF assms(1) m]] have "few u" .
  with run m assms(2) show "few t" by (cases x) (auto simp: run_catch dest: bearsD)
qed

lemma too_many_few: "too_many_in_a_row e s = (Inr a, t) \<Longrightarrow> ps_consecutive t < ABORT_AFTER_CONSECUTIVE_FAILURES \<and> t = s"
  by (auto simp: too_many_in_a_row_def run_simps split: if_splits)

text \<open>The failure of an item leaves the count of unread collections, and ends by asking for too many.\<close>

definition same_unread :: "'w pass \<Rightarrow> 'w pass \<Rightarrow> bool" where
  "same_unread s t \<longleftrightarrow> ps_unreadInARow t = ps_unreadInARow s"

interpretation same_unread: effect same_unread
  by unfold_locales (auto simp: same_unread_def)

lemma ledger_unread: "within same_unread (ledgerP deps f)"
  by (rule withinI) (auto simp: ledgerP_def same_unread_def split: prod.split sum.split)

lemma record_failure_unread: "within same_unread (record_item_failure deps path item e key)"
  unfolding record_item_failure_def Let_def count_def
  by (auto intro!: same_unread.within_structure within_modify ledger_unread simp: same_unread_def)

lemma failed_few:
  assumes "few s" and "item_failed deps path item e s = (Inr a, t)"
  shows "few t"
proof -
  have "within same_unread (item_failed deps path item e)"
    unfolding item_failed_def too_many_in_a_row_def count_def
    by (auto intro!: same_unread.within_structure within_modify record_failure_unread simp: same_unread_def split: option.split)
  from withinD [OF this assms(2)] have "same_unread s t" .
  moreover have "\<exists>u v. too_many_in_a_row e u = (Inr a, v) \<and> t = v"
    using assms(2) unfolding item_failed_def
    by (auto simp: run_throw split: if_splits option.splits elim!: returned_then returned_bind)
  ultimately show ?thesis using assms(1) too_many_few by (auto simp: few_def same_unread_def)
qed

lemma calm_modify: "(\<And>s. ps_consecutive (f s) = ps_consecutive s \<and> ps_unreadInARow (f s) \<le> ps_unreadInARow s) \<Longrightarrow>
    within calm (modifyP f)"
  by (rule within_modify) (simp add: calm_def)

lemma unfinished_calm: "within calm (unfinished path)"
  unfolding unfinished_def by (rule calm_modify) simp

lemma begin_calm: "within calm (begin_item deps path item)"
  unfolding begin_item_def count_def by (intro calm.within_structure calm_modify) (simp_all split: option.split)

lemma handle_bears: "bears (handle_item deps folder path items x)"
proof (cases x)
  case (Pair index item)
  have failed: "bears (item_failed deps path item e)" for e by (rule bearsI) (rule failed_few)
  show ?thesis unfolding Pair handle_item_def
    by (auto intro!: bears_bind bears_then calm_bears [OF calm.stop_course] calm_bears [OF unfinished_calm]
        calm_bears [OF begin_calm] calm_bears [OF calm.known_course] calm_bears [OF calm.within_ret]
        bears_catch calm.copy_course failed split: item_path.split)
qed

lemma count_calm: "within calm (count f)"
  unfolding count_def by (rule calm_modify) simp

lemma table_calm: "within calm (tableP deps f)"
  by (rule withinI) (simp add: tableP_def case_prod_beta calm_def)

lemmas calm_structure = calm.item_structure count_calm table_calm calm_modify unfinished_calm

lemma unread_bears: "bears (unread_folder deps folder e)"
proof (rule bearsI)
  fix s a t
  assume few: "few s" and run: "unread_folder deps folder e s = (Inr a, t)"
  have "ps_consecutive t = ps_consecutive s \<and> ps_unreadInARow t < ABORT_AFTER_CONSECUTIVE_UNREAD_COLLECTIONS"
    using run by (auto simp: unread_folder_def Let_def run_simps unfinished_def split: if_splits)
  with few show "few t" by (simp add: few_def)
qed

lemma listing_bears: "bears (list_folder deps folder prev)"
  unfolding list_folder_def
  by (intro bears_catch bears_then unread_bears calm_bears [OF calm.within_ret] calm_structure)

lemma keys_calm: "within calm (list_keys deps folder prev)"
  unfolding list_keys_def by (auto intro!: calm_structure split: option.split)

lemma advance_calm: "within calm (advance_cursor deps path prev listing before)"
  unfolding advance_cursor_def by (intro calm_structure) simp

lemma items_bear: "bears (handle_items deps folder items)"
  unfolding handle_items_def by (intro bears_for handle_bears)

lemma read_bears: "bears (read_folder deps folder prev listing)"
proof -
  have opened: "within calm (modifyP (\<lambda>s. s\<lparr>ps_unreadInARow := 0, ps_listedOne := True\<rparr>))"
    by (rule calm_modify) simp
  have removals: "within calm (whenP b (modifyP (\<lambda>s. s\<lparr>ps_removals := ps_removals s @ hrefs\<rparr>)))" for b hrefs
    by (intro calm_structure) simp
  show ?thesis unfolding read_folder_def
    by (intro bears_then bears_bind items_bear calm_bears [OF opened] calm_bears [OF removals] calm_bears [OF keys_calm]
        calm_bears [OF advance_calm] calm_bears [OF calm.within_read])
qed

lemma folder_bears: "bears (sync_folder deps folder)"
proof -
  have missed: "within calm (modifyP (\<lambda>s. s\<lparr>ps_notReached := Suc (ps_notReached s)\<rparr>))"
    by (rule calm_modify) simp
  have fresh: "within calm (modifyP (\<lambda>s. s\<lparr>ps_collection := None, ps_ahead := None\<rparr>))"
    by (rule calm_modify) simp
  have made: "within calm (whenP b (thenP (collectionIdOf deps folder) (ret ())))" for b
    by (intro calm_structure calm.collection_course)
  show ?thesis unfolding sync_folder_def
    by (auto intro!: bears_bind bears_then listing_bears read_bears calm_bears [OF calm.stop_course]
        calm_bears [OF missed] calm_bears [OF unfinished_calm] calm_bears [OF fresh] calm_bears [OF made] calm_bears [OF calm.within_read]
        calm_bears [OF calm.within_ret] split: option.split)
qed

lemma opening_calm: "within calm (open_pass deps)"
proof -
  have late: "within calm (stopIfPastDeadline deps)" and told: "within calm (stopIfToldTo deps)"
    unfolding stopIfPastDeadline_def stopIfToldTo_def by (auto intro!: calm_structure split: option.split)
  show ?thesis unfolding open_pass_def
    by (auto intro!: calm_structure late told calm.pause_course split: option.split)
qed

lemma conclude_calm: "within calm (conclude deps listedNothing)"
proof -
  have removals: "within calm (resolve_removals deps b reached)" for b reached
    unfolding resolve_removals_def by (auto intro!: calm_structure)
  have told: "within calm (told_to_stop deps)"
    unfolding told_to_stop_def by (auto intro!: calm_structure split: option.split)
  have found: "within calm (discarded_found deps l)" for l
    unfolding discarded_found_def by (auto intro!: calm_structure)
  have bin: "within calm (read_bin deps b reached)" for b reached
    unfolding read_bin_def by (auto intro!: calm_structure told found split: option.split)
  have names: "within calm (close_former_names deps reached)" for reached
    unfolding close_former_names_def Let_def by (auto intro!: calm_structure)
  have moves: "within calm (detect_moves deps b)" for b
    unfolding detect_moves_def by (auto intro!: calm_structure)
  show ?thesis unfolding conclude_def
    by (auto intro!: calm_structure removals bin names moves split: option.split)
qed

lemma body_bears: "bears (pass_body deps)"
proof -
  have folders: "within calm (if b then ret [] else sided Source_side (on_world (dp_listFolders deps)))" for b
    by (auto intro!: calm_structure)
  have partial: "within calm (whenP b (modifyP (\<lambda>s. s\<lparr>ps_fullyEnumerated := False\<rparr>)))" for b
    by (intro calm_structure) simp
  show ?thesis unfolding pass_body_def
    by (intro bears_bind bears_then bears_for folder_bears calm_bears [OF opening_calm] calm_bears [OF calm.within_read]
        calm_bears [OF folders] calm_bears [OF partial] calm_bears [OF conclude_calm])
qed

lemma begins_few: "few (begin_pass snapshot at w rows cs)"
  by (simp add: few_def begin_pass_def ABORT_AFTER_CONSECUTIVE_FAILURES_def ABORT_AFTER_CONSECUTIVE_UNREAD_COLLECTIONS_def)

subsection \<open>A pass that has paused\<close>

lemma paused_stop: "paused s \<Longrightarrow> stopTakingNewWork deps s = (Inr True, s)"
  by (simp add: stopTakingNewWork_def run_simps)

lemma paused_item:
  assumes "paused s"
  shows "handle_item deps folder path items x s = (Inr (), s\<lparr>ps_unfinished := ps_unfinished s @ [path]\<rparr>)"
  by (cases x) (simp add: handle_item_def run_bind paused_stop [OF assms] unfinished_def run_modify)

lemma paused_folder:
  assumes "paused s"
  shows "sync_folder deps folder s = (Inr (), s\<lparr>ps_notReached := ps_notReached s + 1,
    ps_unfinished := ps_unfinished s @ [folder_path deps folder]\<rparr>)"
  by (simp add: sync_folder_def run_bind run_then paused_stop [OF assms] unfinished_def run_modify)

lemma paused_folders:
  "paused s \<Longrightarrow> forP folders (sync_folder deps) s = (Inr (), s\<lparr>ps_notReached := ps_notReached s + length folders,
     ps_unfinished := ps_unfinished s @ map (folder_path deps) folders\<rparr>)"
proof (induction folders arbitrary: s)
  case Nil
  show ?case by (simp add: run_ret)
next
  case (Cons folder folders)
  let ?t = "s\<lparr>ps_notReached := ps_notReached s + 1, ps_unfinished := ps_unfinished s @ [folder_path deps folder]\<rparr>"
  from Cons.prems have "paused ?t" by (simp add: paused_def)
  from Cons.IH [OF this] Cons.prems show ?case by (simp add: run_then paused_folder)
qed

subsection \<open>An account to run a pass on\<close>

text \<open>
  One folder with the documents \<open>d1\<close> and \<open>d2\<close>, each named by its path and of one version. The
  world is the log of what was written to the target.
\<close>

definition an_account :: "ledger_scope \<Rightarrow> string list \<Rightarrow> (string list, string, string, string) sync_deps" where
  "an_account sc docs =
     \<lparr>dp_scope = sc, dp_dbNow = (\<lambda>w. 100), dp_hasCursors = True, dp_downloadMeter = None,
      dp_firstCopyAllowed = None, dp_snapshot = False, dp_listFolders = ret [''docs''],
      dp_folderPath = Some, dp_folderName = (\<lambda>f. None),
      dp_listSince = (\<lambda>f prev. ret \<lparr>ls_items = docs, ls_nextCursor = ''c1'', ls_removed = [], ls_listedElsewhere = 0\<rparr>),
      dp_fetchRaw = (\<lambda>i. ret (i @ '' bytes'', length i)),
      dp_upsert = (\<lambda>collection raw i opts w. (Inr \<lparr>ur_targetId = ''t'' @ i, ur_created = True, ur_adopted = False,
         ur_targetVersion = Some ''v1'', ur_conflicted = False\<rparr>, w @ [i])),
      dp_sourceVersion = (\<lambda>i. Some ''v1''), dp_sourceRef = Some, dp_identity = (\<lambda>i. None),
      dp_formerNaturalKeys = (\<lambda>i. []), dp_naturalKey = Some, dp_naturalKeyText = (\<lambda>i raw. Some i),
      dp_displayName = (\<lambda>i raw. None), dp_listCollectionKeys = Some (\<lambda>f. ret docs), dp_listDiscardedKeys = None,
      dp_naturalKeyFromRaw = None, dp_legacyKeysFromRaw = (\<lambda>i raw. []), dp_legacyCopyOnTarget = None,
      dp_contentHash = (\<lambda>raw. ''h'' @ raw), dp_onCollisionFail = False,
      dp_ensureCollection = (\<lambda>f. ret (f @ '' id'')), dp_sourceIsAuthority = True, dp_stillTheAuthority = ret True,
      dp_deadline = None, dp_now = ret 0, dp_whyItStops = None\<rparr>"

definition files_of :: "string \<Rightarrow> string \<Rightarrow> ledger_scope" where
  "files_of tenant mapping = \<lparr>sp_tenant = tenant, sp_mapping = mapping, sp_domain = File\<rparr>"

lemma two_documents_run:
  "(case runDomainSync (an_account (files_of ''t'' ''m'') [''d1'', ''d2'']) ([], [], Map.empty) of
      (x, (w, rows, cs)) \<Rightarrow> (map_sum id (\<lambda>r. (sr_collectionsListed r, pc_created (sr_counts r))) x, w,
        map it_natural_key_hash rows, cs (''t'', ''m'', ''docs''))) =
   (Inr (1, 2), [''d1'', ''d2''], [''d1'', ''d2''], Some ''c1'')"
  by code_simp

end
