(* ===== verification/Sync_Again.thy ===== *)
theory Sync_Again
  imports Sync_Progress
begin

text \<open>
  An item the ledger already holds, met again: where the rows read ahead of the items are the
  ledger's, as they are when a collection is begun and as long as its items are skipped, reading them
  ahead changes nothing of what is decided; a copy just made is skipped by the next pass; and a
  collection of such items costs neither a fetch nor a write. And an item that failed before it had
  a key, of which nothing is recorded.
\<close>

subsection \<open>Without the read-ahead\<close>

text \<open>The reference: every item is looked up in the ledger when its turn comes.\<close>

definition looked_up :: "('w, 'i, 'r, 'f) sync_deps \<Rightarrow> string \<Rightarrow> 'i \<Rightarrow> ('w, item_path) pass_prog" where
  "looked_up deps path item = (case dp_naturalKey deps item of
       None \<Rightarrow> ret (Item_copy None False)
     | Some key \<Rightarrow> bindP (readP (\<lambda>s. find_item (dp_scope deps) key (ps_items s))) (\<lambda>known. case known of
           None \<Rightarrow> ret (Item_copy None False)
         | Some row \<Rightarrow> meet_known deps path key (dp_sourceVersion deps item) row))"

definition ahead_current :: "('w, 'i, 'r, 'f) sync_deps \<Rightarrow> 'w pass \<Rightarrow> bool" where
  "ahead_current deps s \<longleftrightarrow> (case ps_ahead s of None \<Rightarrow> True
     | Some (w, rows) \<Rightarrow> rows \<subseteq>\<^sub>m (\<lambda>key. find_item (dp_scope deps) key (ps_items s)))"

lemma quiet_meets:
  assumes "quietSkip row version path"
  shows "meet_known deps path key version row = done_with (\<lambda>c. c\<lparr>pc_skipped := pc_skipped c + 1\<rparr>)"
proof -
  from assms have "\<not> gone_evidence row" "lr_movedToCollection row = None"
      "classifyKnownItem row version (Some path) = Act_skip"
    by (simp_all add: quiet_is_settled)
  then show ?thesis
    by (simp add: meet_known_def Let_def act_on_known_def) (rule ext, simp add: run_simps)
qed

lemma read_ahead_run:
  "readAhead deps items index key s = (Inr (case ps_ahead (snd (readAhead deps items index key s)) of
     Some (w, rows) \<Rightarrow> if w = index div LEDGER_READ_AHEAD then rows key else None | None \<Rightarrow> None),
   snd (readAhead deps items index key s))"
  by (simp add: readAhead_def Let_def run_simps)

lemma many_rows: "findMany sc keys rows key = (if key \<in> set keys then find_item sc key rows else None)"
proof (induction rows)
  case Nil
  show ?case by (simp add: findMany_def find_item_def)
next
  case (Cons r rows)
  then show ?case by (cases "it_natural_key_hash r = key") (auto simp: findMany_def find_item_def at_key_def)
qed

lemma many_found: "findMany sc keys rows \<subseteq>\<^sub>m (\<lambda>key. find_item sc key rows)"
  by (auto simp: map_le_def many_rows split: if_splits)

lemma reading_ahead:
  assumes "readAhead deps items index key s = (x, t)"
  shows "\<exists>ahead. t = s\<lparr>ps_ahead := ahead\<rparr> \<and> (ahead_current deps s \<longrightarrow> ahead_current deps t)"
proof -
  have "t = s\<lparr>ps_ahead := ps_ahead t\<rparr>" and "ahead_current deps s \<longrightarrow> ahead_current deps t"
    using assms many_found
    by (auto simp: readAhead_def Let_def run_simps ahead_current_def split: option.splits if_splits)
  then show ?thesis by blast
qed

lemma ahead_agrees:
  assumes "ahead_current deps s" and "dp_naturalKey deps item = Some key"
  shows "known_item deps items path index item s = looked_up deps path item (snd (readAhead deps items index key s))"
proof -
  obtain x t where run: "readAhead deps items index key s = (x, t)" by fastforce
  with read_ahead_run [of deps items index key s] obtain ahead where x: "x = Inr ahead" by simp
  show ?thesis
  proof (cases "case ahead of None \<Rightarrow> False | Some row \<Rightarrow> quietSkip row (dp_sourceVersion deps item) path")
    case True
    then obtain row where row: "ahead = Some row" "quietSkip row (dp_sourceVersion deps item) path"
      by (auto split: option.splits)
    have "ahead_current deps t" using reading_ahead [OF run] assms(1) by blast
    moreover have "\<exists>w rows. ps_ahead t = Some (w, rows) \<and> rows key = Some row"
      using read_ahead_run [of deps items index key s] run x row(1)
      by (auto split: option.splits if_splits)
    ultimately have "find_item (dp_scope deps) key (ps_items t) = Some row"
      by (auto simp: ahead_current_def map_le_def dom_def)
    with run x row assms(2) show ?thesis
      by (simp add: known_item_def looked_up_def run_bind run_read quiet_meets)
  next
    case False
    with run x assms(2) show ?thesis by (simp add: known_item_def looked_up_def run_bind)
  qed
qed

subsection \<open>A collection of settled items\<close>

definition settled :: "('w, 'i, 'r, 'f) sync_deps \<Rightarrow> string \<Rightarrow> items \<Rightarrow> 'i \<Rightarrow> bool" where
  "settled deps path rows item \<longleftrightarrow> (case dp_naturalKey deps item of None \<Rightarrow> False
     | Some key \<Rightarrow> (case find_item (dp_scope deps) key rows of None \<Rightarrow> False
         | Some row \<Rightarrow> quietSkip row (dp_sourceVersion deps item) path))"

text \<open>What a pass asks between two items: the clock, and whoever may stop it.\<close>

definition questions :: "('w, 'i, 'r, 'f) sync_deps \<Rightarrow> 'w \<Rightarrow> 'w \<Rightarrow> bool" where
  "questions deps w w' \<longleftrightarrow> w' = snd (dp_now deps w) \<or> (\<exists>ask. dp_whyItStops deps = Some ask \<and> w' = snd (ask w))"

text \<open>Nothing but such questions was asked, nothing written or failed, and \<open>n\<close> items were skipped.\<close>

definition skimmed :: "('w, 'i, 'r, 'f) sync_deps \<Rightarrow> nat \<Rightarrow> 'w pass \<Rightarrow> 'w pass \<Rightarrow> bool" where
  "skimmed deps n s t \<longleftrightarrow> (questions deps)\<^sup>*\<^sup>* (ps_world s) (ps_world t) \<and> ps_items t = ps_items s \<and>
     ps_cursors t = ps_cursors s \<and> ps_failures t = ps_failures s \<and>
     ps_counts t = (ps_counts s)\<lparr>pc_scanned := pc_scanned (ps_counts s) + n, pc_skipped := pc_skipped (ps_counts s) + n\<rparr>"

lemma skimmed_trans: "skimmed deps n s t \<Longrightarrow> skimmed deps k t u \<Longrightarrow> skimmed deps (n + k) s u"
  by (auto simp: skimmed_def)

definition asked_only :: "('w, 'i, 'r, 'f) sync_deps \<Rightarrow> 'w pass \<Rightarrow> 'w pass \<Rightarrow> bool" where
  "asked_only deps s t \<longleftrightarrow> skimmed deps 0 s t \<and> ps_ahead t = ps_ahead s \<and> ps_unfinished t = ps_unfinished s"

interpretation asking: effect "asked_only deps"
  by unfold_locales (auto simp: asked_only_def skimmed_def)

lemma asks_now: "within (asked_only deps) (on_world (dp_now deps))"
  by (rule withinI) (auto simp: on_world_def asked_only_def skimmed_def questions_def case_prod_beta)

lemma asks_why: "dp_whyItStops deps = Some ask \<Longrightarrow> within (asked_only deps) (on_world ask)"
  by (rule withinI) (auto simp: on_world_def asked_only_def skimmed_def questions_def case_prod_beta)

lemma asks_to_stop: "within (asked_only deps) (stopTakingNewWork deps)"
  unfolding stopTakingNewWork_def stopIfPastDeadline_def stopIfToldTo_def
  by (auto intro!: asking.within_structure within_modify asks_now asks_why split: option.split
      simp: asked_only_def skimmed_def)

lemma current_same: "ps_ahead t = ps_ahead s \<Longrightarrow> ps_items t = ps_items s \<Longrightarrow> ahead_current deps t = ahead_current deps s"
  by (cases "ps_ahead s") (simp_all add: ahead_current_def)

lemma begun:
  obtains t where "begin_item deps path item s = (Inr (), t)" "kept_of t = kept_of s" "ps_failures t = ps_failures s"
    "ps_unfinished t = ps_unfinished s" "ps_counts t = (ps_counts s)\<lparr>pc_scanned := pc_scanned (ps_counts s) + 1\<rparr>"
    "paused t = paused s" "ps_ahead t = ps_ahead s"
proof -
  obtain x t where run: "begin_item deps path item s = (x, t)" by fastforce
  then have "x = Inr ()" by (simp add: begin_item_def run_simps count_def)
  with run show thesis
    by (intro that [of t]) (auto simp: begin_item_def run_simps count_def kept_of_def paused_def split: option.splits)
qed

lemma settled_known:
  assumes "ahead_current deps s" and "settled deps path (ps_items s) item"
  obtains b t where "begin_item deps path item s = (Inr (), b)" "known_item deps items path index item b = (Inr Item_done, t)"
    "skimmed deps 1 s t" "ahead_current deps t" "ps_unfinished t = ps_unfinished s"
proof -
  obtain key row where key: "dp_naturalKey deps item = Some key"
      and row: "find_item (dp_scope deps) key (ps_items s) = Some row" "quietSkip row (dp_sourceVersion deps item) path"
    using assms(2) by (auto simp: settled_def split: option.splits)
  obtain b where b: "begin_item deps path item s = (Inr (), b)" "kept_of b = kept_of s" "ps_failures b = ps_failures s"
      "ps_unfinished b = ps_unfinished s" "ps_counts b = (ps_counts s)\<lparr>pc_scanned := pc_scanned (ps_counts s) + 1\<rparr>"
      "paused b = paused s" "ps_ahead b = ps_ahead s"
    by (rule begun)
  from b(2) have same: "ps_items b = ps_items s" by (simp add: kept_of_def)
  have current: "ahead_current deps b" using assms(1) current_same [OF b(7) same, of deps] by simp
  obtain x r where read: "readAhead deps items index key b = (x, r)" by fastforce
  obtain ahead where r: "r = b\<lparr>ps_ahead := ahead\<rparr>" "ahead_current deps r"
    using reading_ahead [OF read] current by blast
  let ?t = "r\<lparr>ps_counts := (ps_counts r)\<lparr>pc_skipped := pc_skipped (ps_counts r) + 1\<rparr>\<rparr>"
  have items: "ps_items r = ps_items s" using r(1) same by simp
  have "known_item deps items path index item b = looked_up deps path item r"
    using ahead_agrees [OF current key, of items path index] read by simp
  also have "\<dots> = (Inr Item_done, ?t)"
    using key row items
    by (simp add: looked_up_def run_bind run_read quiet_meets done_with_def run_then run_ret count_def run_modify)
  finally have known: "known_item deps items path index item b = (Inr Item_done, ?t)" .
  show thesis
  proof (rule that [OF b(1) known])
    show "skimmed deps 1 s ?t" using b r(1) by (simp add: skimmed_def kept_of_def)
    show "ahead_current deps ?t" using r(2) current_same [of ?t r deps] by simp
    show "ps_unfinished ?t = ps_unfinished s" using b r(1) by simp
  qed
qed

lemma settled_item:
  assumes "ahead_current deps s" and "settled deps path (ps_items s) item"
    and "handle_item deps folder path items (index, item) s = (x, t)"
  shows "\<exists>n. n \<le> 1 \<and> skimmed deps n s t \<and> ahead_current deps t \<and>
    (x = Inr () \<and> \<not> paused t \<longrightarrow> n = 1 \<and> ps_unfinished t = ps_unfinished s)"
proof -
  obtain y u where stop: "stopTakingNewWork deps s = (y, u)" by fastforce
  from withinD [OF asks_to_stop stop] have u: "skimmed deps 0 s u" "ps_ahead u = ps_ahead s" "ps_unfinished u = ps_unfinished s"
    by (simp_all add: asked_only_def)
  then have same: "ps_items u = ps_items s" by (simp add: skimmed_def)
  have current: "ahead_current deps u" using assms(1) current_same [OF u(2) same, of deps] by simp
  consider (threw) e where "y = Inl e" | (stopped) "y = Inr True" | (on) "y = Inr False" by (cases y) auto
  then show ?thesis
  proof cases
    case threw
    with assms(3) stop have "x = Inl e" "t = u" by (simp_all add: handle_item_def run_bind)
    with u(1) current show ?thesis by (intro exI [of _ 0]) simp
  next
    case stopped
    with assms(3) stop have t: "t = u\<lparr>ps_unfinished := ps_unfinished u @ [path]\<rparr>"
      by (simp add: handle_item_def run_bind unfinished_def run_modify)
    moreover have "paused t" using stop_pauses [OF stop [unfolded stopped]] by (simp add: t paused_def)
    moreover have "skimmed deps 0 s t" using u(1) by (simp add: skimmed_def t)
    moreover have "ahead_current deps t" using current current_same [of t u deps] by (simp add: t)
    ultimately show ?thesis by (intro exI [of _ 0]) simp
  next
    case on
    have "settled deps path (ps_items u) item" using assms(2) by (simp add: same)
    then obtain b v where known: "begin_item deps path item u = (Inr (), b)"
      "known_item deps items path index item b = (Inr Item_done, v)" "skimmed deps 1 u v" "ahead_current deps v"
      "ps_unfinished v = ps_unfinished u"
      by (rule settled_known [OF current])
    with assms(3) stop on have "x = Inr ()" "t = v"
      by (simp_all add: handle_item_def run_bind run_then run_ret)
    with known(3-5) skimmed_trans [OF u(1) known(3)] u(3) show ?thesis by (intro exI [of _ 1]) simp
  qed
qed

lemma settled_items:
  assumes "ahead_current deps s" and "list_all (settled deps (folder_path deps folder) (ps_items s)) items"
    and "handle_items deps folder items s = (x, t)"
  shows "\<exists>n. n \<le> length items \<and> skimmed deps n s t \<and>
    (x = Inr () \<and> \<not> paused t \<longrightarrow> n = length items \<and> ps_unfinished t = ps_unfinished s)"
proof -
  let ?path = "folder_path deps folder"
  let ?handle = "handle_item deps folder ?path items"
  have "\<exists>n. n \<le> length xs \<and> skimmed deps n u v \<and>
      (y = Inr () \<and> \<not> paused v \<longrightarrow> n = length xs \<and> ps_unfinished v = ps_unfinished u)"
    if "ahead_current deps u" "list_all (\<lambda>(i, item). settled deps ?path (ps_items u) item) xs" "forP xs ?handle u = (y, v)" for xs u y v
    using that
  proof (induction xs arbitrary: u)
    case Nil
    then show ?case by (simp add: run_ret skimmed_def)
  next
    case (Cons i xs)
    obtain index item where i: "i = (index, item)" by fastforce
    obtain z w where head: "?handle i u = (z, w)" by fastforce
    with Cons.prems(1,2) obtain n where n: "n \<le> 1" "skimmed deps n u w" "ahead_current deps w"
      "z = Inr () \<and> \<not> paused w \<longrightarrow> n = 1 \<and> ps_unfinished w = ps_unfinished u"
      using settled_item [of deps u ?path item folder items index z w] by (auto simp: i)
    show ?case
    proof (cases z)
      case (Inl e)
      with head Cons.prems(3) n(1,2) show ?thesis by (intro exI [of _ n]) (auto simp: run_then)
    next
      case (Inr a)
      with head Cons.prems(3) have rest: "forP xs ?handle w = (y, v)" by (simp add: run_then)
      have "list_all (\<lambda>(i, item). settled deps ?path (ps_items w) item) xs"
        using Cons.prems(2) n(2) by (simp add: skimmed_def)
      from Cons.IH [OF n(3) this rest] obtain k where k: "k \<le> length xs" "skimmed deps k w v"
        "y = Inr () \<and> \<not> paused v \<longrightarrow> k = length xs \<and> ps_unfinished v = ps_unfinished w" by blast
      have "within stands (forP xs ?handle)" by (intro stands.within_for looks_stands [OF handle_looks])
      from withinD [OF this rest] have "paused w \<longrightarrow> paused v" by (simp add: stands_def)
      with n k skimmed_trans [OF n(2) k(2)] Inr show ?thesis by (intro exI [of _ "n + k"]) auto
    qed
  qed
  moreover have "list_all (\<lambda>(i, item). settled deps ?path (ps_items s) item) (List.enumerate 0 items)"
    using assms(2) by (auto simp: list_all_iff enumerate_eq_zip dest: set_zip_rightD)
  ultimately show ?thesis using assms(1,3) unfolding handle_items_def by fastforce
qed

subsection \<open>A copy just made\<close>

definition same_item :: "'w pass \<Rightarrow> 'w pass \<Rightarrow> bool" where
  "same_item s t \<longleftrightarrow> ps_items t = ps_items s \<and> ps_item t = ps_item s"

interpretation same_item: effect same_item
  by unfold_locales (auto simp: same_item_def)

lemma world_same_item: "within same_item (on_world m)"
  by (rule withinI) (simp add: on_world_def case_prod_beta same_item_def)

lemma collection_same_item: "within same_item (collectionIdOf deps folder)"
proof (rule withinI)
  fix s
  have made: "within same_item (sided Target_side (on_world (dp_ensureCollection deps folder)))"
    by (intro same_item.within_sided world_same_item)
  obtain x t where run: "sided Target_side (on_world (dp_ensureCollection deps folder)) s = (x, t)" by fastforce
  from withinD [OF made run] show "same_item s (snd (collectionIdOf deps folder s))"
    by (auto simp: collectionIdOf_def run run_simps same_item_def split: option.split sum.split)
qed

lemma count_copy_same: "within same_item (count_copy deps path item rewriteOf n result)"
  unfolding count_copy_def count_def
  by (auto intro!: same_item.within_structure within_modify simp: same_item_def)

lemma fresh_is_quiet:
  assumes "lr_status rc \<in> {Some Copied, Some Adopted, Some Updated}" and "lr_collection rc = Some path"
    and "lr_sourceVersion rc = version"
  shows "quietSkip (mapRowToRecord (fresh_row now rc)) version path"
  using assms
  by (auto simp: quietSkip_def some_passes_def classifyKnownItem_def mapRowToRecord_def fresh_row_def non_empty_def)

lemma recorded_fresh:
  assumes "recordIfAbsent now rc rows = (Inr a, rows')" and "find_item (record_scope rc) (lr_naturalKeyHash rc) rows = None"
  shows "find_item (record_scope rc) (lr_naturalKeyHash rc) rows' = Some (mapRowToRecord (fresh_row now rc))"
proof -
  from assms have "a = mapRowToRecord (fresh_row now rc)"
    by (auto simp: recordIfAbsent_def insert_row_def split: if_splits option.splits)
  with recorded_found [OF assms(1)] show ?thesis by simp
qed

lemma ledgerP_returned:
  assumes "ledgerP deps f s = (Inr a, t)"
  shows "f (dp_dbNow deps (ps_world s)) (ps_items s) = (Inr a, ps_items t) \<and> ps_item t = ps_item s"
  using assms by (auto simp: ledgerP_def split: prod.splits sum.splits)

lemma placed_row:
  assumes "place_item deps folder path item None False raw n s = (Inr (), t)"
  shows "\<exists>result u a now. ps_items u = ps_items s \<and> il_key (ps_item u) = il_key (ps_item s) \<and>
    recordIfAbsent now (row_for deps path item n result u) (ps_items s) = (Inr a, ps_items t)"
proof -
  let ?s1 = "s\<lparr>ps_item := (ps_item s)\<lparr>il_hash := dp_contentHash deps raw\<rparr>\<rparr>"
  let ?upsert = "\<lambda>collection. sided Target_side
      (on_world (dp_upsert deps collection raw item (upsert_options_for deps path item None)))"
  let ?put = "\<lambda>row. ledgerP deps (\<lambda>now. recordIfAbsent now row)"
  from assms obtain collection s2 result s3 where
      made: "collectionIdOf deps folder ?s1 = (Inr collection, s2)" and
      upsert: "?upsert collection s2 = (Inr result, s3)" and
      rest: "(if ur_conflicted result
        then thenP (count (\<lambda>c. c\<lparr>pc_conflicted := pc_conflicted c + 1\<rparr>)) (throw (ledger_thrown No_row_to_update))
        else bindP (readP (row_for deps path item n result)) (\<lambda>row. thenP (?put row)
          (thenP (modifyP (\<lambda>s. s\<lparr>ps_consecutive := 0\<rparr>)) (count_copy deps path item None n result)))) s3 = (Inr (), t)"
    unfolding place_item_def option.case(1) if_False by (auto simp: run_modify elim!: returned_then returned_bind)
  have s3: "same_item ?s1 s3"
    using withinD [OF collection_same_item made] withinD [OF same_item.within_sided [OF world_same_item] upsert]
    by (rule same_item.effect_trans)
  have calm: "\<not> ur_conflicted result" using rest by (auto simp: run_simps count_def)
  let ?row = "row_for deps path item n result s3"
  let ?tail = "thenP (modifyP (\<lambda>s. s\<lparr>ps_consecutive := 0\<rparr>)) (count_copy deps path item None n result)"
  have "thenP (?put ?row) ?tail s3 = (Inr (), t)" using rest calm by (simp add: run_bind run_read)
  then obtain a s4 where noted: "?put ?row s3 = (Inr a, s4)" and tail: "?tail s4 = (Inr (), t)"
    by (rule returned_then)
  have "within same_item ?tail"
    by (intro same_item.within_structure count_copy_same within_modify) (simp add: same_item_def)
  from withinD [OF this tail] have "ps_items t = ps_items s4" by (simp add: same_item_def)
  with ledgerP_returned [OF noted] s3 have
    "recordIfAbsent (dp_dbNow deps (ps_world s3)) ?row (ps_items s) = (Inr a, ps_items t)"
    by (simp add: same_item_def)
  moreover have "ps_items s3 = ps_items s" "il_key (ps_item s3) = il_key (ps_item s)"
    using s3 by (simp_all add: same_item_def)
  ultimately show ?thesis by blast
qed

lemma place_settles:
  assumes "place_item deps folder path item None False raw n s = (Inr (), t)"
    and "il_key (ps_item s) = Some key" and "find_item (dp_scope deps) key (ps_items s) = None"
  shows "\<exists>row. find_item (dp_scope deps) key (ps_items t) = Some row \<and> quietSkip row (dp_sourceVersion deps item) path"
proof -
  obtain result u a now where u: "ps_items u = ps_items s" "il_key (ps_item u) = Some key"
      and run: "recordIfAbsent now (row_for deps path item n result u) (ps_items s) = (Inr a, ps_items t)"
    using placed_row [OF assms(1)] assms(2) by auto
  let ?rc = "row_for deps path item n result u"
  have at: "record_scope ?rc = dp_scope deps" "lr_naturalKeyHash ?rc = key"
    using u(2) by (simp_all add: row_for_scope) (simp add: row_for_def)
  have "quietSkip (mapRowToRecord (fresh_row now ?rc)) (dp_sourceVersion deps item) path"
    by (rule fresh_is_quiet) (simp_all add: row_for_def)
  moreover have "find_item (dp_scope deps) key (ps_items t) = Some (mapRowToRecord (fresh_row now ?rc))"
    using recorded_fresh [OF run] at assms(3) by simp
  ultimately show ?thesis by blast
qed

subsection \<open>A failure before the key\<close>

text \<open>
  A message keyed by its own bytes, which cannot be fetched: it has no key when its copy fails.
\<close>

definition fails_before_its_key :: "('w, 'i, 'r, 'f) sync_deps \<Rightarrow> 'i \<Rightarrow> bool" where
  "fails_before_its_key deps item \<longleftrightarrow> dp_naturalKey deps item = None \<and> (\<forall>w. isl (fst (dp_fetchRaw deps item w)))"

definition unrecorded :: "'w pass \<Rightarrow> 'w pass \<Rightarrow> bool" where
  "unrecorded s t \<longleftrightarrow> ps_items t = ps_items s \<and> ps_failures t = ps_failures s \<and> ps_cursors t = ps_cursors s \<and>
     pc_heldAtCeiling (ps_counts t) = pc_heldAtCeiling (ps_counts s)"

definition nameless :: "'w pass \<Rightarrow> 'w pass \<Rightarrow> bool" where
  "nameless s t \<longleftrightarrow> unrecorded s t \<and> (il_key (ps_item s) = None \<longrightarrow> il_key (ps_item t) = None)"

interpretation unrecorded: effect unrecorded
  by unfold_locales (auto simp: unrecorded_def)

interpretation nameless: effect nameless
  by unfold_locales (auto simp: nameless_def unrecorded_def)

lemma nameless_world: "within nameless (on_world m)"
  by (rule withinI) (simp add: on_world_def case_prod_beta nameless_def unrecorded_def)

lemma nameless_unrecorded: "within nameless m \<Longrightarrow> within unrecorded m"
  by (erule within_mono) (simp add: nameless_def)

lemma within_unreturned:
  assumes "within R m" and "\<And>s. isl (fst (m s))"
  shows "within R (bindP m f)"
proof (rule withinI)
  fix s
  obtain x t where run: "m s = (x, t)" by fastforce
  with assms(2) [of s] obtain e where "x = Inl e" by (cases x) auto
  with run withinD [OF assms(1) run] show "R s (snd (bindP m f s))" by (simp add: run_bind)
qed

lemma sided_unreturned:
  assumes "\<And>w. isl (fst (m w))"
  shows "isl (fst (sided side (on_world m) s))"
  using assms [of "ps_world s"]
  by (cases "m (ps_world s)"; cases "fst (m (ps_world s))") (auto simp: sided_def on_world_def run_simps)

lemma copy_nameless:
  assumes "fails_before_its_key deps item"
  shows "within nameless (copy_item deps folder path item None False)"
proof -
  have fetch: "within nameless (bindP (sided Source_side (on_world (dp_fetchRaw deps item))) f)" for f :: "_ \<Rightarrow> ('a, unit) pass_prog"
    using assms by (intro within_unreturned sided_unreturned nameless.within_sided nameless_world)
      (simp add: fails_before_its_key_def)
  have taken: "within nameless (take_back st)" for st
    unfolding take_back_def pauseNow_def count_def
    by (intro nameless.within_structure within_modify) (simp_all add: nameless_def unrecorded_def)
  show ?thesis
    using assms unfolding copy_item_def Let_def fails_before_its_key_def
    by (auto intro!: nameless.within_structure fetch taken nameless_world split: option.split)
qed

lemma failed_nameless:
  assumes "il_key (ps_item s) = None" and "item_failed deps path item e s = (x, t)"
  shows "unrecorded s t"
  using assms by (auto simp: item_failed_def too_many_in_a_row_def run_simps count_def unrecorded_def split: if_splits)

lemma handle_unrecorded:
  fixes deps :: "('w, 'i, 'r, 'f) sync_deps"
  assumes "fails_before_its_key deps item"
  shows "within unrecorded (handle_item deps folder path items (index, item))"
proof -
  have stop: "within unrecorded (stopTakingNewWork deps)"
    unfolding stopTakingNewWork_def stopIfPastDeadline_def stopIfToldTo_def
    by (auto intro!: unrecorded.within_structure within_modify nameless_unrecorded [OF nameless_world] split: option.split
        simp: unrecorded_def)
  have left: "within unrecorded (unfinished path :: ('w, unit) pass_prog)"
    unfolding unfinished_def by (rule within_modify) (simp add: unrecorded_def)
  have key: "dp_naturalKey deps item = None" using assms by (simp add: fails_before_its_key_def)
  have work: "within unrecorded (thenP (begin_item deps path item) (bindP (known_item deps items path index item) (\<lambda>p. case p of
      Item_done \<Rightarrow> ret () | Item_copy rewriteOf hasRow \<Rightarrow>
        catchP (copy_item deps folder path item rewriteOf hasRow) (item_failed deps path item))))" (is "within _ ?work")
  proof (rule withinI)
    fix s
    obtain b where b: "begin_item deps path item s = (Inr (), b)" "unrecorded s b" "il_key (ps_item b) = None"
      using key by (simp add: begin_item_def run_simps count_def unrecorded_def)
    obtain x c where copy: "copy_item deps folder path item None False b = (x, c)" by fastforce
    from withinD [OF copy_nameless [OF assms] copy] b(3) have c: "unrecorded b c" "il_key (ps_item c) = None"
      by (simp_all add: nameless_def)
    have "unrecorded s c" using b(2) c(1) by (rule unrecorded.effect_trans)
    have failed: "unrecorded s (snd (item_failed deps path item e c))" for e
      using b(2) c(1) failed_nameless [OF c(2), of deps path item e] unrecorded.effect_trans
      by (metis prod.collapse)
    show "unrecorded s (snd (?work s))"
      using b copy c key \<open>unrecorded s c\<close> failed
      by (cases x) (auto simp: run_then run_bind run_ret run_catch known_item_def)
  qed
  show ?thesis
    unfolding handle_item_def prod.case using stop left work by (intro unrecorded.within_bind) auto
qed

lemma items_unrecorded:
  assumes "\<forall>item \<in> set items. fails_before_its_key deps item"
  shows "within unrecorded (handle_items deps folder items)"
  unfolding handle_items_def
proof (rule unrecorded.within_for)
  fix x assume "x \<in> set (List.enumerate 0 items)"
  then obtain index item where "x = (index, item)" "item \<in> set items"
    by (metis enumerate_eq_zip prod.exhaust set_zip_rightD)
  with assms show "within unrecorded (handle_item deps folder (folder_path deps folder) items x)"
    by (simp add: handle_unrecorded)
qed

lemma keys_unrecorded: "within unrecorded (list_keys deps folder prev)"
  unfolding list_keys_def
  by (auto intro!: unrecorded.within_structure unrecorded.within_sided within_modify nameless_unrecorded [OF nameless_world]
      split: option.split simp: unrecorded_def)

end
