(* ===== verification/Sync_Promises.thy ===== *)
theory Sync_Promises
  imports Sync_Again
begin

text \<open>
  The properties of one pass, \<open>runDomainSync\<close>, over whatever the source, the target and the owner
  do. They rest on the protocol (\<open>Sync_Steps\<close>, \<open>Sync_Laws\<close>), on the course of a pass
  (\<open>Sync_Progress\<close>) and on what is met again (\<open>Sync_Again\<close>).
\<close>

subsection \<open>Any pass\<close>

text \<open>
  C3: a pass refines its protocol. Whatever the source and the target answer or throw, what the
  pass leaves is reached from what it found by steps of three kinds only: calls of the functions it
  was given, of which one that overwrites a copy, reads the owner's bin or asks for the authority is
  made only while the source decides what exists; writes of the ledger on the rows of its own
  mapping and data type, of which dating what is gone and recording a rename need that authority
  too; and the storing of its own cursors.
\<close>
theorem the_pass_follows_its_protocol:
  "followed deps stored (snd (runDomainSync deps stored))"
  using pass_follows [of deps] unfolding within_def by (rule spec)

text \<open>
  C4: a pass only extends the ledger. Every row it found is still there, in its place and under its
  key; a row of another mapping or data type is unchanged; no row is tombstoned or marked as removed
  from the target; new rows are of its own mapping and data type; and once the source no longer
  decides what exists, no row gains a mark of being gone. No cursor is forgotten, and no cursor of
  another mapping changes.
\<close>
theorem a_pass_only_extends_the_ledger:
  "case snd (runDomainSync deps (w, rows, cs)) of (w', rows', cs') \<Rightarrow>
     extended (dp_scope deps) (dp_sourceIsAuthority deps) rows rows' \<and> dom cs \<subseteq> dom cs' \<and>
     cs' |` (- own_cursors (dp_scope deps)) = cs |` (- own_cursors (dp_scope deps))"
proof -
  obtain w' rows' cs' where run: "snd (runDomainSync deps (w, rows, cs)) = (w', rows', cs')" by (rule prod_cases3)
  have "followed deps (w, rows, cs) (w', rows', cs')"
    using pass_follows [of deps] run unfolding within_def by metis
  then have rows: "ledger_writes (dp_scope deps) (dp_sourceIsAuthority deps) rows rows'"
      and cursors: "(cursor_write (dp_scope deps))\<^sup>*\<^sup>* cs cs'"
    by (simp_all add: followed_def)
  from run writes_extend [OF rows] cursor_writes [OF cursors] show ?thesis by simp
qed

text \<open>
  C9: a pass keeps what every call of the ledger keeps. From a ledger that any history of calls can
  reach, it leaves one with a single row per key, each row consistent with itself.
\<close>
theorem a_pass_keeps_the_ledger_sound:
  assumes "ledger_history rows"
  shows "case snd (runDomainSync deps (w, rows, cs)) of (w', rows', cs') \<Rightarrow> keys_unique rows' \<and> list_all row_ok rows'"
proof -
  obtain w' rows' cs' where run: "snd (runDomainSync deps (w, rows, cs)) = (w', rows', cs')" by (rule prod_cases3)
  have "followed deps (w, rows, cs) (w', rows', cs')"
    using pass_follows [of deps] run unfolding within_def by metis
  then have "ledger_writes (dp_scope deps) (dp_sourceIsAuthority deps) rows rows'" by (simp add: followed_def)
  from history_sound [OF writes_history [OF this assms]] run show ?thesis by simp
qed

theorem a_pass_keeps_the_ledger_sound_witness:
  "let rows = fst (snd (snd (runDomainSync (an_account (files_of ''t'' ''m'') [''d1'', ''d2'']) ([], [], Map.empty))))
   in keys_unique rows \<and> list_all row_ok rows \<and> length rows = 2"
proof -
  have "length (fst (snd (snd (runDomainSync (an_account (files_of ''t'' ''m'') [''d1'', ''d2'']) ([], [], Map.empty))))) = 2"
    by code_simp
  with a_pass_keeps_the_ledger_sound [OF ledger_history.empty,
      of "an_account (files_of ''t'' ''m'') [''d1'', ''d2'']" "[]" Map.empty]
  show ?thesis by (auto simp: Let_def split: prod.splits)
qed

subsection \<open>How far it got\<close>

text \<open>
  C5: a cursor moves only past a collection that was read whole. The handling of a collection leaves
  every cursor as it was, or it returned and the source listed the collection, every item of the
  listing was looked at, none was held back at the plan's ceiling, nothing paused the pass, no failure
  the pass recorded is owed a retry, and the cursor is the listing's own; a cursor that came with removals
  is held until they are resolved.
\<close>
theorem a_cursor_moves_only_past_a_whole_collection:
  "same_cursors s (snd (sync_folder deps folder s)) \<or>
   fst (sync_folder deps folder s) = Inr () \<and>
   (\<exists>prev listing w. fst (dp_listSince deps folder prev w) = Inr listing \<and>
      read_whole deps (folder_path deps folder) prev listing s (snd (sync_folder deps folder s)))"
proof (cases "same_cursors s (snd (sync_folder deps folder s))")
  case False
  then obtain prev listing w v where given: "fst (dp_listSince deps folder prev w) = Inr listing" "aside s v"
      "sync_folder deps folder s = read_folder deps folder prev listing v"
    using sync_folder_opens [of s deps folder] by blast
  let ?t = "snd (sync_folder deps folder s)"
  from False same_aside [OF given(2), of ?t] have "\<not> same_cursors v ?t" by blast
  with read_folder_whole [of v deps folder prev listing] given(3)
  have ok: "fst (sync_folder deps folder s) = Inr ()" "read_whole deps (folder_path deps folder) prev listing v ?t"
    by simp_all
  from given(1) ok(1) read_whole_aside [OF given(2) ok(2)] show ?thesis by blast
qed simp

text \<open>
  failures in a row end the pass at once. Let fewer items in a row have failed than abort a pass, and
  fewer collections in a row have been unreadable, as is so when a pass begins. The handling of an item
  that returns leaves it so, and that of a collection does, so that the one that reaches either number
  throws there and then; and it is so of a pass that returns.
\<close>
theorem failures_in_a_row_end_the_pass_at_once:
  assumes "ps_consecutive s < ABORT_AFTER_CONSECUTIVE_FAILURES"
    and "ps_unreadInARow s < ABORT_AFTER_CONSECUTIVE_UNREAD_COLLECTIONS"
  shows "(\<forall>a t. handle_item deps folder path items i s = (Inr a, t) \<or> sync_folder deps folder s = (Inr a, t) \<longrightarrow>
      ps_consecutive t < ABORT_AFTER_CONSECUTIVE_FAILURES \<and> ps_unreadInARow t < ABORT_AFTER_CONSECUTIVE_UNREAD_COLLECTIONS) \<and>
    (\<forall>result t. pass_body deps s = (Inr result, t) \<longrightarrow>
      ps_consecutive t < ABORT_AFTER_CONSECUTIVE_FAILURES \<and> ps_unreadInARow t < ABORT_AFTER_CONSECUTIVE_UNREAD_COLLECTIONS)"
proof -
  have "few s" using assms by (simp add: few_def)
  note bearsD [OF handle_bears [of deps folder path items i] this] bearsD [OF folder_bears [of deps folder] this]
    bearsD [OF body_bears [of deps] this]
  then show ?thesis unfolding few_def by blast
qed

theorem failures_in_a_row_end_the_pass_at_once_witness:
  "ps_consecutive (snd (sync_folder (an_account (files_of ''t'' ''m'') [''d1'']) ''docs'' (begin_pass False 0 [] [] Map.empty)))
    < ABORT_AFTER_CONSECUTIVE_FAILURES"
proof -
  let ?s = "begin_pass False 0 ([] :: string list) [] Map.empty"
  obtain x t where run: "sync_folder (an_account (files_of ''t'' ''m'') [''d1'']) ''docs'' ?s = (x, t)" by fastforce
  have "\<not> isl (fst (sync_folder (an_account (files_of ''t'' ''m'') [''d1'']) ''docs'' ?s))" by code_simp
  with run obtain a where "x = Inr a" by (cases x) auto
  moreover have "ps_consecutive ?s < ABORT_AFTER_CONSECUTIVE_FAILURES" "ps_unreadInARow ?s < ABORT_AFTER_CONSECUTIVE_UNREAD_COLLECTIONS"
    using begins_few [of False 0 "[] :: string list" "[]" Map.empty] by (simp_all add: few_def)
  note failures_in_a_row_end_the_pass_at_once [OF this,
      of "an_account (files_of ''t'' ''m'') [''d1'']" "''docs''" "''docs''" "[]" "(0, ''d1'')"]
  ultimately show ?thesis using run by auto
qed

text \<open>
  a pass that has paused takes no new work. It opens no further collection: each is counted as
  not reached and left unfinished, and nothing else of the pass, of the world or of what is stored
  changes.
\<close>
theorem a_paused_pass_takes_no_new_work:
  assumes "paused s"
  shows "forP folders (sync_folder deps) s = (Inr (), s\<lparr>ps_notReached := ps_notReached s + length folders,
    ps_unfinished := ps_unfinished s @ map (folder_path deps) folders\<rparr>)"
  using assms by (rule paused_folders)

theorem a_paused_pass_takes_no_new_work_witness:
  "let s = (begin_pass False 0 [] [] Map.empty)\<lparr>ps_deadlinePause := Some (5, 5)\<rparr>
   in ps_unfinished (snd (forP [''a'', ''b''] (sync_folder (an_account (files_of ''t'' ''m'') [''d1''])) s)) = [''a'', ''b'']"
proof -
  have "paused ((begin_pass False 0 [] [] Map.empty)\<lparr>ps_deadlinePause := Some (5, 5)\<rparr>)" by (simp add: paused_def)
  from a_paused_pass_takes_no_new_work [OF this, of "[''a'', ''b'']" "an_account (files_of ''t'' ''m'') [''d1'']"]
  show ?thesis unfolding Let_def
    by (simp add: begin_pass_def folder_path_def collectionPathOf_def) (simp add: an_account_def)
qed

subsection \<open>Met again\<close>

text \<open>
  C7: a copy is settled. An item the ledger did not hold, once it is placed on the target and
  recorded, is one the next pass skips without a question: its row is found under its key, of the
  version that was copied, in the collection it was copied from, with no evidence against it.
\<close>
theorem a_copy_is_settled:
  assumes "place_item deps folder path item None False raw sizeBytes s = (Inr (), t)"
    and "il_key (ps_item s) = Some key" and "dp_naturalKey deps item = Some key"
    and "find_item (dp_scope deps) key (ps_items s) = None"
  shows "settled deps path (ps_items t) item"
  using place_settles [OF assms(1,2,4)] assms(3) by (auto simp: settled_def)

theorem a_copy_is_settled_witness:
  "let deps = an_account (files_of ''t'' ''m'') [''d1''];
       s = snd (begin_item deps ''docs'' ''d1'' (begin_pass False 0 [] [] Map.empty))
   in settled deps ''docs'' (ps_items (snd (place_item deps ''docs'' ''docs'' ''d1'' None False ''raw'' 3 s))) ''d1''"
proof -
  let ?deps = "an_account (files_of ''t'' ''m'') [''d1'']"
  let ?s = "snd (begin_item ?deps ''docs'' ''d1'' (begin_pass False 0 [] [] Map.empty))"
  obtain x t where run: "place_item ?deps ''docs'' ''docs'' ''d1'' None False ''raw'' 3 ?s = (x, t)" by fastforce
  have "\<not> isl (fst (place_item ?deps ''docs'' ''docs'' ''d1'' None False ''raw'' 3 ?s))" by code_simp
  with run have x: "x = Inr ()" by (cases x) auto
  have "il_key (ps_item ?s) = Some ''d1''" "dp_naturalKey ?deps ''d1'' = Some ''d1''"
      "find_item (dp_scope ?deps) ''d1'' (ps_items ?s) = None"
    by code_simp+
  from a_copy_is_settled [OF run [unfolded x] this] run show ?thesis by simp
qed




subsection \<open>A failure before the key\<close>





end
