(* ===== verification/Calendar.thy ===== *)
theory Calendar
  imports Texts
begin

text \<open>
  Days, months and years in UTC, as the \<open>Date\<close> of JavaScript counts them: a moment is its
  milliseconds since 1970, a day its number since then, a month its number since the year 0
  (\<open>monthNumber\<close> of \<open>managed/src/year-credit.ts\<close>), and the texts \<open>YYYY-MM\<close> the billing code keeps
  months in (\<open>billing-from.ts\<close>, \<open>year-credit.ts\<close>, \<open>tier-pick.ts\<close>). A \<open>date\<close> column, and the
  \<open>YYYY-MM-DD\<close> it is read as, is the number of its day. The texts are those of the years 0 to 9999.
\<close>

definition day_ms :: int where
  "day_ms = 86400000"

definition day_of :: "timestamp \<Rightarrow> int" where
  "day_of at = at div day_ms"

definition weekday_of :: "int \<Rightarrow> int" where
  "weekday_of d = (d + 4) mod 7"

subsection \<open>Years and months as days\<close>

definition leap_year :: "int \<Rightarrow> bool" where
  "leap_year y \<longleftrightarrow> y mod 4 = 0 \<and> (y mod 100 \<noteq> 0 \<or> y mod 400 = 0)"

definition year_start :: "int \<Rightarrow> int" where
  "year_start y = 365 * (y - 1970) + (y - 1969) div 4 - (y - 1901) div 100 + (y - 1601) div 400"

definition month_offset :: "bool \<Rightarrow> nat \<Rightarrow> int" where
  "month_offset lp m = [0, 31, 59, 90, 120, 151, 181, 212, 243, 273, 304, 334, 365] ! m
     + (if lp \<and> 2 \<le> m then 1 else 0)"

definition month_start :: "int \<Rightarrow> int" where
  "month_start n = year_start (n div 12) + month_offset (leap_year (n div 12)) (nat (n mod 12))"

definition year_of_day :: "int \<Rightarrow> int" where
  "year_of_day d = (let y = 1970 + (400 * d) div 146097 in
     if d < year_start y then y - 1 else if year_start (y + 1) \<le> d then y + 1 else y)"

definition month_in_year :: "bool \<Rightarrow> int \<Rightarrow> nat" where
  "month_in_year lp k = length (takeWhile (\<lambda>m. month_offset lp m \<le> k) [1..<12])"

definition month_of_day :: "int \<Rightarrow> int" where
  "month_of_day d = (let y = year_of_day d in
     12 * y + int (month_in_year (leap_year y) (d - year_start y)))"

text \<open>The month \<open>at\<close> falls in, its first moment, and the first moment of the next.\<close>

definition month_at :: "timestamp \<Rightarrow> int" where
  "month_at at = month_of_day (day_of at)"

definition monthStartOf :: "timestamp \<Rightarrow> timestamp" where
  "monthStartOf at = month_start (month_at at) * day_ms"

definition nextMonthStartOf :: "timestamp \<Rightarrow> timestamp" where
  "nextMonthStartOf at = month_start (month_at at + 1) * day_ms"

lemma div_bounds:
  fixes x :: int
  shows "4 * (x div 4) \<le> x" "x < 4 * (x div 4) + 4"
    "100 * (x div 100) \<le> x" "x < 100 * (x div 100) + 100"
    "400 * (x div 400) \<le> x" "x < 400 * (x div 400) + 400"
    "146097 * (x div 146097) \<le> x" "x < 146097 * (x div 146097) + 146097"
  by auto

lemma next_div:
  fixes x k :: int
  assumes "1 < k"
  shows "(x + 1) div k = x div k + (if (x + 1) mod k = 0 then 1 else 0)"
proof (cases "x mod k = k - 1")
  case True
  have e: "x + 1 = k * (x div k + 1)" unfolding distrib_left using True mult_div_mod_eq [of k x] by linarith
  show ?thesis using assms unfolding e by simp
next
  case False
  have "x mod k < k" "0 \<le> x mod k" using assms by simp_all
  with False have b: "0 \<le> x mod k + 1" "x mod k + 1 < k" "x mod k + 1 \<noteq> 0" by linarith+
  have e: "x + 1 = k * (x div k) + (x mod k + 1)" by simp
  from int_div_pos_eq [OF e] int_mod_pos_eq [OF e] b show ?thesis by simp
qed

lemma year_length: "year_start (y + 1) = year_start y + (if leap_year y then 366 else 365)"
proof -
  have e: "y + 1 - c = (y - c) + 1" for c :: int by simp
  have m: "((y - 1969) + 1) mod 4 = y mod 4" "((y - 1901) + 1) mod 100 = y mod 100"
    "((y - 1601) + 1) mod 400 = y mod 400"
    using mod_mult_self2 [of "y - 1968" 4 492] mod_mult_self2 [of "y - 1900" 100 19]
      mod_mult_self2 [of "y - 1600" 400 4] by (simp_all add: algebra_simps)
  have "(4 :: int) dvd 100" "(100 :: int) dvd 400" by simp_all
  then have d: "y mod 100 = 0 \<Longrightarrow> y mod 4 = 0" "y mod 400 = 0 \<Longrightarrow> y mod 100 = 0"
    by (metis dvd_eq_mod_eq_0 dvd_trans)+
  define a b c where "a = (y - 1969) div 4" and "b = (y - 1901) div 100" and "c = (y - 1601) div 400"
  have here: "year_start y = 365 * (y - 1970) + a - b + c"
    by (simp add: year_start_def a_def b_def c_def)
  have "year_start (y + 1) = 365 * (y + 1 - 1970) + (a + (if y mod 4 = 0 then 1 else 0))
      - (b + (if y mod 100 = 0 then 1 else 0)) + (c + (if y mod 400 = 0 then 1 else 0))"
    unfolding year_start_def a_def b_def c_def m [symmetric]
    by (simp only: e next_div [of 4, simplified] next_div [of 100, simplified] next_div [of 400, simplified])
  then show ?thesis
    unfolding here leap_year_def using d by (cases "y mod 4 = 0"; cases "y mod 100 = 0"; cases "y mod 400 = 0") simp_all
qed

lemma year_start_bounds:
  "146097 * y - 287811690 \<le> 400 * year_start y" "400 * year_start y \<le> 146097 * y - 287810490"
proof -
  define a b c where "a = (y - 1969) div 4" and "b = (y - 1901) div 100" and "c = (y - 1601) div 400"
  have "4 * a \<le> y - 1969" "y - 1969 < 4 * a + 4" "100 * b \<le> y - 1901" "y - 1901 < 100 * b + 100"
    "400 * c \<le> y - 1601" "y - 1601 < 400 * c + 400"
    unfolding a_def b_def c_def by (rule div_bounds)+
  moreover have "year_start y = 365 * y - 719050 + a - b + c"
    by (simp add: year_start_def a_def b_def c_def)
  ultimately have "146097 * y - 287811690 \<le> 400 * year_start y \<and> 400 * year_start y \<le> 146097 * y - 287810490"
    by simp
  then show "146097 * y - 287811690 \<le> 400 * year_start y" "400 * year_start y \<le> 146097 * y - 287810490"
    by blast+
qed

lemma year_of_day: "year_start (year_of_day d) \<le> d" "d < year_start (year_of_day d + 1)"
proof -
  define q where "q = (400 * d) div 146097"
  have q: "146097 * q \<le> 400 * d" "400 * d < 146097 * q + 146097"
    unfolding q_def by (rule div_bounds)+
  have lo: "year_start (1970 + q - 1) \<le> d"
    using year_start_bounds(2) [of "1970 + q - 1"] q by simp
  have hi: "d < year_start (1970 + q + 1 + 1)"
    using year_start_bounds(1) [of "1970 + q + 1 + 1"] q by simp
  have y: "year_of_day d = (if d < year_start (1970 + q) then 1970 + q - 1
      else if year_start (1970 + q + 1) \<le> d then 1970 + q + 1 else 1970 + q)"
    by (simp add: year_of_day_def Let_def q_def)
  consider "d < year_start (1970 + q)" | "year_start (1970 + q) \<le> d" "year_start (1970 + q + 1) \<le> d"
    | "year_start (1970 + q) \<le> d" "d < year_start (1970 + q + 1)" by linarith
  then have "year_start (year_of_day d) \<le> d \<and> d < year_start (year_of_day d + 1)"
  proof cases
    case 1
    then have "year_of_day d = 1970 + q - 1" by (simp add: y)
    with lo 1 show ?thesis by simp
  next
    case 2
    then have "year_of_day d = 1970 + q + 1" by (simp add: y)
    with hi 2 show ?thesis by simp
  next
    case 3
    then have "year_of_day d = 1970 + q" by (simp add: y)
    with 3 show ?thesis by simp
  qed
  then show "year_start (year_of_day d) \<le> d" "d < year_start (year_of_day d + 1)" by blast+
qed

lemma month_in_year:
  assumes "0 \<le> k" and "k < month_offset lp 12"
  shows "month_offset lp (month_in_year lp k) \<le> k" "k < month_offset lp (Suc (month_in_year lp k))"
    "month_in_year lp k < 12"
proof -
  define P where "P = (\<lambda>m. month_offset lp m \<le> k)"
  have n: "month_in_year lp k = length (takeWhile P [1..<12])" by (simp add: month_in_year_def P_def)
  have le: "length (takeWhile P [1..<12]) \<le> 11" using length_takeWhile_le [of P "[1..<12]"] by simp
  then show "month_in_year lp k < 12" by (simp add: n)
  show "month_offset lp (month_in_year lp k) \<le> k"
  proof (cases "month_in_year lp k")
    case 0
    with assms(1) show ?thesis by (simp add: month_offset_def)
  next
    case (Suc m)
    then have m: "m < length (takeWhile P [1..<12])" by (simp add: n)
    from nth_mem [OF m] have "P (takeWhile P [1..<12] ! m)" by (rule set_takeWhileD [THEN conjunct2])
    moreover from m le have "takeWhile P [1..<12] ! m = Suc m" by (simp add: takeWhile_nth)
    ultimately show ?thesis by (simp add: Suc P_def)
  qed
  show "k < month_offset lp (Suc (month_in_year lp k))"
  proof (cases "length (takeWhile P [1..<12]) = 11")
    case True
    with assms(2) show ?thesis by (simp add: n)
  next
    case False
    with le have m: "length (takeWhile P [1..<12]) < length [1..<12]" by simp
    from nth_length_takeWhile [OF m] have "\<not> P ([1..<12] ! length (takeWhile P [1..<12]))" .
    with m show ?thesis by (simp add: n P_def)
  qed
qed

lemma month_offset_12: "month_offset lp 12 = (if lp then 366 else 365)"
  by (simp add: month_offset_def)

lemma month_start_of:
  assumes "m < 12"
  shows "month_start (12 * y + int m) = year_start y + month_offset (leap_year y) m"
  using assms by (simp add: month_start_def)

lemma month_start_next:
  assumes "m < 12"
  shows "month_start (12 * y + int m + 1) = year_start y + month_offset (leap_year y) (Suc m)"
proof (cases "m = 11")
  case True
  have "month_start (12 * (y + 1) + int 0) = year_start (y + 1)"
    by (subst month_start_of) (simp_all add: month_offset_def)
  then have "month_start (12 * y + int m + 1) = year_start (y + 1)" using True by (simp add: algebra_simps)
  moreover have "month_offset lp (Suc m) = month_offset lp 12" for lp using True by simp
  ultimately show ?thesis by (simp add: year_length month_offset_12)
next
  case False
  with assms have "Suc m < 12" by simp
  from month_start_of [OF this, of y] show ?thesis by (simp add: algebra_simps)
qed

lemma month_of_day: "month_start (month_of_day d) \<le> d" "d < month_start (month_of_day d + 1)"
proof -
  define y where "y = year_of_day d"
  have b: "0 \<le> d - year_start y" "d - year_start y < month_offset (leap_year y) 12"
    using year_of_day [of d] by (simp_all add: y_def year_length month_offset_12)
  from month_in_year [OF b] show "month_start (month_of_day d) \<le> d" "d < month_start (month_of_day d + 1)"
    unfolding month_of_day_def Let_def y_def [symmetric]
    by (simp_all add: month_start_of month_start_next)
qed

lemma month_start_less: "month_start n < month_start (n + 1)"
proof -
  define m where "m = nat (n mod 12)"
  have m: "m < 12" "n = 12 * (n div 12) + int m" by (simp_all add: m_def)
  have "month_offset lp m < month_offset lp (Suc m)" for lp
    using m(1) by (auto simp: month_offset_def eval_nat_numeral less_Suc_eq)
  then show ?thesis
    using month_start_of [OF m(1)] month_start_next [OF m(1)] m(2) by (metis add_strict_left_mono)
qed

lemma month_start_strict: "n < k \<Longrightarrow> month_start n < month_start k"
proof (induction k rule: int_gr_induct)
  case base
  then show ?case by (rule month_start_less)
next
  case (step k)
  then show ?case using month_start_less [of k] by linarith
qed

lemma month_start_mono: "n \<le> k \<Longrightarrow> month_start n \<le> month_start k"
  using month_start_strict [of n k] by (cases "n = k") auto

lemma month_of_day_unique: "month_start n \<le> d \<Longrightarrow> d < month_start (n + 1) \<Longrightarrow> month_of_day d = n"
  using month_of_day [of d] month_start_mono [of "month_of_day d + 1" n] month_start_mono [of "n + 1" "month_of_day d"]
  by linarith

lemma month_of_day_mono: "d \<le> e \<Longrightarrow> month_of_day d \<le> month_of_day e"
  using month_of_day [of d] month_of_day [of e] month_start_mono [of "month_of_day e + 1" "month_of_day d"]
  by linarith

lemma month_of_month_start [simp]: "month_of_day (month_start n) = n"
  by (rule month_of_day_unique) (simp_all add: month_start_less)

lemma day_of_mono: "a \<le> b \<Longrightarrow> day_of a \<le> day_of b"
  by (simp add: day_of_def day_ms_def zdiv_mono1)

lemma month_at_mono: "a \<le> b \<Longrightarrow> month_at a \<le> month_at b"
  by (simp add: month_at_def month_of_day_mono day_of_mono)

lemma day_of_start: "day_of (d * day_ms) = d"
  by (simp add: day_of_def day_ms_def)

lemma month_at_start [simp]: "month_at (monthStartOf at) = month_at at"
  by (simp add: month_at_def monthStartOf_def day_of_start)

lemma month_at_next [simp]: "month_at (nextMonthStartOf at) = month_at at + 1"
  by (simp add: month_at_def nextMonthStartOf_def day_of_start)

lemma day_before: "a div 86400000 < n \<longleftrightarrow> a < n * (86400000 :: int)"
  using mult_div_mod_eq [of 86400000 a] pos_mod_bound [of 86400000 a] pos_mod_sign [of 86400000 a] by linarith

lemma before_month_start: "a < monthStartOf at \<longleftrightarrow> month_at a < month_at at"
proof -
  have "a < monthStartOf at \<longleftrightarrow> day_of a < month_start (month_at at)"
    unfolding monthStartOf_def day_of_def day_ms_def by (rule day_before [symmetric])
  also have "\<dots> \<longleftrightarrow> month_at a < month_at at"
  proof
    assume "month_at a < month_at at"
    then have "month_start (month_at a + 1) \<le> month_start (month_at at)" by (intro month_start_mono) simp
    with month_of_day(2) [of "day_of a"] show "day_of a < month_start (month_at at)"
      by (simp add: month_at_def)
  next
    assume less: "day_of a < month_start (month_at at)"
    show "month_at a < month_at at"
    proof (rule ccontr)
      assume "\<not> month_at a < month_at at"
      then have "month_start (month_at at) \<le> month_start (month_at a)" by (intro month_start_mono) simp
      with month_of_day(1) [of "day_of a"] less show False by (simp add: month_at_def)
    qed
  qed
  finally show ?thesis .
qed

subsection \<open>Months as texts\<close>

text \<open>
  \<open>monthNumber\<close>, \<open>addMonths\<close> and \<open>isMonth\<close> of \<open>year-credit.ts\<close>, \<open>monthOf\<close> of \<open>billing-from.ts\<close>.
  None stands for the RangeError of a text that is no month.
\<close>

definition month_text :: "int \<Rightarrow> string" where
  "month_text n = pad_start 4 (decimal_int (n div 12)) @ ''-'' @ pad_start 2 (decimal_int (n mod 12 + 1))"

definition monthOf :: "timestamp \<Rightarrow> string" where
  "monthOf at = month_text (month_at at)"

definition isMonth :: "string \<Rightarrow> bool" where
  "isMonth s \<longleftrightarrow> length s = 7 \<and> list_all is_digit (take 4 s) \<and> s ! 4 = CHR ''-'' \<and> list_all is_digit (drop 5 s)"

definition monthNumber :: "string \<Rightarrow> int option" where
  "monthNumber s = (if \<not> isMonth s then None
     else let m = number_of (drop 5 s) in
       if m < 1 \<or> 12 < m then None else Some (int (number_of (take 4 s)) * 12 + (int m - 1)))"

definition addMonths :: "string \<Rightarrow> int \<Rightarrow> string option" where
  "addMonths month n = map_option (\<lambda>k. month_text (k + n)) (monthNumber month)"

text \<open>\<open>monthFirstDay\<close> and \<open>monthLastDay\<close>, as the days the \<open>date\<close> columns hold.\<close>

definition monthFirstDay :: "string \<Rightarrow> int option" where
  "monthFirstDay month = map_option month_start (monthNumber month)"

definition monthLastDay :: "string \<Rightarrow> int option" where
  "monthLastDay month = (case addMonths month 1 of None \<Rightarrow> None
     | Some next_month \<Rightarrow> map_option (\<lambda>n. month_start n - 1) (monthNumber next_month))"

text \<open>JavaScript's \<open><=\<close> on strings.\<close>

fun text_le :: "string \<Rightarrow> string \<Rightarrow> bool" where
  "text_le [] t = True"
| "text_le (c # s) [] = False"
| "text_le (c # s) (d # t) = (char_code c < char_code d \<or> c = d \<and> text_le s t)"

definition months_of_four_digits :: "int set" where
  "months_of_four_digits = {0..<120000}"

lemma month_text_parts:
  assumes "n \<in> months_of_four_digits"
  shows "\<exists>y m. month_text n = y @ ''-'' @ m \<and> length y = 4 \<and> length m = 2 \<and> list_all is_digit y
    \<and> list_all is_digit m \<and> number_of y = nat (n div 12) \<and> number_of m = nat (n mod 12) + 1"
proof -
  define y m where "y = pad_start 4 (decimal_int (n div 12))" and "m = pad_start 2 (decimal_int (n mod 12 + 1))"
  have r: "0 \<le> n" "n < 120000" using assms by (simp_all add: months_of_four_digits_def)
  have y1: "\<not> n div 12 < 0" "n div 12 < 10000" using r by (simp_all add: div_less_iff_less_mult pos_imp_zdiv_nonneg_iff)
  have y2: "y = pad_start 4 (decimal (nat (n div 12)))" unfolding y_def decimal_int_def if_not_P [OF y1(1)] ..
  have "length y = 4" using y1 by (simp add: y2 length_padded length_decimal nat_less_iff)
  moreover have "number_of y = nat (n div 12)" "list_all is_digit y" by (simp_all add: y2)
  moreover have m1: "\<not> n mod 12 + 1 < 0" "0 \<le> n mod 12" "n mod 12 < 12" by simp_all
  then have m2: "m = pad_start 2 (decimal (nat (n mod 12) + 1))"
    unfolding m_def decimal_int_def if_not_P [OF m1(1)] by (simp add: nat_add_distrib)
  then have "length m = 2" using m1(2,3) by (simp add: length_padded length_decimal nat_less_iff)
  moreover have "number_of m = nat (n mod 12) + 1" "list_all is_digit m" by (simp_all add: m2)
  moreover have "month_text n = y @ ''-'' @ m" by (simp only: month_text_def y_def m_def)
  ultimately show ?thesis by blast
qed

lemma month_text_roundtrip [simp]: "n \<in> months_of_four_digits \<Longrightarrow> monthNumber (month_text n) = Some n"
proof -
  assume n: "n \<in> months_of_four_digits"
  from month_text_parts [OF this] obtain y m where s: "month_text n = y @ ''-'' @ m" "length y = 4" "length m = 2"
    "list_all is_digit y" "list_all is_digit m" "number_of y = nat (n div 12)" "number_of m = nat (n mod 12) + 1"
    by blast
  have "take 4 (y @ ''-'' @ m) = y" "drop 5 (y @ ''-'' @ m) = m" "(y @ ''-'' @ m) ! 4 = CHR ''-''"
    using s(2) by (simp_all add: nth_append)
  moreover have "0 \<le> n div 12" "nat (n mod 12) < 12"
    using n by (simp_all add: months_of_four_digits_def pos_imp_zdiv_nonneg_iff nat_less_iff)
  ultimately show ?thesis using s by (simp add: monthNumber_def isMonth_def Let_def)
qed

lemma addMonths_text:
  "n \<in> months_of_four_digits \<Longrightarrow> addMonths (month_text n) k = Some (month_text (n + k))"
  by (simp add: addMonths_def)

lemma monthNumber_monthOf: "month_at at \<in> months_of_four_digits \<Longrightarrow> monthNumber (monthOf at) = Some (month_at at)"
  by (simp add: monthOf_def)

lemma monthNumber_range: "monthNumber s = Some n \<Longrightarrow> 0 \<le> n"
  by (auto simp: monthNumber_def Let_def split: if_splits)

lemma text_le_refl [simp]: "text_le s s"
  by (induction s) auto

lemma number_of_Cons: "number_of (c # s) = (char_code c - 48) * 10 ^ length s + number_of s"
proof (induction s rule: rev_induct)
  case Nil
  show ?case by (simp add: number_of_def)
next
  case (snoc d s)
  have "number_of ((c # s) @ [d]) = 10 * number_of (c # s) + (char_code d - 48)" by (rule number_of_append)
  then show ?case by (simp add: snoc algebra_simps)
qed

lemma number_of_less: "list_all is_digit s \<Longrightarrow> number_of s < 10 ^ length s"
proof (induction s)
  case (Cons c s)
  then have "char_code c - 48 \<le> 9" and "number_of s < 10 ^ length s" by (auto simp: is_digit_def)
  moreover from this(1) have "(char_code c - 48) * 10 ^ length s \<le> 9 * 10 ^ length s" by (rule mult_le_mono1)
  ultimately have "(char_code c - 48) * 10 ^ length s + number_of s < 10 * 10 ^ length s" by linarith
  then show ?case by (simp add: number_of_Cons)
qed simp

lemma char_code_inject: "char_code c = char_code d \<longleftrightarrow> c = d"
  by (simp add: char_code_def)

lemma text_le_digits:
  assumes "length s = length t" and "list_all is_digit s" and "list_all is_digit t"
  shows "text_le s t \<longleftrightarrow> number_of s \<le> number_of t"
  using assms
proof (induction s t rule: list_induct2)
  case Nil
  then show ?case by simp
next
  case (Cons c s d t)
  have cd: "48 \<le> char_code c" "48 \<le> char_code d" using Cons.prems by (auto simp: is_digit_def)
  have s: "number_of s < 10 ^ length t" "number_of t < 10 ^ length t"
    using Cons.prems Cons.hyps number_of_less [of s] number_of_less [of t] by simp_all
  have IH: "text_le s t \<longleftrightarrow> number_of s \<le> number_of t" using Cons by simp
  consider "char_code c < char_code d" | "c = d" | "char_code d < char_code c"
    by (metis char_code_inject linorder_less_linear)
  then show ?case
  proof cases
    case 1
    then have "char_code c - 48 + 1 \<le> char_code d - 48" using cd by linarith
    then have "(char_code c - 48 + 1) * 10 ^ length t \<le> (char_code d - 48) * 10 ^ length t" by (rule mult_le_mono1)
    then have "(char_code c - 48) * 10 ^ length t + 10 ^ length t \<le> (char_code d - 48) * 10 ^ length t"
      unfolding distrib_right by simp
    with 1 s show ?thesis by (simp add: number_of_Cons Cons.hyps)
  next
    case 2
    then show ?thesis by (simp add: number_of_Cons Cons.hyps IH)
  next
    case 3
    then have "char_code d - 48 + 1 \<le> char_code c - 48" using cd by linarith
    then have "(char_code d - 48 + 1) * 10 ^ length t \<le> (char_code c - 48) * 10 ^ length t" by (rule mult_le_mono1)
    then have "(char_code d - 48) * 10 ^ length t + 10 ^ length t \<le> (char_code c - 48) * 10 ^ length t"
      unfolding distrib_right by simp
    with 3 s show ?thesis by (auto simp: number_of_Cons Cons.hyps)
  qed
qed

lemma text_le_append:
  "length s = length t \<Longrightarrow> text_le (s @ u) (t @ v) \<longleftrightarrow> (if s = t then text_le u v else text_le s t)"
  by (induction s t rule: list_induct2) auto

lemma digits_inject:
  assumes "length s = length t" and "list_all is_digit s" and "list_all is_digit t"
  shows "number_of s = number_of t \<longleftrightarrow> s = t"
proof
  assume "number_of s = number_of t"
  then have "text_le s t" "text_le t s" using assms by (simp_all add: text_le_digits)
  with assms(1) show "s = t" by (induction s t rule: list_induct2) auto
qed simp

lemma by_quotient_first:
  "(if n div 12 = k div 12 then n mod 12 \<le> k mod 12 else n div 12 \<le> k div 12) \<longleftrightarrow> n \<le> (k :: int)"
proof -
  define a b c d where "a = n div 12" and "b = n mod 12" and "c = k div 12" and "d = k mod 12"
  have "n = 12 * a + b" "k = 12 * c + d" "0 \<le> b" "b < 12" "0 \<le> d" "d < 12"
    by (simp_all add: a_def b_def c_def d_def)
  then have "(if a = c then b \<le> d else a \<le> c) \<longleftrightarrow> n \<le> k" by (cases "a = c") auto
  then show ?thesis by (simp only: a_def b_def c_def d_def)
qed

text \<open>Compared as texts, months of four-digit years stand in their order.\<close>

lemma text_le_months:
  assumes "n \<in> months_of_four_digits" and "k \<in> months_of_four_digits"
  shows "text_le (month_text n) (month_text k) \<longleftrightarrow> n \<le> k"
proof -
  from month_text_parts [OF assms(1)] obtain y m where s: "month_text n = y @ ''-'' @ m" "length y = 4" "length m = 2"
    "list_all is_digit y" "list_all is_digit m" "number_of y = nat (n div 12)" "number_of m = nat (n mod 12) + 1"
    by blast
  from month_text_parts [OF assms(2)] obtain z l where t: "month_text k = z @ ''-'' @ l" "length z = 4" "length l = 2"
    "list_all is_digit z" "list_all is_digit l" "number_of z = nat (k div 12)" "number_of l = nat (k mod 12) + 1"
    by blast
  have r: "0 \<le> n div 12" "0 \<le> k div 12" "0 \<le> n mod 12" "0 \<le> k mod 12"
    using assms by (simp_all add: months_of_four_digits_def pos_imp_zdiv_nonneg_iff)
  have same_length: "length y = length z" "length m = length l" by (simp_all only: s(2,3) t(2,3))
  have text_le_dash: "text_le (''-'' @ m) (''-'' @ l) = text_le m l" by simp
  have yz: "y = z \<longleftrightarrow> n div 12 = k div 12"
    unfolding digits_inject [of y z, symmetric, unfolded s(2) t(2), OF refl s(4) t(4)] s(6) t(6)
    using r by (simp only: eq_nat_nat_iff)
  have "text_le (month_text n) (month_text k) \<longleftrightarrow>
      (if y = z then text_le (''-'' @ m) (''-'' @ l) else text_le y z)"
    unfolding s(1) t(1) by (rule text_le_append) (simp only: s(2) t(2))
  also have "\<dots> \<longleftrightarrow> (if y = z then number_of m \<le> number_of l else number_of y \<le> number_of z)"
    unfolding text_le_digits [OF same_length(1) s(4) t(4)] text_le_dash
      text_le_digits [OF same_length(2) s(5) t(5)] ..
  also have "\<dots> \<longleftrightarrow> (if n div 12 = k div 12 then n mod 12 \<le> k mod 12 else n div 12 \<le> k div 12)"
    unfolding yz s(6,7) t(6,7) add_le_cancel_right
      nat_le_eq_zle [OF disjI2 [OF r(2)]] nat_le_eq_zle [OF disjI2 [OF r(4)]] ..
  also have "\<dots> \<longleftrightarrow> n \<le> k"
    by (rule by_quotient_first)
  finally show ?thesis .
qed

end
