(* ===== verification/Tiers.thy ===== *)
theory Tiers
  imports Calendar Complex_Main
begin

text \<open>
  What the managed service charges for: the published table and the tier what was used derives
  (\<open>managed/src/tier-calculator.ts\<close>), the yeses that move the data ceiling (\<open>data-ceiling.ts\<close>), the
  starts that wait for one (\<open>path-ceiling.ts\<close>), the tiers a person picks (\<open>tier-pick.ts\<close>) and the
  tier a month bills (\<open>billed-tier.ts\<close>). Gigabytes and euros are rationals where the source has
  doubles; cents are whole.
\<close>

subsection \<open>The published table\<close>

datatype tier_id = Free | Small | Medium | Large | XL

record managed_tier =
  tier_id :: tier_id
  tier_paths :: int
  tier_dataGb :: rat
  tier_monthlyCents :: int
  tier_annualCents :: int

definition managed_tier :: "tier_id \<Rightarrow> int \<Rightarrow> rat \<Rightarrow> int \<Rightarrow> int \<Rightarrow> managed_tier" where
  "managed_tier i p g m a = \<lparr>tier_id = i, tier_paths = p, tier_dataGb = g, tier_monthlyCents = m, tier_annualCents = a\<rparr>"

definition GB_PER_TB :: rat where
  "GB_PER_TB = 1000"

definition MANAGED_TIERS :: "managed_tier list" where
  "MANAGED_TIERS =
    [managed_tier Free 6 150 0 0,
     managed_tier Small 6 500 500 3000,
     managed_tier Medium 12 (3 / 2 * GB_PER_TB) 1200 7200,
     managed_tier Large 24 (6 * GB_PER_TB) 4000 24000,
     managed_tier XL 50 (15 * GB_PER_TB) 8000 48000]"

text \<open>The text of a tier's id, as a page or a row holds it.\<close>

fun tier_text :: "tier_id \<Rightarrow> string" where
  "tier_text Free = ''free''"
| "tier_text Small = ''small''"
| "tier_text Medium = ''medium''"
| "tier_text Large = ''large''"
| "tier_text XL = ''xl''"

fun find_index :: "('a \<Rightarrow> bool) \<Rightarrow> 'a list \<Rightarrow> nat option" where
  "find_index p [] = None"
| "find_index p (x # xs) = (if p x then Some 0 else map_option Suc (find_index p xs))"

text \<open>A tier's place in the published table; Free is 0. The table's ids are distinct, so it is the tier's.\<close>

definition placeOf :: "tier_id \<Rightarrow> nat" where
  "placeOf i = (case find_index (\<lambda>t. tier_id t = i) MANAGED_TIERS of None \<Rightarrow> 0 | Some n \<Rightarrow> n)"

datatype decided_by = By_paths | By_data | By_both

record tier_derivation =
  td_tier :: "managed_tier option"
  td_decidedBy :: decided_by

definition deriveTier :: "int \<Rightarrow> rat \<Rightarrow> tier_derivation" where
  "deriveTier paths gb =
    (let byPaths = find_index (\<lambda>t. paths \<le> tier_paths t) MANAGED_TIERS;
         byData = find_index (\<lambda>t. gb \<le> tier_dataGb t) MANAGED_TIERS
     in case byPaths of
       None \<Rightarrow> \<lparr>td_tier = None, td_decidedBy = (if byData = None then By_both else By_paths)\<rparr>
     | Some p \<Rightarrow>
        (case byData of
          None \<Rightarrow> \<lparr>td_tier = None, td_decidedBy = By_data\<rparr>
        | Some d \<Rightarrow> \<lparr>td_tier = Some (MANAGED_TIERS ! max p d),
            td_decidedBy = (if p = d then By_both else if d < p then By_paths else By_data)\<rparr>))"

record tenant_tier =
  tt_derived :: tier_derivation
  tt_peakPaths :: int
  tt_gbMoved :: rat

definition observedTier :: "int \<Rightarrow> int \<Rightarrow> rat \<Rightarrow> tenant_tier" where
  "observedTier peakRecorded pathsNow gbMoved =
    (let peakPaths = max peakRecorded pathsNow in
     \<lparr>tt_derived = deriveTier peakPaths gbMoved, tt_peakPaths = peakPaths, tt_gbMoved = gbMoved\<rparr>)"

subsection \<open>The data ceiling and the yeses that move it\<close>

datatype grant_kind = Tier_yes | Top_up

record allowance_grant =
  gr_kind :: grant_kind
  gr_tierId :: tier_id
  gr_bandGb :: rat

record allowance =
  al_tier :: managed_tier
  al_ceilingGb :: rat
  al_topUps :: nat

fun granted :: "allowance_grant list \<Rightarrow> nat \<times> rat \<times> nat \<Rightarrow> nat \<times> rat \<times> nat" where
  "granted [] acc = acc"
| "granted (g # gs) (tierIndex, topUpGb, topUps) =
    granted gs (if gr_kind g = Tier_yes then (max tierIndex (placeOf (gr_tierId g)), topUpGb, topUps)
      else (tierIndex, topUpGb + gr_bandGb g, topUps + 1))"

definition allowanceOf :: "allowance_grant list \<Rightarrow> allowance" where
  "allowanceOf grants =
    (case granted grants (0, 0, 0) of (tierIndex, topUpGb, topUps) \<Rightarrow>
      let tier = MANAGED_TIERS ! tierIndex in
      \<lparr>al_tier = tier, al_ceilingGb = tier_dataGb tier + topUpGb, al_topUps = topUps\<rparr>)"

definition monthlyEur :: "managed_tier \<Rightarrow> rat" where
  "monthlyEur tier = of_int (tier_monthlyCents tier) / 100"

definition topUpPriceEur :: "managed_tier \<Rightarrow> rat option" where
  "topUpPriceEur tier = (if tier_id tier = Free then None else Some (monthlyEur tier))"

record move_up_offer =
  mo_tier :: managed_tier
  mo_monthlyEur :: rat
  mo_ceilingGb :: rat

record top_up_offer =
  to_tierId :: tier_id
  to_bandGb :: rat
  to_priceEur :: rat
  to_ceilingGb :: rat

datatype ceiling_state = Under | Near | Reached

record ceiling =
  ce_allowance :: allowance
  ce_gbMoved :: rat
  ce_share :: rat
  ce_state :: ceiling_state
  ce_moveUp :: "move_up_offer option"
  ce_topUp :: "top_up_offer option"

definition WARN_AT_SHARE :: rat where
  "WARN_AT_SHARE = 4 / 5"

definition ceilingOf :: "allowance \<Rightarrow> rat \<Rightarrow> ceiling" where
  "ceilingOf a gbMoved =
    (let topUpGb = al_ceilingGb a - tier_dataGb (al_tier a);
         tiers_above = drop (Suc (placeOf (tier_id (al_tier a)))) MANAGED_TIERS;
         next_tier = List.find (\<lambda>t. gbMoved < tier_dataGb t + topUpGb) tiers_above;
         share = (if 0 < al_ceilingGb a then gbMoved / al_ceilingGb a else 1)
     in \<lparr>ce_allowance = a, ce_gbMoved = gbMoved, ce_share = share,
         ce_state = (if al_ceilingGb a \<le> gbMoved then Reached
           else if WARN_AT_SHARE \<le> share then Near else Under),
         ce_moveUp = map_option (\<lambda>t. \<lparr>mo_tier = t, mo_monthlyEur = monthlyEur t,
           mo_ceilingGb = tier_dataGb t + topUpGb\<rparr>) next_tier,
         ce_topUp = map_option (\<lambda>price. \<lparr>to_tierId = tier_id (al_tier a), to_bandGb = tier_dataGb (al_tier a),
           to_priceEur = price, to_ceilingGb = al_ceilingGb a + tier_dataGb (al_tier a)\<rparr>)
           (topUpPriceEur (al_tier a))\<rparr>)"

record break_even =
  be_extraOnceEur :: rat
  be_savedMonthlyEur :: rat
  be_paysBackInDays :: int

definition DAYS_PER_MONTH :: rat where
  "DAYS_PER_MONTH = 30"

definition breakEvenOf :: "ceiling \<Rightarrow> break_even option" where
  "breakEvenOf c = (case (ce_moveUp c, ce_topUp c) of
     (Some m, Some t) \<Rightarrow>
       (let extra = to_priceEur t; saved = mo_monthlyEur m - monthlyEur (al_tier (ce_allowance c)) in
        if saved \<le> 0 then None
        else Some \<lparr>be_extraOnceEur = extra, be_savedMonthlyEur = saved,
          be_paysBackInDays = (if extra \<le> 0 then 0 else \<lceil>extra / saved * DAYS_PER_MONTH\<rceil>)\<rparr>)
   | _ \<Rightarrow> None)"

datatype yes_choice = Choose_move_up | Choose_top_up

record yes =
  ye_choice :: yes_choice
  ye_tierId :: string
  ye_priceEur :: rat

datatype yes_refusal = No_top_up_on_free | Talk_to_us | Offer_changed | Not_a_step_up

record priced_grant = allowance_grant +
  gr_priceEur :: rat

definition priced_grant :: "grant_kind \<Rightarrow> tier_id \<Rightarrow> rat \<Rightarrow> rat \<Rightarrow> priced_grant" where
  "priced_grant k i g p = \<lparr>gr_kind = k, gr_tierId = i, gr_bandGb = g, gr_priceEur = p\<rparr>"

definition decideYes :: "ceiling \<Rightarrow> yes \<Rightarrow> yes_refusal + priced_grant" where
  "decideYes c y =
    (case ye_choice y of
      Choose_top_up \<Rightarrow>
        (case ce_topUp c of
          None \<Rightarrow> Inl No_top_up_on_free
        | Some offer \<Rightarrow>
            if ye_tierId y \<noteq> tier_text (to_tierId offer) \<or> ye_priceEur y \<noteq> to_priceEur offer then Inl Offer_changed
            else Inr (priced_grant Top_up (to_tierId offer) (to_bandGb offer) (to_priceEur offer)))
    | Choose_move_up \<Rightarrow>
        (case ce_moveUp c of
          None \<Rightarrow> Inl Talk_to_us
        | Some offer \<Rightarrow>
            if ye_tierId y \<noteq> tier_text (tier_id (mo_tier offer)) \<or> ye_priceEur y \<noteq> mo_monthlyEur offer
            then Inl Offer_changed
            else Inr (priced_grant Tier_yes (tier_id (mo_tier offer)) (tier_dataGb (mo_tier offer)) (mo_monthlyEur offer))))"

definition holdsAtCeiling :: "string option \<Rightarrow> bool" where
  "holdsAtCeiling stage \<longleftrightarrow> map_option (\<lambda>s. to_lower (trim s)) stage \<noteq> Some ''alpha''"

definition BYTES_PER_GB :: rat where
  "BYTES_PER_GB = 1000000000"

definition firstCopyGate :: "ceiling \<Rightarrow> rat \<Rightarrow> bool" where
  "firstCopyGate c firstCopyBytesThisPass \<longleftrightarrow>
    ce_gbMoved c * BYTES_PER_GB + firstCopyBytesThisPass < al_ceilingGb (ce_allowance c) * BYTES_PER_GB"

subsection \<open>A start past the agreed tier's paths\<close>

record paths_past =
  pp_tier :: managed_tier
  pp_after :: int
  pp_needs :: "managed_tier option"

definition pathsPastTheTier :: "allowance \<Rightarrow> int \<Rightarrow> int \<Rightarrow> paths_past option" where
  "pathsPastTheTier a before after =
    (if after \<le> before \<or> after \<le> tier_paths (al_tier a) then None
     else Some \<lparr>pp_tier = al_tier a, pp_after = after,
       pp_needs = List.find (\<lambda>t. after \<le> tier_paths t) MANAGED_TIERS\<rparr>)"

record starting_migration =
  sm_mappingId :: string
  sm_newSlots :: int

record paths_forecast =
  pf_tier :: managed_tier
  pf_held :: int
  pf_after :: int
  pf_past :: "paths_past option"
  pf_fits :: "string list"

fun fitting :: "int \<Rightarrow> int \<Rightarrow> starting_migration list \<Rightarrow> string list" where
  "fitting paths running [] = []"
| "fitting paths running (m # ms) =
    (if 0 < sm_newSlots m \<and> paths < running + sm_newSlots m then fitting paths running ms
     else sm_mappingId m # fitting paths (running + sm_newSlots m) ms)"

definition pathsForecast :: "allowance \<Rightarrow> int \<Rightarrow> starting_migration list \<Rightarrow> paths_forecast" where
  "pathsForecast a held starting =
    (let after = foldl (\<lambda>s m. s + sm_newSlots m) held starting in
     \<lparr>pf_tier = al_tier a, pf_held = held, pf_after = after, pf_past = pathsPastTheTier a held after,
      pf_fits = fitting (tier_paths (al_tier a)) held starting\<rparr>)"

definition decidePathsYes :: "allowance \<Rightarrow> string \<Rightarrow> rat \<Rightarrow> yes_refusal + priced_grant" where
  "decidePathsYes a tierId priceEur =
    (case List.find (\<lambda>t. tier_text (tier_id t) = tierId) MANAGED_TIERS of
      None \<Rightarrow> Inl Not_a_step_up
    | Some tier \<Rightarrow>
        if tier_id tier = Free \<or> tier_paths tier \<le> tier_paths (al_tier a) then Inl Not_a_step_up
        else if priceEur \<noteq> monthlyEur tier then Inl Offer_changed
        else Inr (priced_grant Tier_yes (tier_id tier) (tier_dataGb tier) (monthlyEur tier)))"

subsection \<open>A tier a person picks\<close>

record tier_pick =
  pk_tierId :: tier_id
  pk_pickedAt :: timestamp

record picked_floor =
  fl_now :: "managed_tier option"
  fl_next :: "managed_tier option"
  fl_nextFrom :: timestamp

definition floorAt :: "nat \<Rightarrow> managed_tier option" where
  "floorAt place = (if 0 < place then Some (MANAGED_TIERS ! place) else None)"

fun picks_made :: "timestamp \<Rightarrow> tier_pick list \<Rightarrow> nat \<times> nat \<times> nat \<Rightarrow> nat \<times> nat \<times> nat" where
  "picks_made monthStart [] acc = acc"
| "picks_made monthStart (p # ps) (standing, since, latest) =
    (let place = placeOf (pk_tierId p) in
     picks_made monthStart ps
       (if pk_pickedAt p < monthStart then (place, since, place) else (standing, max since place, place)))"

definition pickedFloorOf :: "tier_pick list \<Rightarrow> timestamp \<Rightarrow> picked_floor" where
  "pickedFloorOf picks moment =
    (case picks_made (monthStartOf moment) (sort_key pk_pickedAt (filter (\<lambda>p. pk_pickedAt p \<le> moment) picks)) (0, 0, 0) of
      (standing, since, latest) \<Rightarrow>
        \<lparr>fl_now = floorAt (max standing since), fl_next = floorAt latest, fl_nextFrom = nextMonthStartOf moment\<rparr>)"

record pick_offers =
  po_raise :: "managed_tier list"
  po_lower :: "managed_tier list"

definition floor_place :: "managed_tier option \<Rightarrow> nat" where
  "floor_place f = (case f of None \<Rightarrow> 0 | Some t \<Rightarrow> placeOf (tier_id t))"

definition pickOffers :: "managed_tier \<Rightarrow> picked_floor \<Rightarrow> pick_offers" where
  "pickOffers billed f =
    (let billedPlace = placeOf (tier_id billed);
         nowPlace = floor_place (fl_now f);
         nextPlace = floor_place (fl_next f);
         placed = zip [0..<length MANAGED_TIERS] MANAGED_TIERS
     in \<lparr>po_raise = map snd (filter (\<lambda>(place, t). billedPlace < place \<or> nextPlace < nowPlace \<and> place = nowPlace) placed),
         po_lower = map snd (filter (\<lambda>(place, t). place < nextPlace) placed)\<rparr>)"

datatype pick_from = From_now | From_next_month

record pick_taken =
  pt_tierId :: tier_id
  pt_priceEur :: rat
  pt_from :: pick_from
  pt_yes :: "priced_grant option"

definition decidePick :: "pick_offers \<Rightarrow> allowance \<Rightarrow> string \<Rightarrow> rat \<Rightarrow> yes_refusal + pick_taken" where
  "decidePick offers a tierId priceEur =
    (let raised = List.find (\<lambda>t. tier_text (tier_id t) = tierId) (po_raise offers);
         chosen = (if raised \<noteq> None then raised
           else List.find (\<lambda>t. tier_text (tier_id t) = tierId) (po_lower offers))
     in case chosen of
       None \<Rightarrow> Inl Offer_changed
     | Some tier \<Rightarrow>
         if priceEur \<noteq> monthlyEur tier then Inl Offer_changed
         else Inr \<lparr>pt_tierId = tier_id tier, pt_priceEur = monthlyEur tier,
           pt_from = (if raised \<noteq> None then From_now else From_next_month),
           pt_yes = (if raised \<noteq> None \<and> placeOf (tier_id (al_tier a)) < placeOf (tier_id tier)
             then Some (priced_grant Tier_yes (tier_id tier) (tier_dataGb tier) (monthlyEur tier)) else None)\<rparr>)"

subsection \<open>The tier a month bills\<close>

datatype beyond_the_tier = Bands | Paths | Data

record billed_tier =
  bt_tier :: managed_tier
  bt_beyond :: "beyond_the_tier list"
  bt_picked :: bool

text \<open>\<open>place\<close>: a tier's place, and past them all for none.\<close>

definition place_or_past :: "managed_tier option \<Rightarrow> nat" where
  "place_or_past t = (case t of None \<Rightarrow> length MANAGED_TIERS | Some t \<Rightarrow> placeOf (tier_id t))"

definition billedTierOf ::
  "managed_tier option \<Rightarrow> allowance \<Rightarrow> int \<Rightarrow> rat \<Rightarrow> managed_tier option \<Rightarrow> billed_tier" where
  "billedTierOf measured a peakPaths gbCounted picked =
    (let agreed = al_tier a;
         floor = (if picked \<noteq> None \<and> place_or_past (Some agreed) < place_or_past picked then Some agreed else picked);
         above = \<lparr>bt_tier = agreed,
           bt_beyond = (if tier_dataGb agreed < gbCounted \<and> gbCounted \<le> al_ceilingGb a then [Bands] else [])
             @ (if tier_paths agreed < peakPaths then [Paths] else [])
             @ (if al_ceilingGb a < gbCounted then [Data] else []),
           bt_picked = False\<rparr>
     in case measured of
       None \<Rightarrow> above
     | Some m \<Rightarrow>
         if place_or_past measured \<le> place_or_past (Some agreed) then
           (case floor of
             Some f \<Rightarrow> if place_or_past measured < place_or_past floor
               then \<lparr>bt_tier = f, bt_beyond = [], bt_picked = True\<rparr>
               else \<lparr>bt_tier = m, bt_beyond = [], bt_picked = False\<rparr>
           | None \<Rightarrow> \<lparr>bt_tier = m, bt_beyond = [], bt_picked = False\<rparr>)
         else above)"

end
