(* ===== verification/Billing.thy ===== *)
theory Billing
  imports Tiers
begin

text \<open>
  The month invoiced in advance and the year paid ahead: \<open>managed/src/month-invoice.ts\<close>,
  \<open>year-credit.ts\<close>, \<open>billing-from.ts\<close>, with what they read (\<open>pace.ts\<close>, \<open>occupancy-peak.ts\<close>,
  \<open>bytes-moved.ts\<close>, the stores of \<open>data-ceiling.ts\<close> and \<open>tier-pick.ts\<close>, \<open>since-a-withdrawal.ts\<close>),
  and the withdrawal with its credit notes (\<open>withdrawal.ts\<close>, \<open>credit-note.ts\<close>).

  The state is the rows of one organisation: every statement filters by it, and the advisory locks
  make the operations follow one another. Money is whole cents. The paths holding a slot
  (\<open>slotsHeld\<close> of the ledger's paths) are a number of the state. An operation is a program that may
  throw; \<open>in_transaction\<close> is the transaction it runs in, which a throw rolls back.
\<close>

subsection \<open>The rows\<close>

datatype rate = Half | Full

datatype invoice_status = Draft | Sent | Paid | Overdue | Void

datatype step_status = Invoiced invoice_status | Drawn

datatype invoice_kind = An_invoice | A_credit_note

datatype billed_by = By_peak | By_moved | By_pick | By_agreed

datatype price_from = Agreed_price | List_price

text \<open>\<open>MonthEvidence\<close>: what a step's invoice keeps of how it was decided.\<close>

record month_evidence =
  me_month :: string
  me_rate :: rate
  me_drawnCents :: int
  me_tier :: tier_id
  me_by :: billed_by
  me_peakPaths :: int
  me_peakAt :: "timestamp option"
  me_gbCounted :: rat
  me_agreedTier :: tier_id
  me_priceCents :: int
  me_priceFrom :: price_from
  me_beforeCents :: int
  me_cents :: int
  me_at :: timestamp

text \<open>\<open>YearEvidence\<close>.\<close>

record year_evidence =
  yv_tier :: tier_id
  yv_cents :: int
  yv_creditFrom :: string
  yv_halfFrom :: string
  yv_halfTo :: string
  yv_at :: timestamp

text \<open>What a withdrawal's credit note keeps.\<close>

record withdrawal_evidence =
  wv_withdrawnAt :: timestamp
  wv_paidFrom :: int
  wv_periodEnd :: int
  wv_daysPaid :: int
  wv_daysUsed :: int
  wv_beganOnRequest :: bool

datatype evidence =
  Month_of month_evidence | Year_of year_evidence | Withdrawal_of withdrawal_evidence | Unreadable

datatype invoice_line = Published int | Share int int

record invoice =
  inv_id :: nat
  inv_reference :: "string option"
  inv_kind :: invoice_kind
  inv_status :: invoice_status
  inv_periodStart :: int
  inv_periodEnd :: int
  inv_total :: int
  inv_creditedId :: "nat option"
  inv_evidence :: evidence
  inv_lines :: "invoice_line list"
  inv_createdAt :: timestamp

record credit_draw =
  dr_month :: int
  dr_tierId :: tier_id
  dr_cents :: int
  dr_rate :: rate
  dr_drawnAt :: timestamp

datatype yes_axis = Data_axis | Paths_axis | Pick_axis

record yes_row = allowance_grant +
  yr_priceEur :: rat
  yr_consentedAt :: timestamp
  yr_axis :: yes_axis
  yr_beganOnRequest :: bool

record pick_row = tier_pick +
  pr_priceEur :: rat

record withdrawal_row =
  wr_withdrawnAt :: timestamp
  wr_contractSince :: timestamp
  wr_tierId :: tier_id
  wr_beganOnRequest :: bool

record occupancy_peak =
  op_month :: int
  op_peakPaths :: int
  op_peakAt :: timestamp

datatype party_kind = Consumer | Business

record billing =
  bl_tenantId :: string
  bl_invoices :: "invoice list"
  bl_draws :: "credit_draw list"
  bl_yeses :: "yes_row list"
  bl_picks :: "pick_row list"
  bl_withdrawals :: "withdrawal_row list"
  bl_peaks :: "occupancy_peak list"
  bl_bytes :: int
  bl_alphaBytes :: int
  bl_slotsHeld :: int
  bl_party :: "party_kind option"
  bl_nextId :: nat

datatype billing_error =
    Not_a_month | Cannot_read_step | Cannot_read_year | Credit_overdrawn | Free_is_never_bought
  | Not_a_years_price | Step_drawn_before | Year_not_recorded | Not_a_reference | Not_a_period
  | Credit_refused | Reference_taken

type_synonym 'a billing_prog = "(billing, billing_error, 'a) prog"

definition in_transaction :: "'a billing_prog \<Rightarrow> 'a billing_prog" where
  "in_transaction m = (\<lambda>s. case m s of (Inl e, t) \<Rightarrow> (Inl e, s) | (Inr a, t) \<Rightarrow> (Inr a, t))"

definition liftP :: "billing_error + 'a \<Rightarrow> 'a billing_prog" where
  "liftP r = (case r of Inl e \<Rightarrow> throw e | Inr a \<Rightarrow> ret a)"

subsection \<open>What the stores read and write\<close>

definition sinceTheLatestWithdrawal :: "billing \<Rightarrow> timestamp \<Rightarrow> bool" where
  "sinceTheLatestWithdrawal s madeAt \<longleftrightarrow> (\<forall>w \<in> set (bl_withdrawals s). wr_withdrawnAt w < madeAt)"

definition grants :: "billing \<Rightarrow> yes_row list" where
  "grants s = sort_key yr_consentedAt (filter (\<lambda>y. sinceTheLatestWithdrawal s (yr_consentedAt y)) (bl_yeses s))"

definition picks :: "billing \<Rightarrow> tier_pick list" where
  "picks s = sort_key pk_pickedAt (map tier_pick.truncate
     (filter (\<lambda>p. sinceTheLatestWithdrawal s (pk_pickedAt p)) (bl_picks s)))"

definition record_yes :: "priced_grant \<Rightarrow> yes_axis \<Rightarrow> bool \<Rightarrow> timestamp \<Rightarrow> unit billing_prog" where
  "record_yes g axis began consentedAt = modifyP (\<lambda>s. s\<lparr>bl_yeses := bl_yeses s @
     [\<lparr>gr_kind = gr_kind g, gr_tierId = gr_tierId g, gr_bandGb = gr_bandGb g, yr_priceEur = gr_priceEur g,
       yr_consentedAt = consentedAt, yr_axis = axis, yr_beganOnRequest = began\<rparr>]\<rparr>)"

definition record_pick :: "tier_id \<Rightarrow> rat \<Rightarrow> timestamp \<Rightarrow> unit billing_prog" where
  "record_pick tierId priceEur pickedAt = modifyP (\<lambda>s. s\<lparr>bl_picks := bl_picks s @
     [\<lparr>pk_tierId = tierId, pk_pickedAt = pickedAt, pr_priceEur = priceEur\<rparr>]\<rparr>)"

text \<open>\<open>PgBytesMovedStore.add\<close>; None is a count that is not finite.\<close>

definition add_bytes :: "rat option \<Rightarrow> bool \<Rightarrow> unit billing_prog" where
  "add_bytes bytes inTheAlpha = (case bytes of
     None \<Rightarrow> ret ()
   | Some b \<Rightarrow> if b \<le> 0 then ret ()
       else modifyP (\<lambda>s. s\<lparr>bl_bytes := bl_bytes s + \<lfloor>b\<rfloor>,
         bl_alphaBytes := bl_alphaBytes s + (if inTheAlpha then \<lfloor>b\<rfloor> else 0)\<rparr>))"

definition bytes_counted :: "billing \<Rightarrow> int" where
  "bytes_counted s = bl_bytes s - bl_alphaBytes s"

definition recordCurrentOccupancy :: "timestamp \<Rightarrow> unit billing_prog" where
  "recordCurrentOccupancy now =
    bindP (readP bl_slotsHeld) (\<lambda>slots.
    if slots = 0 then ret ()
    else modifyP (\<lambda>s.
      let month = month_start (month_at now);
          here = (\<lambda>p. op_month p = month)
      in if List.find here (bl_peaks s) = None
         then s\<lparr>bl_peaks := bl_peaks s @ [\<lparr>op_month = month, op_peakPaths = slots, op_peakAt = now\<rparr>]\<rparr>
         else s\<lparr>bl_peaks := update_where (\<lambda>p. here p \<and> op_peakPaths p < slots)
           (\<lambda>p. p\<lparr>op_peakPaths := slots, op_peakAt := now\<rparr>) (bl_peaks s)\<rparr>))"

definition forMonth :: "timestamp \<Rightarrow> billing \<Rightarrow> occupancy_peak option" where
  "forMonth day s = List.find (\<lambda>p. op_month p = month_start (month_at day)) (bl_peaks s)"

definition readCeiling :: "billing \<Rightarrow> ceiling" where
  "readCeiling s = ceilingOf (allowanceOf (map allowance_grant.truncate (grants s))) (of_int (bytes_counted s) / BYTES_PER_GB)"

record billed_now =
  bn_billed :: billed_tier
  bn_allowance :: allowance
  bn_floor :: picked_floor
  bn_measured :: tenant_tier
  bn_peak :: "occupancy_peak option"

definition readBilledNow :: "timestamp \<Rightarrow> billing \<Rightarrow> billed_now" where
  "readBilledNow now s =
    (let peak = forMonth now s;
         gb = of_int (bytes_counted s) / BYTES_PER_GB;
         measured = observedTier (case peak of None \<Rightarrow> 0 | Some p \<Rightarrow> op_peakPaths p) (bl_slotsHeld s) gb;
         allowance = allowanceOf (map allowance_grant.truncate (grants s));
         floor = pickedFloorOf (picks s) now
     in \<lparr>bn_billed = billedTierOf (td_tier (tt_derived measured)) allowance (tt_peakPaths measured) gb (fl_now floor),
         bn_allowance = allowance, bn_floor = floor, bn_measured = measured, bn_peak = peak\<rparr>)"

subsection \<open>Each tier at its own pace\<close>

definition FREE_PASS_EVERY_MINUTES :: int where
  "FREE_PASS_EVERY_MINUTES = 24 * 60"

definition leastMinutesBetweenPasses :: "managed_tier \<Rightarrow> string option \<Rightarrow> int" where
  "leastMinutesBetweenPasses billed stage =
    (if \<not> holdsAtCeiling stage then 0 else if tier_id billed = Free then FREE_PASS_EVERY_MINUTES else 0)"

subsection \<open>The first month that is invoiced\<close>

datatype billing_from = Off | On_from string | Refused_value string

definition readBillingFrom :: "string option \<Rightarrow> billing_from" where
  "readBillingFrom raw = (let value = (case raw of None \<Rightarrow> [] | Some v \<Rightarrow> trim v) in
     if value = [] then Off
     else if monthNumber value = None then Refused_value value
     else On_from value)"

definition monthIsInvoiced :: "billing_from \<Rightarrow> timestamp \<Rightarrow> bool" where
  "monthIsInvoiced b now = (case b of On_from from_month \<Rightarrow> text_le from_month (monthOf now) | _ \<Rightarrow> False)"

datatype nobody_invoiced = Billing_from_empty | In_the_alpha | Before_billing_from

definition whyNobodyIsInvoiced ::
  "string option \<Rightarrow> string option \<Rightarrow> timestamp \<Rightarrow> string + nobody_invoiced option" where
  "whyNobodyIsInvoiced billingFrom stage now =
    (let b = readBillingFrom billingFrom in
     case b of
       Refused_value v \<Rightarrow> Inl v
     | Off \<Rightarrow> Inr (Some Billing_from_empty)
     | On_from from_month \<Rightarrow>
         if \<not> holdsAtCeiling stage then Inr (Some In_the_alpha)
         else if \<not> monthIsInvoiced b now then Inr (Some Before_billing_from)
         else Inr None)"

subsection \<open>A year paid ahead\<close>

record year_bought =
  yb_reference :: string
  yb_tierId :: tier_id
  yb_cents :: int
  yb_creditFrom :: string
  yb_halfFrom :: string
  yb_halfTo :: string

record credit_drawn =
  cd_month :: string
  cd_tierId :: tier_id
  cd_cents :: int
  cd_rate :: rate

record year_placement =
  yp_creditFrom :: string
  yp_halfFrom :: string
  yp_halfTo :: string

definition MONTHS_IN_A_YEAR :: int where
  "MONTHS_IN_A_YEAR = 12"

definition month_number :: "string \<Rightarrow> billing_error + int" where
  "month_number month = (case monthNumber month of None \<Rightarrow> Inl Not_a_month | Some n \<Rightarrow> Inr n)"

fun latest_half :: "year_bought list \<Rightarrow> int \<Rightarrow> billing_error + int" where
  "latest_half [] most = Inr most"
| "latest_half (y # ys) most = (case monthNumber (yb_halfTo y) of
     None \<Rightarrow> Inl Not_a_month
   | Some n \<Rightarrow> latest_half ys (max most (n + 1)))"

definition placeYear :: "timestamp \<Rightarrow> bool \<Rightarrow> year_bought list \<Rightarrow> billing_error + year_placement" where
  "placeYear now thisMonthBilled years =
    (let thisMonth = monthOf now in
     case (if thisMonthBilled then addMonths thisMonth 1 else Some thisMonth) of
       None \<Rightarrow> Inl Not_a_month
     | Some creditFrom \<Rightarrow>
        (case month_number creditFrom of
          Inl e \<Rightarrow> Inl e
        | Inr start \<Rightarrow>
           (case latest_half years start of
             Inl e \<Rightarrow> Inl e
           | Inr after \<Rightarrow>
              (case addMonths creditFrom (after - start) of
                None \<Rightarrow> Inl Not_a_month
              | Some halfFrom \<Rightarrow>
                 (case addMonths halfFrom (MONTHS_IN_A_YEAR - 1) of
                   None \<Rightarrow> Inl Not_a_month
                 | Some halfTo \<Rightarrow>
                     Inr \<lparr>yp_creditFrom = creditFrom, yp_halfFrom = halfFrom, yp_halfTo = halfTo\<rparr>)))))"

record credit_for_month =
  cm_leftCents :: int
  cm_yearMonth :: bool

fun credit_given :: "int \<Rightarrow> year_bought list \<Rightarrow> billing_error + int" where
  "credit_given moment [] = Inr 0"
| "credit_given moment (y # ys) = (case monthNumber (yb_creditFrom y) of
     None \<Rightarrow> Inl Not_a_month
   | Some n \<Rightarrow> (case credit_given moment ys of
       Inl e \<Rightarrow> Inl e
     | Inr given \<Rightarrow> Inr ((if n \<le> moment then yb_cents y else 0) + given)))"

fun in_a_year :: "int \<Rightarrow> year_bought list \<Rightarrow> billing_error + bool" where
  "in_a_year moment [] = Inr False"
| "in_a_year moment (y # ys) = (case monthNumber (yb_halfFrom y) of
     None \<Rightarrow> Inl Not_a_month
   | Some a \<Rightarrow> if \<not> a \<le> moment then in_a_year moment ys
       else (case monthNumber (yb_halfTo y) of
         None \<Rightarrow> Inl Not_a_month
       | Some b \<Rightarrow> if moment \<le> b then Inr True else in_a_year moment ys))"

definition credit_used :: "credit_drawn list \<Rightarrow> int" where
  "credit_used drawn = foldl (\<lambda>s d. s + cd_cents d) 0 drawn"

definition creditForMonth :: "string \<Rightarrow> year_bought list \<Rightarrow> credit_drawn list \<Rightarrow> billing_error + credit_for_month" where
  "creditForMonth month years drawn =
    (case month_number month of
      Inl e \<Rightarrow> Inl e
    | Inr moment \<Rightarrow>
       (case credit_given moment years of
         Inl e \<Rightarrow> Inl e
       | Inr given \<Rightarrow>
           let left = given - credit_used drawn in
           if left < 0 then Inl Credit_overdrawn
           else (case in_a_year moment years of
             Inl e \<Rightarrow> Inl e
           | Inr yearMonth \<Rightarrow> Inr \<lparr>cm_leftCents = left, cm_yearMonth = yearMonth\<rparr>)))"

definition monthRate :: "rate option \<Rightarrow> credit_for_month \<Rightarrow> rate" where
  "monthRate firstStepRate credit = (case firstStepRate of
     Some r \<Rightarrow> r
   | None \<Rightarrow> if cm_yearMonth credit \<and> 0 < cm_leftCents credit then Half else Full)"

definition atRate :: "int \<Rightarrow> rate \<Rightarrow> int" where
  "atRate cents r = (if r = Half then cents div 2 else cents)"

record step_split =
  ss_drawCents :: int
  ss_invoiceCents :: int

definition splitStep :: "int \<Rightarrow> int \<Rightarrow> step_split" where
  "splitStep stepCents leftCents =
    (let drawCents = max 0 (min stepCents leftCents) in
     \<lparr>ss_drawCents = drawCents, ss_invoiceCents = stepCents - drawCents\<rparr>)"

definition yearPrefix :: "string \<Rightarrow> string" where
  "yearPrefix tenantId = ''ownpace-'' @ tenantId @ ''-y-''"

definition yearReference :: "string \<Rightarrow> nat \<Rightarrow> string" where
  "yearReference tenantId n = yearPrefix tenantId @ decimal n"

definition starts_with :: "string \<Rightarrow> string option \<Rightarrow> bool" where
  "starts_with p r = (case r of None \<Rightarrow> False | Some s \<Rightarrow> prefix p s)"

text \<open>\<open>readYears\<close>, as the rows stand in the order of their making; a row that cannot be read is refused.\<close>

definition year_of_invoice :: "invoice \<Rightarrow> billing_error + year_bought" where
  "year_of_invoice i = (case inv_evidence i of
     Year_of e \<Rightarrow>
       if yv_tier e = Free \<or> yv_cents e \<le> 0 \<or> \<not> isMonth (yv_creditFrom e) \<or> \<not> isMonth (yv_halfFrom e) \<or> \<not> isMonth (yv_halfTo e)
       then Inl Cannot_read_year
       else Inr \<lparr>yb_reference = the (inv_reference i), yb_tierId = yv_tier e, yb_cents = yv_cents e,
         yb_creditFrom = yv_creditFrom e, yb_halfFrom = yv_halfFrom e, yb_halfTo = yv_halfTo e\<rparr>
   | _ \<Rightarrow> Inl Cannot_read_year)"

fun read_all :: "('r \<Rightarrow> billing_error + 'a) \<Rightarrow> 'r list \<Rightarrow> billing_error + 'a list" where
  "read_all f [] = Inr []"
| "read_all f (r # rs) = (case f r of Inl e \<Rightarrow> Inl e
     | Inr a \<Rightarrow> (case read_all f rs of Inl e \<Rightarrow> Inl e | Inr xs \<Rightarrow> Inr (a # xs)))"

definition year_invoices :: "billing \<Rightarrow> invoice list" where
  "year_invoices s = filter (\<lambda>i. inv_kind i = An_invoice \<and> inv_status i \<noteq> Void
     \<and> starts_with (yearPrefix (bl_tenantId s)) (inv_reference i) \<and> sinceTheLatestWithdrawal s (inv_createdAt i))
     (bl_invoices s)"

definition readYears :: "billing \<Rightarrow> billing_error + year_bought list" where
  "readYears s = read_all year_of_invoice (sort_key inv_createdAt (year_invoices s))"

text \<open>\<open>readDraws\<close>: a draw's date column, its first day, gives its month.\<close>

definition readDraws :: "billing \<Rightarrow> credit_drawn list" where
  "readDraws s = map (\<lambda>d. \<lparr>cd_month = month_text (month_of_day (dr_month d)), cd_tierId = dr_tierId d,
       cd_cents = dr_cents d, cd_rate = dr_rate d\<rparr>)
     (sort_key dr_drawnAt (filter (\<lambda>d. sinceTheLatestWithdrawal s (dr_drawnAt d)) (bl_draws s)))"

definition yearsEverBought :: "billing \<Rightarrow> nat" where
  "yearsEverBought s = length (filter (\<lambda>i. inv_kind i = An_invoice
     \<and> starts_with (yearPrefix (bl_tenantId s)) (inv_reference i)) (bl_invoices s))"

definition monthPrefix :: "string \<Rightarrow> string \<Rightarrow> string" where
  "monthPrefix tenantId month = ''ownpace-'' @ tenantId @ ''-m-'' @ month @ ''-''"

definition monthBilled :: "string \<Rightarrow> billing \<Rightarrow> bool" where
  "monthBilled month s \<longleftrightarrow>
    (\<exists>i \<in> set (bl_invoices s). inv_kind i = An_invoice \<and> inv_status i \<noteq> Void
      \<and> starts_with (monthPrefix (bl_tenantId s) month) (inv_reference i))
    \<or> (\<exists>d \<in> set (bl_draws s). Some (dr_month d) = monthFirstDay month)"

definition readYearPlacement :: "timestamp \<Rightarrow> billing \<Rightarrow> billing_error + year_placement" where
  "readYearPlacement now s = (case readYears s of
     Inl e \<Rightarrow> Inl e
   | Inr years \<Rightarrow> placeYear now (monthBilled (monthOf now) s) years)"

text \<open>The one index on references: an insert whose reference is taken gives way, or throws.\<close>

definition reference_taken :: "string \<Rightarrow> billing \<Rightarrow> bool" where
  "reference_taken r s \<longleftrightarrow> (\<exists>i \<in> set (bl_invoices s). inv_reference i = Some r)"

definition insert_invoice :: "invoice \<Rightarrow> billing \<Rightarrow> billing" where
  "insert_invoice i s = s\<lparr>bl_invoices := bl_invoices s @ [i\<lparr>inv_id := bl_nextId s\<rparr>], bl_nextId := bl_nextId s + 1\<rparr>"

record year_recorded =
  rc_reference :: string
  rc_placement :: year_placement

definition recordYear :: "managed_tier \<Rightarrow> int \<Rightarrow> timestamp \<Rightarrow> year_recorded billing_prog" where
  "recordYear tier cents now =
    (if tier_id tier = Free then throw Free_is_never_bought
     else if cents \<le> 0 then throw Not_a_years_price
     else bindP (readP (readYearPlacement now)) (\<lambda>placed. bindP (liftP placed) (\<lambda>p.
       bindP (readP (\<lambda>s. yearReference (bl_tenantId s) (yearsEverBought s + 1))) (\<lambda>reference.
       bindP (readP (reference_taken reference)) (\<lambda>taken.
       if taken then throw Reference_taken
       else case (monthFirstDay (yp_creditFrom p), monthLastDay (yp_halfTo p)) of
         (Some from_day, Some to_day) \<Rightarrow>
           thenP (modifyP (insert_invoice
             \<lparr>inv_id = 0, inv_reference = Some reference, inv_kind = An_invoice, inv_status = Draft,
              inv_periodStart = from_day, inv_periodEnd = to_day, inv_total = cents, inv_creditedId = None,
              inv_evidence = Year_of \<lparr>yv_tier = tier_id tier, yv_cents = cents, yv_creditFrom = yp_creditFrom p,
                yv_halfFrom = yp_halfFrom p, yv_halfTo = yp_halfTo p, yv_at = now\<rparr>,
              inv_lines = [Published cents], inv_createdAt = now\<rparr>))
             (ret \<lparr>rc_reference = reference, rc_placement = p\<rparr>)
       | _ \<Rightarrow> throw Not_a_month)))))"

definition yearlyCentsOf :: "managed_tier \<Rightarrow> int" where
  "yearlyCentsOf = tier_annualCents"

definition yearTiers :: "managed_tier \<Rightarrow> managed_tier list" where
  "yearTiers billed = drop (max 1 (placeOf (tier_id billed))) MANAGED_TIERS"

subsection \<open>A month's steps\<close>

record month_step =
  ms_tierId :: tier_id
  ms_cents :: int
  ms_status :: step_status
  ms_rate :: rate
  ms_at :: "timestamp option"

datatype month_decision =
    Bills_free | In_step | Nothing_to_add
  | Step managed_tier int int "managed_tier option"

definition live_cents :: "month_step list \<Rightarrow> int" where
  "live_cents steps = (\<Sum>m \<leftarrow> filter (\<lambda>m. ms_status m \<noteq> Invoiced Void) steps. ms_cents m)"

text \<open>The highest place among the steps, None for no step (the source's -1).\<close>

definition highest_step :: "month_step list \<Rightarrow> nat option" where
  "highest_step steps = (if steps = [] then None else Some (Max (set (map (\<lambda>m. placeOf (ms_tierId m)) steps))))"

definition decideMonthStep :: "managed_tier \<Rightarrow> int \<Rightarrow> month_step list \<Rightarrow> month_decision" where
  "decideMonthStep billed priceCents steps =
    (let highest = highest_step steps in
     if (case highest of None \<Rightarrow> False | Some h \<Rightarrow> placeOf (tier_id billed) \<le> h) then In_step
     else if tier_id billed = Free then Bills_free
     else let beforeCents = live_cents steps; cents = priceCents - beforeCents in
       if cents \<le> 0 then Nothing_to_add
       else Step billed cents beforeCents (map_option (\<lambda>h. MANAGED_TIERS ! h) highest))"

record agreed_price =
  ap_tierId :: tier_id
  ap_priceEur :: rat
  ap_at :: timestamp

definition latest_agreed :: "agreed_price list \<Rightarrow> agreed_price option" where
  "latest_agreed = foldl (\<lambda>last a. case last of
      Some l \<Rightarrow> if ap_at a \<le> ap_at l then Some l else Some a
    | None \<Rightarrow> Some a) None"

text \<open>The agreed price is in whole euros (\<open>price_eur\<close> is an integer column); its cents are whole.\<close>

definition priceOfTier :: "managed_tier \<Rightarrow> agreed_price list \<Rightarrow> int \<times> price_from" where
  "priceOfTier tier agreed = (case latest_agreed (filter (\<lambda>a. ap_tierId a = tier_id tier) agreed) of
     Some l \<Rightarrow> (\<lfloor>ap_priceEur l * 100\<rfloor>, Agreed_price)
   | None \<Rightarrow> (tier_monthlyCents tier, List_price))"

definition readAgreedPrices :: "timestamp \<Rightarrow> billing \<Rightarrow> agreed_price list" where
  "readAgreedPrices now s =
    map (\<lambda>y. \<lparr>ap_tierId = gr_tierId y, ap_priceEur = yr_priceEur y, ap_at = yr_consentedAt y\<rparr>)
      (filter (\<lambda>y. gr_kind y = Tier_yes \<and> yr_consentedAt y \<le> now) (bl_yeses s))
    @ map (\<lambda>p. \<lparr>ap_tierId = pk_tierId p, ap_priceEur = pr_priceEur p, ap_at = pk_pickedAt p\<rparr>)
      (filter (\<lambda>p. pk_pickedAt p \<le> now) (bl_picks s))"

definition monthReference :: "string \<Rightarrow> timestamp \<Rightarrow> tier_id \<Rightarrow> string" where
  "monthReference tenantId now tierId = monthPrefix tenantId (monthOf now) @ tier_text tierId"

definition billedBy :: "billed_now \<Rightarrow> billed_by" where
  "billedBy b =
    (if bt_picked (bn_billed b) then By_pick
     else if bt_beyond (bn_billed b) \<noteq> []
       \<or> map_option tier_id (td_tier (tt_derived (bn_measured b))) \<noteq> Some (tier_id (bt_tier (bn_billed b)))
     then By_agreed
     else if td_decidedBy (tt_derived (bn_measured b)) = By_data then By_moved else By_peak)"

text \<open>What a step reads off a row's evidence: its cents, its rate and its moment.\<close>

fun evidence_cents :: "evidence \<Rightarrow> int option" where
  "evidence_cents (Month_of e) = Some (me_cents e)"
| "evidence_cents (Year_of e) = Some (yv_cents e)"
| "evidence_cents _ = None"

fun evidence_rate :: "evidence \<Rightarrow> rate" where
  "evidence_rate (Month_of e) = me_rate e"
| "evidence_rate _ = Full"

fun evidence_at :: "evidence \<Rightarrow> timestamp option" where
  "evidence_at (Month_of e) = Some (me_at e)"
| "evidence_at (Year_of e) = Some (yv_at e)"
| "evidence_at _ = None"

definition tier_of_text :: "string \<Rightarrow> tier_id option" where
  "tier_of_text w = map_option tier_id (List.find (\<lambda>t. tier_text (tier_id t) = w) MANAGED_TIERS)"

definition step_of_invoice :: "string \<Rightarrow> invoice \<Rightarrow> billing_error + month_step" where
  "step_of_invoice pre i =
    (case (tier_of_text (drop (length pre) (the (inv_reference i))), evidence_cents (inv_evidence i)) of
      (Some t, Some c) \<Rightarrow> Inr \<lparr>ms_tierId = t, ms_cents = c, ms_status = Invoiced (inv_status i),
        ms_rate = evidence_rate (inv_evidence i), ms_at = evidence_at (inv_evidence i)\<rparr>
    | _ \<Rightarrow> Inl Cannot_read_step)"

definition month_invoices :: "timestamp \<Rightarrow> billing \<Rightarrow> invoice list" where
  "month_invoices now s = filter (\<lambda>i. inv_periodStart i = month_start (month_at now) \<and> inv_kind i = An_invoice
     \<and> starts_with (monthPrefix (bl_tenantId s) (monthOf now)) (inv_reference i)) (bl_invoices s)"

definition month_draws :: "timestamp \<Rightarrow> billing \<Rightarrow> credit_draw list" where
  "month_draws now s = filter (\<lambda>d. dr_month d = month_start (month_at now)) (bl_draws s)"

definition step_of_draw :: "credit_draw \<Rightarrow> month_step" where
  "step_of_draw d = \<lparr>ms_tierId = dr_tierId d, ms_cents = dr_cents d, ms_status = Drawn, ms_rate = dr_rate d,
     ms_at = Some (dr_drawnAt d)\<rparr>"

definition readMonthSteps :: "timestamp \<Rightarrow> billing \<Rightarrow> billing_error + month_step list" where
  "readMonthSteps now s =
    (case read_all (step_of_invoice (monthPrefix (bl_tenantId s) (monthOf now))) (month_invoices now s) of
      Inl e \<Rightarrow> Inl e
    | Inr steps \<Rightarrow> Inr (steps @ map step_of_draw (month_draws now s)))"

text \<open>\<open>(a.at ?? '') <= (b.at ?? '')\<close> on ISO texts, which sort as their moments.\<close>

definition at_le :: "timestamp option \<Rightarrow> timestamp option \<Rightarrow> bool" where
  "at_le a b = (case (a, b) of (None, _) \<Rightarrow> True | (Some _, None) \<Rightarrow> False | (Some x, Some y) \<Rightarrow> x \<le> y)"

definition firstStepRate :: "month_step list \<Rightarrow> rate option" where
  "firstStepRate steps = (case filter (\<lambda>m. ms_status m \<noteq> Invoiced Void) steps of
     [] \<Rightarrow> None
   | m # ms \<Rightarrow> Some (ms_rate (foldl (\<lambda>a b. if at_le (ms_at a) (ms_at b) then a else b) m ms)))"

datatype month_outcome =
    Outcome_free | Outcome_in_step | Outcome_nothing_to_add
  | Made string tier_id int int
  | Drawn_whole tier_id int
  | Made_elsewhere string

definition insert_draw :: "credit_draw \<Rightarrow> unit billing_prog" where
  "insert_draw d = bindP (readP (\<lambda>s. \<exists>e \<in> set (bl_draws s). dr_month e = dr_month d \<and> dr_tierId e = dr_tierId d))
     (\<lambda>taken. if taken then throw Step_drawn_before else modifyP (\<lambda>s. s\<lparr>bl_draws := bl_draws s @ [d]\<rparr>))"

definition month_evidence ::
  "timestamp \<Rightarrow> billed_now \<Rightarrow> rate \<Rightarrow> tier_id \<Rightarrow> int \<times> price_from \<Rightarrow> int \<Rightarrow> step_split \<Rightarrow> month_evidence" where
  "month_evidence now state r tierId price beforeCents split =
    \<lparr>me_month = monthOf now, me_rate = r, me_drawnCents = ss_drawCents split, me_tier = tierId,
     me_by = billedBy state, me_peakPaths = tt_peakPaths (bn_measured state),
     me_peakAt = map_option op_peakAt (bn_peak state), me_gbCounted = tt_gbMoved (bn_measured state),
     me_agreedTier = tier_id (al_tier (bn_allowance state)), me_priceCents = fst price, me_priceFrom = snd price,
     me_beforeCents = beforeCents, me_cents = ss_invoiceCents split, me_at = now\<rparr>"

text \<open>The step's draw and the step's invoice.\<close>

definition make_step ::
  "timestamp \<Rightarrow> billed_now \<Rightarrow> rate \<Rightarrow> int \<times> price_from \<Rightarrow> tier_id \<Rightarrow> int \<Rightarrow> step_split \<Rightarrow> month_outcome billing_prog" where
  "make_step now state r price tierId beforeCents split =
    thenP (whenP (0 < ss_drawCents split) (insert_draw
        \<lparr>dr_month = month_start (month_at now), dr_tierId = tierId, dr_cents = ss_drawCents split, dr_rate = r, dr_drawnAt = now\<rparr>))
    (if 0 < ss_drawCents split \<and> ss_invoiceCents split = 0 then ret (Drawn_whole tierId (ss_drawCents split))
     else bindP (readP (\<lambda>s. monthReference (bl_tenantId s) now tierId)) (\<lambda>reference.
       bindP (readP (reference_taken reference)) (\<lambda>taken.
       if taken then ret (Made_elsewhere reference)
       else thenP (modifyP (insert_invoice
           \<lparr>inv_id = 0, inv_reference = Some reference, inv_kind = An_invoice, inv_status = Draft,
            inv_periodStart = month_start (month_at now), inv_periodEnd = month_start (month_at now + 1) - 1,
            inv_total = ss_invoiceCents split, inv_creditedId = None,
            inv_evidence = Month_of (month_evidence now state r tierId price beforeCents split),
            inv_lines = [Published (ss_invoiceCents split)], inv_createdAt = now\<rparr>))
         (ret (Made reference tierId (ss_invoiceCents split) (ss_drawCents split))))))"

definition openTheMonth :: "timestamp \<Rightarrow> month_outcome billing_prog" where
  "openTheMonth now =
    thenP (recordCurrentOccupancy now)
    (bindP (readP (readBilledNow now)) (\<lambda>state.
     bindP (readP (readMonthSteps now)) (\<lambda>read_steps. bindP (liftP read_steps) (\<lambda>steps.
     bindP (readP (\<lambda>s. priceOfTier (bt_tier (bn_billed state)) (readAgreedPrices now s))) (\<lambda>price.
     bindP (readP readYears) (\<lambda>read_years. bindP (liftP read_years) (\<lambda>years.
     bindP (readP readDraws) (\<lambda>drawn.
     bindP (liftP (creditForMonth (monthOf now) years drawn)) (\<lambda>credit.
     let r = monthRate (firstStepRate steps) credit in
     case decideMonthStep (bt_tier (bn_billed state)) (atRate (fst price) r) steps of
       Bills_free \<Rightarrow> ret Outcome_free
     | In_step \<Rightarrow> ret Outcome_in_step
     | Nothing_to_add \<Rightarrow> ret Outcome_nothing_to_add
     | Step tier cents beforeCents after \<Rightarrow>
         make_step now state r price (tier_id tier) beforeCents (splitStep cents (cm_leftCents credit)))))))))))"

end
