(* ===== verification/Withdrawal.thy ===== *)
theory Withdrawal
  imports Billing
begin

text \<open>
  \<open>managed/src/withdrawal.ts\<close> and the recording half of \<open>credit-note.ts\<close>: the fourteen days, the share
  of an invoice that was not used, and the withdrawal itself, which brings the organisation back to
  Free and credits the contract's invoices in one transaction.
\<close>

subsection \<open>The fourteen days\<close>

definition WITHDRAWAL_DAYS :: int where
  "WITHDRAWAL_DAYS = 14"

definition withdrawalUntil :: "timestamp \<Rightarrow> timestamp" where
  "withdrawalUntil since =
    (let lastDay = day_of since + WITHDRAWAL_DAYS;
         weekday = weekday_of lastDay;
         moved = (if weekday = 6 then 2 else if weekday = 0 then 1 else 0)
     in (lastDay + (moved + 1)) * day_ms)"

record paid_commitment =
  pc_at :: timestamp
  pc_tierId :: tier_id
  pc_beganOnRequest :: bool

datatype closed_reason = Nothing_paid | A_business | Past

datatype withdrawal_window =
    Window_open timestamp timestamp tier_id bool
  | Window_closed closed_reason "(timestamp \<times> timestamp) option"

definition withdrawalWindow ::
  "party_kind option \<Rightarrow> paid_commitment list \<Rightarrow> bool \<Rightarrow> timestamp \<Rightarrow> withdrawal_window" where
  "withdrawalWindow partyKind commitments beganOnRequest now =
    (case commitments of
      [] \<Rightarrow> Window_closed Nothing_paid None
    | c # cs \<Rightarrow>
        let since = pc_at c; until = withdrawalUntil since in
        if partyKind = Some Business then Window_closed A_business (Some (since, until))
        else if until \<le> now then Window_closed Past (Some (since, until))
        else Window_open since until
          (foldl (\<lambda>top d. if placeOf top < placeOf (pc_tierId d) then pc_tierId d else top) (pc_tierId c) (c # cs))
          beganOnRequest)"

definition yesAsksToBegin :: "party_kind option \<Rightarrow> withdrawal_window \<Rightarrow> bool" where
  "yesAsksToBegin partyKind w \<longleftrightarrow> partyKind \<noteq> Some Business
    \<and> (case w of Window_open _ _ _ _ \<Rightarrow> True | Window_closed reason _ \<Rightarrow> reason = Nothing_paid)"

definition commitments :: "billing \<Rightarrow> paid_commitment list" where
  "commitments s = map (\<lambda>y. \<lparr>pc_at = yr_consentedAt y, pc_tierId = gr_tierId y,
     pc_beganOnRequest = yr_beganOnRequest y\<rparr>) (grants s)"

definition readWithdrawalWindow :: "timestamp \<Rightarrow> billing \<Rightarrow> withdrawal_window" where
  "readWithdrawalWindow now s = (let cs = commitments s in
     withdrawalWindow (bl_party s) cs (case cs of [] \<Rightarrow> False | c # _ \<Rightarrow> pc_beganOnRequest c) now)"

definition readYesAsksToBegin :: "timestamp \<Rightarrow> billing \<Rightarrow> bool" where
  "readYesAsksToBegin now s = yesAsksToBegin (bl_party s) (readWithdrawalWindow now s)"

subsection \<open>The days of an invoice that were not used\<close>

record credit_share =
  sh_daysPaid :: int
  sh_daysUsed :: int
  sh_numerator :: int
  sh_denominator :: int

definition creditShare :: "int \<Rightarrow> int \<Rightarrow> timestamp \<Rightarrow> bool \<Rightarrow> billing_error + credit_share" where
  "creditShare paidFrom periodEnd withdrawnAt beganOnRequest =
    (let daysPaid = periodEnd - paidFrom + 1 in
     if daysPaid < 1 then Inl Not_a_period
     else let used = day_of withdrawnAt - paidFrom + 1;
              daysUsed = (if beganOnRequest then min (max used 0) daysPaid else 0)
       in Inr \<lparr>sh_daysPaid = daysPaid, sh_daysUsed = daysUsed, sh_numerator = daysPaid - daysUsed,
            sh_denominator = daysPaid\<rparr>)"

subsection \<open>A credit note is our row first\<close>

definition last_index_of :: "string \<Rightarrow> string \<Rightarrow> nat option" where
  "last_index_of w s = List.find (\<lambda>i. prefix w (drop i s)) (rev [0..<Suc (length s)])"

definition creditReference :: "string \<Rightarrow> billing_error + string" where
  "creditReference reference =
    (case (last_index_of ''-m-'' reference, last_index_of ''-y-'' reference) of
      (Some m, _) \<Rightarrow> if prefix ''ownpace-'' reference
        then Inr (take m reference @ ''-c-'' @ drop (m + 3) reference) else Inl Not_a_reference
    | (None, Some y) \<Rightarrow> if prefix ''ownpace-'' reference
        then Inr (take y reference @ ''-c-y-'' @ drop (y + 3) reference) else Inl Not_a_reference
    | (None, None) \<Rightarrow> Inl Not_a_reference)"

text \<open>\<open>Math.round\<close>: halves towards the greater.\<close>

definition js_round :: "rat \<Rightarrow> int" where
  "js_round x = \<lfloor>x + 1 / 2\<rfloor>"

datatype record_credit_outcome = Credit_recorded string | Credit_exists string | Credit_not_recorded

definition recordCreditNote ::
  "nat \<Rightarrow> int \<Rightarrow> int \<Rightarrow> evidence \<Rightarrow> timestamp \<Rightarrow> record_credit_outcome billing_prog" where
  "recordCreditNote creditedId numerator denominator evidence now =
    (if denominator \<le> 0 \<or> numerator < 0 \<or> denominator < numerator then ret Credit_not_recorded
     else if numerator = 0 then ret Credit_not_recorded
     else bindP (readP (\<lambda>s. List.find (\<lambda>i. inv_id i = creditedId) (bl_invoices s))) (\<lambda>found.
       case found of
         None \<Rightarrow> ret Credit_not_recorded
       | Some credited \<Rightarrow>
           if inv_kind credited \<noteq> An_invoice then ret Credit_not_recorded
           else if inv_status credited = Void then ret Credit_not_recorded
           else if \<not> truthy (inv_reference credited) then ret Credit_not_recorded
           else bindP (liftP (creditReference (the (inv_reference credited)))) (\<lambda>reference.
             bindP (readP (reference_taken reference)) (\<lambda>taken.
             if taken then ret (Credit_exists reference)
             else let provisional = - js_round (of_int (inv_total credited * numerator) / of_int denominator) in
               thenP (modifyP (insert_invoice
                   \<lparr>inv_id = 0, inv_reference = Some reference, inv_kind = A_credit_note, inv_status = Draft,
                    inv_periodStart = inv_periodStart credited, inv_periodEnd = inv_periodEnd credited,
                    inv_total = provisional, inv_creditedId = Some (inv_id credited), inv_evidence = evidence,
                    inv_lines = [Share numerator denominator], inv_createdAt = now\<rparr>))
                 (ret (Credit_recorded reference))))))"

definition creditedCents :: "nat \<Rightarrow> billing \<Rightarrow> int" where
  "creditedCents invoiceId s = - (\<Sum>i \<leftarrow> filter (\<lambda>i. inv_creditedId i = Some invoiceId \<and> inv_kind i = A_credit_note
     \<and> inv_status i \<noteq> Void) (bl_invoices s). inv_total i)"

subsection \<open>The withdrawal\<close>

record credit_made =
  km_reference :: string
  km_invoice :: string
  km_share :: credit_share

text \<open>The contract's invoices, each credited for the days not used (the loop of \<open>withdraw\<close>).\<close>

definition credit_invoice :: "bool \<Rightarrow> timestamp \<Rightarrow> invoice \<Rightarrow> credit_made option billing_prog" where
  "credit_invoice began now i =
    (let stepAt = (case evidence_at (inv_evidence i) of Some a \<Rightarrow> a | None \<Rightarrow> inv_createdAt i);
         paidFrom = max (day_of stepAt) (inv_periodStart i)
     in bindP (liftP (creditShare paidFrom (inv_periodEnd i) now began)) (\<lambda>share.
       if sh_numerator share = 0 then ret None
       else bindP (recordCreditNote (inv_id i) (sh_numerator share) (sh_denominator share)
           (Withdrawal_of \<lparr>wv_withdrawnAt = now, wv_paidFrom = paidFrom, wv_periodEnd = inv_periodEnd i,
              wv_daysPaid = sh_daysPaid share, wv_daysUsed = sh_daysUsed share, wv_beganOnRequest = began\<rparr>) now)
         (\<lambda>outcome. case outcome of
            Credit_not_recorded \<Rightarrow> throw Credit_refused
          | Credit_recorded r \<Rightarrow> ret (Some \<lparr>km_reference = r, km_invoice = the (inv_reference i), km_share = share\<rparr>)
          | Credit_exists r \<Rightarrow> ret (Some \<lparr>km_reference = r, km_invoice = the (inv_reference i), km_share = share\<rparr>))))"

fun credit_invoices :: "bool \<Rightarrow> timestamp \<Rightarrow> invoice list \<Rightarrow> credit_made list billing_prog" where
  "credit_invoices began now [] = ret []"
| "credit_invoices began now (i # is) =
    bindP (credit_invoice began now i) (\<lambda>made.
    bindP (credit_invoices began now is) (\<lambda>rest.
    ret (case made of None \<Rightarrow> rest | Some m \<Rightarrow> m # rest)))"

datatype withdraw_outcome =
    Withdrawn timestamp timestamp tier_id bool "credit_made list"
  | Not_withdrawn closed_reason "(timestamp \<times> timestamp) option"

definition contract_invoices :: "timestamp \<Rightarrow> billing \<Rightarrow> invoice list" where
  "contract_invoices since s = sort_key inv_createdAt (filter (\<lambda>i. inv_kind i = An_invoice \<and> inv_status i \<noteq> Void
     \<and> inv_reference i \<noteq> None \<and> since \<le> inv_createdAt i) (bl_invoices s))"

definition withdraw :: "timestamp \<Rightarrow> withdraw_outcome billing_prog" where
  "withdraw now =
    bindP (readP (readWithdrawalWindow now)) (\<lambda>window.
    case window of
      Window_closed reason dates \<Rightarrow> ret (Not_withdrawn reason dates)
    | Window_open since until tierId began \<Rightarrow>
        thenP (modifyP (\<lambda>s. s\<lparr>bl_withdrawals := bl_withdrawals s @
            [\<lparr>wr_withdrawnAt = now, wr_contractSince = since, wr_tierId = tierId, wr_beganOnRequest = began\<rparr>]\<rparr>))
        (bindP (readP (contract_invoices since)) (\<lambda>invoices.
         bindP (credit_invoices began now invoices) (\<lambda>credits.
         ret (Withdrawn now since tierId began credits)))))"

end
