(* ===== verification/Tier_Laws.thy ===== *)
theory Tier_Laws
  imports Tiers "HOL-Library.Multiset"
begin

text \<open>
  What the rules of \<open>Tiers\<close> promise together: the tier derived is the first that fits, the tier
  billed is the measured one raised to the pick and held at the yes, a yes brings what was shown, the
  question at \<open>Start\<close> is the refusal the start would get, and a pick counts when it says it does.
\<close>

named_theorems tier_simps
  \<open>the published table, computed\<close>

definition listed :: "tier_id \<Rightarrow> managed_tier" where
  "listed i = MANAGED_TIERS ! placeOf i"

lemma placeOf_eqs [tier_simps]:
  "placeOf Free = 0" "placeOf Small = 1" "placeOf Medium = 2" "placeOf Large = 3" "placeOf XL = 4"
  by (simp_all add: placeOf_def MANAGED_TIERS_def managed_tier_def)

lemma length_tiers [simp]: "length MANAGED_TIERS = 5"
  by (simp add: MANAGED_TIERS_def)

lemma placeOf_less [simp]: "placeOf i < 5"
  by (cases i) (simp_all add: tier_simps)

lemma placeOf_not_past [simp]: "\<not> 5 \<le> placeOf i" "\<not> 5 < placeOf i"
  using placeOf_less [of i] by linarith+

lemma placeOf_inject [simp]: "placeOf i = placeOf j \<longleftrightarrow> i = j"
  by (cases i; cases j) (simp_all add: tier_simps)

lemma place_antisym: "placeOf i \<le> placeOf j \<Longrightarrow> placeOf j \<le> placeOf i \<Longrightarrow> i = j"
  using placeOf_inject by (metis le_antisym)

lemma tier_id_listed [simp]: "tier_id (listed i) = i"
  by (cases i) (simp_all add: listed_def tier_simps MANAGED_TIERS_def managed_tier_def eval_nat_numeral)

lemma tiers_listed: "set MANAGED_TIERS = range listed"
proof -
  have "range listed = listed ` {Free, Small, Medium, Large, XL}"
    by (rule arg_cong [of UNIV]) (auto intro: tier_id.exhaust)
  also have "\<dots> = set MANAGED_TIERS"
    by (simp add: listed_def tier_simps MANAGED_TIERS_def eval_nat_numeral)
  finally show ?thesis by simp
qed

lemma in_tiers: "t \<in> set MANAGED_TIERS \<longleftrightarrow> t = listed (tier_id t)"
  unfolding tiers_listed by auto

lemma listed_option: "(\<And>t. v = Some t \<Longrightarrow> t \<in> set MANAGED_TIERS) \<Longrightarrow> \<exists>w. v = map_option listed w"
  by (cases v) (auto simp: tiers_listed intro: exI [of _ "Some _"])

lemma tiers_nth: "n < 5 \<Longrightarrow> MANAGED_TIERS ! n = listed (tier_id (MANAGED_TIERS ! n))"
  using nth_mem [of n MANAGED_TIERS] by (simp add: in_tiers)

lemma place_of_nth [simp]: "n < 5 \<Longrightarrow> placeOf (tier_id (MANAGED_TIERS ! n)) = n"
  by (auto simp: less_Suc_eq eval_nat_numeral MANAGED_TIERS_def managed_tier_def placeOf_def)

text \<open>Along the table both limits grow.\<close>

lemma table_grows: "i \<le> j \<Longrightarrow> j < 5 \<Longrightarrow> tier_paths (MANAGED_TIERS ! i) \<le> tier_paths (MANAGED_TIERS ! j)
    \<and> tier_dataGb (MANAGED_TIERS ! i) \<le> tier_dataGb (MANAGED_TIERS ! j)"
  by (auto simp: less_Suc_eq le_Suc_eq eval_nat_numeral MANAGED_TIERS_def managed_tier_def GB_PER_TB_def)

subsection \<open>The first tier that fits\<close>

lemma find_index_find: "map_option ((!) xs) (find_index p xs) = List.find p xs"
  by (induction xs) (auto simp: option.map_comp o_def)

lemma find_index_Some:
  "find_index p xs = Some n \<longleftrightarrow> n < length xs \<and> p (xs ! n) \<and> (\<forall>k < n. \<not> p (xs ! k))"
proof (induction xs arbitrary: n)
  case (Cons x xs)
  show ?case by (cases n) (auto simp: Cons.IH less_Suc_eq_0_disj)
qed simp

lemma find_index_None: "find_index p xs = None \<longleftrightarrow> (\<forall>x \<in> set xs. \<not> p x)"
  by (induction xs) auto

lemma find_index_both:
  assumes "\<And>i j. i \<le> j \<Longrightarrow> j < length xs \<Longrightarrow> p (xs ! i) \<Longrightarrow> p (xs ! j)"
    and "\<And>i j. i \<le> j \<Longrightarrow> j < length xs \<Longrightarrow> q (xs ! i) \<Longrightarrow> q (xs ! j)"
  shows "find_index (\<lambda>x. p x \<and> q x) xs = (case (find_index p xs, find_index q xs) of
    (Some m, Some n) \<Rightarrow> Some (max m n) | _ \<Rightarrow> None)"
proof (cases "find_index p xs")
  case None
  then have "find_index (\<lambda>x. p x \<and> q x) xs = None" by (simp add: find_index_None)
  with None show ?thesis by simp
next
  case (Some m)
  note m = this
  show ?thesis
  proof (cases "find_index q xs")
    case None
    then have "find_index (\<lambda>x. p x \<and> q x) xs = None" by (simp add: find_index_None)
    with None m show ?thesis by simp
  next
    case (Some n)
    have "find_index (\<lambda>x. p x \<and> q x) xs = Some (max m n)"
      unfolding find_index_Some using m [unfolded find_index_Some] Some [unfolded find_index_Some]
      assms(1) [of m n] assms(2) [of n m]
      by (auto simp: max_def)
    with m Some show ?thesis by simp
  qed
qed

text \<open>
  The tier derived from what was used is the first of the published table whose paths and data
  both hold it, and none exactly when no tier holds both: taking the higher of the two places the
  code finds apart is the same as looking for both at once.
\<close>
theorem the_tier_derived_is_the_first_that_fits:
  "td_tier (deriveTier paths gb) =
    List.find (\<lambda>t. paths \<le> tier_paths t \<and> gb \<le> tier_dataGb t) MANAGED_TIERS"
proof -
  have "find_index (\<lambda>t. paths \<le> tier_paths t \<and> gb \<le> tier_dataGb t) MANAGED_TIERS =
    (case (find_index (\<lambda>t. paths \<le> tier_paths t) MANAGED_TIERS, find_index (\<lambda>t. gb \<le> tier_dataGb t) MANAGED_TIERS) of
      (Some m, Some n) \<Rightarrow> Some (max m n) | _ \<Rightarrow> None)"
    by (rule find_index_both) (auto dest: table_grows)
  then show ?thesis
    by (simp add: find_index_find [symmetric] deriveTier_def Let_def split: option.splits)
qed

subsection \<open>The tier a month bills\<close>

text \<open>
  What a month bills is what was used, raised to the tier picked and never above the tier agreed:
  in places of the published table, the lesser of the agreed tier and the greater of the measured and
  the picked one.
\<close>
theorem a_month_bills_between_pick_and_yes:
  assumes "al_tier a \<in> set MANAGED_TIERS" and "\<And>m. measured = Some m \<Longrightarrow> m \<in> set MANAGED_TIERS"
    and "\<And>p. picked = Some p \<Longrightarrow> p \<in> set MANAGED_TIERS"
  shows "bt_tier (billedTierOf measured a peakPaths gb picked) =
    MANAGED_TIERS ! min (placeOf (tier_id (al_tier a))) (max (place_or_past measured) (floor_place picked))"
proof -
  obtain i where i: "al_tier a = listed i" using assms(1) by (auto simp: tiers_listed)
  obtain mo where mo: "measured = map_option listed mo" using listed_option [OF assms(2)] by blast
  obtain po where po: "picked = map_option listed po" using listed_option [OF assms(3)] by blast
  show ?thesis
    unfolding i mo po using placeOf_less [of i]
    by (cases mo; cases po)
      (auto simp: billedTierOf_def Let_def place_or_past_def floor_place_def min_def max_def i listed_def [symmetric]
        not_le dest: place_antisym split: if_splits)
qed

theorem a_month_bills_between_pick_and_yes_witness:
  "bt_tier (billedTierOf (Some (listed Free)) (allowanceOf [\<lparr>gr_kind = Tier_yes, gr_tierId = Medium, gr_bandGb = 1500\<rparr>])
      4 100 (Some (listed Small))) = listed Small"
proof -
  let ?a = "allowanceOf [\<lparr>gr_kind = Tier_yes, gr_tierId = Medium, gr_bandGb = 1500\<rparr>]"
  have a: "al_tier ?a = listed Medium" by (simp add: allowanceOf_def Let_def tier_simps listed_def)
  have "bt_tier (billedTierOf (Some (listed Free)) ?a 4 100 (Some (listed Small))) =
    MANAGED_TIERS ! min (placeOf (tier_id (al_tier ?a))) (max (place_or_past (Some (listed Free))) (floor_place (Some (listed Small))))"
    by (rule a_month_bills_between_pick_and_yes) (simp_all add: a tiers_listed)
  then show ?thesis by (simp add: a place_or_past_def floor_place_def tier_simps listed_def)
qed

subsection \<open>What a yes brings\<close>

lemma granted_append: "granted (gs @ hs) acc = granted hs (granted gs acc)"
proof (induction gs arbitrary: acc)
  case (Cons g gs)
  then show ?case by (cases acc) simp
qed simp

lemma granted_place: "fst acc < 5 \<Longrightarrow> fst (granted gs acc) < 5"
proof (induction gs arbitrary: acc)
  case (Cons g gs)
  then show ?case by (cases acc) simp
qed simp

lemma allowance_cases:
  obtains i r n where "granted gs (0, 0, 0) = (i, r, n)" "i < 5" "al_tier (allowanceOf gs) = MANAGED_TIERS ! i"
    "al_ceilingGb (allowanceOf gs) = tier_dataGb (MANAGED_TIERS ! i) + r" "al_topUps (allowanceOf gs) = n"
proof -
  obtain i r n where g: "granted gs (0, 0, 0) = (i, r, n)" by (cases "granted gs (0, 0, 0)")
  moreover have "i < 5" using granted_place [of "(0, 0, 0)" gs] g by simp
  ultimately show thesis using that by (simp add: allowanceOf_def Let_def)
qed

lemma allowance_last:
  "al_tier (allowanceOf (gs @ [g])) = (if gr_kind g = Tier_yes
     then MANAGED_TIERS ! max (placeOf (tier_id (al_tier (allowanceOf gs)))) (placeOf (gr_tierId g))
     else al_tier (allowanceOf gs))" (is ?tier)
  "al_ceilingGb (allowanceOf (gs @ [g])) - tier_dataGb (al_tier (allowanceOf (gs @ [g]))) =
     al_ceilingGb (allowanceOf gs) - tier_dataGb (al_tier (allowanceOf gs))
       + (if gr_kind g = Tier_yes then 0 else gr_bandGb g)" (is ?room)
  "al_topUps (allowanceOf (gs @ [g])) = al_topUps (allowanceOf gs) + (if gr_kind g = Tier_yes then 0 else 1)"
    (is ?ups)
proof -
  obtain i r n where g: "granted gs (0, 0, 0) = (i, r, n)" "i < 5" "al_tier (allowanceOf gs) = MANAGED_TIERS ! i"
    "al_ceilingGb (allowanceOf gs) = tier_dataGb (MANAGED_TIERS ! i) + r" "al_topUps (allowanceOf gs) = n"
    by (rule allowance_cases)
  have "allowanceOf (gs @ [g]) = (if gr_kind g = Tier_yes
    then \<lparr>al_tier = MANAGED_TIERS ! max i (placeOf (gr_tierId g)),
      al_ceilingGb = tier_dataGb (MANAGED_TIERS ! max i (placeOf (gr_tierId g))) + r, al_topUps = n\<rparr>
    else \<lparr>al_tier = MANAGED_TIERS ! i, al_ceilingGb = tier_dataGb (MANAGED_TIERS ! i) + (r + gr_bandGb g),
      al_topUps = n + 1\<rparr>)"
    by (simp add: allowanceOf_def granted_append g(1) Let_def)
  then show ?tier and ?room and ?ups using g(2-5) by (simp_all only: split: if_split) simp_all
qed

lemma al_tier_listed: "al_tier (allowanceOf gs) = listed (tier_id (al_tier (allowanceOf gs)))"
  by (rule allowance_cases [of gs]) (simp add: tiers_nth [symmetric])

lemma above_place: "t \<in> set (drop (Suc n) MANAGED_TIERS) \<Longrightarrow> n < placeOf (tier_id t) \<and> t = listed (tier_id t)"
  by (auto simp: in_set_conv_nth tiers_nth [symmetric])

text \<open>
  C23: A yes is taken only for the tier and the price that were shown, and brings exactly the room that
  was shown with it: a move up raises the agreed tier to the one named, keeps every top-up, and lifts
  the hold, so that the next first copy may run; a top-up adds one band of the agreed tier and changes
  nothing else.
\<close>
theorem a_yes_brings_what_was_shown:
  fixes gs :: "allowance_grant list"
  defines "a \<equiv> allowanceOf gs"
  assumes "decideYes (ceilingOf a gb) y = Inr g"
  defines "b \<equiv> allowanceOf (gs @ [allowance_grant.truncate g])"
  shows "gr_priceEur g = ye_priceEur y \<and> tier_text (gr_tierId g) = ye_tierId y
    \<and> (case ye_choice y of
        Choose_move_up \<Rightarrow> tier_id (al_tier b) = gr_tierId g
          \<and> placeOf (tier_id (al_tier a)) < placeOf (tier_id (al_tier b))
          \<and> al_ceilingGb b = tier_dataGb (al_tier b) + (al_ceilingGb a - tier_dataGb (al_tier a))
          \<and> Some (al_ceilingGb b) = map_option mo_ceilingGb (ce_moveUp (ceilingOf a gb))
          \<and> firstCopyGate (ceilingOf b gb) 0
      | Choose_top_up \<Rightarrow> al_tier b = al_tier a \<and> al_topUps b = al_topUps a + 1
          \<and> Some (al_ceilingGb b) = map_option to_ceilingGb (ce_topUp (ceilingOf a gb)))"
proof (cases "ye_choice y")
  case Choose_top_up
  have kind: "gr_kind g = Top_up" and band: "gr_bandGb g = tier_dataGb (al_tier a)"
    and shown: "gr_priceEur g = ye_priceEur y" "tier_text (gr_tierId g) = ye_tierId y"
      "ce_topUp (ceilingOf a gb) = Some \<lparr>to_tierId = tier_id (al_tier a), to_bandGb = tier_dataGb (al_tier a),
        to_priceEur = ye_priceEur y, to_ceilingGb = al_ceilingGb a + tier_dataGb (al_tier a)\<rparr>"
    using assms(2) Choose_top_up
    by (auto simp: decideYes_def ceilingOf_def Let_def priced_grant_def topUpPriceEur_def split: if_splits)
  have "al_tier b = al_tier a" using kind allowance_last(1) [of gs "allowance_grant.truncate g"]
    by (simp add: a_def b_def allowance_grant.truncate_def)
  moreover have "al_topUps b = al_topUps a + 1" using kind allowance_last(3) [of gs "allowance_grant.truncate g"]
    by (simp add: a_def b_def allowance_grant.truncate_def)
  moreover have "al_ceilingGb b - tier_dataGb (al_tier b) = al_ceilingGb a - tier_dataGb (al_tier a) + tier_dataGb (al_tier a)"
    using kind band allowance_last(2) [of gs "allowance_grant.truncate g"]
    by (simp add: a_def b_def allowance_grant.truncate_def)
  ultimately show ?thesis using shown Choose_top_up by simp
next
  case Choose_move_up
  let ?room = "al_ceilingGb a - tier_dataGb (al_tier a)"
  obtain t where t: "List.find (\<lambda>t. gb < tier_dataGb t + ?room) (drop (Suc (placeOf (tier_id (al_tier a)))) MANAGED_TIERS) = Some t"
    and g: "g = priced_grant Tier_yes (tier_id t) (tier_dataGb t) (monthlyEur t)"
    and shown: "ye_priceEur y = monthlyEur t" "ye_tierId y = tier_text (tier_id t)"
    using assms(2) Choose_move_up
    by (auto simp: decideYes_def ceilingOf_def Let_def split: option.splits if_splits)
  have mem: "t \<in> set (drop (Suc (placeOf (tier_id (al_tier a)))) MANAGED_TIERS)" and room: "gb < tier_dataGb t + ?room"
    using find_SomeD [OF t] by simp_all
  have above: "placeOf (tier_id (al_tier a)) < placeOf (tier_id t)" and listed: "t = listed (tier_id t)"
    using above_place [OF mem] by simp_all
  have tier: "al_tier b = t"
    using allowance_last(1) [of gs "allowance_grant.truncate g"] above listed
    by (simp add: a_def b_def g priced_grant_def allowance_grant.truncate_def listed_def [symmetric] max_def)
  have ceil: "al_ceilingGb b = tier_dataGb t + ?room"
    using allowance_last(2) [of gs "allowance_grant.truncate g"] tier
    by (simp add: a_def b_def g priced_grant_def allowance_grant.truncate_def)
  have "firstCopyGate (ceilingOf b gb) 0"
    using room ceil by (simp add: firstCopyGate_def ceilingOf_def Let_def BYTES_PER_GB_def)
  moreover have "map_option mo_ceilingGb (ce_moveUp (ceilingOf a gb)) = Some (al_ceilingGb b)"
    by (simp add: ceilingOf_def Let_def t ceil)
  ultimately show ?thesis using Choose_move_up tier ceil above shown
    by (simp only: g priced_grant_def yes_choice.case allowance_grant.simps priced_grant.simps)
qed

theorem a_yes_brings_what_was_shown_witness:
  "firstCopyGate (ceilingOf (allowanceOf ([] @
    [allowance_grant.truncate (priced_grant Tier_yes Small 500 5)])) 160) 0"
proof -
  let ?y = "\<lparr>ye_choice = Choose_move_up, ye_tierId = ''small'', ye_priceEur = 5\<rparr>"
  have "decideYes (ceilingOf (allowanceOf []) 160) ?y = Inr (priced_grant Tier_yes Small 500 5)"
    by (simp add: decideYes_def ceilingOf_def allowanceOf_def Let_def MANAGED_TIERS_def managed_tier_def
      placeOf_def monthlyEur_def)
  from a_yes_brings_what_was_shown [OF this] show ?thesis by simp
qed

subsection \<open>The question at Start\<close>

lemma sum_slots: "foldl (\<lambda>s m. s + sm_newSlots m) held ms = held + (\<Sum>m\<leftarrow>ms. sm_newSlots m)"
  by (induction ms arbitrary: held) (simp_all add: algebra_simps)

lemma fitting_all:
  assumes "\<forall>m \<in> set ms. 0 \<le> sm_newSlots m"
  shows "fitting paths running ms = map sm_mappingId ms \<longleftrightarrow>
    (\<Sum>m\<leftarrow>ms. sm_newSlots m) = 0 \<or> running + (\<Sum>m\<leftarrow>ms. sm_newSlots m) \<le> paths"
  using assms
proof (induction ms arbitrary: running)
  case Nil
  then show ?case by simp
next
  case (Cons m ms)
  have few: "length (fitting paths r ms) \<le> length ms" for r
    by (induction paths r ms rule: fitting.induct) auto
  have rest: "0 \<le> (\<Sum>m\<leftarrow>ms. sm_newSlots m)" using Cons.prems by (intro sum_list_nonneg) auto
  show ?case
  proof (cases "0 < sm_newSlots m \<and> paths < running + sm_newSlots m")
    case True
    have "fitting paths running ms \<noteq> sm_mappingId m # map sm_mappingId ms"
      using few [of running] by (metis impossible_Cons length_map)
    with True rest show ?thesis by simp
  next
    case False
    with Cons.IH [of "running + sm_newSlots m"] Cons.prems rest show ?thesis by (auto simp: not_less)
  qed
qed

text \<open>
  The question asked at \<open>Start\<close> is the refusal the start would get: the forecast says a yes is
  needed exactly when some of the migrations asked about do not fit beside the others, so asking for
  all of them is refused exactly then.
\<close>
theorem the_forecast_is_the_refusal:
  assumes "\<forall>m \<in> set starting. 0 \<le> sm_newSlots m"
  shows "(pf_past (pathsForecast a held starting) = None \<longleftrightarrow>
      pf_fits (pathsForecast a held starting) = map sm_mappingId starting)
    \<and> pf_past (pathsForecast a held starting) =
      pathsPastTheTier a held (held + (\<Sum>m\<leftarrow>starting. sm_newSlots m))"
proof
  have "0 \<le> (\<Sum>m\<leftarrow>starting. sm_newSlots m)" using assms by (intro sum_list_nonneg) auto
  then show "pf_past (pathsForecast a held starting) = None \<longleftrightarrow>
      pf_fits (pathsForecast a held starting) = map sm_mappingId starting"
    using fitting_all [OF assms, of "tier_paths (al_tier a)" held]
    by (auto simp: pathsForecast_def Let_def sum_slots pathsPastTheTier_def)
  show "pf_past (pathsForecast a held starting) =
      pathsPastTheTier a held (held + (\<Sum>m\<leftarrow>starting. sm_newSlots m))"
    by (simp add: pathsForecast_def Let_def sum_slots)
qed

theorem the_forecast_is_the_refusal_witness:
  "pf_fits (pathsForecast (allowanceOf []) 4
     [\<lparr>sm_mappingId = ''m1'', sm_newSlots = 5\<rparr>, \<lparr>sm_mappingId = ''m2'', sm_newSlots = 2\<rparr>]) \<noteq> [''m1'', ''m2'']"
proof -
  let ?ms = "[\<lparr>sm_mappingId = ''m1'', sm_newSlots = 5\<rparr>, \<lparr>sm_mappingId = ''m2'', sm_newSlots = 2\<rparr>] :: starting_migration list"
  have "pf_past (pathsForecast (allowanceOf []) 4 ?ms) \<noteq> None"
    by (simp add: pathsForecast_def pathsPastTheTier_def allowanceOf_def Let_def MANAGED_TIERS_def managed_tier_def)
  moreover have "pf_past (pathsForecast (allowanceOf []) 4 ?ms) = None \<longleftrightarrow>
      pf_fits (pathsForecast (allowanceOf []) 4 ?ms) = map sm_mappingId ?ms"
    by (rule the_forecast_is_the_refusal [THEN conjunct1]) simp
  ultimately show ?thesis by simp
qed

subsection \<open>When a pick counts\<close>

lemma same_keys_in_order: "filter (\<lambda>y. k = f y) (sort_key f xs) = filter (\<lambda>y. k = f y) xs"
  using sort_key_stable [of f k xs] by (simp add: eq_commute)

lemma sort_split:
  "sort_key f xs = sort_key f (filter (\<lambda>x. f x \<le> k) xs) @ sort_key f (filter (\<lambda>x. \<not> f x \<le> k) xs)"
  for f :: "'a \<Rightarrow> int"
proof (rule properties_for_sort_key)
  show "mset (sort_key f (filter (\<lambda>x. f x \<le> k) xs) @ sort_key f (filter (\<lambda>x. \<not> f x \<le> k) xs)) = mset xs"
    by (simp add: multiset_partition [symmetric])
  show "filter (\<lambda>y. f x = f y) (sort_key f (filter (\<lambda>x. f x \<le> k) xs) @ sort_key f (filter (\<lambda>x. \<not> f x \<le> k) xs))
      = filter (\<lambda>y. f x = f y) xs" for x
  proof (cases "f x \<le> k")
    case True
    then have "filter (\<lambda>y. f x = f y) (filter (\<lambda>x. \<not> f x \<le> k) xs) = []" by (auto simp: filter_empty_conv)
    moreover have "filter (\<lambda>y. f x = f y) (filter (\<lambda>x. f x \<le> k) xs) = filter (\<lambda>y. f x = f y) xs"
      using True by (auto intro: filter_cong)
    ultimately show ?thesis by (simp only: filter_append same_keys_in_order) simp
  next
    case False
    then have "filter (\<lambda>y. f x = f y) (filter (\<lambda>x. f x \<le> k) xs) = []" by (auto simp: filter_empty_conv)
    moreover have "filter (\<lambda>y. f x = f y) (filter (\<lambda>x. \<not> f x \<le> k) xs) = filter (\<lambda>y. f x = f y) xs"
      using False by (auto intro: filter_cong)
    ultimately show ?thesis by (simp only: filter_append same_keys_in_order) simp
  qed
  show "sorted (map f (sort_key f (filter (\<lambda>x. f x \<le> k) xs) @ sort_key f (filter (\<lambda>x. \<not> f x \<le> k) xs)))"
    by (auto simp: sorted_append)
qed

lemma sort_last:
  fixes f :: "'a \<Rightarrow> int"
  assumes "\<forall>y \<in> set xs. f y \<le> f x"
  shows "sort_key f (xs @ [x]) = sort_key f xs @ [x]"
proof (rule properties_for_sort_key)
  show "filter (\<lambda>y. f z = f y) (sort_key f xs @ [x]) = filter (\<lambda>y. f z = f y) (xs @ [x])" for z
    by (simp add: same_keys_in_order)
qed (use assms in \<open>auto simp: sorted_append\<close>)

lemma picks_made_append:
  "picks_made ms (xs @ ys) acc = picks_made ms ys (picks_made ms xs acc)"
proof (induction xs arbitrary: acc)
  case (Cons x xs)
  then show ?case by (cases acc) (simp add: Let_def)
qed simp

text \<open>The three places of a reading of the picks, and that the next month's is one of the other two.\<close>

lemma picks_made_places:
  assumes "picks_made ms ps (a, b, c) = (st, si, la)" and "a < 5" "b < 5" "c < 5" "c \<le> max a b"
  shows "st < 5 \<and> si < 5 \<and> la < 5 \<and> b \<le> si"
  using assms
proof (induction ps arbitrary: a b c)
  case Nil
  then show ?case by simp
next
  case (Cons p ps)
  show ?case
  proof (cases "pk_pickedAt p < ms")
    case True
    with Cons.prems Cons.IH [of "placeOf (pk_tierId p)" b "placeOf (pk_tierId p)"]
    show ?thesis by (simp add: Let_def)
  next
    case False
    with Cons.prems Cons.IH [of a "max b (placeOf (pk_tierId p))" "placeOf (pk_tierId p)"]
    show ?thesis by (simp add: Let_def)
  qed
qed

lemma picks_made_latest:
  assumes "sorted (map pk_pickedAt ps)" and "picks_made ms ps (0, 0, 0) = (st, si, la)"
  shows "la \<le> max st si"
  using assms
proof (induction ps arbitrary: st si la rule: rev_induct)
  case Nil
  then show ?case by simp
next
  case (snoc p ps)
  obtain st' si' la' where "picks_made ms ps (0, 0, 0) = (st', si', la')" by (cases "picks_made ms ps (0, 0, 0)")
  with snoc.prems(2) show ?case by (auto simp: picks_made_append Let_def split: if_splits)
qed

lemma picks_made_within:
  assumes "\<forall>p \<in> set ps. ms \<le> pk_pickedAt p" and "picks_made ms ps (st, si, la) = (st', si', la')"
  shows "st' = st \<and> si \<le> si'"
  using assms
proof (induction ps arbitrary: si la)
  case (Cons p ps)
  then have "picks_made ms ps (st, max si (placeOf (pk_tierId p)), placeOf (pk_tierId p)) = (st', si', la')"
    by (simp add: Let_def)
  with Cons.IH Cons.prems(1) show ?case by fastforce
qed simp

lemma floor_place_at [simp]: "n < 5 \<Longrightarrow> floor_place (floorAt n) = n"
  by (simp add: floor_place_def floorAt_def)

definition floor_places :: "tier_pick list \<Rightarrow> timestamp \<Rightarrow> nat \<times> nat \<times> nat" where
  "floor_places picks moment = picks_made (monthStartOf moment)
    (sort_key pk_pickedAt (filter (\<lambda>p. pk_pickedAt p \<le> moment) picks)) (0, 0, 0)"

lemma floor_of_places:
  assumes "floor_places picks moment = (st, si, la)"
  shows "floor_place (fl_now (pickedFloorOf picks moment)) = max st si"
    "floor_place (fl_next (pickedFloorOf picks moment)) = la" "la \<le> max st si" "max st si < 5"
proof -
  have b: "st < 5 \<and> si < 5 \<and> la < 5 \<and> 0 \<le> si"
    by (rule picks_made_places [OF assms [unfolded floor_places_def]]) simp_all
  show "la \<le> max st si"
    by (rule picks_made_latest [OF _ assms [unfolded floor_places_def]]) simp
  show "floor_place (fl_now (pickedFloorOf picks moment)) = max st si"
    "floor_place (fl_next (pickedFloorOf picks moment)) = la" "max st si < 5"
    using b assms by (simp_all add: pickedFloorOf_def floor_places_def)
qed

text \<open>
  Within a month the floor the picks make only rises: whatever is picked later in the month, lower
  tiers included, the month bills at least what an earlier moment of it read.
\<close>
theorem the_floor_only_rises_within_a_month:
  assumes "early \<le> late" and "month_at early = month_at late" and "\<forall>p \<in> set later. early < pk_pickedAt p"
  shows "floor_place (fl_now (pickedFloorOf picks early)) \<le> floor_place (fl_now (pickedFloorOf (picks @ later) late))"
proof -
  have start: "monthStartOf late = monthStartOf early" using assms(2) by (simp add: monthStartOf_def)
  have at_start: "monthStartOf early \<le> early"
    using before_month_start [of early early] by (simp add: not_less [symmetric])
  let ?all = "filter (\<lambda>p. pk_pickedAt p \<le> late) (picks @ later)"
  let ?rest = "sort_key pk_pickedAt (filter (\<lambda>p. \<not> pk_pickedAt p \<le> early) ?all)"
  have both: "filter (\<lambda>p. pk_pickedAt p \<le> early) (filter (\<lambda>p. pk_pickedAt p \<le> late) xs) =
      filter (\<lambda>p. pk_pickedAt p \<le> early) xs" for xs
    unfolding filter_filter by (rule filter_cong) (use assms(1) in auto)
  have "filter (\<lambda>p. pk_pickedAt p \<le> early) later = []" using assms(3) by (auto simp: filter_empty_conv)
  then have "filter (\<lambda>p. pk_pickedAt p \<le> early) ?all = filter (\<lambda>p. pk_pickedAt p \<le> early) picks"
    using both [of picks] both [of later] by simp
  then have sorted: "sort_key pk_pickedAt ?all = sort_key pk_pickedAt (filter (\<lambda>p. pk_pickedAt p \<le> early) picks) @ ?rest"
    by (subst sort_split [of _ _ early]) simp
  obtain st si la where e: "floor_places picks early = (st, si, la)" by (cases "floor_places picks early")
  obtain st' si' la' where l: "floor_places (picks @ later) late = (st', si', la')"
    by (cases "floor_places (picks @ later) late")
  have "picks_made (monthStartOf early) ?rest (st, si, la) = (st', si', la')"
    using l e unfolding floor_places_def start sorted picks_made_append by simp
  moreover have "\<forall>p \<in> set ?rest. monthStartOf early \<le> pk_pickedAt p" using at_start by auto
  ultimately have "st' = st \<and> si \<le> si'" by (intro picks_made_within)
  then show ?thesis using floor_of_places(1) [OF e] floor_of_places(1) [OF l] by (auto simp: le_max_iff_disj)
qed

theorem the_floor_only_rises_within_a_month_witness:
  "floor_place (fl_now (pickedFloorOf [\<lparr>pk_tierId = Large, pk_pickedAt = 0\<rparr>] 0))
    \<le> floor_place (fl_now (pickedFloorOf ([\<lparr>pk_tierId = Large, pk_pickedAt = 0\<rparr>] @ [\<lparr>pk_tierId = Small, pk_pickedAt = 5\<rparr>]) 9))"
  by (rule the_floor_only_rises_within_a_month) (simp_all add: month_at_def day_of_def day_ms_def)

lemma find_placed:
  assumes "List.find (\<lambda>t. tier_text (tier_id t) = w)
      (map snd (filter (\<lambda>(place, t). P place) (zip [0..<length MANAGED_TIERS] MANAGED_TIERS))) = Some t"
  shows "P (placeOf (tier_id t))"
proof -
  from find_SomeD [OF assms] obtain place where "(place, t) \<in> set (zip [0..<length MANAGED_TIERS] MANAGED_TIERS)" "P place"
    by auto
  then have "place < 5" "t = MANAGED_TIERS ! place" "P place" by (auto simp: in_set_zip)
  then show ?thesis by simp
qed

lemma decided_pick:
  assumes "decidePick (pickOffers billed f) a tierId price = Inr t"
  defines "place \<equiv> placeOf (pt_tierId t)"
  shows "if pt_from t = From_now
    then placeOf (tier_id billed) < place
      \<or> floor_place (fl_next f) < floor_place (fl_now f) \<and> place = floor_place (fl_now f)
    else place < floor_place (fl_next f)"
proof (cases "List.find (\<lambda>t. tier_text (tier_id t) = tierId) (po_raise (pickOffers billed f))")
  case (Some r)
  with assms(1) have t: "pt_from t = From_now" "pt_tierId t = tier_id r"
    by (auto simp: decidePick_def Let_def split: if_splits)
  from find_placed [OF Some [unfolded pickOffers_def Let_def pick_offers.simps]] show ?thesis
    by (auto simp: t place_def)
next
  case None
  with assms(1) obtain r where
    r: "List.find (\<lambda>t. tier_text (tier_id t) = tierId) (po_lower (pickOffers billed f)) = Some r"
    and t: "pt_from t = From_next_month" "pt_tierId t = tier_id r"
    by (auto simp: decidePick_def Let_def split: if_splits option.splits)
  from find_placed [OF r [unfolded pickOffers_def Let_def pick_offers.simps]] show ?thesis
    by (simp add: t place_def)
qed

text \<open>
  A pick that is taken counts when it says: the next month's floor is the tier picked, and this
  month's is the tier picked when the pick is from now and what it was before when it is from the next
  month. The month is taken to bill at least the floor its picks make, as every pick is a yes.
\<close>
theorem a_pick_counts_when_it_says:
  assumes "decidePick (pickOffers billed (pickedFloorOf picks moment)) a tierId price = Inr t"
    and "\<forall>p \<in> set picks. pk_pickedAt p \<le> moment"
    and "floor_place (fl_now (pickedFloorOf picks moment)) \<le> placeOf (tier_id billed)"
  defines "after \<equiv> pickedFloorOf (picks @ [\<lparr>pk_tierId = pt_tierId t, pk_pickedAt = moment\<rparr>]) moment"
  shows "floor_place (fl_next after) = placeOf (pt_tierId t)
    \<and> floor_place (fl_now after) =
      (if pt_from t = From_now then placeOf (pt_tierId t) else floor_place (fl_now (pickedFloorOf picks moment)))"
proof -
  obtain st si la where e: "floor_places picks moment = (st, si, la)" by (cases "floor_places picks moment")
  have all: "filter (\<lambda>p. pk_pickedAt p \<le> moment) picks = picks" using assms(2) by simp
  have here: "\<not> moment < monthStartOf moment" by (simp add: before_month_start)
  have "floor_places (picks @ [\<lparr>pk_tierId = pt_tierId t, pk_pickedAt = moment\<rparr>]) moment =
      (st, max si (placeOf (pt_tierId t)), placeOf (pt_tierId t))"
    using e assms(2) here by (simp add: floor_places_def all sort_last picks_made_append Let_def)
  note after = floor_of_places [OF this, folded after_def] and before = floor_of_places [OF e]
  show ?thesis
    using decided_pick [OF assms(1)] after before assms(3) by (auto split: if_splits)
qed

theorem a_pick_counts_when_it_says_witness:
  "floor_place (fl_now (pickedFloorOf ([] @ [\<lparr>pk_tierId = Medium, pk_pickedAt = 0\<rparr>]) 0)) = 2"
proof -
  let ?f = "pickedFloorOf [] 0"
  have f: "fl_now ?f = None" "fl_next ?f = None" by (simp_all add: pickedFloorOf_def floorAt_def)
  have "decidePick (pickOffers (listed Small) ?f) (allowanceOf []) ''medium'' 12 =
      Inr \<lparr>pt_tierId = Medium, pt_priceEur = 12, pt_from = From_now,
        pt_yes = Some (priced_grant Tier_yes Medium 1500 12)\<rparr>"
    by (simp add: decidePick_def pickOffers_def f floor_place_def Let_def tier_simps MANAGED_TIERS_def
      managed_tier_def monthlyEur_def allowanceOf_def GB_PER_TB_def eval_nat_numeral)
  from a_pick_counts_when_it_says [OF this] f show ?thesis by (simp add: floor_place_def tier_simps)
qed

end
