(* ===== verification/Billing_Laws.thy ===== *)
theory Billing_Laws
  imports Withdrawal Tier_Laws
begin

text \<open>
  What the month's run and the year's credit keep: the steps of a month add up to what it bills, and
  in any history of the organisation's rows the credit is never overdrawn and the years bought never
  overlap. What a withdrawal leaves.
\<close>

subsection \<open>Texts of references\<close>

lemma tier_of_tier_text [simp]: "tier_of_text (tier_text i) = Some i"
  by (cases i) (simp_all add: tier_of_text_def MANAGED_TIERS_def managed_tier_def)

lemma tier_id_nth_place [simp]: "tier_id (MANAGED_TIERS ! placeOf i) = i"
  using tier_id_listed [of i] by (simp add: listed_def)

lemma starts_with_reference [simp]:
  "starts_with (monthPrefix tenant (monthOf now)) (Some (monthReference tenant now i))"
  by (simp add: starts_with_def monthReference_def)

lemma drop_reference [simp]:
  "drop (length (monthPrefix tenant (monthOf now))) (monthReference tenant now i) = tier_text i"
  by (simp add: monthReference_def)

text \<open>A month's reference is no year's.\<close>

lemma month_is_no_year: "\<not> prefix (yearPrefix tenant) (monthReference tenant now i)"
  by (simp add: yearPrefix_def monthReference_def monthPrefix_def)

subsection \<open>Reading all\<close>

lemma read_all_append:
  "read_all f (xs @ ys) = (case read_all f xs of Inl e \<Rightarrow> Inl e
    | Inr as \<Rightarrow> (case read_all f ys of Inl e \<Rightarrow> Inl e | Inr bs \<Rightarrow> Inr (as @ bs)))"
  by (induction xs) (auto split: sum.split)

lemma read_all_Inr:
  "(\<And>x. x \<in> set xs \<Longrightarrow> f x = Inr (g x)) \<Longrightarrow> read_all f xs = Inr (map g xs)"
  by (induction xs) auto

subsection \<open>The step a month lacks\<close>

lemma decideMonthStep_Step:
  assumes "decideMonthStep billed price steps = Step tier cents before after"
  shows "tier = billed" "cents = price - live_cents steps" "0 < cents" "before = live_cents steps"
    "\<forall>m \<in> set steps. placeOf (ms_tierId m) < placeOf (tier_id billed)"
proof -
  have "\<not> (case highest_step steps of None \<Rightarrow> False | Some h \<Rightarrow> placeOf (tier_id billed) \<le> h)"
    and r: "tier = billed" "cents = price - live_cents steps" "0 < cents" "before = live_cents steps"
    using assms by (auto simp: decideMonthStep_def Let_def split: if_splits)
  then have "\<forall>m \<in> set steps. placeOf (ms_tierId m) < placeOf (tier_id billed)"
    by (auto simp: highest_step_def not_le split: if_splits)
  with r show "tier = billed" "cents = price - live_cents steps" "0 < cents" "before = live_cents steps"
    "\<forall>m \<in> set steps. placeOf (ms_tierId m) < placeOf (tier_id billed)" by blast+
qed

lemma splitStep_sum: "ss_drawCents (splitStep c l) + ss_invoiceCents (splitStep c l) = c"
  by (simp add: splitStep_def Let_def)

lemma splitStep_bounds:
  "0 \<le> ss_drawCents (splitStep c l)" "0 \<le> l \<Longrightarrow> ss_drawCents (splitStep c l) \<le> l"
  by (simp_all add: splitStep_def Let_def)

lemma live_cents_append: "live_cents (xs @ ys) = live_cents xs + live_cents ys"
  by (simp add: live_cents_def)

subsection \<open>The run of the month\<close>

definition with_peak :: "timestamp \<Rightarrow> billing \<Rightarrow> billing" where
  "with_peak now s = snd (recordCurrentOccupancy now s)"

lemma occupancy_run: "recordCurrentOccupancy now s = (Inr (), with_peak now s)"
  by (simp add: with_peak_def recordCurrentOccupancy_def run_simps Let_def)

lemma with_peak_eq: "\<exists>ps. with_peak now s = s\<lparr>bl_peaks := ps\<rparr>"
proof (cases "bl_slotsHeld s = 0")
  case True
  then have "with_peak now s = s" by (simp add: with_peak_def recordCurrentOccupancy_def run_simps)
  then show ?thesis by (intro exI [of _ "bl_peaks s"]) simp
next
  case False
  then show ?thesis unfolding with_peak_def recordCurrentOccupancy_def run_simps Let_def by auto
qed

text \<open>What reads the rows without the peaks reads the same before and after.\<close>

lemma with_peak_reads [simp]:
  "bl_tenantId (with_peak now s) = bl_tenantId s" "bl_invoices (with_peak now s) = bl_invoices s"
  "bl_draws (with_peak now s) = bl_draws s" "bl_yeses (with_peak now s) = bl_yeses s"
  "bl_picks (with_peak now s) = bl_picks s" "bl_withdrawals (with_peak now s) = bl_withdrawals s"
  "bl_party (with_peak now s) = bl_party s" "bl_nextId (with_peak now s) = bl_nextId s"
  using with_peak_eq [of now s] by auto

lemma since_with_peak [simp]: "sinceTheLatestWithdrawal (with_peak now s) = sinceTheLatestWithdrawal s"
  by (rule ext) (simp add: sinceTheLatestWithdrawal_def)

lemma rows_with_peak [simp]:
  "month_invoices at0 (with_peak now s) = month_invoices at0 s" "month_draws at0 (with_peak now s) = month_draws at0 s"
  "year_invoices (with_peak now s) = year_invoices s"
  by (simp_all add: month_invoices_def month_draws_def year_invoices_def)

lemma reads_with_peak [simp]:
  "readMonthSteps at0 (with_peak now s) = readMonthSteps at0 s"
  "readYears (with_peak now s) = readYears s" "readDraws (with_peak now s) = readDraws s"
  "readAgreedPrices at0 (with_peak now s) = readAgreedPrices at0 s"
  by (simp_all add: readMonthSteps_def readYears_def readDraws_def readAgreedPrices_def split: sum.split)

definition month_price :: "timestamp \<Rightarrow> billing \<Rightarrow> int \<times> price_from" where
  "month_price now s = priceOfTier (bt_tier (bn_billed (readBilledNow now s))) (readAgreedPrices now s)"

lemma run_lift: "liftP (Inl e) s = (Inl e, s)" "liftP (Inr a) s = (Inr a, s)"
  by (simp_all add: liftP_def run_simps)

lemma openTheMonth_run [code]:
  "openTheMonth now s = (let u = with_peak now s in
    case readMonthSteps now s of Inl e \<Rightarrow> (Inl e, u)
    | Inr steps \<Rightarrow> (case readYears s of Inl e \<Rightarrow> (Inl e, u)
    | Inr years \<Rightarrow> (case creditForMonth (monthOf now) years (readDraws s) of Inl e \<Rightarrow> (Inl e, u)
    | Inr credit \<Rightarrow>
        let r = monthRate (firstStepRate steps) credit in
        case decideMonthStep (bt_tier (bn_billed (readBilledNow now u))) (atRate (fst (month_price now u)) r) steps of
          Bills_free \<Rightarrow> (Inr Outcome_free, u)
        | In_step \<Rightarrow> (Inr Outcome_in_step, u)
        | Nothing_to_add \<Rightarrow> (Inr Outcome_nothing_to_add, u)
        | Step tier cents before after \<Rightarrow>
            make_step now (readBilledNow now u) r (month_price now u) (tier_id tier) before
              (splitStep cents (cm_leftCents credit)) u)))"
  unfolding openTheMonth_def run_simps occupancy_run Let_def month_price_def
  by (cases "readMonthSteps now s"; cases "readYears s";
      simp add: run_lift split: sum.split month_decision.split)

definition step_draw :: "timestamp \<Rightarrow> rate \<Rightarrow> tier_id \<Rightarrow> step_split \<Rightarrow> credit_draw list" where
  "step_draw now r i split = (if 0 < ss_drawCents split
     then [\<lparr>dr_month = month_start (month_at now), dr_tierId = i, dr_cents = ss_drawCents split, dr_rate = r, dr_drawnAt = now\<rparr>]
     else [])"

definition step_invoice ::
  "timestamp \<Rightarrow> billed_now \<Rightarrow> rate \<Rightarrow> int \<times> price_from \<Rightarrow> tier_id \<Rightarrow> int \<Rightarrow> step_split \<Rightarrow> billing \<Rightarrow> invoice" where
  "step_invoice now state r price i before split s =
    \<lparr>inv_id = bl_nextId s, inv_reference = Some (monthReference (bl_tenantId s) now i), inv_kind = An_invoice,
     inv_status = Draft, inv_periodStart = month_start (month_at now), inv_periodEnd = month_start (month_at now + 1) - 1,
     inv_total = ss_invoiceCents split, inv_creditedId = None,
     inv_evidence = Month_of (month_evidence now state r i price before split),
     inv_lines = [Published (ss_invoiceCents split)], inv_createdAt = now\<rparr>"

lemma make_step_eq [code]:
  "make_step now state r price i before split s =
    (let month = month_start (month_at now); drawn = s\<lparr>bl_draws := bl_draws s @ step_draw now r i split\<rparr> in
     if 0 < ss_drawCents split \<and> list_ex (\<lambda>e. dr_month e = month \<and> dr_tierId e = i) (bl_draws s)
       then (Inl Step_drawn_before, s)
     else if 0 < ss_drawCents split \<and> ss_invoiceCents split = 0 then (Inr (Drawn_whole i (ss_drawCents split)), drawn)
     else let reference = monthReference (bl_tenantId s) now i in
       if reference_taken reference s then (Inr (Made_elsewhere reference), drawn)
       else (Inr (Made reference i (ss_invoiceCents split) (ss_drawCents split)),
         drawn\<lparr>bl_invoices := bl_invoices s @ [step_invoice now state r price i before split s],
           bl_nextId := bl_nextId s + 1\<rparr>))"
  unfolding make_step_def run_simps insert_draw_def step_draw_def
  by (auto simp: run_simps Let_def insert_invoice_def step_invoice_def reference_taken_def list_ex_iff)

text \<open>
  A step whose tier was not drawn before in the month leaves the rows with its draw, and with its
  invoice when the credit did not pay all of it and the reference is free.
\<close>

lemma make_step_run:
  assumes "\<forall>d \<in> set (month_draws now s). dr_tierId d \<noteq> i"
  shows "make_step now state r price i before split s =
    (let drawn = s\<lparr>bl_draws := bl_draws s @ step_draw now r i split\<rparr> in
     if 0 < ss_drawCents split \<and> ss_invoiceCents split = 0 then (Inr (Drawn_whole i (ss_drawCents split)), drawn)
     else if reference_taken (monthReference (bl_tenantId s) now i) s
       then (Inr (Made_elsewhere (monthReference (bl_tenantId s) now i)), drawn)
     else (Inr (Made (monthReference (bl_tenantId s) now i) i (ss_invoiceCents split) (ss_drawCents split)),
       drawn\<lparr>bl_invoices := bl_invoices s @ [step_invoice now state r price i before split s],
         bl_nextId := bl_nextId s + 1\<rparr>))"
proof -
  have "\<not> list_ex (\<lambda>e. dr_month e = month_start (month_at now) \<and> dr_tierId e = i) (bl_draws s)"
    using assms by (auto simp: month_draws_def list_ex_iff)
  then show ?thesis by (simp add: make_step_eq Let_def)
qed

text \<open>The two rows of a step, read back.\<close>

lemma readMonthSteps_after_step:
  assumes "readMonthSteps now s = Inr steps"
    and "bl_tenantId t = bl_tenantId s" "bl_draws t = bl_draws s @ ds" "bl_invoices t = bl_invoices s @ is"
    and "ds \<in> {[], step_draw now r i split}" "is \<in> {[], [step_invoice now state r price i before split s]}"
  shows "\<exists>after. readMonthSteps now t = Inr after \<and> live_cents after = live_cents steps
    + (\<Sum>d\<leftarrow>ds. dr_cents d) + (\<Sum>i\<leftarrow>is. inv_total i)"
proof -
  let ?f = "step_of_invoice (monthPrefix (bl_tenantId s) (monthOf now))"
  obtain old where old: "read_all ?f (month_invoices now s) = Inr old"
    and steps: "steps = old @ map step_of_draw (month_draws now s)"
    using assms(1) by (auto simp: readMonthSteps_def split: sum.splits)
  have draws: "month_draws now t = month_draws now s @ ds"
    using assms(3,5) by (auto simp: month_draws_def step_draw_def)
  have invoices: "month_invoices now t = month_invoices now s @ is"
    using assms(2,4,6) by (auto simp: month_invoices_def step_invoice_def)
  obtain made where made: "read_all ?f is = Inr made" "live_cents made = (\<Sum>i\<leftarrow>is. inv_total i)"
    using assms(6) by (auto simp: step_of_invoice_def step_invoice_def live_cents_def month_evidence_def)
  have "live_cents (map step_of_draw ds) = (\<Sum>d\<leftarrow>ds. dr_cents d)"
    using assms(5) by (auto simp: step_draw_def step_of_draw_def live_cents_def)
  moreover have "readMonthSteps now t = Inr (old @ made @ map step_of_draw (month_draws now s) @ map step_of_draw ds)"
    by (simp add: readMonthSteps_def assms(2) draws invoices read_all_append old made(1))
  ultimately show ?thesis using made(2) by (simp add: steps live_cents_append)
qed

lemma billed_after_step:
  assumes "bl_yeses t = bl_yeses s" "bl_picks t = bl_picks s" "bl_withdrawals t = bl_withdrawals s"
    "bl_peaks t = bl_peaks s" "bl_slotsHeld t = bl_slotsHeld s" "bl_bytes t = bl_bytes s" "bl_alphaBytes t = bl_alphaBytes s"
  shows "readBilledNow now t = readBilledNow now s" "month_price now t = month_price now s"
proof -
  have "sinceTheLatestWithdrawal t = sinceTheLatestWithdrawal s"
    by (rule ext) (simp add: sinceTheLatestWithdrawal_def assms(3))
  then have "grants t = grants s" "picks t = picks s" by (simp_all add: grants_def picks_def assms)
  moreover have "forMonth now t = forMonth now s" "bytes_counted t = bytes_counted s"
    by (simp_all add: forMonth_def bytes_counted_def assms)
  ultimately show b: "readBilledNow now t = readBilledNow now s"
    by (simp add: readBilledNow_def assms(5))
  show "month_price now t = month_price now s"
    by (simp add: month_price_def b readAgreedPrices_def assms(1,2))
qed

definition step_made :: "month_outcome \<Rightarrow> tier_id option" where
  "step_made out = (case out of Made _ i _ _ \<Rightarrow> Some i | Drawn_whole i _ \<Rightarrow> Some i | _ \<Rightarrow> None)"

text \<open>
  What a run of the month leaves: the rows with the peak trued up, and, when a step was due, its draw
  and its invoice besides.
\<close>

lemma month_run_cases:
  assumes "openTheMonth now s = (Inr out, t)"
  obtains (unchanged) "t = with_peak now s" "step_made out = None" "\<forall>reference. out \<noteq> Made_elsewhere reference"
  | (stepped) steps years credit r billed cents before split made k where
      "readMonthSteps now s = Inr steps" "readYears s = Inr years"
      "creditForMonth (monthOf now) years (readDraws s) = Inr credit"
      "firstStepRate steps \<in> {None, Some r}" "billed = bt_tier (bn_billed (readBilledNow now (with_peak now s)))"
      "cents = atRate (fst (month_price now (with_peak now s))) r - live_cents steps"
      "split = splitStep cents (cm_leftCents credit)"
      "t = (with_peak now s)\<lparr>bl_draws := bl_draws s @ step_draw now r (tier_id billed) split,
         bl_invoices := bl_invoices s @ made, bl_nextId := k\<rparr>"
      "made = [] \<and> (step_made out = Some (tier_id billed) \<and> ss_invoiceCents split = 0 \<or> (\<exists>reference. out = Made_elsewhere reference))
        \<or> made = [step_invoice now (readBilledNow now (with_peak now s)) r (month_price now (with_peak now s))
            (tier_id billed) before split (with_peak now s)] \<and> step_made out = Some (tier_id billed)"
proof -
  let ?u = "with_peak now s"
  obtain steps years credit where read: "readMonthSteps now s = Inr steps" "readYears s = Inr years"
    "creditForMonth (monthOf now) years (readDraws s) = Inr credit"
    using assms by (auto simp: openTheMonth_run Let_def split: sum.splits)
  define r where "r = monthRate (firstStepRate steps) credit"
  define billed where "billed = bt_tier (bn_billed (readBilledNow now ?u))"
  have rate: "firstStepRate steps \<in> {None, Some r}"
    by (cases "firstStepRate steps") (simp_all add: r_def monthRate_def)
  show thesis
  proof (cases "decideMonthStep billed (atRate (fst (month_price now ?u)) r) steps")
    case (Step tier cents before after)
    note step = decideMonthStep_Step [OF Step]
    let ?split = "splitStep cents (cm_leftCents credit)"
    have "\<forall>d \<in> set (month_draws now ?u). dr_tierId d \<noteq> tier_id billed"
    proof
      fix d assume "d \<in> set (month_draws now ?u)"
      then have "step_of_draw d \<in> set steps" using read(1) by (auto simp: readMonthSteps_def split: sum.splits)
      with step(5) have "placeOf (ms_tierId (step_of_draw d)) < placeOf (tier_id billed)" by blast
      then show "dr_tierId d \<noteq> tier_id billed" by (auto simp: step_of_draw_def)
    qed
    note run = make_step_run [OF this, of "readBilledNow now ?u" r "month_price now ?u" before ?split]
    have t: "make_step now (readBilledNow now ?u) r (month_price now ?u) (tier_id billed) before ?split ?u = (Inr out, t)"
      using Step step(1) assms by (simp add: openTheMonth_run Let_def read r_def billed_def)
    note found = stepped [OF read rate billed_def step(2) refl]
    consider (kept) "t = ?u\<lparr>bl_draws := bl_draws s @ step_draw now r (tier_id billed) ?split\<rparr>"
        "step_made out = Some (tier_id billed) \<and> ss_invoiceCents ?split = 0 \<or> (\<exists>reference. out = Made_elsewhere reference)"
      | (made) "t = ?u\<lparr>bl_draws := bl_draws s @ step_draw now r (tier_id billed) ?split, bl_invoices := bl_invoices s @
          [step_invoice now (readBilledNow now ?u) r (month_price now ?u) (tier_id billed) before ?split ?u],
          bl_nextId := bl_nextId s + 1\<rparr>" "step_made out = Some (tier_id billed)"
      using t [unfolded run] by (auto simp: Let_def step_made_def split: if_splits)
    then show thesis
    proof cases
      case kept
      from kept(1) have "t = ?u\<lparr>bl_draws := bl_draws s @ step_draw now r (tier_id billed) ?split,
         bl_invoices := bl_invoices s @ [], bl_nextId := bl_nextId s\<rparr>"
        using with_peak_eq [of now s] by auto
      from found [OF this] kept(2) show thesis by blast
    next
      case made
      from found [OF made(1)] made(2) show thesis by blast
    qed
  qed (use assms read in \<open>auto intro!: unchanged simp: openTheMonth_run Let_def step_made_def r_def billed_def\<close>)
qed

text \<open>
  C22: Whenever the month's run makes a step, the month's steps afterwards, what was invoiced and what
  a year's credit paid together, add up to the price of the tier the month bills, at the rate the
  month's first step fixed; when the run makes none, no invoice is written, and no draw either unless
  the step's reference was taken.
\<close>
theorem the_months_steps_add_up:
  assumes "openTheMonth now s = (Inr out, t)"
  shows "(case step_made out of
      Some i \<Rightarrow> i = tier_id (bt_tier (bn_billed (readBilledNow now t)))
        \<and> (\<exists>before after r. readMonthSteps now s = Inr before \<and> readMonthSteps now t = Inr after
          \<and> firstStepRate before \<in> {None, Some r}
          \<and> live_cents after = atRate (fst (month_price now t)) r)
    | None \<Rightarrow> bl_invoices t = bl_invoices s
        \<and> ((\<exists>reference. out = Made_elsewhere reference) \<or> bl_draws t = bl_draws s))"
  using assms
proof (cases rule: month_run_cases)
  case unchanged
  then show ?thesis by simp
next
  case (stepped steps years credit r billed cents before split made k)
  have again: "readMonthSteps now (with_peak now s) = Inr steps" by (simp add: stepped(1))
  have "\<exists>after. readMonthSteps now t = Inr after \<and> live_cents after = live_cents steps
      + (\<Sum>d\<leftarrow>step_draw now r (tier_id billed) split. dr_cents d) + (\<Sum>i\<leftarrow>made. inv_total i)"
    using stepped(9) by (intro readMonthSteps_after_step [OF again, where r = r and i = "tier_id billed" and split = split
      and state = "readBilledNow now (with_peak now s)" and price = "month_price now (with_peak now s)" and before = before])
      (auto simp: stepped(8))
  moreover have "(\<Sum>d\<leftarrow>step_draw now r (tier_id billed) split. dr_cents d) = ss_drawCents split"
    using splitStep_bounds(1) [of cents "cm_leftCents credit"] by (simp add: step_draw_def stepped(7))
  moreover have "step_made out \<noteq> None \<Longrightarrow> (\<Sum>i\<leftarrow>made. inv_total i) = ss_invoiceCents split"
    using stepped(9) by (auto simp: step_invoice_def step_made_def)
  moreover have "readBilledNow now t = readBilledNow now (with_peak now s)" "month_price now t = month_price now (with_peak now s)"
    by (rule billed_after_step; simp add: stepped(8))+
  moreover have "ss_drawCents split + ss_invoiceCents split = cents"
    using splitStep_sum [of cents "cm_leftCents credit"] by (simp add: stepped(7))
  ultimately have sums: "step_made out \<noteq> None \<Longrightarrow> \<exists>after. readMonthSteps now t = Inr after
      \<and> live_cents after = atRate (fst (month_price now t)) r"
    and billed: "billed = bt_tier (bn_billed (readBilledNow now t))"
    using stepped(5,6) by auto
  show ?thesis
  proof (cases "step_made out")
    case None
    with stepped(9) show ?thesis by (auto simp: stepped(8))
  next
    case (Some i)
    with stepped(9) have "i = tier_id billed" by (auto simp: step_made_def)
    with Some sums stepped(1,4) billed show ?thesis by simp blast
  qed
qed

text \<open>An organisation on Small by what it moved, with its yes.\<close>

definition an_organisation :: billing where
  "an_organisation = \<lparr>bl_tenantId = ''t1'', bl_invoices = [], bl_draws = [],
     bl_yeses = [\<lparr>gr_kind = Tier_yes, gr_tierId = Small, gr_bandGb = 500, yr_priceEur = 5, yr_consentedAt = 0,
       yr_axis = Data_axis, yr_beganOnRequest = True\<rparr>],
     bl_picks = [], bl_withdrawals = [], bl_peaks = [], bl_bytes = 200000000000, bl_alphaBytes = 0, bl_slotsHeld = 4,
     bl_party = Some Consumer, bl_nextId = 0\<rparr>"

definition first_month :: "(billing_error + month_outcome) \<times> billing" where
  "first_month = openTheMonth 0 an_organisation"

lemma first_month_made: "fst first_month = Inr (Made ''ownpace-t1-m-1970-01-small'' Small 500 0)"
  by code_simp

theorem the_months_steps_add_up_witness:
  "\<exists>after. readMonthSteps 0 (snd first_month) = Inr after \<and> live_cents after = 500"
proof -
  have "openTheMonth 0 an_organisation = (Inr (Made ''ownpace-t1-m-1970-01-small'' Small 500 0), snd first_month)"
    using first_month_made by (simp add: first_month_def prod_eq_iff)
  from the_months_steps_add_up [OF this] obtain before after r where
    "readMonthSteps 0 an_organisation = Inr before" "readMonthSteps 0 (snd first_month) = Inr after"
    "firstStepRate before \<in> {None, Some r}" "live_cents after = atRate (fst (month_price 0 (snd first_month))) r"
    by (auto simp: step_made_def)
  moreover have "map_option live_cents (case readMonthSteps 0 (snd first_month) of Inr l \<Rightarrow> Some l | Inl _ \<Rightarrow> None) = Some 500"
    by code_simp
  ultimately show ?thesis by simp
qed

end
