(* ===== verification/Year_Credit.thy ===== *)
theory Year_Credit
  imports Billing_Laws
begin

text \<open>
  The histories of an organisation's rows (\<open>billing_step\<close>: orders, yeses, picks, the month's task,
  what was moved, the books issuing, settling or voiding a row, a withdrawal, and the clock), and what
  every one of them keeps: no more is drawn than the years ordered gave, and the years bought never
  overlap.
\<close>

definition year_rows :: "billing \<Rightarrow> invoice list" where
  "year_rows s = filter (\<lambda>i. inv_kind i = An_invoice \<and> starts_with (yearPrefix (bl_tenantId s)) (inv_reference i))
     (bl_invoices s)"

definition with_status :: "nat \<Rightarrow> invoice_status \<Rightarrow> billing \<Rightarrow> billing" where
  "with_status k st s = s\<lparr>bl_invoices := update_where (\<lambda>i. inv_id i = k) (\<lambda>i. i\<lparr>inv_status := st\<rparr>) (bl_invoices s)\<rparr>"

text \<open>
  The statuses an invoice's row may move between, as the database's trigger lets them (managed
  migrations 0014 and 0045): a draft is sent or voided, what was sent is paid, falls overdue or is
  voided, and what is overdue is paid or voided. Paid and void are final.
\<close>

fun status_moves :: "invoice_status \<Rightarrow> invoice_status \<Rightarrow> bool" where
  "status_moves Draft st = (st \<in> {Draft, Sent, Void})"
| "status_moves Sent st = (st \<in> {Sent, Paid, Overdue, Void})"
| "status_moves Overdue st = (st \<in> {Overdue, Paid, Void})"
| "status_moves Paid st = (st = Paid)"
| "status_moves Void st = (st = Void)"

inductive billing_step :: "timestamp \<times> billing \<Rightarrow> timestamp \<times> billing \<Rightarrow> bool" where
  the_clock: "now \<le> later \<Longrightarrow> month_at later \<in> months_of_four_digits \<Longrightarrow> billing_step (now, s) (later, s)"
| the_month: "in_transaction (openTheMonth now) s = (x, t) \<Longrightarrow> billing_step (now, s) (now, t)"
| a_year: "in_transaction (recordYear tier cents now) s = (x, t) \<Longrightarrow> billing_step (now, s) (now, t)"
| a_yes: "record_yes g axis began now s = (x, t) \<Longrightarrow> billing_step (now, s) (now, t)"
| a_pick: "record_pick i price now s = (x, t) \<Longrightarrow> billing_step (now, s) (now, t)"
| bytes_moved: "add_bytes b inTheAlpha s = (x, t) \<Longrightarrow> billing_step (now, s) (now, t)"
| slots_change: "billing_step (now, s) (now, s\<lparr>bl_slotsHeld := n\<rparr>)"
| status_changes: "\<forall>i \<in> set (bl_invoices s). inv_id i = k \<longrightarrow> status_moves (inv_status i) st
    \<Longrightarrow> billing_step (now, s) (now, with_status k st s)"
| a_withdrawal: "in_transaction (withdraw now) s = (x, t) \<Longrightarrow> billing_step (now, s) (now, t)"

inductive_cases billing_stepE: "billing_step (now, s) (later, t)"

inductive billing_history :: "timestamp \<Rightarrow> billing \<Rightarrow> bool" where
  nothing_yet: "bl_invoices s = [] \<Longrightarrow> bl_draws s = [] \<Longrightarrow> bl_withdrawals s = []
    \<Longrightarrow> month_at now \<in> months_of_four_digits \<Longrightarrow> billing_history now s"
| one_more: "billing_history now s \<Longrightarrow> billing_step (now, s) (later, t) \<Longrightarrow> billing_history later t"

subsection \<open>What a year's row says\<close>

definition year_of_row :: "invoice \<Rightarrow> year_evidence" where
  "year_of_row i = (case inv_evidence i of Year_of e \<Rightarrow> e | _ \<Rightarrow> undefined)"

definition from_of :: "invoice \<Rightarrow> int" where
  "from_of i = the (monthNumber (yv_creditFrom (year_of_row i)))"

definition half_of :: "invoice \<Rightarrow> int" where
  "half_of i = the (monthNumber (yv_halfFrom (year_of_row i)))"

definition cents_of :: "invoice \<Rightarrow> int" where
  "cents_of i = yv_cents (year_of_row i)"

definition good_year :: "invoice \<Rightarrow> bool" where
  "good_year i \<longleftrightarrow> (\<exists>e. inv_evidence i = Year_of e \<and> yv_tier e \<noteq> Free \<and> 0 < yv_cents e
    \<and> (\<exists>n h. n \<in> months_of_four_digits \<and> h \<in> months_of_four_digits \<and> h + 11 \<in> months_of_four_digits \<and> n \<le> h
      \<and> yv_creditFrom e = month_text n \<and> yv_halfFrom e = month_text h \<and> yv_halfTo e = month_text (h + 11)))"

definition years_since :: "billing \<Rightarrow> invoice list" where
  "years_since s = filter (\<lambda>i. inv_status i \<noteq> Void \<and> sinceTheLatestWithdrawal s (inv_createdAt i)) (year_rows s)"

definition years_ordered :: "billing \<Rightarrow> invoice list" where
  "years_ordered s = filter (\<lambda>i. sinceTheLatestWithdrawal s (inv_createdAt i)) (year_rows s)"

definition drawn_since :: "billing \<Rightarrow> int" where
  "drawn_since s = (\<Sum>d\<leftarrow>filter (\<lambda>d. sinceTheLatestWithdrawal s (dr_drawnAt d)) (bl_draws s). dr_cents d)"

definition given_by :: "int \<Rightarrow> invoice list \<Rightarrow> int" where
  "given_by n rows = (\<Sum>i\<leftarrow>rows. if from_of i \<le> n then cents_of i else 0)"

definition credit_sound :: "timestamp \<Rightarrow> billing \<Rightarrow> bool" where
  "credit_sound now s \<longleftrightarrow> month_at now \<in> months_of_four_digits
    \<and> (\<forall>i \<in> set (year_rows s). good_year i \<and> inv_createdAt i \<le> now)
    \<and> (\<forall>d \<in> set (bl_draws s). dr_drawnAt d \<le> now)
    \<and> sorted (map inv_createdAt (year_rows s))
    \<and> sorted_wrt (\<lambda>i j. half_of i + 11 < half_of j) (years_since s)
    \<and> drawn_since s \<le> given_by (month_at now) (years_ordered s)"

lemma isMonth_text: "n \<in> months_of_four_digits \<Longrightarrow> isMonth (month_text n)"
  using month_text_roundtrip [of n] by (auto simp: monthNumber_def split: if_splits)

lemma month_text_parses:
  assumes "0 \<le> n" and "monthNumber (month_text n) = Some k"
  shows "n \<in> months_of_four_digits"
proof (rule ccontr)
  assume "n \<notin> months_of_four_digits"
  with assms(1) have "10000 \<le> n div 12" by (simp add: months_of_four_digits_def)
  moreover define y m where "y = pad_start 4 (decimal_int (n div 12))" and "m = pad_start 2 (decimal_int (n mod 12 + 1))"
  ultimately have "10000 \<le> number_of y" "list_all is_digit y" by (simp_all add: decimal_int_def)
  then have "\<not> length y \<le> 4" using number_of_less [of y] power_increasing [of "length y" 4 "10::nat"] by fastforce
  moreover have "2 \<le> length m" by (simp add: m_def pad_start_def)
  moreover have "length (month_text n) = length y + 1 + length m" by (simp add: month_text_def y_def m_def)
  moreover have "length (month_text n) = 7" using assms(2) by (auto simp: monthNumber_def isMonth_def split: if_splits)
  ultimately show False by linarith
qed

lemma good_yearE:
  assumes "good_year i"
  obtains e where "inv_evidence i = Year_of e" "yv_tier e \<noteq> Free" "0 < yv_cents e"
    "yv_creditFrom e = month_text (from_of i)" "from_of i \<in> months_of_four_digits"
    "yv_halfFrom e = month_text (half_of i)" "half_of i \<in> months_of_four_digits"
    "yv_halfTo e = month_text (half_of i + 11)" "half_of i + 11 \<in> months_of_four_digits"
    "cents_of i = yv_cents e" "from_of i \<le> half_of i"
  using assms that unfolding good_year_def from_of_def half_of_def cents_of_def year_of_row_def
  by fastforce

definition year_bought_of :: "invoice \<Rightarrow> year_bought" where
  "year_bought_of i = \<lparr>yb_reference = the (inv_reference i), yb_tierId = yv_tier (year_of_row i), yb_cents = cents_of i,
     yb_creditFrom = yv_creditFrom (year_of_row i), yb_halfFrom = yv_halfFrom (year_of_row i), yb_halfTo = yv_halfTo (year_of_row i)\<rparr>"

lemma read_good_year: "good_year i \<Longrightarrow> year_of_invoice i = Inr (year_bought_of i)"
  by (elim good_yearE) (simp add: year_of_invoice_def year_bought_of_def year_of_row_def isMonth_text cents_of_def)

lemma year_bought_months:
  assumes "good_year i"
  shows "monthNumber (yb_creditFrom (year_bought_of i)) = Some (from_of i)"
    "monthNumber (yb_halfFrom (year_bought_of i)) = Some (half_of i)"
    "monthNumber (yb_halfTo (year_bought_of i)) = Some (half_of i + 11)"
    "yb_cents (year_bought_of i) = cents_of i"
  using assms by (elim good_yearE; simp add: year_bought_of_def year_of_row_def)+

lemma sorted_is_sorted: "sorted (map f xs) \<Longrightarrow> sort_key f xs = xs" for f :: "'a \<Rightarrow> int"
  by (rule properties_for_sort_key) simp_all

lemma sum_sorted: "(\<Sum>x\<leftarrow>sort_key k xs. f x) = (\<Sum>x\<leftarrow>xs. f x)" for f :: "'a \<Rightarrow> int"
  by (metis mset_map mset_sort sum_mset_sum_list)

lemma year_invoices_since:
  assumes "\<forall>i \<in> set (year_rows s). good_year i"
  shows "year_invoices s = years_since s"
  using assms by (auto simp: year_invoices_def years_since_def year_rows_def good_year_def filter_filter intro!: filter_cong)

lemma readYears_sound:
  assumes "credit_sound now s"
  shows "readYears s = Inr (map year_bought_of (years_since s))"
proof -
  have good: "\<forall>i \<in> set (year_rows s). good_year i" and sorted: "sorted (map inv_createdAt (year_rows s))"
    using assms by (auto simp: credit_sound_def)
  have "sorted (map inv_createdAt (years_since s))"
    unfolding years_since_def using sorted by (rule sorted_filter)
  then have "sort_key inv_createdAt (year_invoices s) = years_since s"
    by (simp add: year_invoices_since [OF good] sorted_is_sorted)
  moreover have "read_all year_of_invoice (years_since s) = Inr (map year_bought_of (years_since s))"
    by (rule read_all_Inr) (use good in \<open>auto simp: years_since_def read_good_year\<close>)
  ultimately show ?thesis by (simp add: readYears_def)
qed

lemma used_draws: "credit_used (readDraws s) = drawn_since s"
proof -
  have fold: "foldl (\<lambda>s d. s + cd_cents d) a ds = a + (\<Sum>d\<leftarrow>ds. cd_cents d)" for a ds
    by (induction ds arbitrary: a) simp_all
  show ?thesis unfolding credit_used_def fold readDraws_def drawn_since_def
    by (simp add: o_def sum_sorted)
qed

lemma credit_given_rows:
  "\<forall>i \<in> set rows. good_year i \<Longrightarrow> credit_given n (map year_bought_of rows) = Inr (given_by n rows)"
  by (induction rows) (auto simp: given_by_def year_bought_months)

lemma in_a_year_rows:
  "\<forall>i \<in> set rows. good_year i \<Longrightarrow>
    in_a_year n (map year_bought_of rows) = Inr (\<exists>i \<in> set rows. half_of i \<le> n \<and> n \<le> half_of i + 11)"
  by (induction rows) (auto simp: year_bought_months)

lemma latest_half_rows:
  "\<forall>i \<in> set rows. good_year i \<Longrightarrow>
    \<exists>m. latest_half (map year_bought_of rows) most = Inr m \<and> most \<le> m \<and> (\<forall>i \<in> set rows. half_of i + 11 < m)"
proof (induction rows arbitrary: most)
  case (Cons i rows)
  then obtain m where "latest_half (map year_bought_of rows) (max most (half_of i + 11 + 1)) = Inr m"
    "max most (half_of i + 11 + 1) \<le> m" "\<forall>i \<in> set rows. half_of i + 11 < m" by force
  then show ?case using Cons.prems by (auto simp: year_bought_months)
qed simp

text \<open>
  With sound rows the credit is what the years that were not voided gave less what was drawn; it is
  refused when more was drawn than that.
\<close>

lemma creditForMonth_sound:
  assumes "credit_sound now s"
  shows "creditForMonth (monthOf now) (map year_bought_of (years_since s)) (readDraws s) =
    (if given_by (month_at now) (years_since s) < drawn_since s then Inl Credit_overdrawn
     else Inr \<lparr>cm_leftCents = given_by (month_at now) (years_since s) - drawn_since s,
       cm_yearMonth = (\<exists>i \<in> set (years_since s). half_of i \<le> month_at now \<and> month_at now \<le> half_of i + 11)\<rparr>)"
proof -
  have "month_at now \<in> months_of_four_digits"
    "\<forall>i \<in> set (years_since s). good_year i"
    using assms by (auto simp: credit_sound_def years_since_def)
  then show ?thesis
    by (simp add: creditForMonth_def month_number_def monthNumber_monthOf credit_given_rows used_draws Let_def in_a_year_rows)
qed

subsection \<open>Every step keeps the credit sound\<close>

lemma given_by_mono:
  "\<forall>i \<in> set rows. good_year i \<Longrightarrow> n \<le> k \<Longrightarrow> given_by n rows \<le> given_by k rows"
  by (induction rows) (auto simp: given_by_def elim!: good_yearE)

lemma given_by_filter:
  "\<forall>i \<in> set rows. good_year i \<Longrightarrow> given_by n (filter P rows) \<le> given_by n rows"
  by (induction rows) (auto simp: given_by_def elim!: good_yearE)

lemma given_by_some_left_out:
  "given_by n (filter P rows) \<noteq> given_by n rows \<Longrightarrow> \<exists>i \<in> set rows. \<not> P i"
  using filter_id_conv [of P rows] by force

lemma years_since_ordered: "years_since s = filter (\<lambda>i. inv_status i \<noteq> Void) (years_ordered s)"
  by (simp add: years_since_def years_ordered_def conj_commute)

lemma given_since_ordered:
  assumes "\<forall>i \<in> set (year_rows s). good_year i"
  shows "given_by n (years_since s) \<le> given_by n (years_ordered s)"
  unfolding years_since_ordered by (rule given_by_filter) (use assms in \<open>auto simp: years_ordered_def\<close>)

lemma given_by_append: "given_by n (xs @ ys) = given_by n xs + given_by n ys"
  by (simp add: given_by_def)

lemma given_by_nonneg: "\<forall>i \<in> set rows. good_year i \<Longrightarrow> 0 \<le> given_by n rows"
  by (induction rows) (auto simp: given_by_def elim!: good_yearE)

text \<open>Whether the credit is sound is read off the invoices, the draws and the withdrawals.\<close>

lemma since_same:
  "bl_withdrawals t = bl_withdrawals s \<Longrightarrow> sinceTheLatestWithdrawal t = sinceTheLatestWithdrawal s"
  by (rule ext) (simp add: sinceTheLatestWithdrawal_def)

lemma credit_sound_rows:
  assumes "bl_withdrawals t = bl_withdrawals s" "bl_draws t = bl_draws s" "year_rows t = year_rows s"
  shows "credit_sound now t = credit_sound now s"
  by (simp add: credit_sound_def years_since_def years_ordered_def drawn_since_def since_same [OF assms(1)] assms(2,3))

lemma credit_sound_later:
  assumes "credit_sound now s" and "now \<le> later" and "month_at later \<in> months_of_four_digits"
  shows "credit_sound later s"
proof -
  have "given_by (month_at now) (years_ordered s) \<le> given_by (month_at later) (years_ordered s)"
    using assms(1) month_at_mono [OF assms(2)] by (intro given_by_mono) (auto simp: credit_sound_def years_ordered_def)
  with assms show ?thesis by (fastforce simp: credit_sound_def)
qed

lemma in_transaction_cases:
  assumes "in_transaction m s = (x, t)"
  obtains (thrown) e where "x = Inl e" "t = s" | (returned) a where "x = Inr a" "m s = (Inr a, t)"
  using assms by (auto simp: in_transaction_def split: prod.splits sum.splits)

lemma month_keeps_credit_sound:
  assumes "credit_sound now s" and "in_transaction (openTheMonth now) s = (x, t)"
  shows "credit_sound now t"
  using assms(2)
proof (cases rule: in_transaction_cases)
  case thrown
  with assms(1) show ?thesis by simp
next
  case (returned out)
  from returned(2) show ?thesis
  proof (cases rule: month_run_cases)
    case unchanged
    have "credit_sound now t = credit_sound now s"
      unfolding unchanged(1) by (rule credit_sound_rows) (simp_all add: year_rows_def)
    with assms(1) show ?thesis by simp
  next
    case (stepped steps years credit r billed cents before split made k)
    have rows: "year_rows t = year_rows s"
      using stepped(9) month_is_no_year [of "bl_tenantId s" now "tier_id billed"]
      by (auto simp: stepped(8) year_rows_def step_invoice_def starts_with_def)
    have since: "sinceTheLatestWithdrawal t = sinceTheLatestWithdrawal s" by (rule since_same) (simp add: stepped(8))
    have draws: "bl_draws t = bl_draws s @ step_draw now r (tier_id billed) split" by (simp add: stepped(8))
    have left: "cm_leftCents credit = given_by (month_at now) (years_since s) - drawn_since s"
      and sound: "drawn_since s \<le> given_by (month_at now) (years_since s)"
      using stepped(2,3) readYears_sound [OF assms(1)] creditForMonth_sound [OF assms(1)] by (auto split: if_splits)
    have given: "given_by (month_at now) (years_since s) \<le> given_by (month_at now) (years_ordered s)"
      using assms(1) by (intro given_since_ordered) (simp add: credit_sound_def)
    have "drawn_since t \<le> drawn_since s + ss_drawCents split"
      using splitStep_bounds(1) [of cents "cm_leftCents credit"]
      by (simp add: drawn_since_def since draws stepped(7) step_draw_def)
    also have "\<dots> \<le> given_by (month_at now) (years_since s)"
      using splitStep_bounds(2) [of "cm_leftCents credit" cents] sound by (simp add: left stepped(7))
    also note given
    finally show ?thesis
      using assms(1) by (auto simp: credit_sound_def rows years_since_def years_ordered_def since draws step_draw_def)
  qed
qed

lemma placeYear_placed:
  assumes "placeYear now billed years = Inr p" and "month_at now \<in> months_of_four_digits"
    and "\<And>most. \<exists>m. latest_half years most = Inr m \<and> most \<le> m \<and> (\<forall>h \<in> H. h < m)"
  obtains n h where "month_at now \<le> n" "n \<le> h" "\<forall>k \<in> H. k < h" "n \<in> months_of_four_digits"
    "yp_creditFrom p = month_text n" "yp_halfFrom p = month_text h" "yp_halfTo p = month_text (h + 11)"
    "h \<in> months_of_four_digits"
proof -
  define n where "n = month_at now + (if billed then 1 else 0)"
  have credit: "(if billed then addMonths (monthOf now) 1 else Some (monthOf now)) = Some (month_text n)"
    using assms(2) by (simp add: n_def monthOf_def addMonths_text)
  have "0 \<le> n" using assms(2) by (simp add: n_def months_of_four_digits_def)
  obtain k where "monthNumber (month_text n) = Some k"
    using assms(1) by (auto simp: placeYear_def credit month_number_def Let_def split: option.splits)
  then have n: "n \<in> months_of_four_digits" by (rule month_text_parses [OF \<open>0 \<le> n\<close>])
  obtain h where h: "latest_half years n = Inr h" "n \<le> h" "\<forall>k \<in> H. k < h" using assms(3) by blast
  have "addMonths (month_text n) (h - n) = Some (month_text h)" using n by (simp add: addMonths_text)
  moreover from this assms(1) have "addMonths (month_text h) 11 \<noteq> None"
    by (auto simp: placeYear_def credit month_number_def Let_def n h(1) MONTHS_IN_A_YEAR_def split: option.splits)
  then obtain j where "monthNumber (month_text h) = Some j" by (auto simp: addMonths_def)
  then have "h \<in> months_of_four_digits" using \<open>0 \<le> n\<close> h(2) by (intro month_text_parses) auto
  ultimately show thesis
    using assms(1) n h by (intro that [of n h])
      (auto simp: placeYear_def credit month_number_def Let_def MONTHS_IN_A_YEAR_def addMonths_text n_def)
qed

definition year_invoice :: "managed_tier \<Rightarrow> int \<Rightarrow> timestamp \<Rightarrow> year_placement \<Rightarrow> string \<Rightarrow> int \<Rightarrow> int \<Rightarrow> nat \<Rightarrow> invoice" where
  "year_invoice tier cents now p reference from_day to_day k =
    \<lparr>inv_id = k, inv_reference = Some reference, inv_kind = An_invoice, inv_status = Draft,
     inv_periodStart = from_day, inv_periodEnd = to_day, inv_total = cents, inv_creditedId = None,
     inv_evidence = Year_of \<lparr>yv_tier = tier_id tier, yv_cents = cents, yv_creditFrom = yp_creditFrom p,
       yv_halfFrom = yp_halfFrom p, yv_halfTo = yp_halfTo p, yv_at = now\<rparr>,
     inv_lines = [Published cents], inv_createdAt = now\<rparr>"

lemma recordYear_run:
  assumes "recordYear tier cents now s = (Inr a, t)"
  obtains p reference from_day to_day where "readYearPlacement now s = Inr p" "tier_id tier \<noteq> Free" "0 < cents"
    "monthFirstDay (yp_creditFrom p) = Some from_day" "monthLastDay (yp_halfTo p) = Some to_day"
    "reference = yearReference (bl_tenantId s) (yearsEverBought s + 1)"
    "t = s\<lparr>bl_invoices := bl_invoices s @ [year_invoice tier cents now p reference from_day to_day (bl_nextId s)],
       bl_nextId := bl_nextId s + 1\<rparr>"
proof -
  obtain p where p: "readYearPlacement now s = Inr p" "tier_id tier \<noteq> Free" "0 < cents"
    using assms by (cases "readYearPlacement now s") (auto simp: recordYear_def run_simps run_lift split: if_splits)
  then obtain from_day to_day where days: "monthFirstDay (yp_creditFrom p) = Some from_day" "monthLastDay (yp_halfTo p) = Some to_day"
    using assms by (auto simp: recordYear_def run_simps run_lift split: if_splits option.splits)
  show thesis
    using assms p days that [OF p days refl]
    by (simp add: recordYear_def run_simps run_lift insert_invoice_def year_invoice_def split: if_splits)
qed

lemma year_keeps_credit_sound:
  assumes "credit_sound now s" and "in_transaction (recordYear tier cents now) s = (x, t)"
  shows "credit_sound now t"
  using assms(2)
proof (cases rule: in_transaction_cases)
  case thrown
  with assms(1) show ?thesis by simp
next
  case (returned a)
  from returned(2) obtain p reference from_day to_day where run: "readYearPlacement now s = Inr p" "tier_id tier \<noteq> Free" "0 < cents"
    "monthLastDay (yp_halfTo p) = Some to_day" "reference = yearReference (bl_tenantId s) (yearsEverBought s + 1)"
    and t: "t = s\<lparr>bl_invoices := bl_invoices s @ [year_invoice tier cents now p reference from_day to_day (bl_nextId s)],
       bl_nextId := bl_nextId s + 1\<rparr>"
    by (rule recordYear_run)
  let ?i = "year_invoice tier cents now p reference from_day to_day (bl_nextId s)"
  have sound: "month_at now \<in> months_of_four_digits" "\<forall>i \<in> set (year_rows s). good_year i \<and> inv_createdAt i \<le> now"
    "sorted_wrt (\<lambda>i j. half_of i + 11 < half_of j) (years_since s)" "drawn_since s \<le> given_by (month_at now) (years_ordered s)"
    using assms(1) by (auto simp: credit_sound_def)
  have good: "\<forall>i \<in> set (years_since s). good_year i" using sound(2) by (simp add: years_since_def)
  have "placeYear now (monthBilled (monthOf now) s) (map year_bought_of (years_since s)) = Inr p"
    using run(1) by (simp add: readYearPlacement_def readYears_sound [OF assms(1)])
  moreover note sound(1)
  moreover have "\<exists>m. latest_half (map year_bought_of (years_since s)) most = Inr m \<and> most \<le> m
      \<and> (\<forall>k \<in> (\<lambda>i. half_of i + 11) ` set (years_since s). k < m)" for most
    using latest_half_rows [OF good] by simp
  ultimately obtain n h where place: "n \<le> h" "\<forall>i \<in> set (years_since s). half_of i + 11 < h" "n \<in> months_of_four_digits"
    "h \<in> months_of_four_digits" "yp_creditFrom p = month_text n" "yp_halfFrom p = month_text h" "yp_halfTo p = month_text (h + 11)"
    by (rule placeYear_placed) auto
  have "monthNumber (month_text (h + 11)) \<noteq> None"
    using run(4) place(7) by (auto simp: monthLastDay_def addMonths_def split: option.splits)
  then have "h + 11 \<in> months_of_four_digits"
    using place(4) month_text_parses [of "h + 11"] by (auto simp: months_of_four_digits_def)
  then have i: "good_year ?i" "half_of ?i = h"
    using place run(2,3) by (auto simp: good_year_def year_invoice_def half_of_def year_of_row_def)
  have rows: "year_rows t = year_rows s @ [?i]"
    by (simp add: t year_rows_def year_invoice_def run(5) yearReference_def starts_with_def)
  have created: "inv_createdAt ?i = now" by (simp add: year_invoice_def)
  have since: "sinceTheLatestWithdrawal t = sinceTheLatestWithdrawal s" by (rule since_same) (simp add: t)
  have years: "years_since t = years_since s @ (if sinceTheLatestWithdrawal s now then [?i] else [])"
    by (simp add: years_since_def rows since created) (simp add: year_invoice_def)
  have ordered: "years_ordered t = years_ordered s @ (if sinceTheLatestWithdrawal s now then [?i] else [])"
    by (simp add: years_ordered_def rows since created)
  have draws: "bl_draws t = bl_draws s" by (simp add: t)
  have "drawn_since t \<le> given_by (month_at now) (years_ordered t)"
    using sound(4) given_by_nonneg [of "if sinceTheLatestWithdrawal s now then [?i] else []" "month_at now"] i(1)
    by (simp add: drawn_since_def draws since ordered given_by_append)
  moreover have "sorted_wrt (\<lambda>i j. half_of i + 11 < half_of j) (years_since t)"
    using sound(3) place(2) by (simp add: years sorted_wrt_append i(2))
  moreover have "sorted (map inv_createdAt (year_rows t))"
    using assms(1) by (auto simp: rows sorted_append created credit_sound_def)
  ultimately show ?thesis
    using sound(1,2) assms(1) i(1) created by (auto simp: credit_sound_def rows draws)
qed

text \<open>A withdrawal appends credit notes and nothing else.\<close>

definition only_credit_notes :: "billing \<Rightarrow> billing \<Rightarrow> bool" where
  "only_credit_notes s t \<longleftrightarrow> (\<exists>made k. t = s\<lparr>bl_invoices := bl_invoices s @ made, bl_nextId := k\<rparr>
    \<and> (\<forall>i \<in> set made. inv_kind i = A_credit_note))"

interpretation appended: effect only_credit_notes
proof
  show "only_credit_notes s s" for s
    unfolding only_credit_notes_def by (intro exI [of _ "[]"] exI [of _ "bl_nextId s"]) simp
  show "only_credit_notes s u" if "only_credit_notes s t" "only_credit_notes t u" for s t u
    using that unfolding only_credit_notes_def by clarsimp (metis append_assoc set_append UnE)
qed

lemma within_lift: "Prelude.within only_credit_notes (liftP r)"
  by (cases r) (simp_all add: liftP_def appended.within_ret appended.within_throw)

lemma credit_note_appends: "inv_kind i = A_credit_note \<Longrightarrow> Prelude.within only_credit_notes (modifyP (insert_invoice i))"
  by (rule within_modify) (auto simp: only_credit_notes_def insert_invoice_def)

lemma recordCreditNote_appends: "Prelude.within only_credit_notes (recordCreditNote k a b e now)"
  unfolding recordCreditNote_def Let_def
  by (auto intro!: appended.within_structure within_lift credit_note_appends split: option.split)

lemma credit_invoice_appends: "Prelude.within only_credit_notes (credit_invoice began now i)"
  unfolding credit_invoice_def Let_def
  by (auto intro!: appended.within_structure within_lift recordCreditNote_appends split: record_credit_outcome.split)

lemma credit_invoices_append: "Prelude.within only_credit_notes (credit_invoices began now is)"
  by (induction "is") (auto intro!: appended.within_structure credit_invoice_appends)

lemma withdraw_run:
  assumes "withdraw now s = (Inr out, t)"
  obtains (closed) "t = s" "\<exists>reason dates. out = Not_withdrawn reason dates"
  | (withdrawn) w where "only_credit_notes (s\<lparr>bl_withdrawals := bl_withdrawals s @ [w]\<rparr>) t" "wr_withdrawnAt w = now"
proof (cases "readWithdrawalWindow now s")
  case (Window_open since until tierId began)
  let ?w = "\<lparr>wr_withdrawnAt = now, wr_contractSince = since, wr_tierId = tierId, wr_beganOnRequest = began\<rparr>"
  let ?u = "s\<lparr>bl_withdrawals := bl_withdrawals s @ [?w]\<rparr>"
  obtain x u where run: "credit_invoices began now (contract_invoices since ?u) ?u = (x, u)" by fastforce
  then have "only_credit_notes ?u u" by (rule withinD [OF credit_invoices_append])
  moreover have "u = t" using assms run by (auto simp: withdraw_def run_simps Window_open split: sum.splits)
  ultimately show thesis using withdrawn [of ?w] by simp
next
  case (Window_closed reason dates)
  with assms show thesis by (intro closed) (auto simp: withdraw_def run_simps)
qed

lemma withdrawal_keeps_credit_sound:
  assumes "credit_sound now s" and "in_transaction (withdraw now) s = (x, t)"
  shows "credit_sound now t"
  using assms(2)
proof (cases rule: in_transaction_cases)
  case thrown
  with assms(1) show ?thesis by simp
next
  case (returned a)
  from returned(2) show ?thesis
  proof (cases rule: withdraw_run)
    case closed
    with assms(1) show ?thesis by simp
  next
    case (withdrawn w)
    then obtain made k where t: "t = s\<lparr>bl_withdrawals := bl_withdrawals s @ [w], bl_invoices := bl_invoices s @ made, bl_nextId := k\<rparr>"
      and made: "\<forall>i \<in> set made. inv_kind i = A_credit_note"
      by (auto simp: only_credit_notes_def)
    have rows: "year_rows t = year_rows s" and draws: "bl_draws t = bl_draws s"
      using made by (auto simp: t year_rows_def filter_empty_conv)
    have "\<not> sinceTheLatestWithdrawal t a" if "a \<le> now" for a
      using that withdrawn(2) by (auto simp: sinceTheLatestWithdrawal_def t)
    then have "years_since t = []" "years_ordered t = []" "filter (\<lambda>d. sinceTheLatestWithdrawal t (dr_drawnAt d)) (bl_draws t) = []"
      using assms(1) by (auto simp: years_since_def years_ordered_def credit_sound_def rows draws filter_empty_conv)
    then show ?thesis using assms(1) by (simp add: credit_sound_def rows draws drawn_since_def given_by_def)
  qed
qed

lemma with_status_reads [simp]:
  "inv_evidence (i\<lparr>inv_status := st\<rparr>) = inv_evidence i" "from_of (i\<lparr>inv_status := st\<rparr>) = from_of i"
  "half_of (i\<lparr>inv_status := st\<rparr>) = half_of i" "cents_of (i\<lparr>inv_status := st\<rparr>) = cents_of i"
  by (simp_all add: from_of_def half_of_def cents_of_def year_of_row_def)

lemma good_year_status [simp]: "good_year (i\<lparr>inv_status := st\<rparr>) = good_year i"
  by (simp add: good_year_def)

lemma filter_map_weaker:
  "(\<And>i. i \<in> set rows \<Longrightarrow> P (f i) \<Longrightarrow> P i) \<Longrightarrow>
    filter P (map f rows) = map f (filter (\<lambda>i. P (f i)) (filter P rows))"
  by (induction rows) auto

lemma void_is_final: "status_moves st st' \<Longrightarrow> st' \<noteq> Void \<Longrightarrow> st \<noteq> Void"
  by (cases st) auto

lemma status_keeps_credit_sound:
  assumes "credit_sound now s" and moves: "\<forall>i \<in> set (bl_invoices s). inv_id i = k \<longrightarrow> status_moves (inv_status i) st"
  shows "credit_sound now (with_status k st s)"
proof -
  let ?f = "\<lambda>i. if inv_id i = k then i\<lparr>inv_status := st\<rparr> else i"
  have filter_map: "filter P (map ?f is) = map ?f (filter P is)" if "\<And>i. P (?f i) = P i" for P "is"
    using that by (induction "is") auto
  have rows: "year_rows (with_status k st s) = map ?f (year_rows s)"
    unfolding year_rows_def with_status_def update_where_def by (simp add: filter_map)
  have since: "sinceTheLatestWithdrawal (with_status k st s) = sinceTheLatestWithdrawal s"
    by (rule since_same) (simp add: with_status_def)
  have ordered: "years_ordered (with_status k st s) = map ?f (years_ordered s)"
    unfolding years_ordered_def rows since by (rule filter_map) simp
  have same: "half_of (?f i) = half_of i" "from_of (?f i) = from_of i" "cents_of (?f i) = cents_of i"
      "inv_createdAt (?f i) = inv_createdAt i" "good_year (?f i) = good_year i" for i
    by simp_all
  have given: "given_by n (map ?f is) = given_by n is" for n "is"
    unfolding given_by_def by (induction "is") (simp_all add: same)
  have "set (years_ordered s) \<subseteq> set (bl_invoices s)" by (auto simp: years_ordered_def year_rows_def)
  then have years: "years_since (with_status k st s) =
      map ?f (filter (\<lambda>i. inv_status (?f i) \<noteq> Void) (years_since s))"
    unfolding years_since_ordered ordered using moves void_is_final
    by (intro filter_map_weaker) (auto split: if_splits)
  have draws: "bl_draws (with_status k st s) = bl_draws s" by (simp add: with_status_def)
  have "sorted_wrt (\<lambda>i j. half_of i + 11 < half_of j) (years_since (with_status k st s))"
    using assms(1) unfolding years sorted_wrt_map same
    by (intro sorted_wrt_filter) (simp add: credit_sound_def)
  moreover have "sorted (map inv_createdAt (map ?f (year_rows s)))"
    using assms(1) by (simp add: credit_sound_def o_def same cong: map_cong)
  ultimately show ?thesis
    using assms(1) unfolding credit_sound_def rows draws drawn_since_def since ordered given
    by auto
qed

lemma recording_keeps_credit_sound:
  "record_yes g axis began now s = (x, t) \<Longrightarrow> credit_sound now t = credit_sound now s"
  "record_pick i price now s = (y, t) \<Longrightarrow> credit_sound now t = credit_sound now s"
  "add_bytes b inTheAlpha s = (y, t) \<Longrightarrow> credit_sound now t = credit_sound now s"
  "credit_sound now (s\<lparr>bl_slotsHeld := n\<rparr>) = credit_sound now s"
  by (rule credit_sound_rows;
      auto simp: record_yes_def record_pick_def add_bytes_def run_simps year_rows_def split: option.splits if_splits)+

lemma every_step_keeps_credit_sound:
  "billing_step (now, s) (later, t) \<Longrightarrow> credit_sound now s \<Longrightarrow> credit_sound later t"
  by (elim billing_stepE)
    (auto simp: recording_keeps_credit_sound dest: credit_sound_later status_keeps_credit_sound
      month_keeps_credit_sound year_keeps_credit_sound withdrawal_keeps_credit_sound)

subsection \<open>When the month's run returns\<close>

definition readable_row :: "string \<Rightarrow> invoice \<Rightarrow> bool" where
  "readable_row tenant i \<longleftrightarrow> inv_kind i = A_credit_note \<or> starts_with (yearPrefix tenant) (inv_reference i)
    \<or> (\<exists>n \<in> months_of_four_digits. \<exists>j e. inv_evidence i = Month_of e
        \<and> inv_reference i = Some (monthPrefix tenant (month_text n) @ tier_text j))"

definition months_readable :: "billing \<Rightarrow> bool" where
  "months_readable s \<longleftrightarrow> (\<forall>i \<in> set (bl_invoices s). readable_row (bl_tenantId s) i)"

lemma month_row_readable:
  "month_at now \<in> months_of_four_digits \<Longrightarrow> inv_evidence i = Month_of e \<Longrightarrow>
    inv_reference i = Some (monthReference tenant now j) \<Longrightarrow> readable_row tenant i"
  unfolding readable_row_def monthReference_def monthOf_def by blast

lemma readable_row_status [simp]: "readable_row tenant (i\<lparr>inv_status := st\<rparr>) = readable_row tenant i"
  by (simp add: readable_row_def)

lemma months_readable_rows:
  "bl_tenantId t = bl_tenantId s \<Longrightarrow> bl_invoices t = bl_invoices s \<Longrightarrow> months_readable t = months_readable s"
  by (simp add: months_readable_def)

lemma months_readable_appends:
  assumes "months_readable s" and "bl_tenantId t = bl_tenantId s" and "bl_invoices t = bl_invoices s @ made"
    and "\<forall>i \<in> set made. readable_row (bl_tenantId s) i"
  shows "months_readable t"
  using assms by (auto simp: months_readable_def)

lemma year_is_no_month:
  "prefix (yearPrefix tenant) r \<Longrightarrow> prefix (monthPrefix tenant month) r \<Longrightarrow> False"
  by (auto simp: yearPrefix_def monthPrefix_def prefix_def)

lemma month_text_length: "n \<in> months_of_four_digits \<Longrightarrow> length (month_text n) = 7"
  using isMonth_text [of n] by (simp add: isMonth_def)

lemma read_all_some: "\<forall>x \<in> set xs. \<exists>a. f x = Inr a \<Longrightarrow> \<exists>as. read_all f xs = Inr as"
  by (induction xs) auto

lemma readMonthSteps_returns:
  assumes "months_readable s" and "month_at now \<in> months_of_four_digits"
  shows "\<exists>steps. readMonthSteps now s = Inr steps"
proof -
  let ?pre = "monthPrefix (bl_tenantId s) (monthOf now)"
  have "\<exists>m. step_of_invoice ?pre i = Inr m" if i: "i \<in> set (month_invoices now s)" for i
  proof -
    from i have pre: "starts_with ?pre (inv_reference i)" and kind: "i \<in> set (bl_invoices s)" "inv_kind i = An_invoice"
      by (auto simp: month_invoices_def)
    have "\<not> starts_with (yearPrefix (bl_tenantId s)) (inv_reference i)"
      using pre year_is_no_month [of "bl_tenantId s" _ "monthOf now"] by (auto simp: starts_with_def split: option.splits)
    with assms(1) kind obtain n j e where r: "n \<in> months_of_four_digits" "inv_evidence i = Month_of e"
      "inv_reference i = Some (monthPrefix (bl_tenantId s) (month_text n) @ tier_text j)"
      by (auto simp: months_readable_def readable_row_def)
    have "prefix (month_text (month_at now) @ ''-'') (month_text n @ ''-'' @ tier_text j)"
      using pre by (simp add: starts_with_def r(3) monthPrefix_def monthOf_def)
    then have "month_text (month_at now) = month_text n"
      using month_text_length [OF assms(2)] month_text_length [OF r(1)] by (auto simp: prefix_def)
    then have "drop (length ?pre) (monthPrefix (bl_tenantId s) (month_text n) @ tier_text j) = tier_text j"
      by (simp add: monthOf_def)
    then show ?thesis by (simp add: step_of_invoice_def r(2,3))
  qed
  then show ?thesis
    using read_all_some [of "month_invoices now s" "step_of_invoice ?pre"] by (auto simp: readMonthSteps_def)
qed

lemma openTheMonth_returns:
  assumes "readMonthSteps now s = Inr steps" "readYears s = Inr years"
    "creditForMonth (monthOf now) years (readDraws s) = Inr credit"
  shows "\<exists>out t. openTheMonth now s = (Inr out, t)"
proof -
  let ?u = "with_peak now s"
  let ?r = "monthRate (firstStepRate steps) credit"
  let ?price = "month_price now ?u"
  have run: "openTheMonth now s = (case decideMonthStep (bt_tier (bn_billed (readBilledNow now ?u))) (atRate (fst ?price) ?r) steps of
      Bills_free \<Rightarrow> (Inr Outcome_free, ?u) | In_step \<Rightarrow> (Inr Outcome_in_step, ?u) | Nothing_to_add \<Rightarrow> (Inr Outcome_nothing_to_add, ?u)
    | Step tier cents before after \<Rightarrow> make_step now (readBilledNow now ?u) ?r ?price (tier_id tier) before
        (splitStep cents (cm_leftCents credit)) ?u)"
    by (simp add: openTheMonth_run assms Let_def)
  show ?thesis
  proof (cases "decideMonthStep (bt_tier (bn_billed (readBilledNow now ?u))) (atRate (fst ?price) ?r) steps")
    case (Step tier cents before after)
    note step = decideMonthStep_Step [OF Step]
    have "\<forall>d \<in> set (month_draws now ?u). dr_tierId d \<noteq> tier_id tier"
    proof
      fix d assume "d \<in> set (month_draws now ?u)"
      then have "step_of_draw d \<in> set steps" using assms(1) by (auto simp: readMonthSteps_def split: sum.splits)
      with step(1,5) show "dr_tierId d \<noteq> tier_id tier" by (fastforce simp: step_of_draw_def)
    qed
    from make_step_run [OF this] show ?thesis by (simp add: run Step Let_def)
  qed (simp_all add: run)
qed

definition billing_sound :: "timestamp \<Rightarrow> billing \<Rightarrow> bool" where
  "billing_sound now s \<longleftrightarrow> credit_sound now s \<and> months_readable s"

lemma month_keeps_readable:
  assumes "months_readable s" and "month_at now \<in> months_of_four_digits"
    and "in_transaction (openTheMonth now) s = (x, t)"
  shows "months_readable t"
  using assms(3)
proof (cases rule: in_transaction_cases)
  case thrown
  with assms(1) show ?thesis by simp
next
  case (returned out)
  from returned(2) show ?thesis
  proof (cases rule: month_run_cases)
    case unchanged
    with assms(1) months_readable_rows [of "with_peak now s" s] show ?thesis by simp
  next
    case (stepped steps years credit r billed cents before split made k)
    have "\<forall>i \<in> set made. readable_row (bl_tenantId s) i"
      using stepped(9) month_row_readable [OF assms(2), where tenant = "bl_tenantId s"] by (auto simp: step_invoice_def)
    then show ?thesis by (rule months_readable_appends [OF assms(1), rotated 2]) (simp_all add: stepped(8))
  qed
qed

lemma year_keeps_readable:
  assumes "months_readable s" and "in_transaction (recordYear tier cents now) s = (x, t)"
  shows "months_readable t"
  using assms(2)
proof (cases rule: in_transaction_cases)
  case (returned a)
  from returned(2) show ?thesis
  proof (rule recordYear_run)
    fix p reference from_day to_day
    assume "reference = yearReference (bl_tenantId s) (yearsEverBought s + 1)"
      and "t = s\<lparr>bl_invoices := bl_invoices s @ [year_invoice tier cents now p reference from_day to_day (bl_nextId s)],
        bl_nextId := bl_nextId s + 1\<rparr>"
    then show ?thesis
      by (intro months_readable_appends [OF assms(1), of t "[year_invoice tier cents now p reference from_day to_day (bl_nextId s)]"])
        (auto simp: year_invoice_def yearReference_def starts_with_def readable_row_def)
  qed
qed (use assms(1) in simp)

lemma withdrawal_keeps_readable:
  assumes "months_readable s" and "in_transaction (withdraw now) s = (x, t)"
  shows "months_readable t"
  using assms(2)
proof (cases rule: in_transaction_cases)
  case (returned a)
  from returned(2) show ?thesis
  proof (cases rule: withdraw_run)
    case (withdrawn w)
    then show ?thesis
      using months_readable_appends [OF assms(1), of t] by (auto simp: only_credit_notes_def readable_row_def)
  qed (use assms(1) in simp)
qed (use assms(1) in simp)

lemma status_keeps_readable: "months_readable s \<Longrightarrow> months_readable (with_status k st s)"
  by (auto simp: months_readable_def with_status_def in_update_where)

lemma recording_keeps_readable:
  "record_yes g axis began now s = (x, t) \<Longrightarrow> months_readable t = months_readable s"
  "record_pick i price now s = (y, t) \<Longrightarrow> months_readable t = months_readable s"
  "add_bytes b inTheAlpha s = (y, t) \<Longrightarrow> months_readable t = months_readable s"
  "months_readable (s\<lparr>bl_slotsHeld := n\<rparr>) = months_readable s"
  by (rule months_readable_rows;
      auto simp: record_yes_def record_pick_def add_bytes_def run_simps split: option.splits if_splits)+

lemma every_step_keeps_sound:
  assumes "billing_step (now, s) (later, t)" and "billing_sound now s"
  shows "billing_sound later t"
proof -
  have "months_readable s" "month_at now \<in> months_of_four_digits"
    using assms(2) by (simp_all add: billing_sound_def credit_sound_def)
  with assms(1) have "months_readable t"
    by (elim billing_stepE) (auto simp: recording_keeps_readable
      dest: status_keeps_readable year_keeps_readable withdrawal_keeps_readable month_keeps_readable)
  with assms show ?thesis using every_step_keeps_credit_sound by (simp add: billing_sound_def)
qed

lemma every_history_is_sound: "billing_history now s \<Longrightarrow> billing_sound now s"
proof (induction rule: billing_history.induct)
  case (nothing_yet s now)
  then show ?case
    by (simp add: billing_sound_def credit_sound_def year_rows_def years_since_def years_ordered_def drawn_since_def given_by_def months_readable_def)
qed (use every_step_keeps_sound in blast)

lemma openTheMonth_refused:
  assumes "readMonthSteps now s = Inr steps" "readYears s = Inr years"
    "creditForMonth (monthOf now) years (readDraws s) = Inl e"
  shows "fst (openTheMonth now s) = Inl e"
  by (simp add: openTheMonth_run assms Let_def)

lemma drawn_beyond_the_years:
  assumes "credit_sound now s" and "given_by (month_at now) (years_since s) < drawn_since s"
  shows "\<exists>i \<in> set (year_rows s). inv_status i = Void \<and> sinceTheLatestWithdrawal s (inv_createdAt i)"
proof -
  have "drawn_since s \<le> given_by (month_at now) (years_ordered s)" using assms(1) by (simp add: credit_sound_def)
  with assms(2) have "given_by (month_at now) (years_since s) \<noteq> given_by (month_at now) (years_ordered s)" by simp
  from given_by_some_left_out [OF this [unfolded years_since_ordered]] show ?thesis by (auto simp: years_ordered_def)
qed

text \<open>
  C24: In every history of an organisation's rows, of yeses, picks, years ordered, months run, invoices
  issued, paid or voided, withdrawals and the clock, in any order, the years can be read and the month's
  run returns as long as no more was drawn than the years that are not void gave. It fails otherwise, the
  credit being read as overdrawn; and that takes a year voided since the latest withdrawal.
\<close>
theorem the_months_run_fails_only_over_a_voided_year:
  assumes "billing_history now s"
  shows "\<exists>years given. readYears s = Inr years \<and> credit_given (month_at now) years = Inr given \<and>
    (if credit_used (readDraws s) \<le> given then \<exists>out t. openTheMonth now s = (Inr out, t)
     else fst (openTheMonth now s) = Inl Credit_overdrawn \<and>
       (\<exists>i \<in> set (year_rows s). inv_status i = Void \<and> sinceTheLatestWithdrawal s (inv_createdAt i)))"
proof -
  have sound: "credit_sound now s" "months_readable s" "month_at now \<in> months_of_four_digits"
    using every_history_is_sound [OF assms] by (auto simp: billing_sound_def credit_sound_def)
  have "\<forall>i \<in> set (years_since s). good_year i" using sound(1) by (auto simp: credit_sound_def years_since_def)
  note years = readYears_sound [OF sound(1)] credit_given_rows [OF this]
  note credit = creditForMonth_sound [OF sound(1)]
  obtain steps where steps: "readMonthSteps now s = Inr steps" using readMonthSteps_returns [OF sound(2,3)] by blast
  show ?thesis
  proof (cases "drawn_since s \<le> given_by (month_at now) (years_since s)")
    case True
    with openTheMonth_returns [OF steps years(1)] credit years show ?thesis by (simp add: used_draws)
  next
    case False
    with openTheMonth_refused [OF steps years(1)] credit years drawn_beyond_the_years [OF sound(1)]
    show ?thesis by (simp add: used_draws)
  qed
qed

text \<open>
  C25: In every history the years bought since the latest withdrawal do not overlap: in the order they were
  bought, each one's months at half price end before the next one's begin.
\<close>
theorem the_years_never_overlap:
  assumes "billing_history now s"
  shows "\<exists>years. readYears s = Inr years
    \<and> sorted_wrt (\<lambda>a b. \<exists>m n. monthNumber (yb_halfTo a) = Some m \<and> monthNumber (yb_halfFrom b) = Some n \<and> m < n) years"
proof -
  have sound: "credit_sound now s" using every_history_is_sound [OF assms] by (simp add: billing_sound_def)
  then have good: "\<forall>i \<in> set (years_since s). good_year i"
    and sorted: "sorted_wrt (\<lambda>i j. half_of i + 11 < half_of j) (years_since s)"
    by (auto simp: credit_sound_def years_since_def)
  have "sorted_wrt (\<lambda>i j. \<exists>m n. monthNumber (yb_halfTo (year_bought_of i)) = Some m
      \<and> monthNumber (yb_halfFrom (year_bought_of j)) = Some n \<and> m < n) (years_since s)"
    using sorted by (rule sorted_wrt_mono_rel [rotated]) (use good in \<open>auto simp: year_bought_months\<close>)
  with readYears_sound [OF sound] show ?thesis by (simp add: sorted_wrt_map)
qed

text \<open>Two years ordered one after the other on one day, and the month run.\<close>

definition a_year_ordered :: billing where
  "a_year_ordered = snd (in_transaction (recordYear (MANAGED_TIERS ! 1) 3000 0) an_organisation)"

definition two_years_ordered :: billing where
  "two_years_ordered = snd (in_transaction (recordYear (MANAGED_TIERS ! 1) 3000 0) a_year_ordered)"

lemma history_of_a_year: "billing_history 0 a_year_ordered"
proof -
  have "billing_history 0 an_organisation"
    by (rule nothing_yet)
      (simp_all add: an_organisation_def months_of_four_digits_def month_at_def day_of_def day_ms_def, code_simp)
  then show ?thesis
    unfolding a_year_ordered_def by (rule one_more) (rule a_year [where x = "fst _"], rule prod.collapse [symmetric])
qed

lemma history_of_two_years: "billing_history 0 two_years_ordered"
  unfolding two_years_ordered_def
  by (rule one_more [OF history_of_a_year]) (rule a_year [where x = "fst _"], rule prod.collapse [symmetric])

lemma two_years_read:
  "map_option (map yb_halfFrom) (case readYears two_years_ordered of Inr l \<Rightarrow> Some l | Inl _ \<Rightarrow> None) =
    Some [''1970-01'', ''1971-01'']"
  by code_simp

text \<open>The month run takes its price from the year; the year, a draft still, is voided.\<close>

definition a_year_drawn :: billing where
  "a_year_drawn = snd (in_transaction (openTheMonth 0) a_year_ordered)"

lemma history_of_a_year_drawn: "billing_history 0 a_year_drawn"
  unfolding a_year_drawn_def
  by (rule one_more [OF history_of_a_year]) (rule the_month [where x = "fst _"], rule prod.collapse [symmetric])

lemma the_year_is_a_draft: "map (\<lambda>i. (inv_id i, inv_status i)) (bl_invoices a_year_drawn) = [(0, Draft)]"
  by code_simp

lemma history_of_a_voided_year: "billing_history 0 (with_status 0 Void a_year_drawn)"
proof (rule one_more [OF history_of_a_year_drawn], rule status_changes)
  show "\<forall>i \<in> set (bl_invoices a_year_drawn). inv_id i = 0 \<longrightarrow> status_moves (inv_status i) Void"
    using the_year_is_a_draft by auto
qed

lemma the_credit_of_a_voided_year:
  "credit_used (readDraws (with_status 0 Void a_year_drawn)) = 250"
  "(case readYears (with_status 0 Void a_year_drawn) of Inr l \<Rightarrow> l | Inl _ \<Rightarrow> [undefined]) = []"
  by code_simp+

theorem the_months_run_fails_only_over_a_voided_year_witness:
  "fst (openTheMonth 0 (with_status 0 Void a_year_drawn)) = Inl Credit_overdrawn"
proof -
  from the_months_run_fails_only_over_a_voided_year [OF history_of_a_voided_year]
  obtain years given where "readYears (with_status 0 Void a_year_drawn) = Inr years" "credit_given (month_at 0) years = Inr given"
    "250 \<le> given \<or> fst (openTheMonth 0 (with_status 0 Void a_year_drawn)) = Inl Credit_overdrawn"
    by (auto simp: the_credit_of_a_voided_year split: if_splits)
  moreover from this the_credit_of_a_voided_year(2) have "years = []" by simp
  ultimately show ?thesis by auto
qed

theorem the_years_never_overlap_witness:
  "\<exists>a b. readYears two_years_ordered = Inr [a, b]
    \<and> (\<exists>m n. monthNumber (yb_halfTo a) = Some m \<and> monthNumber (yb_halfFrom b) = Some n \<and> m < n)"
proof -
  from the_years_never_overlap [OF history_of_two_years] obtain years where
    years: "readYears two_years_ordered = Inr years"
    "sorted_wrt (\<lambda>a b. \<exists>m n. monthNumber (yb_halfTo a) = Some m \<and> monthNumber (yb_halfFrom b) = Some n \<and> m < n) years"
    by blast
  then have "map yb_halfFrom years = [''1970-01'', ''1971-01'']" using two_years_read by simp
  then obtain a b where "years = [a, b]" by auto
  with years show ?thesis by simp
qed

end
