(* ===== verification/Withdrawal_Laws.thy ===== *)
theory Withdrawal_Laws
  imports Year_Credit
begin

text \<open>
  What a withdrawal keeps to: its window of fourteen days, the organisation back on Free at once, the
  credit notes beside their invoices; and what a contract concluded in the month of one is billed.
\<close>

subsection \<open>The window\<close>

text \<open>
  The last day to withdraw is the first working day from the fourteenth day after the agreement: it is
  never a Saturday or a Sunday, every day between it and the fourteenth is one, and the window closes at
  its midnight, so it is open for fourteen to sixteen days after the day of the agreement.
\<close>
theorem the_window_ends_on_the_first_working_day:
  defines "last_day since \<equiv> day_of (withdrawalUntil since) - 1"
  shows "withdrawalUntil since = (last_day since + 1) * day_ms
    \<and> weekday_of (last_day since) \<in> {1..5}
    \<and> day_of since + 14 \<le> last_day since \<and> last_day since \<le> day_of since + 16
    \<and> (\<forall>d \<in> {day_of since + 14..<last_day since}. weekday_of d \<in> {0, 6})"
proof -
  define d where "d = day_of since + 14"
  define m where "m = (if weekday_of d = 6 then 2 else if weekday_of d = 0 then 1 else 0 :: int)"
  have until: "withdrawalUntil since = (d + m + 1) * day_ms"
    by (simp add: withdrawalUntil_def Let_def WITHDRAWAL_DAYS_def d_def m_def algebra_simps)
  then have last_is: "last_day since = d + m" by (simp add: last_day_def day_of_start)
  have w: "weekday_of d = (d + 4) mod 7" "weekday_of (d + 1) = (d + 5) mod 7" "weekday_of (d + 2) = (d + 6) mod 7"
    by (simp_all add: weekday_of_def algebra_simps)
  have range: "weekday_of d \<in> {0..6}" by (simp add: w)
  have next1: "weekday_of (d + 1) = (weekday_of d + 1) mod 7" "weekday_of (d + 2) = (weekday_of d + 2) mod 7"
    unfolding w by (simp_all add: mod_simps algebra_simps)
  have "weekday_of (d + m) \<in> {1..5}" using range next1 by (auto simp: m_def)
  moreover have "\<forall>e \<in> {d..<d + m}. weekday_of e \<in> {0, 6}"
  proof
    fix e assume "e \<in> {d..<d + m}"
    then consider "e = d" "m \<noteq> 0" | "e = d + 1" "m = 2" by (fastforce simp: m_def split: if_splits)
    then show "weekday_of e \<in> {0, 6}" using next1 by cases (auto simp: m_def split: if_splits)
  qed
  moreover have "0 \<le> m" "m \<le> 2" by (simp_all add: m_def)
  ultimately show ?thesis using until by (simp add: last_is d_def)
qed

theorem the_window_ends_on_the_first_working_day_witness:
  "weekday_of (day_of (withdrawalUntil 0) - 1) \<noteq> 6"
  using the_window_ends_on_the_first_working_day [of 0] by auto

subsection \<open>Back to Free, and what is credited\<close>

definition nothing_ahead :: "timestamp \<Rightarrow> billing \<Rightarrow> bool" where
  "nothing_ahead now s \<longleftrightarrow> (\<forall>y \<in> set (bl_yeses s). yr_consentedAt y \<le> now) \<and> (\<forall>p \<in> set (bl_picks s). pk_pickedAt p \<le> now)"

lemma billed_without_a_contract:
  assumes "grants t = []"
  shows "tier_id (bt_tier (bn_billed (readBilledNow now t))) = Free"
proof -
  have free: "al_tier (allowanceOf []) = listed Free" "placeOf Free = 0"
    by (simp_all add: allowanceOf_def Let_def listed_def placeOf_def MANAGED_TIERS_def managed_tier_def)
  have first: "placeOf i = 0 \<longleftrightarrow> i = Free" for i
    by (cases i) (simp_all add: placeOf_def MANAGED_TIERS_def managed_tier_def)
  have "tier_id (bt_tier (billedTierOf m (allowanceOf []) peak gb f)) = Free" for m peak gb f
    by (cases m; cases f) (auto simp: billedTierOf_def Let_def place_or_past_def free first)
  then show ?thesis using assms by (simp add: readBilledNow_def Let_def)
qed

lemma withdrawn_rows:
  assumes "withdraw now s = (Inr (Withdrawn at0 since tierId began credits), t)"
  obtains w where "only_credit_notes (s\<lparr>bl_withdrawals := bl_withdrawals s @ [w]\<rparr>) t" "wr_withdrawnAt w = now"
  using assms by (cases rule: withdraw_run) auto

text \<open>
  C26: A withdrawal brings the organisation back to Free at once: no yes and no pick made until then counts
  any more, what the month bills is Free, no credit of a year is left, and there is nothing to withdraw
  from a second time.
\<close>
theorem a_withdrawal_brings_back_to_free:
  assumes "withdraw now s = (Inr (Withdrawn at0 since tierId began credits), t)" and "nothing_ahead now s"
  shows "tier_id (bt_tier (bn_billed (readBilledNow now t))) = Free
    \<and> bn_floor (readBilledNow now t) = pickedFloorOf [] now
    \<and> al_tier (ce_allowance (readCeiling t)) = al_tier (allowanceOf [])
    \<and> withdraw now t = (Inr (Not_withdrawn Nothing_paid None), t)"
  using assms(1)
proof (rule withdrawn_rows)
  fix w assume w: "only_credit_notes (s\<lparr>bl_withdrawals := bl_withdrawals s @ [w]\<rparr>) t" "wr_withdrawnAt w = now"
  then have rows: "bl_withdrawals t = bl_withdrawals s @ [w]" "bl_yeses t = bl_yeses s" "bl_picks t = bl_picks s"
    by (auto simp: only_credit_notes_def)
  have "\<not> sinceTheLatestWithdrawal t a" if "a \<le> now" for a
    using that w(2) by (auto simp: sinceTheLatestWithdrawal_def rows)
  then have none: "grants t = []" "picks t = []"
    using assms(2) by (auto simp: grants_def picks_def rows nothing_ahead_def filter_empty_conv)
  then show ?thesis
    using billed_without_a_contract [OF none(1), of now]
    by (simp add: readBilledNow_def Let_def readCeiling_def withdraw_def run_simps readWithdrawalWindow_def
        commitments_def withdrawalWindow_def ceilingOf_def)
qed

text \<open>A credit note stands beside an invoice that was there before, and credits at most its total.\<close>

definition credits_an_invoice :: "billing \<Rightarrow> invoice \<Rightarrow> bool" where
  "credits_an_invoice s n \<longleftrightarrow> (\<exists>i \<in> set (bl_invoices s). inv_kind i = An_invoice \<and> inv_status i \<noteq> Void
    \<and> inv_creditedId n = Some (inv_id i) \<and> (0 \<le> inv_total i \<longrightarrow> - inv_total n \<in> {0..inv_total i}))"

definition credits_appended :: "billing \<Rightarrow> billing \<Rightarrow> bool" where
  "credits_appended s t \<longleftrightarrow> (\<exists>made k. t = s\<lparr>bl_invoices := bl_invoices s @ made, bl_nextId := k\<rparr>
    \<and> (\<forall>n \<in> set made. inv_kind n = A_credit_note \<and> credits_an_invoice s n))"

interpretation credits: effect credits_appended
proof
  show "credits_appended s s" for s
    unfolding credits_appended_def by (intro exI [of _ "[]"] exI [of _ "bl_nextId s"]) simp
  show "credits_appended s u" if st: "credits_appended s t" and tu: "credits_appended t u" for s t u
  proof -
    from st obtain made k where t: "t = s\<lparr>bl_invoices := bl_invoices s @ made, bl_nextId := k\<rparr>"
      "\<forall>n \<in> set made. inv_kind n = A_credit_note \<and> credits_an_invoice s n"
      by (auto simp: credits_appended_def)
    from tu obtain more j where u: "u = t\<lparr>bl_invoices := bl_invoices t @ more, bl_nextId := j\<rparr>"
      "\<forall>n \<in> set more. inv_kind n = A_credit_note \<and> credits_an_invoice t n"
      by (auto simp: credits_appended_def)
    have "credits_an_invoice s n" if "n \<in> set more" for n
    proof -
      from that u(2) obtain i where i: "i \<in> set (bl_invoices t)" "inv_kind i = An_invoice" "inv_status i \<noteq> Void"
        "inv_creditedId n = Some (inv_id i)" "0 \<le> inv_total i \<longrightarrow> - inv_total n \<in> {0..inv_total i}"
        by (auto simp: credits_an_invoice_def)
      with t(2) have "i \<in> set (bl_invoices s)" by (auto simp: t(1))
      with i show ?thesis by (auto simp: credits_an_invoice_def)
    qed
    with t u show ?thesis
      unfolding credits_appended_def by (intro exI [of _ "made @ more"] exI [of _ j]) auto
  qed
qed

lemma share_of_total:
  assumes "0 \<le> num" "num \<le> den" "0 < den" "0 \<le> amount"
  shows "js_round (of_int (amount * num) / of_int den) \<in> {0..amount}"
proof -
  define x :: rat where "x = of_int (amount * num) / of_int den"
  have "0 \<le> x" using assms by (simp add: x_def)
  have "amount * num \<le> amount * den" using assms by (simp add: mult_left_mono)
  then have "(of_int (amount * num) :: rat) \<le> of_int (amount * den)" by (simp only: of_int_le_iff)
  then have "x \<le> of_int amount" using assms(3) by (simp add: x_def pos_divide_le_eq)
  then have "x + 1 / 2 < of_int (amount + 1)" by simp
  then have "js_round x < amount + 1" unfolding js_round_def by (simp only: floor_less_iff)
  moreover have "0 \<le> js_round x" using \<open>0 \<le> x\<close> by (simp add: js_round_def le_floor_iff)
  ultimately show ?thesis by (simp add: x_def)
qed

lemma credits_an_invoiceI:
  "i \<in> set (bl_invoices s) \<Longrightarrow> inv_kind i = An_invoice \<Longrightarrow> inv_status i \<noteq> Void \<Longrightarrow>
    inv_creditedId n = Some (inv_id i) \<Longrightarrow> (0 \<le> inv_total i \<Longrightarrow> - inv_total n \<in> {0..inv_total i}) \<Longrightarrow>
    credits_an_invoice s n"
  by (auto simp: credits_an_invoice_def)

lemma one_credit_appended:
  "inv_kind n = A_credit_note \<Longrightarrow> credits_an_invoice s n \<Longrightarrow>
    credits_appended s (s\<lparr>bl_invoices := bl_invoices s @ [n], bl_nextId := k\<rparr>)"
  unfolding credits_appended_def by (intro exI [of _ "[n]"] exI [of _ k]) simp

lemma recordCreditNote_credits: "Prelude.within credits_appended (recordCreditNote k a b e now)"
proof (rule withinI)
  fix s
  show "credits_appended s (snd (recordCreditNote k a b e now s))"
  proof (cases "List.find (\<lambda>i. inv_id i = k) (bl_invoices s)")
    case None
    then show ?thesis by (simp add: recordCreditNote_def run_simps credits.effect_refl)
  next
    case (Some i)
    then have i: "i \<in> set (bl_invoices s)" by (auto dest: find_SomeD)
    show ?thesis
    proof (cases "snd (recordCreditNote k a b e now s) = s")
      case True
      then show ?thesis by (simp add: credits.effect_refl)
    next
      case False
      then have "b > 0" "0 \<le> a" "a \<le> b" "inv_kind i = An_invoice" "inv_status i \<noteq> Void"
        by (auto simp: recordCreditNote_def run_simps Some split: if_splits)
      then show ?thesis
        using False i share_of_total [of a b "inv_total i"]
        by (cases "creditReference (the (inv_reference i))")
          (auto simp: recordCreditNote_def run_simps run_lift Some Let_def insert_invoice_def
            split: if_splits intro!: one_credit_appended credits_an_invoiceI [OF i])
    qed
  qed
qed

lemma credit_invoices_credit: "Prelude.within credits_appended (credit_invoices began now is)"
proof -
  have lift: "Prelude.within credits_appended (liftP r)" for r :: "billing_error + 'x"
    by (cases r) (simp_all add: liftP_def credits.within_ret credits.within_throw)
  have "Prelude.within credits_appended (credit_invoice began now i)" for i
    unfolding credit_invoice_def Let_def
    by (auto intro!: credits.within_structure lift recordCreditNote_credits split: record_credit_outcome.split)
  then show ?thesis by (induction "is") (auto intro!: credits.within_structure)
qed

text \<open>
  A withdrawal writes credit notes and nothing else of money: every note it makes credits an invoice
  that stood before it, not void, by at least nothing and at most its total, and every invoice stays
  as it was.
\<close>
theorem a_withdrawal_credits_at_most_what_was_invoiced:
  assumes "withdraw now s = (Inr out, t)"
  shows "\<exists>made. bl_invoices t = bl_invoices s @ made \<and> bl_draws t = bl_draws s
    \<and> (\<forall>n \<in> set made. inv_kind n = A_credit_note \<and> credits_an_invoice s n)"
proof (cases "readWithdrawalWindow now s")
  case (Window_open since until tierId began)
  let ?u = "s\<lparr>bl_withdrawals := bl_withdrawals s @
    [\<lparr>wr_withdrawnAt = now, wr_contractSince = since, wr_tierId = tierId, wr_beganOnRequest = began\<rparr>]\<rparr>"
  obtain x u where run: "credit_invoices began now (contract_invoices since ?u) ?u = (x, u)" by fastforce
  then have "credits_appended ?u u" by (rule withinD [OF credit_invoices_credit])
  moreover have "u = t" using assms run by (auto simp: withdraw_def run_simps Window_open split: sum.splits)
  ultimately show ?thesis by (auto simp: credits_appended_def credits_an_invoice_def)
next
  case (Window_closed reason dates)
  with assms show ?thesis by (auto simp: withdraw_def run_simps)
qed

subsection \<open>A new contract in the month of a withdrawal\<close>

text \<open>
  A consumer agrees to Small, who did not ask to begin before the fourteen days; the month is invoiced,
  500 cents. On the third day the consumer withdraws, and the invoice is credited whole. On the fourth the
  consumer agrees to Medium, and uses it.
\<close>

definition small_yes :: yes_row where
  "small_yes = \<lparr>gr_kind = Tier_yes, gr_tierId = Small, gr_bandGb = 500, yr_priceEur = 5, yr_consentedAt = 0,
     yr_axis = Data_axis, yr_beganOnRequest = False\<rparr>"

definition a_consumer :: "invoice list \<Rightarrow> withdrawal_row list \<Rightarrow> occupancy_peak list \<Rightarrow> nat \<Rightarrow> billing" where
  "a_consumer invoices withdrawals peaks k = \<lparr>bl_tenantId = ''t1'', bl_invoices = invoices, bl_draws = [],
     bl_yeses = [small_yes], bl_picks = [], bl_withdrawals = withdrawals, bl_peaks = peaks, bl_bytes = 200000000000,
     bl_alphaBytes = 0, bl_slotsHeld = 4, bl_party = Some Consumer, bl_nextId = k\<rparr>"

definition small_invoice :: invoice where
  "small_invoice = \<lparr>inv_id = 0, inv_reference = Some ''ownpace-t1-m-1970-01-small'', inv_kind = An_invoice,
     inv_status = Draft, inv_periodStart = 0, inv_periodEnd = 30, inv_total = 500, inv_creditedId = None,
     inv_evidence = Month_of \<lparr>me_month = ''1970-01'', me_rate = Full, me_drawnCents = 0, me_tier = Small,
       me_by = By_moved, me_peakPaths = 4, me_peakAt = Some 0, me_gbCounted = 200, me_agreedTier = Small,
       me_priceCents = 500, me_priceFrom = Agreed_price, me_beforeCents = 0, me_cents = 500, me_at = 0\<rparr>,
     inv_lines = [Published 500], inv_createdAt = 0\<rparr>"

definition small_credit :: invoice where
  "small_credit = \<lparr>inv_id = 1, inv_reference = Some ''ownpace-t1-c-1970-01-small'', inv_kind = A_credit_note,
     inv_status = Draft, inv_periodStart = 0, inv_periodEnd = 30, inv_total = - 500, inv_creditedId = Some 0,
     inv_evidence = Withdrawal_of \<lparr>wv_withdrawnAt = 2 * day_ms, wv_paidFrom = 0, wv_periodEnd = 30,
       wv_daysPaid = 31, wv_daysUsed = 0, wv_beganOnRequest = False\<rparr>,
     inv_lines = [Share 31 31], inv_createdAt = 2 * day_ms\<rparr>"

definition the_peak :: occupancy_peak where
  "the_peak = \<lparr>op_month = 0, op_peakPaths = 4, op_peakAt = 0\<rparr>"

definition the_withdrawal :: withdrawal_row where
  "the_withdrawal = \<lparr>wr_withdrawnAt = 2 * day_ms, wr_contractSince = 0, wr_tierId = Small, wr_beganOnRequest = False\<rparr>"

lemma the_month_invoiced:
  "openTheMonth 0 (a_consumer [] [] [] 0) =
    (Inr (Made ''ownpace-t1-m-1970-01-small'' Small 500 0), a_consumer [small_invoice] [] [the_peak] 1)"
  by code_simp

definition the_share :: credit_share where
  "the_share = \<lparr>sh_daysPaid = 31, sh_daysUsed = 0, sh_numerator = 31, sh_denominator = 31\<rparr>"

lemma the_contract_withdrawn:
  "withdraw (2 * day_ms) (a_consumer [small_invoice] [] [the_peak] 1) =
    (Inr (Withdrawn (2 * day_ms) 0 Small False
        [\<lparr>km_reference = ''ownpace-t1-c-1970-01-small'', km_invoice = ''ownpace-t1-m-1970-01-small'', km_share = the_share\<rparr>]),
      a_consumer [small_invoice, small_credit] [the_withdrawal] [the_peak] 2)"
  by code_simp

definition agreed_again :: "billing" where
  "agreed_again = (snd (record_yes (priced_grant Tier_yes Medium 1500 12) Data_axis False (3 * day_ms)
     (a_consumer [small_invoice, small_credit] [the_withdrawal] [the_peak] 2)))\<lparr>bl_bytes := 900000000000\<rparr>"

lemma the_new_contract_invoiced:
  "fst (openTheMonth (4 * day_ms) agreed_again) = Inr (Made ''ownpace-t1-m-1970-01-medium'' Medium 700 0)"
  by code_simp

lemma the_new_price: "fst (month_price (4 * day_ms) agreed_again) = 1200"
  by code_simp

theorem a_withdrawal_brings_back_to_free_witness:
  "tier_id (bt_tier (bn_billed (readBilledNow (2 * day_ms) (a_consumer [small_invoice, small_credit] [the_withdrawal] [the_peak] 2)))) = Free"
  using a_withdrawal_brings_back_to_free [OF the_contract_withdrawn]
  by (simp add: nothing_ahead_def a_consumer_def small_yes_def day_ms_def)

theorem a_withdrawal_credits_at_most_what_was_invoiced_witness:
  "credits_an_invoice (a_consumer [small_invoice] [] [the_peak] 1) small_credit"
  using a_withdrawal_credits_at_most_what_was_invoiced [OF the_contract_withdrawn]
  by (auto simp: a_consumer_def)

lemma withdraw_keeps_the_months_steps:
  assumes "withdraw now s = (Inr out, t)"
  shows "readMonthSteps later t = readMonthSteps later s"
  using assms
proof (cases rule: withdraw_run)
  case (withdrawn w)
  then obtain made k where t: "t = s\<lparr>bl_withdrawals := bl_withdrawals s @ [w], bl_invoices := bl_invoices s @ made, bl_nextId := k\<rparr>"
    and made: "\<forall>i \<in> set made. inv_kind i = A_credit_note"
    by (auto simp: only_credit_notes_def)
  have "month_invoices later t = month_invoices later s" "month_draws later t = month_draws later s"
    using made by (auto simp: t month_invoices_def month_draws_def filter_empty_conv)
  moreover have "bl_tenantId t = bl_tenantId s" by (simp add: t)
  ultimately show ?thesis by (simp only: readMonthSteps_def)
qed simp

lemma readMonthSteps_rows:
  "bl_tenantId u = bl_tenantId t \<Longrightarrow> bl_invoices u = bl_invoices t \<Longrightarrow> bl_draws u = bl_draws t
    \<Longrightarrow> readMonthSteps now u = readMonthSteps now t"
  by (simp only: readMonthSteps_def month_invoices_def month_draws_def)

text \<open>
  C27: The month of a withdrawal counts the steps of the contract that ended, whatever of them the
  withdrawal credited. Let a contract end, and the organisation agree, pick and move what it likes: when
  the month's run then makes a step, what it invoices and draws is the price the month now bills, at one
  rate, less all that was billed for the month before the withdrawal.
\<close>
theorem a_new_contract_is_billed_less_what_was_credited:
  assumes "withdraw now s = (Inr out, t)"
    and "bl_tenantId u = bl_tenantId t" and "bl_invoices u = bl_invoices t" and "bl_draws u = bl_draws t"
    and "openTheMonth later u = (Inr made, v)" and "step_made made \<noteq> None"
  shows "\<exists>steps r invoices draws. readMonthSteps later s = Inr steps
    \<and> bl_invoices v = bl_invoices t @ invoices \<and> bl_draws v = bl_draws t @ draws
    \<and> (\<Sum>i\<leftarrow>invoices. inv_total i) + (\<Sum>d\<leftarrow>draws. dr_cents d) = atRate (fst (month_price later v)) r - live_cents steps"
  using assms(5)
proof (cases rule: month_run_cases)
  case unchanged
  with assms(6) show ?thesis by simp
next
  case (stepped steps years credit r billed cents before split invoices k)
  have "readMonthSteps later s = Inr steps"
    using stepped(1) readMonthSteps_rows [OF assms(2-4)] withdraw_keeps_the_months_steps [OF assms(1)] by simp
  moreover have "bl_invoices v = bl_invoices t @ invoices" "bl_draws v = bl_draws t @ step_draw later r (tier_id billed) split"
    using assms(3,4) by (simp_all add: stepped(8))
  moreover have "(\<Sum>i\<leftarrow>invoices. inv_total i) = ss_invoiceCents split"
    using stepped(9) assms(6) by (auto simp: step_invoice_def step_made_def)
  moreover have "(\<Sum>d\<leftarrow>step_draw later r (tier_id billed) split. dr_cents d) = ss_drawCents split"
    using splitStep_bounds(1) [of cents "cm_leftCents credit"] by (simp add: step_draw_def stepped(7))
  moreover have "month_price later v = month_price later (with_peak later u)"
    by (rule billed_after_step; simp add: stepped(8))
  moreover have "ss_drawCents split + ss_invoiceCents split = atRate (fst (month_price later (with_peak later u))) r - live_cents steps"
    using splitStep_sum [of cents "cm_leftCents credit"] stepped(6) by (simp add: stepped(7))
  ultimately have "readMonthSteps later s = Inr steps \<and> bl_invoices v = bl_invoices t @ invoices
    \<and> bl_draws v = bl_draws t @ step_draw later r (tier_id billed) split
    \<and> (\<Sum>i\<leftarrow>invoices. inv_total i) + (\<Sum>d\<leftarrow>step_draw later r (tier_id billed) split. dr_cents d)
      = atRate (fst (month_price later v)) r - live_cents steps"
    by simp
  then show ?thesis by blast
qed

text \<open>Of the 1200 cents of the new contract's month, 700 are billed: the 500 before them were credited whole.\<close>

lemma the_steps_before:
  "map_option live_cents (case readMonthSteps (4 * day_ms) (a_consumer [small_invoice] [] [the_peak] 1) of
     Inr l \<Rightarrow> Some l | Inl _ \<Rightarrow> None) = Some 500"
  by code_simp

theorem a_new_contract_is_billed_less_what_was_credited_witness:
  "\<exists>invoices draws. bl_invoices (snd (openTheMonth (4 * day_ms) agreed_again)) = [small_invoice, small_credit] @ invoices
    \<and> bl_draws (snd (openTheMonth (4 * day_ms) agreed_again)) = draws
    \<and> (\<exists>price. (\<Sum>i\<leftarrow>invoices. inv_total i) + (\<Sum>d\<leftarrow>draws. dr_cents d) = price - 500)"
proof -
  let ?v = "snd (openTheMonth (4 * day_ms) agreed_again)"
  have run: "openTheMonth (4 * day_ms) agreed_again = (Inr (Made ''ownpace-t1-m-1970-01-medium'' Medium 700 0), ?v)"
    using the_new_contract_invoiced by (simp add: prod_eq_iff)
  have rows: "bl_tenantId agreed_again = ''t1''" "bl_invoices agreed_again = [small_invoice, small_credit]" "bl_draws agreed_again = []"
    by (simp_all add: agreed_again_def record_yes_def run_simps a_consumer_def)
  from a_new_contract_is_billed_less_what_was_credited [OF the_contract_withdrawn _ _ _ run]
  obtain steps r invoices draws where "readMonthSteps (4 * day_ms) (a_consumer [small_invoice] [] [the_peak] 1) = Inr steps"
    "bl_invoices ?v = [small_invoice, small_credit] @ invoices" "bl_draws ?v = draws"
    "(\<Sum>i\<leftarrow>invoices. inv_total i) + (\<Sum>d\<leftarrow>draws. dr_cents d) = atRate (fst (month_price (4 * day_ms) ?v)) r - live_cents steps"
    by (auto simp: rows a_consumer_def step_made_def)
  moreover from this the_steps_before have "live_cents steps = 500" by simp
  ultimately show ?thesis by auto
qed

end
