(* ===== verification/Rate_Budget.thy ===== *)
theory Rate_Budget
  imports Prelude Complex_Main
begin

text \<open>
  The budgets of requests: the bucket of one process (\<open>TokenBucket\<close> of \<open>shared/src/throttling.ts\<close>),
  the one of one process per tenant and provider (\<open>InProcessRateBudget\<close> of \<open>rate-budget.ts\<close>), and the
  one the processes share, a row (\<open>PgRateBudget\<close> of \<open>ledger/src/pg-rate-budget.ts\<close>). Each is a
  \<open>take\<close>, at a clock reading, that grants or says how many milliseconds to wait, and \<open>acquire\<close> is the
  loop around it. Tokens are rationals where the source has doubles, clocks are milliseconds.

  The locale \<open>token_bucket\<close> is what the three promise; what it gives is proved once: the bound on what
  is granted in any stretch of time, and that \<open>acquire\<close> returns.
\<close>

subsection \<open>The loop\<close>

record take_result =
  tk_granted :: bool
  tk_wait :: int

text \<open>
  \<open>acquire\<close>: take, and wait until the timer fires. \<open>wake w t\<close> is when a timer of \<open>w\<close> milliseconds, set at
  \<open>t\<close>, fires. None is a loop that never ends.
\<close>

partial_function (option) acquire ::
  "(timestamp \<Rightarrow> 's \<Rightarrow> take_result \<times> 's) \<Rightarrow> (int \<Rightarrow> timestamp \<Rightarrow> timestamp) \<Rightarrow> timestamp \<Rightarrow> 's \<Rightarrow> (timestamp \<times> 's) option"
where
  "acquire take_at wake now s = (case take_at now s of (r, t) \<Rightarrow>
     if tk_granted r then Some (now, t) else acquire take_at wake (wake (tk_wait r) now) t)"

declare acquire.simps [code]

text \<open>How many of the takes at these clock readings are granted.\<close>

fun granted_of :: "(timestamp \<Rightarrow> 's \<Rightarrow> take_result \<times> 's) \<Rightarrow> timestamp list \<Rightarrow> 's \<Rightarrow> nat \<times> 's" where
  "granted_of take_at [] s = (0, s)"
| "granted_of take_at (now # rest) s = (case take_at now s of (r, t) \<Rightarrow>
     (case granted_of take_at rest t of (n, u) \<Rightarrow> ((if tk_granted r then n + 1 else n), u)))"

subsection \<open>What a bucket promises\<close>

definition refilled :: "rat \<Rightarrow> rat \<Rightarrow> rat \<Rightarrow> int \<Rightarrow> rat" where
  "refilled burst rate tokens elapsed = min burst (tokens + of_int elapsed / 1000 * rate)"

locale token_bucket =
  fixes burst :: rat and rate :: rat
    and take_at :: "timestamp \<Rightarrow> 's \<Rightarrow> take_result \<times> 's"
    and level :: "timestamp \<Rightarrow> 's \<Rightarrow> rat"
    and good :: "timestamp \<Rightarrow> 's \<Rightarrow> bool"
  assumes one_token: "1 \<le> burst" and a_rate: "0 < rate"
    and good_later: "good now s \<Longrightarrow> now \<le> later \<Longrightarrow> good later s"
    and level_later: "good now s \<Longrightarrow> now \<le> later \<Longrightarrow> level later s = refilled burst rate (level now s) (later - now)"
    and level_range: "good now s \<Longrightarrow> 0 \<le> level now s \<and> level now s \<le> burst"
    and take_good: "good now s \<Longrightarrow> take_at now s = (r, t) \<Longrightarrow> good now t"
    and take_grants: "good now s \<Longrightarrow> take_at now s = (r, t) \<Longrightarrow> tk_granted r = (1 \<le> level now s)"
    and take_level: "good now s \<Longrightarrow> take_at now s = (r, t) \<Longrightarrow>
      level now t = level now s - (if tk_granted r then 1 else 0)"
    and take_wait: "good now s \<Longrightarrow> take_at now s = (r, t) \<Longrightarrow> \<not> tk_granted r \<Longrightarrow>
      tk_wait r = \<lceil>(1 - level now s) / rate * 1000\<rceil>"
begin

lemma level_later_le: "good now s \<Longrightarrow> now \<le> later \<Longrightarrow> level later s \<le> level now s + of_int (later - now) / 1000 * rate"
  by (simp only: level_later [of now s later] refilled_def min.cobounded2)

text \<open>What is granted between two moments is at most a burst and what the rate refills between them.\<close>

lemma granted_level:
  assumes "good now s" and "sorted (now # clocks)" and "\<forall>u \<in> set clocks. u \<le> until" and "now \<le> until"
    and "granted_of take_at clocks s = (n, t)"
  shows "good until t \<and> of_nat n \<le> level now s + of_int (until - now) / 1000 * rate - level until t"
  using assms
proof (induction clocks arbitrary: now s n)
  case Nil
  then show ?case using level_later_le [of now s until] good_later [of now s until] by simp
next
  case (Cons u clocks)
  obtain r s1 where take1: "take_at u s = (r, s1)" by fastforce
  obtain m where rest: "granted_of take_at clocks s1 = (m, t)" and n: "n = (if tk_granted r then m + 1 else m)"
    using Cons.prems(5) by (auto simp: take1 split: prod.splits)
  have u: "now \<le> u" "u \<le> until" "sorted (u # clocks)" "\<forall>v \<in> set clocks. v \<le> until" using Cons.prems by auto
  have good: "good u s" "good u s1" using good_later [OF Cons.prems(1) u(1)] take_good [OF _ take1] by blast+
  have "of_nat m \<le> level u s1 + of_int (until - u) / 1000 * rate - level until t" "good until t"
    using Cons.IH [OF good(2) u(3,4,2) rest] by simp_all
  moreover have "level u s1 = level u s - (if tk_granted r then 1 else 0)" by (rule take_level [OF good(1) take1])
  moreover have "level u s \<le> level now s + of_int (u - now) / 1000 * rate" by (rule level_later_le [OF Cons.prems(1) u(1)])
  moreover have "(of_int (u - now) :: rat) / 1000 * rate + of_int (until - u) / 1000 * rate = of_int (until - now) / 1000 * rate"
    by (simp add: algebra_simps diff_divide_distrib)
  ultimately show ?case by (auto simp: n split: if_splits)
qed

lemma granted_in_a_stretch:
  assumes "good now s" and "sorted (now # clocks)" and "\<forall>u \<in> set clocks. u \<le> until" and "now \<le> until"
  shows "of_nat (fst (granted_of take_at clocks s)) \<le> burst + of_int (until - now) / 1000 * rate"
proof -
  obtain n t where "granted_of take_at clocks s = (n, t)" by fastforce
  with granted_level [OF assms this] level_range [OF assms(1)] level_range [of until t] show ?thesis by fastforce
qed

text \<open>A wait shrinks by the time that passed.\<close>

lemma wait_shrinks:
  assumes "good now s" "take_at now s = (r, t)" "\<not> tk_granted r" "now \<le> later" "take_at later t = (r', t')" "\<not> tk_granted r'"
  shows "tk_wait r' \<le> tk_wait r - (later - now)" "0 < tk_wait r'"
proof -
  have t: "good now t" "good later t" using assms good_later take_good by blast+
  have low: "level later t < 1" using take_grants [OF t(2) assms(5)] assms(6) by simp
  then have "level later t = level now t + of_int (later - now) / 1000 * rate"
    using level_later [OF t(1) assms(4)] one_token by (auto simp: refilled_def min_def split: if_splits)
  moreover have "level now t = level now s" using take_level [OF assms(1,2)] assms(3) by simp
  ultimately have "(1 - level later t) / rate * 1000 = (1 - level now s) / rate * 1000 - of_int (later - now)"
    using a_rate by (simp add: field_simps)
  then show "tk_wait r' \<le> tk_wait r - (later - now)"
    by (simp only: take_wait [OF assms(1-3)] take_wait [OF t(2) assms(5,6)] ceiling_diff_of_int)
  have "0 < (1 - level later t) / rate * 1000" using low a_rate by simp
  then show "0 < tk_wait r'" by (simp only: take_wait [OF t(2) assms(5,6)] zero_less_ceiling)
qed

text \<open>Alone, \<open>acquire\<close> returns, even when the timers are cut at \<open>M\<close> milliseconds.\<close>

lemma acquire_returns_within:
  assumes "0 < M" and wake: "\<And>w t. t + min w M \<le> wake w t"
    and "good now s" and "take_at now s = (r, t)" and "tk_granted r \<or> 0 < tk_wait r \<and> tk_wait r \<le> int n"
  shows "\<exists>out. acquire take_at wake now s = Some out"
  using assms(3-5)
proof (induction n arbitrary: now s r t rule: less_induct)
  case (less n)
  show ?case
  proof (cases "tk_granted r")
    case True
    then show ?thesis by (subst acquire.simps) (simp add: less.prems(2))
  next
    case False
    let ?later = "wake (tk_wait r) now"
    have later: "now + min (tk_wait r) M \<le> ?later" by (rule wake)
    with False less.prems(3) assms(1) have passed: "now < ?later" by (auto simp: min_def split: if_splits)
    obtain r' t' where next_take: "take_at ?later t = (r', t')" by fastforce
    have "\<exists>out. acquire take_at wake ?later t = Some out"
    proof (rule less.IH [of "nat (tk_wait r - (?later - now))", OF _ _ next_take])
      show "nat (tk_wait r - (?later - now)) < n" using passed less.prems(3) False by linarith
      show "good ?later t" using good_later take_good less.prems(1,2) passed by (meson less_imp_le)
      show "tk_granted r' \<or> 0 < tk_wait r' \<and> tk_wait r' \<le> int (nat (tk_wait r - (?later - now)))"
        using wait_shrinks [OF less.prems(1,2) False less_imp_le [OF passed] next_take] by fastforce
    qed
    with False show ?thesis by (subst acquire.simps) (simp add: less.prems(2))
  qed
qed

lemma acquire_returns:
  assumes "0 < M" and "\<And>w t. t + min w M \<le> wake w t" and "good now s"
  shows "\<exists>out. acquire take_at wake now s = Some out"
proof -
  obtain r t where take1: "take_at now s = (r, t)" by fastforce
  have "tk_granted r \<or> 0 < tk_wait r \<and> tk_wait r \<le> int (nat (tk_wait r))"
  proof (cases "tk_granted r")
    case False
    then have "level now s < 1" using take_grants [OF assms(3) take1] by simp
    then have "0 < (1 - level now s) / rate * 1000" using a_rate by simp
    then show ?thesis by (simp only: take_wait [OF assms(3) take1 False] zero_less_ceiling) simp
  qed simp
  from acquire_returns_within [OF assms take1 this] show ?thesis .
qed

end

subsection \<open>The bucket of one process\<close>

record bucket =
  bu_tokens :: rat
  bu_at :: timestamp

text \<open>\<open>TokenBucket\<close>: \<open>refill\<close>, \<open>tryConsume\<close> and \<open>getTimeUntilToken\<close>, the loop's test and its wait.\<close>

definition new_bucket :: "rat \<Rightarrow> timestamp \<Rightarrow> bucket" where
  "new_bucket capacity now = \<lparr>bu_tokens = capacity, bu_at = now\<rparr>"

definition refill :: "rat \<Rightarrow> rat \<Rightarrow> timestamp \<Rightarrow> bucket \<Rightarrow> bucket" where
  "refill capacity refillRate now b =
    (let elapsedSeconds = of_int (now - bu_at b) / 1000; tokensToAdd = elapsedSeconds * refillRate in
     \<lparr>bu_tokens = min capacity (bu_tokens b + tokensToAdd), bu_at = now\<rparr>)"

definition tryConsume :: "rat \<Rightarrow> rat \<Rightarrow> timestamp \<Rightarrow> bucket \<Rightarrow> bool \<times> bucket" where
  "tryConsume capacity refillRate now b =
    (let b = refill capacity refillRate now b in
     if 1 \<le> bu_tokens b then (True, b\<lparr>bu_tokens := bu_tokens b - 1\<rparr>) else (False, b))"

definition getTimeUntilToken :: "rat \<Rightarrow> bucket \<Rightarrow> int" where
  "getTimeUntilToken refillRate b =
    (let tokensNeeded = 1 - bu_tokens b; secondsNeeded = tokensNeeded / refillRate in \<lceil>secondsNeeded * 1000\<rceil>)"

definition consume_at :: "rat \<Rightarrow> rat \<Rightarrow> timestamp \<Rightarrow> bucket \<Rightarrow> take_result \<times> bucket" where
  "consume_at capacity refillRate now b = (case tryConsume capacity refillRate now b of (granted, c) \<Rightarrow>
     (\<lparr>tk_granted = granted, tk_wait = (if granted then 0 else getTimeUntilToken refillRate c)\<rparr>, c))"

definition bucket_level :: "rat \<Rightarrow> rat \<Rightarrow> timestamp \<Rightarrow> bucket \<Rightarrow> rat" where
  "bucket_level capacity refillRate now b = refilled capacity refillRate (bu_tokens b) (now - bu_at b)"

definition good_bucket :: "rat \<Rightarrow> timestamp \<Rightarrow> bucket \<Rightarrow> bool" where
  "good_bucket capacity now b \<longleftrightarrow> 0 \<le> bu_tokens b \<and> bu_tokens b \<le> capacity \<and> bu_at b \<le> now"

lemma refilled_twice:
  assumes "0 < rate" and "0 \<le> extra"
  shows "refilled burst rate (refilled burst rate tokens elapsed) extra = refilled burst rate tokens (elapsed + extra)"
proof -
  define e f where "e = of_int elapsed / 1000 * rate" and "f = of_int extra / 1000 * rate"
  have f: "0 \<le> f" using assms by (simp add: f_def)
  have sum: "of_int (elapsed + extra) / 1000 * rate = e + f"
    by (simp add: e_def f_def algebra_simps add_divide_distrib)
  show ?thesis unfolding refilled_def sum e_def [symmetric] f_def [symmetric] using f by (auto simp: min_def)
qed

lemma refilled_range:
  assumes "0 < rate" and "0 \<le> elapsed" and "0 \<le> tokens" and "0 \<le> burst"
  shows "0 \<le> refilled burst rate tokens elapsed" "refilled burst rate tokens elapsed \<le> burst"
  using assms by (simp_all add: refilled_def)

lemma refilled_now: "tokens \<le> burst \<Longrightarrow> refilled burst rate tokens 0 = tokens"
  by (simp add: refilled_def min_def)

lemma consume_at_eq:
  "consume_at capacity rate now b = (let l = bucket_level capacity rate now b in
    if 1 \<le> l then (\<lparr>tk_granted = True, tk_wait = 0\<rparr>, \<lparr>bu_tokens = l - 1, bu_at = now\<rparr>)
    else (\<lparr>tk_granted = False, tk_wait = \<lceil>(1 - l) / rate * 1000\<rceil>\<rparr>, \<lparr>bu_tokens = l, bu_at = now\<rparr>))"
  by (simp add: consume_at_def tryConsume_def refill_def getTimeUntilToken_def bucket_level_def refilled_def Let_def)

subsection \<open>The budget of one process, per tenant and provider\<close>

type_synonym budget_buckets = "string \<rightharpoonup> bucket"

definition take_key :: "rat \<Rightarrow> rat \<Rightarrow> string \<Rightarrow> timestamp \<Rightarrow> budget_buckets \<Rightarrow> int \<times> budget_buckets" where
  "take_key burst rate key now buckets =
    (let b = (case buckets key of None \<Rightarrow> new_bucket burst now | Some b \<Rightarrow> b);
         refilled = min burst (bu_tokens b + of_int (now - bu_at b) / 1000 * rate)
     in if 1 \<le> refilled then (0, buckets(key \<mapsto> \<lparr>bu_tokens = refilled - 1, bu_at = now\<rparr>))
       else (\<lceil>(1 - refilled) / rate * 1000\<rceil>, buckets(key \<mapsto> \<lparr>bu_tokens = refilled, bu_at = now\<rparr>)))"

definition in_process_take :: "rat \<Rightarrow> rat \<Rightarrow> string \<Rightarrow> timestamp \<Rightarrow> budget_buckets \<Rightarrow> take_result \<times> budget_buckets" where
  "in_process_take burst rate key now buckets = (case take_key burst rate key now buckets of (wait, t) \<Rightarrow>
     (\<lparr>tk_granted = (wait \<le> 0), tk_wait = wait\<rparr>, t))"

definition key_bucket :: "rat \<Rightarrow> string \<Rightarrow> timestamp \<Rightarrow> budget_buckets \<Rightarrow> bucket" where
  "key_bucket burst key now buckets = (case buckets key of None \<Rightarrow> new_bucket burst now | Some b \<Rightarrow> b)"

subsection \<open>The budget the processes share\<close>

text \<open>
  The row of one tenant and provider. The statement is one take: the insert when there is no row, else
  the update, whose condition is the refilled level; no row returned is a refusal, and the wait is read
  off the row as it stands.
\<close>

definition FALLBACK_WAIT_MS :: int where
  "FALLBACK_WAIT_MS = 50"

definition MAX_WAIT_MS :: int where
  "MAX_WAIT_MS = 2000"

type_synonym budget_rows = "(string \<times> string) \<rightharpoonup> bucket"

definition deficit :: "rat \<Rightarrow> rat \<Rightarrow> string \<times> string \<Rightarrow> timestamp \<Rightarrow> budget_rows \<Rightarrow> int option" where
  "deficit burst rate key now rows = (case rows key of
     None \<Rightarrow> None
   | Some b \<Rightarrow> Some (max 1 \<lceil>max 0 ((1 - min burst (bu_tokens b + of_int (now - bu_at b) / 1000 * rate)) / rate) * 1000\<rceil>))"

definition pg_take :: "rat \<Rightarrow> rat \<Rightarrow> string \<times> string \<Rightarrow> timestamp \<Rightarrow> budget_rows \<Rightarrow> take_result \<times> budget_rows" where
  "pg_take burst rate key now rows =
    (let written = (case rows key of
         None \<Rightarrow> Some \<lparr>bu_tokens = burst - 1, bu_at = now\<rparr>
       | Some b \<Rightarrow>
           let level = min burst (bu_tokens b + of_int (now - bu_at b) / 1000 * rate) in
           if 1 \<le> level then Some \<lparr>bu_tokens = level - 1, bu_at = now\<rparr> else None)
     in case written of
       Some b \<Rightarrow> (\<lparr>tk_granted = True, tk_wait = 0\<rparr>, rows(key \<mapsto> b))
     | None \<Rightarrow> (\<lparr>tk_granted = False, tk_wait =
         (case deficit burst rate key now rows of None \<Rightarrow> FALLBACK_WAIT_MS | Some w \<Rightarrow> w)\<rparr>, rows))"

definition row_bucket :: "rat \<Rightarrow> string \<times> string \<Rightarrow> timestamp \<Rightarrow> budget_rows \<Rightarrow> bucket" where
  "row_bucket burst key now rows = (case rows key of None \<Rightarrow> new_bucket burst now | Some b \<Rightarrow> b)"

subsection \<open>The three keep the promise\<close>

definition level_of_key :: "rat \<Rightarrow> rat \<Rightarrow> string \<Rightarrow> timestamp \<Rightarrow> budget_buckets \<Rightarrow> rat" where
  "level_of_key burst rate key now s = bucket_level burst rate now (key_bucket burst key now s)"

definition good_key :: "rat \<Rightarrow> string \<Rightarrow> timestamp \<Rightarrow> budget_buckets \<Rightarrow> bool" where
  "good_key burst key now s \<longleftrightarrow> good_bucket burst now (key_bucket burst key now s)"

definition level_of_row :: "rat \<Rightarrow> rat \<Rightarrow> string \<times> string \<Rightarrow> timestamp \<Rightarrow> budget_rows \<Rightarrow> rat" where
  "level_of_row burst rate key now s = bucket_level burst rate now (row_bucket burst key now s)"

definition good_row :: "rat \<Rightarrow> string \<times> string \<Rightarrow> timestamp \<Rightarrow> budget_rows \<Rightarrow> bool" where
  "good_row burst key now s \<longleftrightarrow> good_bucket burst now (row_bucket burst key now s)"

lemma new_bucket_level: "bucket_level burst rate now (new_bucket burst now) = burst"
  by (simp add: bucket_level_def new_bucket_def refilled_def)

lemma new_bucket_good: "1 \<le> burst \<Longrightarrow> good_bucket burst now (new_bucket burst now)"
  by (simp add: good_bucket_def new_bucket_def)

lemma bucket_level_later:
  assumes "0 < rate" and "good_bucket burst now b" and "now \<le> later"
  shows "bucket_level burst rate later b = refilled burst rate (bucket_level burst rate now b) (later - now)"
  using assms by (simp add: bucket_level_def refilled_twice)

lemma bucket_level_range:
  "1 \<le> burst \<Longrightarrow> 0 < rate \<Longrightarrow> good_bucket burst now b \<Longrightarrow> 0 \<le> bucket_level burst rate now b \<and> bucket_level burst rate now b \<le> burst"
  by (auto simp: bucket_level_def good_bucket_def intro!: refilled_range)

lemma taken_bucket:
  assumes "1 \<le> burst" and "0 < rate" and "good_bucket burst now b"
  defines "l \<equiv> bucket_level burst rate now b"
  shows "1 \<le> l \<Longrightarrow> good_bucket burst now \<lparr>bu_tokens = l - 1, bu_at = now\<rparr>"
    "1 \<le> l \<Longrightarrow> bucket_level burst rate now \<lparr>bu_tokens = l - 1, bu_at = now\<rparr> = l - 1"
    "good_bucket burst now \<lparr>bu_tokens = l, bu_at = now\<rparr>"
    "bucket_level burst rate now \<lparr>bu_tokens = l, bu_at = now\<rparr> = l"
proof -
  have "0 \<le> l \<and> l \<le> burst" unfolding l_def by (rule bucket_level_range [OF assms(1-3)])
  then show "1 \<le> l \<Longrightarrow> good_bucket burst now \<lparr>bu_tokens = l - 1, bu_at = now\<rparr>"
    "1 \<le> l \<Longrightarrow> bucket_level burst rate now \<lparr>bu_tokens = l - 1, bu_at = now\<rparr> = l - 1"
    "good_bucket burst now \<lparr>bu_tokens = l, bu_at = now\<rparr>"
    "bucket_level burst rate now \<lparr>bu_tokens = l, bu_at = now\<rparr> = l"
    by (simp_all add: good_bucket_def bucket_level_def refilled_now)
qed

lemma bucket_keeps_the_promise:
  assumes "1 \<le> capacity" and "0 < rate"
  shows "token_bucket capacity rate (consume_at capacity rate) (bucket_level capacity rate) (good_bucket capacity)"
proof
  fix now later b r c
  assume good: "good_bucket capacity now b"
  note range = bucket_level_range [OF assms good] and taken = taken_bucket [OF assms good]
  show "now \<le> later \<Longrightarrow> good_bucket capacity later b" using good by (auto simp: good_bucket_def)
  show "now \<le> later \<Longrightarrow> bucket_level capacity rate later b = refilled capacity rate (bucket_level capacity rate now b) (later - now)"
    by (rule bucket_level_later [OF assms(2) good])
  show "0 \<le> bucket_level capacity rate now b \<and> bucket_level capacity rate now b \<le> capacity" by (rule range)
  assume run: "consume_at capacity rate now b = (r, c)"
  show "good_bucket capacity now c" "tk_granted r = (1 \<le> bucket_level capacity rate now b)"
    "bucket_level capacity rate now c = bucket_level capacity rate now b - (if tk_granted r then 1 else 0)"
    using run taken by (auto simp: consume_at_eq Let_def split: if_splits)
  show "\<not> tk_granted r \<Longrightarrow> tk_wait r = \<lceil>(1 - bucket_level capacity rate now b) / rate * 1000\<rceil>"
    using run by (auto simp: consume_at_eq Let_def split: if_splits)
qed (use assms in simp_all)

lemma in_process_take_eq:
  "in_process_take burst rate key now s = (let l = level_of_key burst rate key now s in
    if 1 \<le> l then (\<lparr>tk_granted = True, tk_wait = 0\<rparr>, s(key \<mapsto> \<lparr>bu_tokens = l - 1, bu_at = now\<rparr>))
    else (let w = \<lceil>(1 - l) / rate * 1000\<rceil> in (\<lparr>tk_granted = (w \<le> 0), tk_wait = w\<rparr>, s(key \<mapsto> \<lparr>bu_tokens = l, bu_at = now\<rparr>))))"
  by (simp add: in_process_take_def take_key_def level_of_key_def key_bucket_def bucket_level_def refilled_def Let_def)

lemma a_positive_wait: "0 < rate \<Longrightarrow> l < 1 \<Longrightarrow> \<not> \<lceil>(1 - l) / rate * 1000\<rceil> \<le> (0 :: int)" for l rate :: rat
  by (simp add: not_le zero_less_ceiling)

lemma in_process_keeps_the_promise:
  assumes "1 \<le> burst" and "0 < rate"
  shows "token_bucket burst rate (in_process_take burst rate key) (level_of_key burst rate key) (good_key burst key)"
proof
  fix now later s r t
  assume good: "good_key burst key now s"
  then have b: "good_bucket burst now (key_bucket burst key now s)" by (simp add: good_key_def)
  note range = bucket_level_range [OF assms b] and taken = taken_bucket [OF assms b, folded level_of_key_def]
  show "now \<le> later \<Longrightarrow> good_key burst key later s"
    using b new_bucket_good [OF assms(1)] by (auto simp: good_key_def key_bucket_def good_bucket_def split: option.splits)
  show "now \<le> later \<Longrightarrow> level_of_key burst rate key later s = refilled burst rate (level_of_key burst rate key now s) (later - now)"
    using bucket_level_later [OF assms(2) b, of later] assms(2)
    by (cases "s key") (simp_all add: level_of_key_def key_bucket_def new_bucket_level refilled_def)
  show "0 \<le> level_of_key burst rate key now s \<and> level_of_key burst rate key now s \<le> burst"
    using range by (simp add: level_of_key_def)
  assume run: "in_process_take burst rate key now s = (r, t)"
  show "good_key burst key now t" "tk_granted r = (1 \<le> level_of_key burst rate key now s)"
    "level_of_key burst rate key now t = level_of_key burst rate key now s - (if tk_granted r then 1 else 0)"
    using run taken a_positive_wait [OF assms(2), of "level_of_key burst rate key now s"]
    by (auto simp: in_process_take_eq Let_def good_key_def key_bucket_def level_of_key_def split: if_splits)
  show "\<not> tk_granted r \<Longrightarrow> tk_wait r = \<lceil>(1 - level_of_key burst rate key now s) / rate * 1000\<rceil>"
    using run by (auto simp: in_process_take_eq Let_def split: if_splits)
qed (use assms in simp_all)

lemma pg_take_eq:
  assumes "1 \<le> burst" and "0 < rate"
  shows "pg_take burst rate key now s = (let l = level_of_row burst rate key now s in
    if 1 \<le> l then (\<lparr>tk_granted = True, tk_wait = 0\<rparr>, s(key \<mapsto> \<lparr>bu_tokens = l - 1, bu_at = now\<rparr>))
    else (\<lparr>tk_granted = False, tk_wait = \<lceil>(1 - l) / rate * 1000\<rceil>\<rparr>, s))"
proof (cases "s key")
  case None
  then show ?thesis using assms by (simp add: pg_take_def level_of_row_def row_bucket_def new_bucket_level)
next
  case (Some b)
  define l where "l = min burst (bu_tokens b + of_int (now - bu_at b) / 1000 * rate)"
  have level: "level_of_row burst rate key now s = l"
    by (simp add: level_of_row_def row_bucket_def Some bucket_level_def refilled_def l_def)
  have "max 1 \<lceil>max 0 ((1 - l) / rate) * 1000\<rceil> = \<lceil>(1 - l) / rate * 1000\<rceil>" if "l < 1"
    using a_positive_wait [OF assms(2) that] that assms(2) by (simp add: max_def)
  then show ?thesis
    unfolding pg_take_def deficit_def level Let_def Some option.case l_def [symmetric]
    by (cases "1 \<le> l") simp_all
qed

lemma pg_keeps_the_promise:
  assumes "1 \<le> burst" and "0 < rate"
  shows "token_bucket burst rate (pg_take burst rate key) (level_of_row burst rate key) (good_row burst key)"
proof
  fix now later s r t
  assume good: "good_row burst key now s"
  then have b: "good_bucket burst now (row_bucket burst key now s)" by (simp add: good_row_def)
  note range = bucket_level_range [OF assms b] and taken = taken_bucket [OF assms b, folded level_of_row_def]
  show "now \<le> later \<Longrightarrow> good_row burst key later s"
    using b new_bucket_good [OF assms(1)] by (auto simp: good_row_def row_bucket_def good_bucket_def split: option.splits)
  show "now \<le> later \<Longrightarrow> level_of_row burst rate key later s = refilled burst rate (level_of_row burst rate key now s) (later - now)"
    using bucket_level_later [OF assms(2) b, of later] assms(2)
    by (cases "s key") (simp_all add: level_of_row_def row_bucket_def new_bucket_level refilled_def)
  show "0 \<le> level_of_row burst rate key now s \<and> level_of_row burst rate key now s \<le> burst"
    using range by (simp add: level_of_row_def)
  assume run: "pg_take burst rate key now s = (r, t)"
  show "good_row burst key now t" "tk_granted r = (1 \<le> level_of_row burst rate key now s)"
    "level_of_row burst rate key now t = level_of_row burst rate key now s - (if tk_granted r then 1 else 0)"
    using run taken good by (auto simp: pg_take_eq [OF assms] Let_def good_row_def row_bucket_def level_of_row_def split: if_splits)
  show "\<not> tk_granted r \<Longrightarrow> tk_wait r = \<lceil>(1 - level_of_row burst rate key now s) / rate * 1000\<rceil>"
    using run by (auto simp: pg_take_eq [OF assms] Let_def split: if_splits)
qed (use assms in simp_all)

text \<open>A limit of at least one request per second makes the three of them buckets.\<close>

locale request_limit =
  fixes burst :: rat and rate :: rat
  assumes whole_token: "1 \<le> burst" and some_rate: "0 < rate"

sublocale request_limit \<subseteq> local_bucket: token_bucket burst rate "consume_at burst rate" "bucket_level burst rate" "good_bucket burst"
  by (rule bucket_keeps_the_promise [OF whole_token some_rate])

sublocale request_limit \<subseteq> in_process: token_bucket burst rate "in_process_take burst rate key" "level_of_key burst rate key"
    "good_key burst key" for key
  by (rule in_process_keeps_the_promise [OF whole_token some_rate])

sublocale request_limit \<subseteq> shared_row: token_bucket burst rate "pg_take burst rate key" "level_of_row burst rate key"
    "good_row burst key" for key
  by (rule pg_keeps_the_promise [OF whole_token some_rate])

text \<open>\<open>DEFAULT_THROTTLE_CONFIG.requestsPerSecond\<close>.\<close>

definition default_requests_per_second :: rat where
  "default_requests_per_second = 10"

interpretation default_limit: request_limit default_requests_per_second default_requests_per_second
  by unfold_locales (simp_all add: default_requests_per_second_def)

text \<open>
  C28: In any stretch of time the requests granted are at most one burst and what the rate refills in it,
  whichever budget grants them: the bucket of a pass, the one of a process, or the row every process of
  the service takes from, in whatever order their statements run.
\<close>
theorem no_budget_grants_more_than_its_rate:
  assumes "1 \<le> burst" and "0 < rate"
    and "sorted (now # clocks)" and "\<forall>u \<in> set clocks. u \<le> until" and "now \<le> until"
    and "good_bucket burst now bucket" and "good_key burst key now buckets" and "good_row burst row_key now rows"
  shows "of_nat (fst (granted_of (consume_at burst rate) clocks bucket)) \<le> burst + of_int (until - now) / 1000 * rate
    \<and> of_nat (fst (granted_of (in_process_take burst rate key) clocks buckets)) \<le> burst + of_int (until - now) / 1000 * rate
    \<and> of_nat (fst (granted_of (pg_take burst rate row_key) clocks rows)) \<le> burst + of_int (until - now) / 1000 * rate"
  using token_bucket.granted_in_a_stretch [OF bucket_keeps_the_promise [OF assms(1,2)], OF assms(6,3,4,5)]
    token_bucket.granted_in_a_stretch [OF in_process_keeps_the_promise [OF assms(1,2), of key], OF assms(7,3,4,5)]
    token_bucket.granted_in_a_stretch [OF pg_keeps_the_promise [OF assms(1,2), of row_key], OF assms(8,3,4,5)]
  by blast

theorem no_budget_grants_more_than_its_rate_witness:
  "fst (granted_of (pg_take 2 1 (''t1'', ''graph'')) [0, 0, 0, 500, 1000, 1000] Map.empty) = 3
    \<and> of_nat (fst (granted_of (pg_take 2 1 (''t1'', ''graph'')) [0, 0, 0, 500, 1000, 1000] Map.empty)) \<le> (3 :: rat)"
proof -
  have "of_nat (fst (granted_of (pg_take 2 1 (''t1'', ''graph'')) [0, 0, 0, 500, 1000, 1000] Map.empty)) \<le> (2 :: rat) + of_int (1000 - 0) / 1000 * 1"
    by (rule no_budget_grants_more_than_its_rate [of 2 1 0 _ 1000 "new_bucket 2 0" "''t1:graph''" Map.empty "(''t1'', ''graph'')" Map.empty,
        THEN conjunct2, THEN conjunct2])
      (auto simp: good_key_def key_bucket_def good_row_def row_bucket_def intro!: new_bucket_good)
  moreover have "fst (granted_of (pg_take 2 1 (''t1'', ''graph'')) [0, 0, 0, 500, 1000, 1000] Map.empty) = 3"
    by (simp add: pg_take_eq Let_def level_of_row_def row_bucket_def bucket_level_def new_bucket_def refilled_def)
  ultimately show ?thesis by simp
qed

text \<open>
  Waiting for permission ends: when no one else takes, and every timer fires no earlier than it was
  set for, \<open>acquire\<close> returns with a token from each of the three budgets, the shared one although it cuts
  every wait at two seconds.
\<close>
theorem acquiring_ends:
  assumes "1 \<le> burst" and "0 < rate" and "\<forall>w t. t + w \<le> wake w t"
    and "good_bucket burst now bucket" and "good_key burst key now buckets" and "good_row burst row_key now rows"
  shows "(\<exists>out. acquire (consume_at burst rate) wake now bucket = Some out)
    \<and> (\<exists>out. acquire (in_process_take burst rate key) wake now buckets = Some out)
    \<and> (\<exists>out. acquire (pg_take burst rate row_key) (\<lambda>w. wake (min w MAX_WAIT_MS)) now rows = Some out)"
proof -
  have timers: "t + min w MAX_WAIT_MS \<le> wake w t" "t + min w MAX_WAIT_MS \<le> wake (min w MAX_WAIT_MS) t" for w t
    using assms(3) [rule_format, of t w] assms(3) [rule_format, of t "min w MAX_WAIT_MS"] by auto
  have "0 < MAX_WAIT_MS" by (simp add: MAX_WAIT_MS_def)
  then show ?thesis
    using token_bucket.acquire_returns [OF bucket_keeps_the_promise [OF assms(1,2)], OF _ timers(1) assms(4)]
      token_bucket.acquire_returns [OF in_process_keeps_the_promise [OF assms(1,2), of key], OF _ timers(1) assms(5)]
      token_bucket.acquire_returns [OF pg_keeps_the_promise [OF assms(1,2), of row_key], OF _ timers(2) assms(6)]
    by blast
qed

theorem acquiring_ends_witness:
  "\<exists>out. acquire (pg_take 10 10 (''t1'', ''graph'')) (\<lambda>w t. t + min w MAX_WAIT_MS) 0
    (\<lambda>_. Some \<lparr>bu_tokens = 0, bu_at = 0\<rparr>) = Some out"
  using acquiring_ends [where burst = 10 and rate = 10 and wake = "\<lambda>w t. t + w" and now = 0 and bucket = "new_bucket 10 0"
      and key = "''t1:graph''" and buckets = Map.empty and row_key = "(''t1'', ''graph'')"
      and rows = "\<lambda>_. Some \<lparr>bu_tokens = 0, bu_at = 0\<rparr>"]
  by (simp add: good_key_def key_bucket_def good_row_def row_bucket_def good_bucket_def new_bucket_def)

subsection \<open>A rate below one request per second\<close>

lemma never_granted:
  assumes "\<And>now s. I s \<Longrightarrow> \<not> tk_granted (fst (take_at now s)) \<and> I (snd (take_at now s))" and "I s"
  shows "acquire take_at wake now s = None"
proof -
  have "tk = take_at \<longrightarrow> \<not> I s" if "acquire tk wk n s = Some out" for tk and wk :: "int \<Rightarrow> timestamp \<Rightarrow> timestamp" and n s out
  proof (rule acquire.raw_induct [where P = "\<lambda>tk wk n s out. tk = take_at \<longrightarrow> \<not> I s", OF _ that])
    fix acq :: "(timestamp \<Rightarrow> 'a \<Rightarrow> take_result \<times> 'a) \<Rightarrow> (int \<Rightarrow> timestamp \<Rightarrow> timestamp) \<Rightarrow> timestamp \<Rightarrow> 'a \<Rightarrow> (timestamp \<times> 'a) option"
      and tk wk n s out
    assume ih: "\<And>tk wk n s out. acq tk wk n s = Some out \<Longrightarrow> tk = take_at \<longrightarrow> \<not> I s"
      and body: "(case tk n s of (r, t) \<Rightarrow> if tk_granted r then Some (n, t) else acq tk wk (wk (tk_wait r) n) t) = Some out"
    show "tk = take_at \<longrightarrow> \<not> I s"
    proof (intro impI notI)
      assume here: "tk = take_at" "I s"
      obtain r t where "take_at n s = (r, t)" by fastforce
      with assms(1) [OF here(2), of n] have "\<not> tk_granted r" "I t" "tk n s = (r, t)" by (simp_all add: here(1))
      with body ih [of tk wk _ t out] here(1) show False by auto
    qed
  qed
  with assms(2) show ?thesis by (cases "acquire take_at wake now s") auto
qed

text \<open>
  C29: A budget of less than one request per second, with the burst that is then its default, never holds
  a whole token. In one process, a bucket of its own or one of a shared map grants nothing, not even the
  first request; the database's row grants the one that creates it, and nothing after. Whoever waits for
  it waits for ever. The shared budget checks its rate, and accepts these.
\<close>
theorem below_one_request_per_second_only_a_new_row_grants:
  assumes "0 < rate" and "rate < 1"
  shows "acquire (consume_at rate rate) wake now (new_bucket rate now) = None
    \<and> acquire (in_process_take rate rate key) wake now Map.empty = None
    \<and> tk_granted (fst (pg_take rate rate row_key now Map.empty))
    \<and> acquire (pg_take rate rate row_key) wake now (snd (pg_take rate rate row_key now Map.empty)) = None"
proof (intro conjI)
  have low: "refilled rate rate tokens elapsed < 1" for tokens elapsed
    using assms by (simp add: refilled_def min_def)
  show "acquire (consume_at rate rate) wake now (new_bucket rate now) = None"
    by (rule never_granted [where I = "\<lambda>_. True"]) (use low in \<open>simp_all add: consume_at_eq bucket_level_def Let_def not_le\<close>)
  show "acquire (in_process_take rate rate key) wake now Map.empty = None"
  proof (rule never_granted [where I = "\<lambda>_. True"])
    fix n s
    define l where "l = level_of_key rate rate key n s"
    have "l < 1" unfolding l_def level_of_key_def bucket_level_def by (rule low)
    with a_positive_wait [OF assms(1) this]
    show "\<not> tk_granted (fst (in_process_take rate rate key n s)) \<and> True"
      unfolding in_process_take_eq l_def [symmetric] Let_def using \<open>l < 1\<close>
      by (simp only: not_le [symmetric] if_False fst_conv take_result.simps simp_thms)
  qed simp
  show "tk_granted (fst (pg_take rate rate row_key now Map.empty))" by (simp add: pg_take_def Let_def)
  show "acquire (pg_take rate rate row_key) wake now (snd (pg_take rate rate row_key now Map.empty)) = None"
    using assms(2) by (intro never_granted [where I = "\<lambda>rows. rows row_key \<noteq> None"]) (auto simp: pg_take_def Let_def)
qed

theorem below_one_request_per_second_only_a_new_row_grants_witness:
  "acquire (in_process_take (1 / 2) (1 / 2) ''t1:graph'') (\<lambda>w t. t + w) 0 Map.empty = None"
  using below_one_request_per_second_only_a_new_row_grants [of "1 / 2" "\<lambda>w t. t + w" 0 "''t1:graph''"] by simp

end
