(* ===== verification/Byte_Budget.thy ===== *)
theory Byte_Budget
  imports Ports Texts
begin

text \<open>
  The download meters of \<open>shared/src/rate-budget.ts\<close> and \<open>ledger/src/pg-rate-budget.ts\<close>: the bytes a
  provider sent in a window of 24 hours that begins with its first byte. One meter is a map of one
  process (\<open>InProcessByteBudget\<close>), the other a row every process of the service writes
  (\<open>PgByteBudget\<close>); and \<open>imapDownloadPlan\<close>, which endpoint gets one. Byte counts are whole numbers, None
  where the source has NaN or an infinity; a clock is a number of milliseconds, read once per call.

  The locale \<open>byte_meter\<close> is what both keep of one account; the bound on what is downloaded by a reader
  that asks the meter before each fetch is proved in it.
\<close>

subsection \<open>One window\<close>

record meter_window =
  mw_startedAt :: timestamp
  mw_spent :: int

definition DAY_MS :: int where
  "DAY_MS = 24 * 60 * 60 * 1000"

definition countableBytes :: "int option \<Rightarrow> int" where
  "countableBytes bytes = (case bytes of Some n \<Rightarrow> if 0 < n then n else 0 | None \<Rightarrow> 0)"

definition describe :: "int \<Rightarrow> meter_window \<Rightarrow> budget_state" where
  "describe ceiling w =
    \<lparr>bs_spentBytes = mw_spent w, bs_ceilingBytes = ceiling, bs_remainingBytes = max 0 (ceiling - mw_spent w),
     bs_windowResetsAt = Some (mw_startedAt w + DAY_MS)\<rparr>"

definition no_window :: "int \<Rightarrow> budget_state" where
  "no_window ceiling =
    \<lparr>bs_spentBytes = 0, bs_ceilingBytes = ceiling, bs_remainingBytes = ceiling, bs_windowResetsAt = None\<rparr>"

subsection \<open>The meter of one process\<close>

type_synonym meter_windows = "string \<rightharpoonup> meter_window"

definition meter_key :: "string \<Rightarrow> string \<Rightarrow> string" where
  "meter_key tenantId provider = tenantId @ '':'' @ provider"

definition in_process_spend ::
  "int \<Rightarrow> string \<Rightarrow> string \<Rightarrow> int option \<Rightarrow> timestamp \<Rightarrow> meter_windows \<Rightarrow> budget_state \<times> meter_windows" where
  "in_process_spend ceiling tenantId provider bytes now windows =
    (let key = meter_key tenantId provider;
         fresh = \<lparr>mw_startedAt = now, mw_spent = countableBytes bytes\<rparr>;
         window = (case windows key of
             None \<Rightarrow> fresh
           | Some current \<Rightarrow>
               if now < mw_startedAt current + DAY_MS
               then \<lparr>mw_startedAt = mw_startedAt current, mw_spent = mw_spent current + countableBytes bytes\<rparr>
               else fresh)
     in (describe ceiling window, windows(key \<mapsto> window)))"

definition in_process_state :: "int \<Rightarrow> string \<Rightarrow> string \<Rightarrow> timestamp \<Rightarrow> meter_windows \<Rightarrow> budget_state" where
  "in_process_state ceiling tenantId provider now windows =
    (case windows (meter_key tenantId provider) of
       None \<Rightarrow> no_window ceiling
     | Some current \<Rightarrow> if mw_startedAt current + DAY_MS \<le> now then no_window ceiling else describe ceiling current)"

subsection \<open>The meter the processes share\<close>

text \<open>
  The table \<open>byte_budget\<close>, one row per tenant and provider. \<open>spend\<close> is one statement: the insert when
  there is no row, else the update, each of its columns a CASE on the age of the window.
\<close>

type_synonym meter_rows = "(string \<times> string) \<rightharpoonup> meter_window"

definition upsert_window :: "int \<Rightarrow> timestamp \<Rightarrow> meter_window option \<Rightarrow> meter_window" where
  "upsert_window n now row = (case row of
      None \<Rightarrow> \<lparr>mw_startedAt = now, mw_spent = n\<rparr>
    | Some r \<Rightarrow>
        \<lparr>mw_startedAt = (if mw_startedAt r + DAY_MS \<le> now then now else mw_startedAt r),
         mw_spent = (if mw_startedAt r + DAY_MS \<le> now then n else mw_spent r + n)\<rparr>)"

definition pg_spend ::
  "int \<Rightarrow> string \<Rightarrow> string \<Rightarrow> int option \<Rightarrow> timestamp \<Rightarrow> meter_rows \<Rightarrow> budget_state \<times> meter_rows" where
  "pg_spend ceiling tenantId provider bytes now rows =
    (let n = (case bytes of Some b \<Rightarrow> if 0 < b then b else 0 | None \<Rightarrow> 0);
         row = upsert_window n now (rows (tenantId, provider))
     in (describe ceiling row, rows((tenantId, provider) \<mapsto> row)))"

definition pg_state :: "int \<Rightarrow> string \<Rightarrow> string \<Rightarrow> timestamp \<Rightarrow> meter_rows \<Rightarrow> budget_state" where
  "pg_state ceiling tenantId provider now rows =
    (case rows (tenantId, provider) of
       None \<Rightarrow> no_window ceiling
     | Some row \<Rightarrow>
         let expired = mw_startedAt row + DAY_MS \<le> now in
         if expired then no_window ceiling else describe ceiling row)"

subsection \<open>Which endpoint is metered\<close>

definition GMAIL_IMAP_DOWNLOAD_BYTES_PER_DAY :: int where
  "GMAIL_IMAP_DOWNLOAD_BYTES_PER_DAY = 2500000000"

record download_plan =
  dl_provider :: string
  dl_bytesPerDay :: int

text \<open>\<open>configured\<close> is None when nothing is configured, and where the source has NaN.\<close>

definition imapDownloadPlan :: "string option \<Rightarrow> int option \<Rightarrow> download_plan option" where
  "imapDownloadPlan host configuredBytesPerDay =
    (case host of
       None \<Rightarrow> None
     | Some host \<Rightarrow>
         if host = [] then None
         else
           let h = to_lower (trim host);
               gmail = (h = ''imap.gmail.com'');
               configured = (case configuredBytesPerDay of Some n \<Rightarrow> if 0 < n then Some n else None | None \<Rightarrow> None);
               ceiling = (if gmail
                 then Some (min (case configured of Some n \<Rightarrow> n | None \<Rightarrow> GMAIL_IMAP_DOWNLOAD_BYTES_PER_DAY)
                   GMAIL_IMAP_DOWNLOAD_BYTES_PER_DAY)
                 else configured)
           in (case ceiling of
               None \<Rightarrow> None
             | Some c \<Rightarrow> Some \<lparr>dl_provider = (if gmail then ''gmail-imap'' else ''imap:'' @ h), dl_bytesPerDay = c\<rparr>))"

subsection \<open>What both meters keep of one account\<close>

text \<open>
  A meter of one account, seen through the window it has of it. A reader asks the state before each
  fetch, stops while nothing remains, and records what it fetched.
\<close>

definition live_window :: "timestamp \<Rightarrow> meter_window option \<Rightarrow> meter_window option" where
  "live_window now w = (case w of
      None \<Rightarrow> None
    | Some v \<Rightarrow> if now < mw_startedAt v + DAY_MS then Some v else None)"

definition spent_window :: "int \<Rightarrow> timestamp \<Rightarrow> meter_window option \<Rightarrow> meter_window" where
  "spent_window n now w = (case live_window now w of
      None \<Rightarrow> \<lparr>mw_startedAt = now, mw_spent = n\<rparr>
    | Some v \<Rightarrow> \<lparr>mw_startedAt = mw_startedAt v, mw_spent = mw_spent v + n\<rparr>)"

definition state_of_window :: "int \<Rightarrow> timestamp \<Rightarrow> meter_window option \<Rightarrow> budget_state" where
  "state_of_window ceiling now w = (case live_window now w of None \<Rightarrow> no_window ceiling | Some v \<Rightarrow> describe ceiling v)"

fun gated_reader ::
  "(int option \<Rightarrow> timestamp \<Rightarrow> 's \<Rightarrow> budget_state \<times> 's) \<Rightarrow> (timestamp \<Rightarrow> 's \<Rightarrow> budget_state)
    \<Rightarrow> (timestamp \<times> int) list \<Rightarrow> 's \<Rightarrow> (timestamp \<times> int) list" where
  "gated_reader spend state [] s = []"
| "gated_reader spend state ((now, amount) # rest) s =
    (if bs_remainingBytes (state now s) \<le> 0 then gated_reader spend state rest s
     else (now, amount) # gated_reader spend state rest (snd (spend (Some amount) now s)))"

text \<open>What was fetched from \<open>start\<close> on, for a day.\<close>

definition in_a_day :: "timestamp \<Rightarrow> (timestamp \<times> int) list \<Rightarrow> int" where
  "in_a_day start fetched = sum_list (map snd (filter (\<lambda>(t, n). start \<le> t \<and> t < start + DAY_MS) fetched))"

definition a_reading :: "int \<Rightarrow> (timestamp \<times> int) list \<Rightarrow> bool" where
  "a_reading m reading \<longleftrightarrow> sorted (map fst reading) \<and> (\<forall>(t, n) \<in> set reading. 0 \<le> n \<and> n \<le> m)"

lemma a_reading_Cons:
  assumes "a_reading m ((t, n) # rest)"
  shows "a_reading m rest" "0 \<le> n" "n \<le> m" "u \<le> t \<Longrightarrow> \<forall>(t, n) \<in> set ((t, n) # rest). u \<le> t"
  using assms by (auto simp: a_reading_def)

lemma fetched_of_the_reading: "set (gated_reader spend state reading s) \<subseteq> set reading"
  by (induction spend state reading s rule: gated_reader.induct) auto

locale byte_meter =
  fixes ceiling :: int
    and spend :: "int option \<Rightarrow> timestamp \<Rightarrow> 's \<Rightarrow> budget_state \<times> 's"
    and state :: "timestamp \<Rightarrow> 's \<Rightarrow> budget_state"
    and window :: "'s \<Rightarrow> meter_window option"
  assumes a_ceiling: "0 < ceiling"
    and spend_window: "window (snd (spend bytes now s)) = Some (spent_window (countableBytes bytes) now (window s))"
    and spend_answer: "fst (spend bytes now s) = describe ceiling (spent_window (countableBytes bytes) now (window s))"
    and state_answer: "state now s = state_of_window ceiling now (window s)"
begin

abbreviation reads :: "(timestamp \<times> int) list \<Rightarrow> 's \<Rightarrow> (timestamp \<times> int) list" where
  "reads \<equiv> gated_reader spend state"

lemma something_remains:
  "0 < bs_remainingBytes (state now s) \<longleftrightarrow> (case live_window now (window s) of None \<Rightarrow> True | Some v \<Rightarrow> mw_spent v < ceiling)"
  using a_ceiling
  by (simp add: state_answer state_of_window_def no_window_def describe_def less_max_iff_disj split: option.split)

lemma spends_amount:
  assumes "0 \<le> n"
  shows "window (snd (spend (Some n) t s)) = Some (spent_window n t (window s))"
  using assms by (simp add: spend_window countableBytes_def)

text \<open>
  What is read before a moment \<open>u\<close>: with a window that ends no earlier than a day before \<open>u\<close>, what it
  still lets through, and a whole window after it.
\<close>

definition read_before :: "timestamp \<Rightarrow> (timestamp \<times> int) list \<Rightarrow> 's \<Rightarrow> int" where
  "read_before u reading s = sum_list (map snd (filter (\<lambda>(t, n). t < u) (reads reading s)))"

lemma read_before_Nil: "read_before u [] s = 0"
  by (simp add: read_before_def)

lemma read_before_Cons:
  "read_before u ((t, n) # rest) s =
    (if 0 < bs_remainingBytes (state t s) then (if t < u then n else 0) + read_before u rest (snd (spend (Some n) t s))
     else read_before u rest s)"
  by (auto simp: read_before_def)

lemma nothing_read_after:
  "\<forall>(t, n) \<in> set reading. u \<le> t \<Longrightarrow> read_before u reading s = 0"
  by (induction reading arbitrary: s) (auto simp: read_before_Nil read_before_Cons)

lemma read_in_one_window:
  assumes "window s = Some v" and "u \<le> mw_startedAt v + DAY_MS" and "a_reading m reading"
  shows "read_before u reading s \<le> max 0 (ceiling - 1 + m - mw_spent v)"
  using assms
proof (induction reading arbitrary: s v)
  case Nil
  then show ?case by (simp add: read_before_Nil)
next
  case (Cons item reading)
  obtain t n where item: "item = (t, n)" by (cases item)
  note reading = a_reading_Cons [OF Cons.prems(3) [unfolded item]]
  show ?case
  proof (cases "u \<le> t")
    case True
    then show ?thesis by (simp only: item nothing_read_after [OF reading(4)])
  next
    case False
    then have live: "live_window t (window s) = Some v" using Cons.prems(1,2) by (simp add: live_window_def)
    let ?v = "\<lparr>mw_startedAt = mw_startedAt v, mw_spent = mw_spent v + n\<rparr>"
    have next_window: "window (snd (spend (Some n) t s)) = Some ?v"
      using spends_amount [OF reading(2), of t s] live by (simp add: spent_window_def)
    show ?thesis
    proof (cases "mw_spent v < ceiling")
      case True
      then have "read_before u (item # reading) s = n + read_before u reading (snd (spend (Some n) t s))"
        using False live by (simp add: item read_before_Cons something_remains)
      with Cons.IH [OF next_window _ reading(1)] Cons.prems(2) reading(2,3) True show ?thesis by simp
    next
      case False
      then have "read_before u (item # reading) s = read_before u reading s"
        using live by (simp add: item read_before_Cons something_remains)
      with Cons.IH [OF Cons.prems(1,2) reading(1)] show ?thesis by simp
    qed
  qed
qed

lemma read_in_a_new_window:
  assumes "live_window t (window s) = None" and "u \<le> t + DAY_MS" and "a_reading m ((t, n) # rest)"
  shows "read_before u ((t, n) # rest) s \<le> ceiling - 1 + m"
proof -
  note reading = a_reading_Cons [OF assms(3)]
  have "window (snd (spend (Some n) t s)) = Some \<lparr>mw_startedAt = t, mw_spent = n\<rparr>"
    using spends_amount [OF reading(2), of t s] assms(1) by (simp add: spent_window_def)
  from read_in_one_window [OF this _ reading(1), of u] assms(2)
  have "read_before u rest (snd (spend (Some n) t s)) \<le> max 0 (ceiling - 1 + m - n)" by simp
  moreover have "read_before u ((t, n) # rest) s = (if t < u then n else 0) + read_before u rest (snd (spend (Some n) t s))"
    using assms(1) by (simp add: read_before_Cons something_remains)
  ultimately show ?thesis using reading(2,3) a_ceiling by (auto split: if_splits)
qed

lemma read_in_two_windows:
  assumes "window s = Some v" and "0 \<le> mw_spent v" and "u \<le> mw_startedAt v + 2 * DAY_MS" and "a_reading m reading" and "0 \<le> m"
  shows "read_before u reading s \<le> max 0 (ceiling - 1 + m - mw_spent v) + (ceiling - 1 + m)"
  using assms
proof (induction reading arbitrary: s v)
  case Nil
  then show ?case using a_ceiling by (simp add: read_before_Nil)
next
  case (Cons item reading)
  obtain t n where item: "item = (t, n)" by (cases item)
  note reading = a_reading_Cons [OF Cons.prems(4) [unfolded item]]
  show ?case
  proof (cases "t < mw_startedAt v + DAY_MS")
    case False
    then have "live_window t (window s) = None" using Cons.prems(1) by (simp add: live_window_def)
    from read_in_a_new_window [OF this _ Cons.prems(4) [unfolded item], of u] False Cons.prems(3)
    show ?thesis by (simp add: item)
  next
    case True
    then have live: "live_window t (window s) = Some v" using Cons.prems(1) by (simp add: live_window_def)
    let ?v = "\<lparr>mw_startedAt = mw_startedAt v, mw_spent = mw_spent v + n\<rparr>"
    have next_window: "window (snd (spend (Some n) t s)) = Some ?v"
      using spends_amount [OF reading(2), of t s] live by (simp add: spent_window_def)
    show ?thesis
    proof (cases "mw_spent v < ceiling")
      case True
      then have "read_before u (item # reading) s = (if t < u then n else 0) + read_before u reading (snd (spend (Some n) t s))"
        using live by (simp add: item read_before_Cons something_remains)
      with Cons.IH [OF next_window _ _ reading(1) Cons.prems(5)] Cons.prems(2,3) reading(2,3) True show ?thesis by simp
    next
      case False
      then have "read_before u (item # reading) s = read_before u reading s"
        using live by (simp add: item read_before_Cons something_remains)
      with Cons.IH [OF Cons.prems(1-3) reading(1) Cons.prems(5)] show ?thesis by simp
    qed
  qed
qed

text \<open>In no 24 hours are more than two windows met, and each lets through less than its ceiling and one fetch.\<close>

lemma read_in_a_day:
  assumes "a_reading m reading" and "0 \<le> m" and "\<forall>v. window s = Some v \<longrightarrow> 0 \<le> mw_spent v"
  shows "in_a_day start (reads reading s) \<le> 2 * (ceiling - 1 + m)"
  using assms
proof (induction reading arbitrary: s)
  case Nil
  then show ?case using a_ceiling by (simp add: in_a_day_def)
next
  case (Cons item reading)
  obtain t n where item: "item = (t, n)" by (cases item)
  note reading = a_reading_Cons [OF Cons.prems(1) [unfolded item]]
  show ?case
  proof (cases "start \<le> t")
    case True
    then have "\<forall>(t, n) \<in> set (reads (item # reading) s). start \<le> t"
      using reading(4) [of start] fetched_of_the_reading [of spend state "item # reading" s] by (fastforce simp: item)
    then have day: "in_a_day start (reads (item # reading) s) = read_before (start + DAY_MS) (item # reading) s"
      unfolding in_a_day_def read_before_def by (intro arg_cong [where f = sum_list] arg_cong [where f = "map snd"] filter_cong) auto
    show ?thesis
    proof (cases "live_window t (window s)")
      case None
      from read_in_a_new_window [OF None _ Cons.prems(1) [unfolded item], of "start + DAY_MS"] True Cons.prems(2) a_ceiling
      show ?thesis unfolding day by (simp add: item)
    next
      case (Some v)
      then have v: "window s = Some v" "t < mw_startedAt v + DAY_MS"
        by (auto simp: live_window_def split: option.splits if_splits)
      then have spent: "0 \<le> mw_spent v" and u: "start + DAY_MS \<le> mw_startedAt v + 2 * DAY_MS"
        using Cons.prems(3) True by auto
      from read_in_two_windows [OF v(1) spent u Cons.prems(1,2)] spent a_ceiling Cons.prems(2)
      show ?thesis unfolding day by (auto simp: max_def split: if_splits)
    qed
  next
    case False
    have next_window: "\<forall>v. window (snd (spend (Some n) t s)) = Some v \<longrightarrow> 0 \<le> mw_spent v"
      using spends_amount [OF reading(2), of t s] Cons.prems(3) reading(2)
      by (auto simp: spent_window_def live_window_def split: option.splits if_splits)
    from False Cons.IH [OF reading(1) Cons.prems(2) next_window] Cons.IH [OF reading(1) Cons.prems(2,3)]
    show ?thesis by (simp add: item in_a_day_def)
  qed
qed

end

subsection \<open>Both are meters of an account\<close>

lemma in_process_is_a_meter:
  assumes "0 < ceiling"
  shows "byte_meter ceiling (in_process_spend ceiling tenantId provider) (in_process_state ceiling tenantId provider)
    (\<lambda>windows. windows (meter_key tenantId provider))"
  using assms
  by unfold_locales
    (auto simp: in_process_spend_def in_process_state_def state_of_window_def spent_window_def live_window_def Let_def
      split: option.split)

lemma pg_is_a_meter:
  assumes "0 < ceiling"
  shows "byte_meter ceiling (pg_spend ceiling tenantId provider) (pg_state ceiling tenantId provider)
    (\<lambda>rows. rows (tenantId, provider))"
  using assms
  by unfold_locales
    (auto simp: pg_spend_def pg_state_def upsert_window_def state_of_window_def spent_window_def live_window_def
      countableBytes_def Let_def split: option.split)

locale download_account =
  fixes ceiling :: int and tenantId :: string and provider :: string
  assumes a_ceiling: "0 < ceiling"

sublocale download_account \<subseteq> in_process: byte_meter ceiling "in_process_spend ceiling tenantId provider"
    "in_process_state ceiling tenantId provider" "\<lambda>windows. windows (meter_key tenantId provider)"
  by (rule in_process_is_a_meter [OF a_ceiling])

sublocale download_account \<subseteq> shared_row: byte_meter ceiling "pg_spend ceiling tenantId provider"
    "pg_state ceiling tenantId provider" "\<lambda>rows. rows (tenantId, provider)"
  by (rule pg_is_a_meter [OF a_ceiling])

interpretation gmail: download_account GMAIL_IMAP_DOWNLOAD_BYTES_PER_DAY tenantId "''gmail-imap''" for tenantId
  by unfold_locales (simp add: GMAIL_IMAP_DOWNLOAD_BYTES_PER_DAY_def)

lemma plan_ceiling:
  assumes "imapDownloadPlan host configured = Some plan"
  shows "0 < dl_bytesPerDay plan"
  using assms
  by (auto simp: imapDownloadPlan_def Let_def GMAIL_IMAP_DOWNLOAD_BYTES_PER_DAY_def split: option.splits if_splits)

lemma gmail_plan:
  assumes "host \<noteq> []" and "to_lower (trim host) = ''imap.gmail.com''"
  obtains plan where "imapDownloadPlan (Some host) configured = Some plan" "dl_provider plan = ''gmail-imap''"
    "dl_bytesPerDay plan \<le> GMAIL_IMAP_DOWNLOAD_BYTES_PER_DAY"
  using assms by (simp add: imapDownloadPlan_def Let_def)

text \<open>
  C30: A Gmail mailbox has a meter whatever is configured, and a reader that asks the meter before each
  fetch never takes more than twice Google's daily ceiling, and twice its largest item, in any 24 hours:
  with the meter of one process and with the row the processes share, from whatever they hold.
\<close>
theorem gmail_is_never_read_past_two_ceilings:
  assumes "to_lower (trim host) = ''imap.gmail.com''" and "a_reading largest reading" and "0 \<le> largest"
    and "\<forall>w \<in> ran windows. 0 \<le> mw_spent w" and "\<forall>w \<in> ran rows. 0 \<le> mw_spent w"
  shows "\<exists>plan. imapDownloadPlan (Some host) configured = Some plan \<and> 0 < dl_bytesPerDay plan
    \<and> (let c = dl_bytesPerDay plan; p = dl_provider plan; most = 2 * (GMAIL_IMAP_DOWNLOAD_BYTES_PER_DAY - 1 + largest) in
        in_a_day start (gated_reader (in_process_spend c tenantId p) (in_process_state c tenantId p) reading windows) \<le> most
      \<and> in_a_day start (gated_reader (pg_spend c tenantId p) (pg_state c tenantId p) reading rows) \<le> most)"
proof -
  have "host \<noteq> []" using assms(1) by (auto simp: trim_def to_lower_def)
  then obtain plan where plan: "imapDownloadPlan (Some host) configured = Some plan"
      "dl_bytesPerDay plan \<le> GMAIL_IMAP_DOWNLOAD_BYTES_PER_DAY"
    by (rule gmail_plan [OF _ assms(1)])
  let ?c = "dl_bytesPerDay plan" and ?p = "dl_provider plan"
  have c: "0 < ?c" by (rule plan_ceiling [OF plan(1)])
  have kept: "\<forall>v. windows (meter_key tenantId ?p) = Some v \<longrightarrow> 0 \<le> mw_spent v"
    "\<forall>v. rows (tenantId, ?p) = Some v \<longrightarrow> 0 \<le> mw_spent v"
    using assms(4,5) by (blast intro: ranI)+
  have "in_a_day start (gated_reader (in_process_spend ?c tenantId ?p) (in_process_state ?c tenantId ?p) reading windows)
      \<le> 2 * (?c - 1 + largest)"
    by (rule byte_meter.read_in_a_day [OF in_process_is_a_meter [OF c] assms(2,3)]) (rule kept)
  moreover have "in_a_day start (gated_reader (pg_spend ?c tenantId ?p) (pg_state ?c tenantId ?p) reading rows)
      \<le> 2 * (?c - 1 + largest)"
    by (rule byte_meter.read_in_a_day [OF pg_is_a_meter [OF c] assms(2,3)]) (rule kept)
  ultimately show ?thesis using plan c by (intro exI [of _ plan]) (simp add: Let_def)
qed

theorem gmail_is_never_read_past_two_ceilings_witness:
  "\<exists>plan. imapDownloadPlan (Some '' IMAP.gmail.com'') (Some 9000000000) = Some plan \<and> 0 < dl_bytesPerDay plan
    \<and> in_a_day 0 (gated_reader (pg_spend (dl_bytesPerDay plan) ''t1'' (dl_provider plan))
        (pg_state (dl_bytesPerDay plan) ''t1'' (dl_provider plan)) [(0, 2000000000), (10, 2000000000), (20, 1), (86400000, 1)] Map.empty)
      \<le> 8999999998"
proof -
  have host: "to_lower (trim '' IMAP.gmail.com'') = ''imap.gmail.com''" by code_simp
  have reading: "a_reading 2000000000 [(0, 2000000000), (10, 2000000000), (20, 1), (86400000, 1)]" by (simp add: a_reading_def)
  have large: "0 \<le> (2000000000 :: int)" by simp
  have none: "\<forall>w \<in> ran (Map.empty :: 'k \<rightharpoonup> meter_window). 0 \<le> mw_spent w" by simp
  obtain plan where plan: "imapDownloadPlan (Some '' IMAP.gmail.com'') (Some 9000000000) = Some plan" "0 < dl_bytesPerDay plan"
    and bound: "let c = dl_bytesPerDay plan; p = dl_provider plan; most = 2 * (GMAIL_IMAP_DOWNLOAD_BYTES_PER_DAY - 1 + 2000000000) in
        in_a_day 0 (gated_reader (in_process_spend c ''t1'' p) (in_process_state c ''t1'' p)
          [(0, 2000000000), (10, 2000000000), (20, 1), (86400000, 1)] Map.empty) \<le> most
      \<and> in_a_day 0 (gated_reader (pg_spend c ''t1'' p) (pg_state c ''t1'' p)
          [(0, 2000000000), (10, 2000000000), (20, 1), (86400000, 1)] Map.empty) \<le> most"
    using gmail_is_never_read_past_two_ceilings [OF host reading large none none, where configured = "Some 9000000000" and start = 0 and tenantId = "''t1''"]
    by blast
  have "2 * (GMAIL_IMAP_DOWNLOAD_BYTES_PER_DAY - 1 + 2000000000) = 8999999998"
    by (simp add: GMAIL_IMAP_DOWNLOAD_BYTES_PER_DAY_def)
  with plan bound show ?thesis by (intro exI [of _ plan]) (simp only: Let_def simp_thms)
qed

text \<open>And the bound is met: of a ceiling of ten, with items of four, twenty-six are read in a day.\<close>

lemma two_ceilings_are_read:
  "in_a_day 86399000 (gated_reader (pg_spend 10 ''t1'' ''gmail-imap'') (pg_state 10 ''t1'' ''gmail-imap'')
    [(0, 0), (86399000, 3), (86399001, 3), (86399002, 3), (86399003, 4), (86399004, 4), (86400000, 3), (86400001, 3), (86400002, 3), (86400003, 4)]
    Map.empty) = 26"
  by code_simp

subsection \<open>The two meters agree\<close>

datatype meter_call =
  Spend_call (mc_tenant: string) (mc_provider: string) "int option"
| State_call (mc_tenant: string) (mc_provider: string)

fun in_process_call :: "int \<Rightarrow> meter_call \<Rightarrow> timestamp \<Rightarrow> meter_windows \<Rightarrow> budget_state \<times> meter_windows" where
  "in_process_call ceiling (Spend_call tenantId provider bytes) now windows = in_process_spend ceiling tenantId provider bytes now windows"
| "in_process_call ceiling (State_call tenantId provider) now windows = (in_process_state ceiling tenantId provider now windows, windows)"

fun pg_call :: "int \<Rightarrow> meter_call \<Rightarrow> timestamp \<Rightarrow> meter_rows \<Rightarrow> budget_state \<times> meter_rows" where
  "pg_call ceiling (Spend_call tenantId provider bytes) now rows = pg_spend ceiling tenantId provider bytes now rows"
| "pg_call ceiling (State_call tenantId provider) now rows = (pg_state ceiling tenantId provider now rows, rows)"

fun answers :: "(meter_call \<Rightarrow> timestamp \<Rightarrow> 's \<Rightarrow> budget_state \<times> 's) \<Rightarrow> (timestamp \<times> meter_call) list \<Rightarrow> 's \<Rightarrow> budget_state list" where
  "answers call_at [] s = []"
| "answers call_at ((now, call) # rest) s = (case call_at call now s of (answer, t) \<Rightarrow> answer # answers call_at rest t)"

text \<open>The rows of the service are the windows of a process, their keys apart.\<close>

definition same_meters :: "meter_windows \<Rightarrow> meter_rows \<Rightarrow> bool" where
  "same_meters windows rows \<longleftrightarrow> (\<forall>t p. CHR '':'' \<notin> set t \<longrightarrow> windows (meter_key t p) = rows (t, p))"

lemma meter_key_inj:
  assumes "CHR '':'' \<notin> set t" and "CHR '':'' \<notin> set t'"
  shows "meter_key t p = meter_key t' p' \<longleftrightarrow> t = t' \<and> p = p'"
proof
  have tenant: "takeWhile (\<lambda>c. c \<noteq> CHR '':'') (meter_key t p) = t" if "CHR '':'' \<notin> set t" for t p
    using that by (induction t) (auto simp: meter_key_def)
  assume same: "meter_key t p = meter_key t' p'"
  with tenant [OF assms(1), of p] tenant [OF assms(2), of p'] have "t = t'" by simp
  with same show "t = t' \<and> p = p'" by (simp add: meter_key_def)
qed simp

lemma calls_agree:
  assumes "same_meters windows rows" and "CHR '':'' \<notin> set (mc_tenant call)"
  shows "fst (in_process_call ceiling call now windows) = fst (pg_call ceiling call now rows)
    \<and> same_meters (snd (in_process_call ceiling call now windows)) (snd (pg_call ceiling call now rows))"
proof (cases call)
  case (Spend_call t p bytes)
  then have here: "windows (meter_key t p) = rows (t, p)" using assms by (simp add: same_meters_def)
  let ?w = "spent_window (countableBytes bytes) now (rows (t, p))"
  have "in_process_spend ceiling t p bytes now windows = (describe ceiling ?w, windows(meter_key t p \<mapsto> ?w))"
    by (simp add: in_process_spend_def spent_window_def live_window_def Let_def here split: option.split)
  moreover have "pg_spend ceiling t p bytes now rows = (describe ceiling ?w, rows((t, p) \<mapsto> ?w))"
    by (simp add: pg_spend_def upsert_window_def spent_window_def live_window_def countableBytes_def Let_def split: option.split)
  ultimately show ?thesis
    using assms Spend_call by (auto simp: same_meters_def meter_key_inj)
next
  case (State_call t p)
  with assms show ?thesis by (simp add: same_meters_def in_process_state_def pg_state_def Let_def split: option.split)
qed

text \<open>
  C31: The meter of one process and the one in the database give the same answers to any calls at the
  same moments, for any tenants and providers side by side, from a start with nothing spent.
\<close>
theorem the_two_meters_agree:
  assumes "\<forall>(now, call) \<in> set calls. CHR '':'' \<notin> set (mc_tenant call)"
  shows "answers (in_process_call ceiling) calls Map.empty = answers (pg_call ceiling) calls Map.empty"
proof -
  have "answers (in_process_call ceiling) calls windows = answers (pg_call ceiling) calls rows"
    if "same_meters windows rows" for windows rows
    using assms that
  proof (induction calls arbitrary: windows rows)
    case (Cons c calls)
    obtain now call where c: "c = (now, call)" by (cases c)
    with calls_agree [OF Cons.prems(2), of call ceiling now] Cons.prems(1) Cons.IH show ?case
      by (auto split: prod.split)
  qed simp
  then show ?thesis by (simp add: same_meters_def)
qed

theorem the_two_meters_agree_witness:
  "answers (in_process_call 10) [(0, State_call ''t1'' ''a''), (1, Spend_call ''t1'' ''a'' (Some 7)), (2, Spend_call ''t1'' ''b:c'' None),
      (DAY_MS, Spend_call ''t1'' ''a'' (Some 7)), (DAY_MS + 1, State_call ''t1'' ''a'')] Map.empty
    = answers (pg_call 10) [(0, State_call ''t1'' ''a''), (1, Spend_call ''t1'' ''a'' (Some 7)), (2, Spend_call ''t1'' ''b:c'' None),
      (DAY_MS, Spend_call ''t1'' ''a'' (Some 7)), (DAY_MS + 1, State_call ''t1'' ''a'')] Map.empty"
  by (rule the_two_meters_agree) simp

end
