(* ===== verification/Rate_Limit_Retry.thy ===== *)
theory Rate_Limit_Retry
  imports Texts Complex_Main
begin

text \<open>
  A request that a server refuses with 429 or 503 is asked again, within a budget of time:
  \<open>fetchWithRateLimitRetry\<close> of \<open>connectors/src/http-rate-limit.ts\<close>, with \<open>parseRetryAfterMs\<close> of
  \<open>shared/src/throttling.ts\<close>. The network, the clock, \<open>Math.random\<close> and the timers are functions on a
  world \<open>'w\<close>; how a date in words is read is left to the implementation by the language, so it is one of
  them. Milliseconds are rationals. Log lines and the draining of a refused body are left out.
\<close>

subsection \<open>What a server asks for\<close>

text \<open>\<open>parseInt(text, 10)\<close>: blanks, a sign, then digits; None is NaN.\<close>

definition parse_int :: "string \<Rightarrow> int option" where
  "parse_int text =
    (let s = dropWhile blank text;
         negative = (take 1 s = ''-'');
         digits = takeWhile is_digit (if take 1 s = ''-'' \<or> take 1 s = ''+'' then drop 1 s else s)
     in if digits = [] then None else Some (if negative then - int (number_of digits) else int (number_of digits)))"

definition parseRetryAfterMs :: "(string \<Rightarrow> int option) \<Rightarrow> int \<Rightarrow> string \<Rightarrow> int" where
  "parseRetryAfterMs date_of now headerValue =
    (case parse_int headerValue of
       Some seconds \<Rightarrow> seconds * 1000
     | None \<Rightarrow> (case date_of headerValue of
         Some date \<Rightarrow> max 0 (date - now)
       | None \<Rightarrow> 60000))"

subsection \<open>The loop\<close>

definition RATE_LIMIT_TOTAL_BUDGET_MS :: rat where
  "RATE_LIMIT_TOTAL_BUDGET_MS = 120000"

definition RATE_LIMIT_MAX_WAIT_MS :: rat where
  "RATE_LIMIT_MAX_WAIT_MS = 5000"

definition RATE_LIMIT_BASE_BACKOFF_MS :: rat where
  "RATE_LIMIT_BASE_BACKOFF_MS = 250"

record response =
  rp_status :: int
  rp_retryAfter :: "string option"

definition isRateLimited :: "int \<Rightarrow> bool" where
  "isRateLimited status \<longleftrightarrow> status = 429 \<or> status = 503"

text \<open>\<open>send\<close> answers or throws; \<open>sleep\<close> is a timer that fires.\<close>

record ('w, 'e) network =
  nw_send :: "'w \<Rightarrow> ('e + response) \<times> 'w"
  nw_random :: "'w \<Rightarrow> rat \<times> 'w"
  nw_now :: "'w \<Rightarrow> int"
  nw_date_of :: "string \<Rightarrow> int option"
  nw_sleep :: "rat \<Rightarrow> 'w \<Rightarrow> 'w"

text \<open>
  What one refusal leads to: the answer handed back (None), or a wait. \<open>remaining\<close> is what is left of the
  budget; an empty header counts as none.
\<close>

definition wait_for ::
  "('w, 'e) network \<Rightarrow> nat \<Rightarrow> rat \<Rightarrow> response \<Rightarrow> 'w \<Rightarrow> rat option \<times> 'w" where
  "wait_for net attempt remaining response w =
    (if truthy (rp_retryAfter response)
     then let asked = of_int (parseRetryAfterMs (nw_date_of net) (nw_now net w) (the (rp_retryAfter response))) in
       if remaining < asked then (None, w)
       else (Some (min (min asked RATE_LIMIT_MAX_WAIT_MS) remaining), w)
     else (case nw_random net w of (r, w) \<Rightarrow>
       let backoff = RATE_LIMIT_BASE_BACKOFF_MS * 2 ^ attempt + r * 250 in
       (Some (min (min backoff RATE_LIMIT_MAX_WAIT_MS) remaining), w)))"

text \<open>
  The loop, with the waits it has made so far (their sum is \<open>waitedMs\<close>); \<open>attempt\<close> is their number. It
  gives the answer, the world, and all the waits. None is a loop that never ends.
\<close>

partial_function (option) retry_loop ::
  "('w, 'e) network \<Rightarrow> rat list \<Rightarrow> 'w \<Rightarrow> (('e + response) \<times> 'w \<times> rat list) option"
where
  "retry_loop net waits w = (case nw_send net w of (answer, w) \<Rightarrow>
     (case answer of
        Inl e \<Rightarrow> Some (Inl e, w, waits)
      | Inr response \<Rightarrow>
          if \<not> isRateLimited (rp_status response) then Some (Inr response, w, waits)
          else let remaining = RATE_LIMIT_TOTAL_BUDGET_MS - sum_list waits in
            if remaining \<le> 0 then Some (Inr response, w, waits)
            else (case wait_for net (length waits) remaining response w of (waitMs, w) \<Rightarrow>
              (case waitMs of
                 None \<Rightarrow> Some (Inr response, w, waits)
               | Some ms \<Rightarrow> retry_loop net (waits @ [ms]) (nw_sleep net ms w)))))"

declare retry_loop.simps [code]

definition fetchWithRateLimitRetry :: "('w, 'e) network \<Rightarrow> 'w \<Rightarrow> (('e + response) \<times> 'w \<times> rat list) option" where
  "fetchWithRateLimitRetry net w = retry_loop net [] w"

subsection \<open>Giving up in time\<close>

text \<open>What a refusal that carries a header asks for, read at the world it arrives in.\<close>

definition asked_of :: "('w, 'e) network \<Rightarrow> response \<Rightarrow> 'w \<Rightarrow> int" where
  "asked_of net response w = parseRetryAfterMs (nw_date_of net) (nw_now net w) (the (rp_retryAfter response))"

definition asks :: "response \<Rightarrow> bool" where
  "asks response \<longleftrightarrow> isRateLimited (rp_status response) \<and> truthy (rp_retryAfter response)"

text \<open>The refusals of this server ask for a quarter of a second or more, when they ask.\<close>

definition asks_for_time :: "('w, 'e) network \<Rightarrow> bool" where
  "asks_for_time net \<longleftrightarrow>
    (\<forall>w. case nw_send net w of (Inr response, w') \<Rightarrow> asks response \<longrightarrow> 250 \<le> asked_of net response w' | _ \<Rightarrow> True)"

definition fair_random :: "('w, 'e) network \<Rightarrow> bool" where
  "fair_random net \<longleftrightarrow> (\<forall>w. 0 \<le> fst (nw_random net w))"

lemma backoff_at_least: "0 \<le> r \<Longrightarrow> 250 \<le> RATE_LIMIT_BASE_BACKOFF_MS * 2 ^ n + r * 250" for r :: rat
proof -
  assume "0 \<le> r"
  moreover have "(1 :: rat) \<le> 2 ^ n" by simp
  ultimately show ?thesis unfolding RATE_LIMIT_BASE_BACKOFF_MS_def by linarith
qed

lemma a_wait_in_bounds:
  assumes "fair_random net" and "truthy (rp_retryAfter response) \<Longrightarrow> 250 \<le> asked_of net response w"
    and "wait_for net attempt remaining response w = (Some ms, w')"
  shows "min 250 remaining \<le> ms" "ms \<le> remaining" "ms \<le> RATE_LIMIT_MAX_WAIT_MS"
proof -
  obtain ask where ms: "ms = min (min ask RATE_LIMIT_MAX_WAIT_MS) remaining" and ask: "250 \<le> ask"
  proof (cases "truthy (rp_retryAfter response)")
    case True
    with assms(2,3) that [of "of_int (asked_of net response w)"] show ?thesis
      by (auto simp: wait_for_def asked_of_def Let_def split: if_splits)
  next
    case False
    obtain r v where "nw_random net w = (r, v)" by fastforce
    with assms(1) have r: "nw_random net w = (r, v)" "0 \<le> r" unfolding fair_random_def by (metis fst_conv)+
    with assms(3) False that [OF _ backoff_at_least [OF r(2), of attempt]] show ?thesis
      by (simp add: wait_for_def Let_def)
  qed
  show "min 250 remaining \<le> ms" "ms \<le> remaining" "ms \<le> RATE_LIMIT_MAX_WAIT_MS"
    using ask by (simp_all add: ms min_def RATE_LIMIT_MAX_WAIT_MS_def)
qed

lemma retry_loop_ends:
  assumes "fair_random net" and "asks_for_time net"
    and "sum_list waits \<le> RATE_LIMIT_TOTAL_BUDGET_MS" and "\<forall>ms \<in> set waits. 0 < ms \<and> ms \<le> RATE_LIMIT_MAX_WAIT_MS"
    and "sum_list waits < RATE_LIMIT_TOTAL_BUDGET_MS \<longrightarrow> 250 * of_nat (length waits) \<le> sum_list waits" and "length waits + k = 480"
  shows "\<exists>answer v all. retry_loop net waits w = Some (answer, v, all) \<and> sum_list all \<le> RATE_LIMIT_TOTAL_BUDGET_MS
    \<and> (\<forall>ms \<in> set all. 0 < ms \<and> ms \<le> RATE_LIMIT_MAX_WAIT_MS) \<and> length all \<le> 480"
  using assms(3-6)
proof (induction k arbitrary: waits w rule: less_induct)
  case (less k)
  obtain answer w1 where send: "nw_send net w = (answer, w1)" by fastforce
  let ?remaining = "RATE_LIMIT_TOTAL_BUDGET_MS - sum_list waits"
  consider (thrown) e where "answer = Inl e"
    | (answered) r where "answer = Inr r" "\<not> isRateLimited (rp_status r) \<or> ?remaining \<le> 0"
    | (given_up) r v where "answer = Inr r" "isRateLimited (rp_status r)" "\<not> ?remaining \<le> 0"
        "wait_for net (length waits) ?remaining r w1 = (None, v)"
    | (wait) r ms v where "answer = Inr r" "isRateLimited (rp_status r)" "\<not> ?remaining \<le> 0"
        "wait_for net (length waits) ?remaining r w1 = (Some ms, v)"
    by (cases answer) (metis not_Some_eq surj_pair)+
  then show ?case
  proof cases
    case wait
    have "truthy (rp_retryAfter r) \<Longrightarrow> 250 \<le> asked_of net r w1"
      using assms(2) send wait(1,2) unfolding asks_for_time_def asks_def by (auto dest!: spec [of _ w])
    from a_wait_in_bounds [OF assms(1) this wait(4)]
    have ms: "min 250 ?remaining \<le> ms" "ms \<le> ?remaining" "ms \<le> RATE_LIMIT_MAX_WAIT_MS" by blast+
    have few: "250 * of_nat (length waits) \<le> sum_list waits" using less.prems(3) wait(3) by simp
    then have "length waits < 480" using wait(3) by (simp add: RATE_LIMIT_TOTAL_BUDGET_MS_def)
    then have k: "k - 1 < k" "length (waits @ [ms]) + (k - 1) = 480" using less.prems(4) by auto
    have "\<exists>answer v' all. retry_loop net (waits @ [ms]) (nw_sleep net ms v) = Some (answer, v', all) \<and> sum_list all \<le> RATE_LIMIT_TOTAL_BUDGET_MS
      \<and> (\<forall>ms \<in> set all. 0 < ms \<and> ms \<le> RATE_LIMIT_MAX_WAIT_MS) \<and> length all \<le> 480"
    proof (rule less.IH [OF k(1) _ _ _ k(2)])
      show "sum_list (waits @ [ms]) \<le> RATE_LIMIT_TOTAL_BUDGET_MS" using ms(2) by simp
      show "\<forall>x \<in> set (waits @ [ms]). 0 < x \<and> x \<le> RATE_LIMIT_MAX_WAIT_MS"
        using less.prems(2) ms(1,3) wait(3) by (auto simp: min_def split: if_splits)
      show "sum_list (waits @ [ms]) < RATE_LIMIT_TOTAL_BUDGET_MS \<longrightarrow> 250 * of_nat (length (waits @ [ms])) \<le> sum_list (waits @ [ms])"
        using few ms(1) by (auto simp: min_def split: if_splits)
    qed
    with wait send show ?thesis by (subst retry_loop.simps) (simp add: Let_def)
  qed (use send less.prems in \<open>subst retry_loop.simps, auto simp: Let_def\<close>)+
qed

text \<open>
  C39: A request that is refused gives up in time: when a server that asks to wait asks for a quarter of a
  second or more, the answer is handed back after at most two minutes of waiting, of at most five seconds
  each, and at most 481 requests, whatever else the server does.
\<close>
theorem a_refused_request_gives_up_in_time:
  assumes "fair_random net" and "asks_for_time net"
  shows "\<exists>answer v waits. fetchWithRateLimitRetry net w = Some (answer, v, waits)
    \<and> sum_list waits \<le> RATE_LIMIT_TOTAL_BUDGET_MS \<and> (\<forall>ms \<in> set waits. ms \<le> RATE_LIMIT_MAX_WAIT_MS) \<and> length waits \<le> 480"
  using retry_loop_ends [OF assms, of "[]" 480 w]
  by (auto simp: fetchWithRateLimitRetry_def RATE_LIMIT_TOTAL_BUDGET_MS_def)

text \<open>A server that answers 429 to everything, with a header or without one, on a world that counts requests.\<close>

definition refusing :: "string option \<Rightarrow> (nat, string) network" where
  "refusing header =
    \<lparr>nw_send = (\<lambda>n. (Inr \<lparr>rp_status = 429, rp_retryAfter = header\<rparr>, n + 1)), nw_random = (\<lambda>n. (1 / 2, n)),
     nw_now = int, nw_date_of = (\<lambda>_. None), nw_sleep = (\<lambda>_ n. n)\<rparr>"

theorem a_refused_request_gives_up_in_time_witness:
  "\<exists>answer v waits. fetchWithRateLimitRetry (refusing (Some ''40'')) 0 = Some (answer, v, waits)
    \<and> sum_list waits \<le> RATE_LIMIT_TOTAL_BUDGET_MS \<and> (\<forall>ms \<in> set waits. ms \<le> RATE_LIMIT_MAX_WAIT_MS) \<and> length waits \<le> 480"
proof (rule a_refused_request_gives_up_in_time)
  have "parseRetryAfterMs (\<lambda>_. None) now ''40'' = 40000" for now by code_simp
  then show "asks_for_time (refusing (Some ''40''))" by (simp add: asks_for_time_def refusing_def asked_of_def)
qed (simp add: fair_random_def refusing_def)

subsection \<open>A server that asks for no time\<close>

text \<open>
  C40: A server that refuses with \<open>Retry-After: 0\<close>, a negative number, or a date that has passed, is asked
  again at once and for ever: the wait is not counted against the budget, for it is none.
\<close>
theorem a_server_that_asks_for_no_time_is_asked_for_ever:
  assumes "\<forall>w. case nw_send net w of (Inr response, w') \<Rightarrow> asks response \<and> asked_of net response w' \<le> 0 | _ \<Rightarrow> False"
  shows "fetchWithRateLimitRetry net w = None"
proof -
  have "n = net \<longrightarrow> \<not> sum_list waits \<le> 0" if "retry_loop n waits w = Some out" for n :: "('a, 'b) network" and waits w out
  proof (rule retry_loop.raw_induct [where P = "\<lambda>n waits w out. n = net \<longrightarrow> \<not> sum_list waits \<le> 0", OF _ that])
    fix loop :: "('a, 'b) network \<Rightarrow> rat list \<Rightarrow> 'a \<Rightarrow> (('b + response) \<times> 'a \<times> rat list) option" and n waits w out
    assume ih: "\<And>n waits w out. loop n waits w = Some out \<Longrightarrow> n = net \<longrightarrow> \<not> sum_list waits \<le> 0"
      and body: "(case nw_send n w of (answer, w) \<Rightarrow>
        (case answer of
          Inl e \<Rightarrow> Some (Inl e, w, waits)
        | Inr response \<Rightarrow>
            if \<not> isRateLimited (rp_status response) then Some (Inr response, w, waits)
            else let remaining = RATE_LIMIT_TOTAL_BUDGET_MS - sum_list waits in
              if remaining \<le> 0 then Some (Inr response, w, waits)
              else (case wait_for n (length waits) remaining response w of (waitMs, w) \<Rightarrow>
                (case waitMs of
                   None \<Rightarrow> Some (Inr response, w, waits)
                 | Some ms \<Rightarrow> loop n (waits @ [ms]) (nw_sleep n ms w))))) = Some out"
    show "n = net \<longrightarrow> \<not> sum_list waits \<le> 0"
    proof (intro impI notI)
      assume n: "n = net" and low: "sum_list waits \<le> 0"
      obtain response w1 where send: "nw_send net w = (Inr response, w1)" "asks response" "asked_of net response w1 \<le> 0"
        using assms by (cases "nw_send net w"; cases "fst (nw_send net w)") (auto dest!: spec [of _ w])
      define ms :: rat where "ms = of_int (asked_of net response w1)"
      have ms: "ms \<le> 0" using send(3) by (simp add: ms_def)
      have "wait_for net (length waits) (RATE_LIMIT_TOTAL_BUDGET_MS - sum_list waits) response w1 = (Some ms, w1)"
        using send(2) low ms unfolding wait_for_def asks_def asked_of_def [symmetric] ms_def [symmetric] Let_def
        by (simp add: RATE_LIMIT_TOTAL_BUDGET_MS_def RATE_LIMIT_MAX_WAIT_MS_def)
      with body n low send have "loop net (waits @ [ms]) (nw_sleep net ms w1) = Some out"
        by (simp add: asks_def Let_def RATE_LIMIT_TOTAL_BUDGET_MS_def)
      with ih low ms show False by fastforce
    qed
  qed
  from this [of net "[]" w] show ?thesis
    unfolding fetchWithRateLimitRetry_def by (cases "retry_loop net [] w") auto
qed

theorem a_server_that_asks_for_no_time_is_asked_for_ever_witness:
  "fetchWithRateLimitRetry (refusing (Some ''0'')) 0 = None"
proof (rule a_server_that_asks_for_no_time_is_asked_for_ever)
  have "parseRetryAfterMs (\<lambda>_. None) now ''0'' = 0" for now by code_simp
  then show "\<forall>w. case nw_send (refusing (Some ''0'')) w of
      (Inr response, w') \<Rightarrow> asks response \<and> asked_of (refusing (Some ''0'')) response w' \<le> 0 | _ \<Rightarrow> False"
    by (simp add: refusing_def asks_def asked_of_def isRateLimited_def)
qed

end
