(* ===== verification/Throttle_Limiter.thy ===== *)
theory Throttle_Limiter
  imports Rate_Limit_Retry
begin

text \<open>
  \<open>ThrottleLimiter\<close> of \<open>shared/src/throttling.ts\<close>, with the configurations it is built from
  (\<open>parseThrottleConfig\<close> of \<open>shared/src/config.ts\<close>, \<open>operatorsThrottle\<close> of
  \<open>orchestration/src/build-deps-from-mapping.ts\<close>). A limiter serves many calls of
  \<open>executeWithThrottling\<close> at once: between two \<open>await\<close>s one call runs alone, so the calls are a list, each
  with the place it waits at, and one step is what one of them does when what it waited for arrives.
  The local bucket and the shared budget are those of \<open>Rate_Budget\<close>, seen here as grants that arrive.
\<close>

subsection \<open>Configurations\<close>

record throttle_config =
  tc_maxConcurrent :: int
  tc_requestsPerSecond :: int
  tc_maxRetries :: int
  tc_baseBackoffMs :: int
  tc_maxBackoffMs :: int
  tc_jitterMs :: int

definition DEFAULT_THROTTLE_CONFIG :: throttle_config where
  "DEFAULT_THROTTLE_CONFIG =
    \<lparr>tc_maxConcurrent = 4, tc_requestsPerSecond = 10, tc_maxRetries = 5, tc_baseBackoffMs = 1000,
     tc_maxBackoffMs = 60000, tc_jitterMs = 500\<rparr>"

text \<open>\<open>Partial<ThrottleConfig>\<close>: None is a field left out.\<close>

record partial_config =
  pt_maxConcurrent :: "int option"
  pt_requestsPerSecond :: "int option"
  pt_maxRetries :: "int option"
  pt_baseBackoffMs :: "int option"
  pt_maxBackoffMs :: "int option"
  pt_jitterMs :: "int option"

text \<open>A configuration file's value is a number (whole or not), something else, or left out.\<close>

datatype json_number = Absent | Whole int | Not_whole

definition reqInt :: "string \<Rightarrow> json_number \<Rightarrow> string + int" where
  "reqInt path v = (case v of Whole n \<Rightarrow> Inr n | _ \<Rightarrow> Inl (path @ '': expected an integer''))"

definition optional_int :: "string \<Rightarrow> json_number \<Rightarrow> string + int option" where
  "optional_int path v = (case v of
      Absent \<Rightarrow> Inr None
    | _ \<Rightarrow> (case reqInt path v of Inl e \<Rightarrow> Inl e | Inr n \<Rightarrow> Inr (Some n)))"

record throttle_block =
  tb_maxConcurrent :: json_number
  tb_requestsPerSecond :: json_number
  tb_maxRetries :: json_number
  tb_baseBackoffMs :: json_number
  tb_maxBackoffMs :: json_number
  tb_jitterMs :: json_number

definition parseThrottleConfig :: "throttle_block \<Rightarrow> string + partial_config" where
  "parseThrottleConfig b =
    (case optional_int ''throttleConfig.maxConcurrent'' (tb_maxConcurrent b) of Inl e \<Rightarrow> Inl e | Inr concurrent \<Rightarrow>
    (case optional_int ''throttleConfig.requestsPerSecond'' (tb_requestsPerSecond b) of Inl e \<Rightarrow> Inl e | Inr rate \<Rightarrow>
    (case optional_int ''throttleConfig.maxRetries'' (tb_maxRetries b) of Inl e \<Rightarrow> Inl e | Inr retries \<Rightarrow>
    (case optional_int ''throttleConfig.baseBackoffMs'' (tb_baseBackoffMs b) of Inl e \<Rightarrow> Inl e | Inr base \<Rightarrow>
    (case optional_int ''throttleConfig.maxBackoffMs'' (tb_maxBackoffMs b) of Inl e \<Rightarrow> Inl e | Inr most \<Rightarrow>
    (case optional_int ''throttleConfig.jitterMs'' (tb_jitterMs b) of Inl e \<Rightarrow> Inl e | Inr jitter \<Rightarrow>
      Inr \<lparr>pt_maxConcurrent = concurrent, pt_requestsPerSecond = rate, pt_maxRetries = retries,
           pt_baseBackoffMs = base, pt_maxBackoffMs = most, pt_jitterMs = jitter\<rparr>))))))"

text \<open>\<open>{ ...base, ...over }\<close>.\<close>

definition given_or :: "'a option \<Rightarrow> 'a \<Rightarrow> 'a" where
  "given_or v d = (case v of Some x \<Rightarrow> x | None \<Rightarrow> d)"

definition over_config :: "throttle_config \<Rightarrow> partial_config \<Rightarrow> throttle_config" where
  "over_config base over =
    \<lparr>tc_maxConcurrent = given_or (pt_maxConcurrent over) (tc_maxConcurrent base),
     tc_requestsPerSecond = given_or (pt_requestsPerSecond over) (tc_requestsPerSecond base),
     tc_maxRetries = given_or (pt_maxRetries over) (tc_maxRetries base),
     tc_baseBackoffMs = given_or (pt_baseBackoffMs over) (tc_baseBackoffMs base),
     tc_maxBackoffMs = given_or (pt_maxBackoffMs over) (tc_maxBackoffMs base),
     tc_jitterMs = given_or (pt_jitterMs over) (tc_jitterMs base)\<rparr>"

text \<open>The smaller of the two, when a value is given and is not zero.\<close>

definition restricted :: "int option \<Rightarrow> int \<Rightarrow> int" where
  "restricted v merged = (case v of Some n \<Rightarrow> if n \<noteq> 0 \<and> n < merged then n else merged | None \<Rightarrow> merged)"

definition merge_domain :: "throttle_config \<Rightarrow> partial_config \<Rightarrow> throttle_config" where
  "merge_domain merged domain =
    \<lparr>tc_maxConcurrent = restricted (pt_maxConcurrent domain) (tc_maxConcurrent merged),
     tc_requestsPerSecond = restricted (pt_requestsPerSecond domain) (tc_requestsPerSecond merged),
     tc_maxRetries = given_or (pt_maxRetries domain) (tc_maxRetries merged),
     tc_baseBackoffMs = given_or (pt_baseBackoffMs domain) (tc_baseBackoffMs merged),
     tc_maxBackoffMs = given_or (pt_maxBackoffMs domain) (tc_maxBackoffMs merged),
     tc_jitterMs = given_or (pt_jitterMs domain) (tc_jitterMs merged)\<rparr>"

text \<open>The blocks are those of the mapping, in the order they are enumerated.\<close>

definition createThrottleLimiterFromMapping :: "partial_config list \<Rightarrow> partial_config \<Rightarrow> throttle_config" where
  "createThrottleLimiterFromMapping blocks defaults =
    foldl merge_domain (over_config DEFAULT_THROTTLE_CONFIG defaults) blocks"

definition operatorsThrottle :: "partial_config option \<Rightarrow> partial_config option" where
  "operatorsThrottle stored = (case stored of
      None \<Rightarrow> None
    | Some s \<Rightarrow> Some (s
        \<lparr>pt_requestsPerSecond := Some (min (given_or (pt_requestsPerSecond s) (tc_requestsPerSecond DEFAULT_THROTTLE_CONFIG))
           (tc_requestsPerSecond DEFAULT_THROTTLE_CONFIG)),
         pt_maxConcurrent := Some (min (given_or (pt_maxConcurrent s) (tc_maxConcurrent DEFAULT_THROTTLE_CONFIG))
           (tc_maxConcurrent DEFAULT_THROTTLE_CONFIG))\<rparr>))"

definition no_defaults :: partial_config where
  "no_defaults = \<lparr>pt_maxConcurrent = None, pt_requestsPerSecond = None, pt_maxRetries = None,
    pt_baseBackoffMs = None, pt_maxBackoffMs = None, pt_jitterMs = None\<rparr>"

text \<open>
  \<open>tenantThrottleLimiter\<close>: the rate of the shared budget, which refuses to be built for one that is not
  positive, and the configuration of the limiter.
\<close>

definition tenantThrottleLimiter :: "partial_config option \<Rightarrow> partial_config list \<Rightarrow> (int + int \<times> throttle_config)" where
  "tenantThrottleLimiter stored mapping =
    (let storedThrottle = operatorsThrottle stored;
         rate = (case storedThrottle of
             Some s \<Rightarrow> given_or (pt_requestsPerSecond s) (tc_requestsPerSecond DEFAULT_THROTTLE_CONFIG)
           | None \<Rightarrow> tc_requestsPerSecond DEFAULT_THROTTLE_CONFIG)
     in if \<not> 0 < rate then Inl rate
        else Inr (rate, createThrottleLimiterFromMapping
          (case storedThrottle of Some s \<Rightarrow> [s] | None \<Rightarrow> mapping) no_defaults))"

subsection \<open>Errors worth asking again\<close>

text \<open>
  What a request throws: not an \<open>Error\<close> (its text is \<open>String(error)\<close>), or one, with the code on it and on
  its cause.
\<close>

datatype thrown_value =
  Not_an_error string
| Request_error (te_code: "string option") (te_cause_code: "string option") (te_message: string)

definition TRANSIENT_CODES :: "string list" where
  "TRANSIENT_CODES = [''ECONNRESET'', ''ECONNREFUSED'', ''ETIMEDOUT'', ''EPIPE'', ''EAI_AGAIN'', ''UND_ERR_SOCKET'',
    ''UND_ERR_CONNECT_TIMEOUT'', ''UND_ERR_HEADERS_TIMEOUT'', ''UND_ERR_BODY_TIMEOUT'']"

definition TRANSIENT_WORDS :: "string list" where
  "TRANSIENT_WORDS = [''timeout'', ''network'', ''connection'', ''econn'', ''etimedout'', ''epipe'', ''socket hang up'']"

definition isTransientError :: "string option \<Rightarrow> string option \<Rightarrow> string \<Rightarrow> bool" where
  "isTransientError code cause_code message =
    ((\<exists>c \<in> set TRANSIENT_CODES. code = Some c \<or> cause_code = Some c)
     \<or> (\<exists>w \<in> set TRANSIENT_WORDS. occurs_in w (to_lower message)))"

subsection \<open>The limiter and its calls\<close>

record throttle_stats =
  ts_throttleEvents :: nat
  ts_retryAttempts :: nat
  ts_totalWaitTimeMs :: rat
  ts_exceededMaxRetries :: nat

definition no_stats :: throttle_stats where
  "no_stats = \<lparr>ts_throttleEvents = 0, ts_retryAttempts = 0, ts_totalWaitTimeMs = 0, ts_exceededMaxRetries = 0\<rparr>"

record limiter =
  lm_active :: int
  lm_stats :: throttle_stats

text \<open>
  Where a call waits: for a slot (asked every ten milliseconds), for the token of the local bucket, for the
  shared budget, for the answer, or for its pause to be over; or it has returned or thrown. Undefined is
  thrown when the loop is never entered.
\<close>

datatype place =
  Want_slot
| Want_token
| Want_shared
| Asking
| Pausing
| Returned response
| Thrown "thrown_value option"

record call =
  ca_attempt :: int
  ca_lastError :: "thrown_value option"
  ca_place :: place

record limiter_setup =
  su_config :: throttle_config
  su_shared :: bool
  su_date_of :: "string \<Rightarrow> int option"

text \<open>\<open>calculateBackoff\<close>, with what \<open>Math.random\<close> gives.\<close>

definition calculateBackoff :: "throttle_config \<Rightarrow> int \<Rightarrow> rat \<Rightarrow> rat" where
  "calculateBackoff cfg attempt r =
    (let exponentialBackoff = of_int (tc_baseBackoffMs cfg) * 2 ^ nat attempt; jitter = r * of_int (tc_jitterMs cfg) in
     min (exponentialBackoff + jitter) (of_int (tc_maxBackoffMs cfg)))"

text \<open>\<open>handleRateLimited\<close>: what it counts, and the wait.\<close>

definition handleRateLimited ::
  "limiter_setup \<Rightarrow> string option \<Rightarrow> int \<Rightarrow> rat \<Rightarrow> throttle_stats \<Rightarrow> rat \<times> throttle_stats" where
  "handleRateLimited su retryAfter now r st =
    (let st = st\<lparr>ts_throttleEvents := ts_throttleEvents st + 1\<rparr> in
     ((if truthy retryAfter then of_int (parseRetryAfterMs (su_date_of su) now (the retryAfter))
       else calculateBackoff (su_config su) 0 r), st))"

text \<open>The head of the loop.\<close>

definition attempt_again :: "throttle_config \<Rightarrow> call \<Rightarrow> call" where
  "attempt_again cfg c =
    c\<lparr>ca_place := (if ca_attempt c \<le> tc_maxRetries cfg then Want_slot else Thrown (ca_lastError c))\<rparr>"

definition begin_call :: "throttle_config \<Rightarrow> call" where
  "begin_call cfg = attempt_again cfg \<lparr>ca_attempt = 0, ca_lastError = None, ca_place = Want_slot\<rparr>"

definition releaseSlot :: "limiter \<Rightarrow> limiter" where
  "releaseSlot l = l\<lparr>lm_active := lm_active l - 1\<rparr>"

text \<open>The \<open>catch\<close> of an attempt: \<open>held\<close> gives the slot back.\<close>

definition catch_attempt :: "throttle_config \<Rightarrow> bool \<Rightarrow> thrown_value \<Rightarrow> rat \<Rightarrow> limiter \<times> call \<Rightarrow> limiter \<times> call" where
  "catch_attempt cfg held e r lc = (case lc of (l, c) \<Rightarrow>
    let l = (if held then releaseSlot l else l);
        lastError = (case e of Not_an_error text \<Rightarrow> Request_error None None text | _ \<Rightarrow> e);
        c = c\<lparr>ca_lastError := Some lastError\<rparr>
    in if (case e of Not_an_error _ \<Rightarrow> False | Request_error code cause m \<Rightarrow> \<not> isTransientError code cause m)
       then (l, c\<lparr>ca_place := Thrown (Some e)\<rparr>)
       else
         let c = c\<lparr>ca_attempt := ca_attempt c + 1\<rparr>; st = lm_stats l in
         if tc_maxRetries cfg < ca_attempt c
         then (l\<lparr>lm_stats := st\<lparr>ts_exceededMaxRetries := ts_exceededMaxRetries st + 1\<rparr>\<rparr>, c\<lparr>ca_place := Thrown (Some lastError)\<rparr>)
         else
           (l\<lparr>lm_stats := st\<lparr>ts_totalWaitTimeMs := ts_totalWaitTimeMs st + calculateBackoff cfg (ca_attempt c - 1) r,
                ts_retryAttempts := ts_retryAttempts st + 1\<rparr>\<rparr>,
            c\<lparr>ca_place := Pausing\<rparr>))"

definition rate_limited_error :: "int \<Rightarrow> int \<Rightarrow> thrown_value" where
  "rate_limited_error maxRetries status =
    Request_error None None (''Rate limited after '' @ decimal_int maxRetries @ '' retries. Status: '' @ decimal_int status)"

text \<open>An answer: its slot is given back first, and a refusal is waited out or, the last time, thrown.\<close>

definition answered :: "limiter_setup \<Rightarrow> response \<Rightarrow> int \<Rightarrow> rat \<Rightarrow> limiter \<times> call \<Rightarrow> limiter \<times> call" where
  "answered su response now r lc = (case lc of (l, c) \<Rightarrow>
    let l = releaseSlot l; cfg = su_config su in
    if isRateLimited (rp_status response)
    then let st = lm_stats l in
      (case handleRateLimited su (rp_retryAfter response) now r (st\<lparr>ts_retryAttempts := ts_retryAttempts st + 1\<rparr>) of (waitTime, st) \<Rightarrow>
        let st = st\<lparr>ts_totalWaitTimeMs := ts_totalWaitTimeMs st + waitTime\<rparr> in
        if ca_attempt c < tc_maxRetries cfg
        then (l\<lparr>lm_stats := st\<rparr>, c\<lparr>ca_attempt := ca_attempt c + 1, ca_place := Pausing\<rparr>)
        else catch_attempt cfg False (rate_limited_error (tc_maxRetries cfg) (rp_status response)) r
          (l\<lparr>lm_stats := st\<lparr>ts_exceededMaxRetries := ts_exceededMaxRetries st + 1\<rparr>\<rparr>, c))
    else (l, c\<lparr>ca_place := Returned response\<rparr>))"

text \<open>What arrives for a waiting call: numbers drawn and clocks read on the way are part of it.\<close>

datatype arrival =
  Poll
| Token
| Shared_granted
| Shared_failed thrown_value rat
| Answer response int rat
| No_answer thrown_value rat
| Pause_over

text \<open>One step of one call, where that may arrive.\<close>

fun call_step :: "limiter_setup \<Rightarrow> arrival \<Rightarrow> limiter \<Rightarrow> call \<Rightarrow> (limiter \<times> call) option" where
  "call_step su a l c = (case (ca_place c, a) of
      (Want_slot, Poll) \<Rightarrow>
        if tc_maxConcurrent (su_config su) \<le> lm_active l then Some (l, c)
        else Some (l\<lparr>lm_active := lm_active l + 1\<rparr>, c\<lparr>ca_place := Want_token\<rparr>)
    | (Want_token, Token) \<Rightarrow> Some (l, c\<lparr>ca_place := (if su_shared su then Want_shared else Asking)\<rparr>)
    | (Want_shared, Shared_granted) \<Rightarrow> Some (l, c\<lparr>ca_place := Asking\<rparr>)
    | (Want_shared, Shared_failed e r) \<Rightarrow> Some (catch_attempt (su_config su) False e r (releaseSlot l, c))
    | (Asking, Answer response now r) \<Rightarrow> Some (answered su response now r (l, c))
    | (Asking, No_answer e r) \<Rightarrow> Some (catch_attempt (su_config su) True e r (l, c))
    | (Pausing, Pause_over) \<Rightarrow> Some (l, attempt_again (su_config su) c)
    | _ \<Rightarrow> None)"

declare call_step.simps [simp del]

subsection \<open>Runs\<close>

record throttle_system =
  sy_limiter :: limiter
  sy_calls :: "call list"

definition idle_limiter :: throttle_system where
  "idle_limiter = \<lparr>sy_limiter = \<lparr>lm_active = 0, lm_stats = no_stats\<rparr>, sy_calls = []\<rparr>"

text \<open>A run of the limiter: calls begin at any time, and what arrived, for which call, in order.\<close>

inductive limiter_run :: "limiter_setup \<Rightarrow> (nat \<times> arrival) list \<Rightarrow> throttle_system \<Rightarrow> bool" for su where
  run_idle: "limiter_run su [] idle_limiter"
| run_begins: "limiter_run su es s \<Longrightarrow>
    limiter_run su es (s\<lparr>sy_calls := sy_calls s @ [begin_call (su_config su)]\<rparr>)"
| run_steps: "limiter_run su es s \<Longrightarrow> i < length (sy_calls s) \<Longrightarrow>
    call_step su a (sy_limiter s) (sy_calls s ! i) = Some (l, c) \<Longrightarrow>
    limiter_run su (es @ [(i, a)]) \<lparr>sy_limiter = l, sy_calls = (sy_calls s)[i := c]\<rparr>"

definition holds_slot :: "call \<Rightarrow> bool" where
  "holds_slot c \<longleftrightarrow> ca_place c \<in> {Want_token, Want_shared, Asking}"

fun finished :: "place \<Rightarrow> bool" where
  "finished (Returned _) = True"
| "finished (Thrown _) = True"
| "finished _ = False"

subsection \<open>What one step does\<close>

text \<open>
  The two ends of an attempt, seen together: it gives its slot back when it holds one, and the call
  pauses with one more attempt made, within the retries, or is finished.
\<close>

definition attempt_ends :: "throttle_config \<Rightarrow> bool \<Rightarrow> limiter \<times> call \<Rightarrow> limiter \<times> call \<Rightarrow> bool" where
  "attempt_ends cfg held before after \<longleftrightarrow>
    lm_active (fst after) = lm_active (fst before) - (if held then 1 else 0)
    \<and> (finished (ca_place (snd after))
       \<or> ca_place (snd after) = Pausing \<and> ca_attempt (snd after) = ca_attempt (snd before) + 1
         \<and> ca_attempt (snd after) \<le> tc_maxRetries cfg)"

lemma catch_ends_attempt: "attempt_ends cfg held (l, c) (catch_attempt cfg held e r (l, c))"
  by (auto simp: attempt_ends_def catch_attempt_def releaseSlot_def Let_def split: thrown_value.splits)

lemma answer_ends_attempt: "attempt_ends (su_config su) True (l, c) (answered su response now r (l, c))"
proof -
  have "attempt_ends cfg True (l, c) (catch_attempt cfg False e r (l', c'))"
    if "lm_active l' = lm_active l - 1" "c' = c" for cfg e r l' c'
    using catch_ends_attempt [of cfg False l' c' e r] that by (simp add: attempt_ends_def)
  then show ?thesis
    by (auto simp: answered_def releaseSlot_def Let_def split: prod.split) (simp_all add: attempt_ends_def)
qed

lemma shared_failure_ends_attempt: "attempt_ends cfg True (l, c) (catch_attempt cfg False e r (releaseSlot l, c))"
  using catch_ends_attempt [of cfg False "releaseSlot l" c e r] by (simp add: attempt_ends_def releaseSlot_def)

text \<open>The steps of a call, by where it waits.\<close>

inductive call_move :: "limiter_setup \<Rightarrow> arrival \<Rightarrow> limiter \<Rightarrow> call \<Rightarrow> limiter \<Rightarrow> call \<Rightarrow> bool" for su where
  no_slot_yet: "ca_place c = Want_slot \<Longrightarrow> tc_maxConcurrent (su_config su) \<le> lm_active l \<Longrightarrow> call_move su Poll l c l c"
| takes_slot: "ca_place c = Want_slot \<Longrightarrow> \<not> tc_maxConcurrent (su_config su) \<le> lm_active l \<Longrightarrow>
    call_move su Poll l c (l\<lparr>lm_active := lm_active l + 1\<rparr>) (c\<lparr>ca_place := Want_token\<rparr>)"
| takes_token: "ca_place c = Want_token \<Longrightarrow> p \<in> {Want_shared, Asking} \<Longrightarrow> call_move su Token l c l (c\<lparr>ca_place := p\<rparr>)"
| takes_shared: "ca_place c = Want_shared \<Longrightarrow> call_move su Shared_granted l c l (c\<lparr>ca_place := Asking\<rparr>)"
| shared_fails: "ca_place c = Want_shared \<Longrightarrow> attempt_ends (su_config su) True (l, c) (l', c') \<Longrightarrow>
    call_move su (Shared_failed e r) l c l' c'"
| is_answered: "ca_place c = Asking \<Longrightarrow> attempt_ends (su_config su) True (l, c) (l', c') \<Longrightarrow>
    call_move su (Answer response now r) l c l' c'"
| is_not_answered: "ca_place c = Asking \<Longrightarrow> attempt_ends (su_config su) True (l, c) (l', c') \<Longrightarrow>
    call_move su (No_answer e r) l c l' c'"
| pause_ends: "ca_place c = Pausing \<Longrightarrow> call_move su Pause_over l c l (attempt_again (su_config su) c)"

inductive_cases call_moveE: "call_move su a l c l' c'"

lemma call_step_moves:
  assumes "call_step su a l c = Some (l', c')"
  shows "call_move su a l c l' c'"
proof -
  note ends = answer_ends_attempt [of su l c] catch_ends_attempt [of "su_config su" True l c]
    shared_failure_ends_attempt [of "su_config su" l c]
  show ?thesis
  proof (cases "ca_place c")
    case Want_slot
    with assms show ?thesis by (cases a) (auto simp: call_step.simps split: if_splits intro: no_slot_yet takes_slot)
  next
    case Want_token
    with assms show ?thesis by (cases a) (auto simp: call_step.simps intro: takes_token)
  next
    case Want_shared
    with assms ends(3) show ?thesis
      by (cases a) (simp_all add: call_step.simps, (metis takes_shared shared_fails)+)
  next
    case Asking
    with assms ends(1,2) show ?thesis
      by (cases a) (simp_all add: call_step.simps, (metis is_answered is_not_answered)+)
  next
    case Pausing
    with assms show ?thesis by (cases a) (auto simp: call_step.simps intro: pause_ends)
  qed (use assms in \<open>cases a, simp_all add: call_step.simps\<close>)
qed

subsection \<open>Slots\<close>

definition holders :: "call list \<Rightarrow> nat" where
  "holders calls = length (filter holds_slot calls)"

lemma holders_append [simp]: "holders (xs @ ys) = holders xs + holders ys"
  by (simp add: holders_def)

lemma holders_update:
  assumes "i < length calls"
  shows "int (holders (calls[i := c])) =
    int (holders calls) - (if holds_slot (calls ! i) then 1 else 0) + (if holds_slot c then 1 else 0)"
  using assms
proof (induction calls arbitrary: i)
  case (Cons x calls)
  show ?case
  proof (cases i)
    case (Suc j)
    then have "int (holders (calls[j := c])) =
        int (holders calls) - (if holds_slot (calls ! j) then 1 else 0) + (if holds_slot c then 1 else 0)"
      using Cons by simp
    then show ?thesis by (auto simp: Suc holders_def split: if_splits)
  qed (simp add: holders_def)
qed simp

lemma begins_without_slot: "\<not> holds_slot (begin_call cfg)"
  by (simp add: begin_call_def attempt_again_def holds_slot_def)

lemma finished_holds_nothing: "finished (ca_place c) \<Longrightarrow> \<not> holds_slot c"
  by (cases "ca_place c") (auto simp: holds_slot_def)

lemma a_move_counts_its_slot:
  assumes "call_move su a l c l' c'"
  shows "lm_active l' = lm_active l - (if holds_slot c then 1 else 0) + (if holds_slot c' then 1 else 0)"
    and "lm_active l' \<le> lm_active l \<or> lm_active l' \<le> tc_maxConcurrent (su_config su)"
  using assms
  by (auto elim!: call_moveE simp: holds_slot_def attempt_ends_def attempt_again_def split: if_splits dest!: finished_holds_nothing)

lemma run_counts_slots:
  assumes "limiter_run su es s"
  shows "lm_active (sy_limiter s) = int (holders (sy_calls s))
    \<and> lm_active (sy_limiter s) \<le> max 0 (tc_maxConcurrent (su_config su))"
  using assms
proof (induction rule: limiter_run.induct)
  case run_idle
  show ?case by (simp add: idle_limiter_def holders_def)
next
  case (run_begins es s)
  then show ?case by (simp add: holders_def begins_without_slot)
next
  case (run_steps es s i a l c)
  have step: "call_move su a (sy_limiter s) (sy_calls s ! i) l c" by (rule call_step_moves) (rule run_steps.hyps)
  from a_move_counts_its_slot [OF step] run_steps.IH show ?case
    by (auto simp: holders_update [OF run_steps.hyps(2)] max_def split: if_splits)
qed

subsection \<open>Attempts\<close>

fun is_reply :: "arrival \<Rightarrow> bool" where
  "is_reply (Answer _ _ _) = True"
| "is_reply (No_answer _ _) = True"
| "is_reply _ = False"

definition replies :: "nat \<Rightarrow> (nat \<times> arrival) list \<Rightarrow> nat" where
  "replies i es = length (filter (\<lambda>(j, a). j = i \<and> is_reply a) es)"

definition met_arrivals :: "nat \<Rightarrow> (nat \<times> arrival) list \<Rightarrow> nat" where
  "met_arrivals i es = length (filter (\<lambda>(j, a). j = i \<and> a \<noteq> Poll) es)"

text \<open>The requests a call has made: those answered, and the one in flight.\<close>

definition requests_of :: "nat \<Rightarrow> (nat \<times> arrival) list \<Rightarrow> throttle_system \<Rightarrow> nat" where
  "requests_of i es s = replies i es + (if ca_place (sy_calls s ! i) = Asking then 1 else 0)"

definition most_attempts :: "throttle_config \<Rightarrow> int" where
  "most_attempts cfg = max 0 (tc_maxRetries cfg + 1)"

text \<open>What a call may have used, replies and arrivals, by where it waits.\<close>

definition within_attempts :: "throttle_config \<Rightarrow> nat \<Rightarrow> nat \<Rightarrow> call \<Rightarrow> bool" where
  "within_attempts cfg r m c \<longleftrightarrow>
    (if finished (ca_place c) then int r \<le> most_attempts cfg \<and> int m \<le> 4 * most_attempts cfg
     else 0 \<le> ca_attempt c \<and> ca_attempt c \<le> tc_maxRetries cfg \<and> int r \<le> ca_attempt c
       \<and> int m \<le> 4 * ca_attempt c
         + (case ca_place c of Want_shared \<Rightarrow> 1 | Asking \<Rightarrow> 2 | Pausing \<Rightarrow> -1 | _ \<Rightarrow> 0))"

lemma attempt_ends_within:
  assumes "attempt_ends cfg held (l, c) (l', c')" and "within_attempts cfg r m c"
    and "\<not> finished (ca_place c)" and "int n \<le> 4 * ca_attempt c + 3" and "int q \<le> ca_attempt c + 1"
  shows "within_attempts cfg q n c'"
  using assms by (auto simp: attempt_ends_def within_attempts_def most_attempts_def)

lemma a_move_stays_within:
  assumes "call_move su a l c l' c'" and "within_attempts (su_config su) r m c"
  shows "within_attempts (su_config su) (r + (if is_reply a then 1 else 0)) (m + (if a \<noteq> Poll then 1 else 0)) c'"
  using assms
proof cases
  case (shared_fails e b)
  then show ?thesis using assms(2)
    by (intro attempt_ends_within [OF shared_fails(3) assms(2)]) (auto simp: within_attempts_def)
next
  case (is_answered response now b)
  then show ?thesis using assms(2)
    by (intro attempt_ends_within [OF is_answered(3) assms(2)]) (auto simp: within_attempts_def)
next
  case (is_not_answered e b)
  then show ?thesis using assms(2)
    by (intro attempt_ends_within [OF is_not_answered(3) assms(2)]) (auto simp: within_attempts_def)
qed (use assms(2) in \<open>auto simp: within_attempts_def attempt_again_def most_attempts_def\<close>)

lemma begins_within: "within_attempts cfg 0 0 (begin_call cfg)"
  by (auto simp: within_attempts_def begin_call_def attempt_again_def most_attempts_def)

lemma counts_of_a_step:
  "replies i (es @ [(j, a)]) = replies i es + (if i = j \<and> is_reply a then 1 else 0)"
  "met_arrivals i (es @ [(j, a)]) = met_arrivals i es + (if i = j \<and> a \<noteq> Poll then 1 else 0)"
  by (auto simp: replies_def met_arrivals_def)

lemma run_stays_within:
  assumes "limiter_run su es s"
  shows "(\<forall>(j, a) \<in> set es. j < length (sy_calls s))
    \<and> (\<forall>i < length (sy_calls s). within_attempts (su_config su) (replies i es) (met_arrivals i es) (sy_calls s ! i))"
  using assms
proof (induction rule: limiter_run.induct)
  case run_idle
  show ?case by (simp add: idle_limiter_def)
next
  case (run_begins es s)
  then have "replies (length (sy_calls s)) es = 0" "met_arrivals (length (sy_calls s)) es = 0"
    by (auto simp: replies_def met_arrivals_def filter_empty_conv)
  with run_begins show ?case by (auto simp: nth_append less_Suc_eq begins_within)
next
  case (run_steps es s i a l c)
  have "call_move su a (sy_limiter s) (sy_calls s ! i) l c" by (rule call_step_moves) (rule run_steps.hyps)
  with a_move_stays_within run_steps show ?case
    by (auto simp: nth_list_update counts_of_a_step)
qed

subsection \<open>Someone can always go on\<close>

lemma a_waiting_call_goes_on:
  assumes "\<not> finished (ca_place c)" and "ca_place c = Want_slot \<longrightarrow> lm_active l < tc_maxConcurrent (su_config su)"
  shows "\<exists>a l' c'. call_step su a l c = Some (l', c') \<and> ca_place c' \<noteq> ca_place c"
proof (cases "ca_place c")
  case Want_slot
  with assms show ?thesis by (intro exI [of _ Poll]) (simp add: call_step.simps)
next
  case Want_token
  then show ?thesis by (intro exI [of _ Token]) (simp add: call_step.simps)
next
  case Want_shared
  then show ?thesis by (intro exI [of _ Shared_granted]) (simp add: call_step.simps)
next
  case Asking
  then show ?thesis
    by (intro exI [of _ "Answer \<lparr>rp_status = 200, rp_retryAfter = None\<rparr> 0 0"]) (simp add: call_step.simps answered_def isRateLimited_def Let_def)
next
  case Pausing
  then show ?thesis by (intro exI [of _ Pause_over]) (simp add: call_step.simps attempt_again_def)
qed (use assms in simp_all)

subsection \<open>A cap below one\<close>

lemma nothing_without_slots:
  assumes "limiter_run su es s" and "tc_maxConcurrent (su_config su) \<le> 0"
  shows "(\<forall>c \<in> set (sy_calls s). ca_place c = Want_slot \<or> ca_place c = Thrown None) \<and> (\<forall>(j, a) \<in> set es. a = Poll)
    \<and> lm_active (sy_limiter s) = 0"
  using assms
proof (induction rule: limiter_run.induct)
  case run_idle
  show ?case by (simp add: idle_limiter_def)
next
  case (run_begins es s)
  then show ?case by (auto simp: begin_call_def attempt_again_def)
next
  case (run_steps es s i a l c)
  have move: "call_move su a (sy_limiter s) (sy_calls s ! i) l c" by (rule call_step_moves) (rule run_steps.hyps)
  have "ca_place (sy_calls s ! i) = Want_slot \<or> ca_place (sy_calls s ! i) = Thrown None"
    using run_steps by simp
  with move run_steps.IH run_steps.prems have "a = Poll \<and> l = sy_limiter s \<and> c = sy_calls s ! i"
    by (auto elim!: call_moveE)
  with run_steps show ?case by (auto dest!: set_update_subset_insert [THEN subsetD])
qed

subsection \<open>Runs, played\<close>

fun play :: "limiter_setup \<Rightarrow> (nat \<times> arrival) list \<Rightarrow> throttle_system \<Rightarrow> throttle_system option" where
  "play su [] s = Some s"
| "play su ((i, a) # es) s =
    (if i < length (sy_calls s)
     then (case call_step su a (sy_limiter s) (sy_calls s ! i) of
         Some (l, c) \<Rightarrow> play su es \<lparr>sy_limiter = l, sy_calls = (sy_calls s)[i := c]\<rparr>
       | None \<Rightarrow> None)
     else None)"

lemma play_runs:
  assumes "limiter_run su es s" and "play su fs s = Some t"
  shows "limiter_run su (es @ fs) t"
  using assms
proof (induction fs arbitrary: es s)
  case (Cons f fs)
  obtain i a where f: "f = (i, a)" by (cases f)
  from Cons.prems(2) obtain l c where step: "i < length (sy_calls s)"
      "call_step su a (sy_limiter s) (sy_calls s ! i) = Some (l, c)"
      "play su fs \<lparr>sy_limiter = l, sy_calls = (sy_calls s)[i := c]\<rparr> = Some t"
    by (auto simp: f split: if_splits option.splits)
  from Cons.IH [OF run_steps [OF Cons.prems(1) step(1,2)] step(3)] show ?case by (simp add: f)
qed simp

definition default_setup :: "int \<Rightarrow> limiter_setup" where
  "default_setup concurrent =
    \<lparr>su_config = DEFAULT_THROTTLE_CONFIG\<lparr>tc_maxConcurrent := concurrent\<rparr>, su_shared = True, su_date_of = (\<lambda>_. None)\<rparr>"

definition with_calls :: "limiter_setup \<Rightarrow> nat \<Rightarrow> throttle_system" where
  "with_calls su n = idle_limiter\<lparr>sy_calls := replicate n (begin_call (su_config su))\<rparr>"

lemma calls_begin: "limiter_run su [] (with_calls su n)"
proof (induction n)
  case 0
  then show ?case using run_idle [of su] by (simp add: with_calls_def idle_limiter_def)
next
  case (Suc n)
  from run_begins [OF this] show ?case by (simp add: with_calls_def replicate_append_same)
qed

text \<open>The first call is refused and pauses; the second takes the slot it gave back.\<close>

definition a_refused_request :: "(nat \<times> arrival) list" where
  "a_refused_request = [(0, Poll), (1, Poll), (0, Token), (0, Shared_granted), (0, Answer \<lparr>rp_status = 429, rp_retryAfter = None\<rparr> 0 0),
    (1, Poll), (1, Token), (1, Shared_granted)]"

lemma a_refused_request_played:
  obtains s where "limiter_run (default_setup 1) a_refused_request s" "map ca_place (sy_calls s) = [Pausing, Asking]"
    "lm_active (sy_limiter s) = 1"
proof -
  let ?s = "play (default_setup 1) a_refused_request (with_calls (default_setup 1) 2)"
  have "(case ?s of Some s \<Rightarrow> map ca_place (sy_calls s) = [Pausing, Asking] \<and> lm_active (sy_limiter s) = 1 | None \<Rightarrow> False)"
    by code_simp
  then obtain s where s: "?s = Some s" "map ca_place (sy_calls s) = [Pausing, Asking]" "lm_active (sy_limiter s) = 1"
    by (auto split: option.splits)
  with play_runs [OF calls_begin s(1)] that show ?thesis by simp
qed

lemma asking_holds: "length (filter (\<lambda>c. ca_place c = Asking) calls) \<le> length (filter holds_slot calls)"
  by (induction calls) (auto simp: holds_slot_def)

subsection \<open>The promises of the limiter\<close>

text \<open>
  C35: In every run of a limiter the requests in flight are at most its cap, and its count is exactly the
  calls that hold a slot: a refusal, an error, or a budget that fails gives its slot back once.
\<close>
theorem never_more_in_flight_than_the_cap:
  assumes "limiter_run su es s"
  shows "int (length (filter (\<lambda>c. ca_place c = Asking) (sy_calls s))) \<le> max 0 (tc_maxConcurrent (su_config su))
    \<and> lm_active (sy_limiter s) = int (length (filter holds_slot (sy_calls s)))"
proof -
  have "length (filter (\<lambda>c. ca_place c = Asking) (sy_calls s)) \<le> length (filter holds_slot (sy_calls s))"
    by (rule asking_holds)
  with run_counts_slots [OF assms] show ?thesis by (simp add: holders_def)
qed

theorem never_more_in_flight_than_the_cap_witness:
  "\<exists>s. limiter_run (default_setup 1) a_refused_request s
    \<and> int (length (filter (\<lambda>c. ca_place c = Asking) (sy_calls s))) \<le> 1 \<and> ca_place (sy_calls s ! 1) = Asking"
proof -
  obtain s where s: "limiter_run (default_setup 1) a_refused_request s" "map ca_place (sy_calls s) = [Pausing, Asking]"
    by (rule a_refused_request_played)
  then have "ca_place (sy_calls s ! 1) = Asking"
    by (metis One_nat_def length_Cons lessI list.size(3) nth_Cons_0 nth_Cons_Suc nth_map length_map)
  with s never_more_in_flight_than_the_cap [OF s(1)] show ?thesis by (auto simp: default_setup_def)
qed

text \<open>
  C36: A call ends: in every run it makes at most one request more than its retries, and meets at most four
  times as many arrivals beside its looks for a slot, in whatever order the calls are served.
\<close>
theorem a_call_ends_within_its_attempts:
  assumes "limiter_run su es s" and "i < length (sy_calls s)"
  shows "int (requests_of i es s) \<le> max 0 (tc_maxRetries (su_config su) + 1)
    \<and> int (met_arrivals i es) \<le> 4 * max 0 (tc_maxRetries (su_config su) + 1)"
proof -
  have "within_attempts (su_config su) (replies i es) (met_arrivals i es) (sy_calls s ! i)"
    using run_stays_within [OF assms(1)] assms(2) by simp
  then show ?thesis
    by (auto simp: within_attempts_def most_attempts_def requests_of_def split: if_splits place.splits)
qed

theorem a_call_ends_within_its_attempts_witness:
  "\<exists>s. limiter_run (default_setup 1) a_refused_request s \<and> int (requests_of 0 a_refused_request s) \<le> 6
    \<and> int (met_arrivals 0 a_refused_request) \<le> 24 \<and> requests_of 1 a_refused_request s = 1"
proof -
  obtain s where s: "limiter_run (default_setup 1) a_refused_request s" "map ca_place (sy_calls s) = [Pausing, Asking]"
    by (rule a_refused_request_played)
  then have calls: "length (sy_calls s) = 2" by (metis length_Cons length_map list.size(3) numeral_2_eq_2)
  from s(2) have "ca_place (sy_calls s ! 1) = Asking"
    by (metis One_nat_def calls lessI nth_Cons_0 nth_Cons_Suc nth_map numeral_2_eq_2)
  then have "requests_of 1 a_refused_request s = 1"
    by (simp add: requests_of_def replies_def a_refused_request_def)
  with s a_call_ends_within_its_attempts [OF s(1), of 0] calls show ?thesis
    by (auto simp: default_setup_def DEFAULT_THROTTLE_CONFIG_def)
qed

text \<open>
  C37: No slot is lost: with a cap of one or more, in every run with a call that is not finished there is a
  call that goes on as soon as what it waits for arrives, a free slot included.
\<close>
theorem some_call_can_always_go_on:
  assumes "limiter_run su es s" and "1 \<le> tc_maxConcurrent (su_config su)"
    and "c \<in> set (sy_calls s)" and "\<not> finished (ca_place c)"
  shows "\<exists>i < length (sy_calls s). \<exists>a l' c'. call_step su a (sy_limiter s) (sy_calls s ! i) = Some (l', c')
    \<and> ca_place c' \<noteq> ca_place (sy_calls s ! i)"
proof (cases "ca_place c = Want_slot \<longrightarrow> lm_active (sy_limiter s) < tc_maxConcurrent (su_config su)")
  case True
  from assms(3) obtain i where "i < length (sy_calls s)" "sy_calls s ! i = c" by (auto simp: in_set_conv_nth)
  with a_waiting_call_goes_on [OF assms(4) True] show ?thesis by blast
next
  case False
  then have "holders (sy_calls s) \<noteq> 0" using run_counts_slots [OF assms(1)] assms(2) by simp
  then obtain i where i: "i < length (sy_calls s)" "holds_slot (sy_calls s ! i)"
    by (auto simp: holders_def filter_empty_conv in_set_conv_nth)
  then have "\<not> finished (ca_place (sy_calls s ! i))" "ca_place (sy_calls s ! i) \<noteq> Want_slot"
    by (auto simp: holds_slot_def)
  with a_waiting_call_goes_on [of "sy_calls s ! i"] i(1) show ?thesis by blast
qed

theorem some_call_can_always_go_on_witness:
  "\<exists>s. limiter_run (default_setup 1) a_refused_request s
    \<and> (\<exists>i < length (sy_calls s). \<exists>a l' c'. call_step (default_setup 1) a (sy_limiter s) (sy_calls s ! i) = Some (l', c')
      \<and> ca_place c' \<noteq> ca_place (sy_calls s ! i))"
proof -
  obtain s where s: "limiter_run (default_setup 1) a_refused_request s" "map ca_place (sy_calls s) = [Pausing, Asking]"
    by (rule a_refused_request_played)
  then obtain c where "c \<in> set (sy_calls s)" "\<not> finished (ca_place c)"
    by (metis finished.simps(7) list.set_intros(1) imageE list.set_map)
  with some_call_can_always_go_on [OF s(1)] s(1) show ?thesis by (auto simp: default_setup_def)
qed

subsection \<open>What a configuration can do to the cap\<close>

lemma merge_domain_cap:
  "tc_maxConcurrent (merge_domain merged d) \<le> tc_maxConcurrent merged"
  "tc_requestsPerSecond (merge_domain merged d) \<le> tc_requestsPerSecond merged"
  by (simp_all add: merge_domain_def restricted_def split: option.split)

lemma merged_cap:
  "tc_maxConcurrent (foldl merge_domain merged blocks) \<le> tc_maxConcurrent merged
    \<and> tc_requestsPerSecond (foldl merge_domain merged blocks) \<le> tc_requestsPerSecond merged"
proof (induction blocks arbitrary: merged)
  case (Cons b blocks)
  show ?case using Cons [of "merge_domain merged b"] merge_domain_cap [of merged b] by simp
qed simp

lemma merged_below_each:
  assumes "d \<in> set blocks" and "pt_maxConcurrent d = Some n" and "n \<noteq> 0"
  shows "tc_maxConcurrent (foldl merge_domain merged blocks) \<le> n"
  using assms(1)
proof (induction blocks arbitrary: merged)
  case (Cons b blocks)
  have "tc_maxConcurrent (merge_domain merged b) \<le> n" if "b = d"
    using that assms(2,3) by (simp add: merge_domain_def restricted_def)
  with merged_cap [of "merge_domain merged b" blocks] Cons show ?case by fastforce
qed simp

text \<open>
  Whatever an organisation stored, the limits of the managed service are lowered or kept, never
  raised: the shared budget, the local bucket and the cap stay within the operator's defaults.
\<close>
theorem a_stored_throttle_never_raises_a_limit:
  assumes "tenantThrottleLimiter stored mapping = Inr (rate, cfg)"
  shows "0 < rate \<and> rate \<le> tc_requestsPerSecond DEFAULT_THROTTLE_CONFIG
    \<and> tc_requestsPerSecond cfg \<le> tc_requestsPerSecond DEFAULT_THROTTLE_CONFIG
    \<and> tc_maxConcurrent cfg \<le> tc_maxConcurrent DEFAULT_THROTTLE_CONFIG"
proof -
  have "over_config DEFAULT_THROTTLE_CONFIG no_defaults = DEFAULT_THROTTLE_CONFIG"
    by (simp add: over_config_def no_defaults_def given_or_def)
  moreover have "0 < rate" "rate \<le> tc_requestsPerSecond DEFAULT_THROTTLE_CONFIG"
    using assms by (auto simp: tenantThrottleLimiter_def operatorsThrottle_def given_or_def Let_def split: option.splits if_splits)
  ultimately show ?thesis
    using assms merged_cap [of DEFAULT_THROTTLE_CONFIG]
    by (auto simp: tenantThrottleLimiter_def createThrottleLimiterFromMapping_def Let_def split: if_splits)
qed

theorem a_stored_throttle_never_raises_a_limit_witness:
  "tenantThrottleLimiter (Some (no_defaults\<lparr>pt_requestsPerSecond := Some 500, pt_maxConcurrent := Some 2\<rparr>)) []
      = Inr (10, DEFAULT_THROTTLE_CONFIG\<lparr>tc_maxConcurrent := 2\<rparr>)
    \<and> tc_requestsPerSecond (DEFAULT_THROTTLE_CONFIG\<lparr>tc_maxConcurrent := 2\<rparr>) \<le> 10"
proof -
  have run: "tenantThrottleLimiter (Some (no_defaults\<lparr>pt_requestsPerSecond := Some 500, pt_maxConcurrent := Some 2\<rparr>)) []
      = Inr (10, DEFAULT_THROTTLE_CONFIG\<lparr>tc_maxConcurrent := 2\<rparr>)"
    by code_simp
  with a_stored_throttle_never_raises_a_limit [OF run] show ?thesis by (simp add: DEFAULT_THROTTLE_CONFIG_def)
qed

text \<open>
  C38: A negative cap is taken from the configuration as the most restrictive one, and then no request is
  ever made: a call that begins waits for a slot for ever, or throws undefined when the retries are
  negative too.
\<close>
theorem a_negative_cap_stops_every_request:
  assumes "parseThrottleConfig b = Inr p" and "tb_maxConcurrent b = Whole n" and "n < 0"
    and "p \<in> set blocks" and "su_config su = createThrottleLimiterFromMapping blocks defaults" and "limiter_run su es s"
  shows "(\<forall>i < length (sy_calls s). requests_of i es s = 0) \<and> (\<forall>c \<in> set (sy_calls s). ca_place c = Want_slot \<or> ca_place c = Thrown None)"
proof -
  have "pt_maxConcurrent p = Some n"
    using assms(1,2) by (auto simp: parseThrottleConfig_def optional_int_def reqInt_def split: sum.splits)
  from merged_below_each [OF assms(4) this] have "tc_maxConcurrent (su_config su) \<le> 0"
    using assms(3) by (simp add: assms(5) createThrottleLimiterFromMapping_def order_trans [of _ n 0])
  from nothing_without_slots [OF assms(6) this]
  have calls: "\<forall>c \<in> set (sy_calls s). ca_place c = Want_slot \<or> ca_place c = Thrown None" and polls: "\<forall>(j, a) \<in> set es. a = Poll"
    by simp_all
  have "replies i es = 0" for i using polls by (auto simp: replies_def filter_empty_conv)
  moreover have "ca_place (sy_calls s ! i) \<noteq> Asking" if "i < length (sy_calls s)" for i
    using calls nth_mem [OF that] by force
  ultimately show ?thesis using calls by (simp add: requests_of_def)
qed

definition negative_block :: throttle_block where
  "negative_block = \<lparr>tb_maxConcurrent = Whole (-1), tb_requestsPerSecond = Absent, tb_maxRetries = Absent,
    tb_baseBackoffMs = Absent, tb_maxBackoffMs = Absent, tb_jitterMs = Absent\<rparr>"

theorem a_negative_cap_stops_every_request_witness:
  "limiter_run (default_setup (-1)) [] (with_calls (default_setup (-1)) 2)
    \<and> requests_of 1 [] (with_calls (default_setup (-1)) 2) = 0"
proof -
  have parsed: "parseThrottleConfig negative_block = Inr (no_defaults\<lparr>pt_maxConcurrent := Some (-1)\<rparr>)"
    and cfg: "su_config (default_setup (-1)) = createThrottleLimiterFromMapping [no_defaults\<lparr>pt_maxConcurrent := Some (-1)\<rparr>] no_defaults"
    by code_simp+
  from a_negative_cap_stops_every_request [OF parsed _ _ _ cfg calls_begin [of "default_setup (-1)" 2]]
  have "\<forall>i < 2. requests_of i [] (with_calls (default_setup (-1)) 2) = 0"
    by (simp add: negative_block_def with_calls_def)
  then show ?thesis using calls_begin by simp
qed

subsection \<open>The last refusal\<close>

text \<open>
  The last refusal is thrown: its error is none of the transient ones, whatever the numbers in it. It is
  counted as a retry and its pause as waited all the same, though neither is made.
\<close>

lemma lower_decimal:
  assumes "c \<in> set (to_lower (decimal_int n))"
  shows "is_digit c \<or> c = CHR ''-''"
proof -
  have "to_lower ''-'' = ''-''" by code_simp
  then have "to_lower (CHR ''-'' # s) = CHR ''-'' # to_lower s" for s
    using to_lower_append [of "''-''" s] by simp
  then show ?thesis
    using assms decimal_digits by (auto simp: decimal_int_def to_lower_digits split: if_splits)
qed

lemma rate_limited_is_final:
  "\<not> isTransientError None None (''Rate limited after '' @ decimal_int n @ '' retries. Status: '' @ decimal_int k)"
    (is "\<not> isTransientError None None ?m")
proof -
  have texts: "to_lower ''Rate limited after '' = ''rate limited after ''" "to_lower '' retries. Status: '' = '' retries. status: ''"
    by code_simp+
  have "\<not> is_digit c \<and> c \<noteq> CHR ''-'' \<and> c \<notin> set ''rate limited after  retries. status: ''"
    if "c \<in> set ''onp''" for c using that by (auto simp: is_digit_code)
  with lower_decimal have absent: "c \<notin> set (to_lower ?m)" if "c \<in> set ''onp''" for c
    using that unfolding to_lower_append texts by fastforce
  have "\<exists>c. c \<in> set w \<and> c \<in> set ''onp''" if "w \<in> set TRANSIENT_WORDS" for w
    using that by (auto simp: TRANSIENT_WORDS_def)
  with absent show ?thesis unfolding isTransientError_def using occurs_in_not by blast
qed

lemma the_last_refusal_counts_as_a_wait:
  assumes "ca_attempt c = tc_maxRetries (su_config su)" and "0 \<le> tc_maxRetries (su_config su)" and "isRateLimited (rp_status response)"
    and "answered su response now r (l, c) = (l', c')"
  shows "finished (ca_place c')" "ts_retryAttempts (lm_stats l') = ts_retryAttempts (lm_stats l) + 1"
    "ts_totalWaitTimeMs (lm_stats l') = ts_totalWaitTimeMs (lm_stats l) + fst (handleRateLimited su (rp_retryAfter response) now r (lm_stats l))"
  using assms rate_limited_is_final
  by (auto simp: answered_def handleRateLimited_def catch_attempt_def rate_limited_error_def releaseSlot_def Let_def)

end
