(* ===== verification/Crc32.thy ===== *)
theory Crc32
  imports Prelude "HOL-Library.Word"
begin

unbundle bit_operations_syntax

text \<open>
  The checksum of \<open>connectors/src/crc32.ts\<close>: a table of 256 words, one lookup per byte. JavaScript's bit
  operations work on 32 bits and \<open>>>> 0\<close> reads the result unsigned: \<open>32 word\<close>. What the table computes is
  the division by the polynomial bit by bit (\<open>crc_serial\<close>), and a step loses nothing of what it is given,
  so that a single byte that differs is always noticed.
\<close>

type_synonym byte = "8 word"

subsection \<open>The source's table and loop\<close>

definition crc_bit :: "32 word \<Rightarrow> 32 word" where
  "crc_bit c = (if c AND 1 \<noteq> 0 then 0xedb88320 XOR drop_bit 1 c else drop_bit 1 c)"

definition TABLE :: "32 word list" where
  "TABLE = map (\<lambda>n. (crc_bit ^^ 8) (word_of_nat n)) [0..<256]"

definition crc_byte :: "32 word \<Rightarrow> byte \<Rightarrow> 32 word" where
  "crc_byte crc b = TABLE ! unat ((crc XOR ucast b) AND 0xff) XOR drop_bit 8 crc"

definition crc32 :: "byte list \<Rightarrow> 32 word \<Rightarrow> 32 word" where
  "crc32 data v = foldl crc_byte (v XOR 0xffffffff) data XOR 0xffffffff"

subsection \<open>One bit\<close>

lemma xor_twice [simp]: "(x XOR a) XOR a = x" for x :: "'a :: len word"
  by (simp add: xor.assoc)

lemma xor_cancel_left [simp]: "a XOR x = a XOR y \<longleftrightarrow> x = y" for x :: "'a :: len word"
  by (metis xor_twice xor.commute)

lemma xor_cancel_right [simp]: "x XOR a = y XOR a \<longleftrightarrow> x = y" for x :: "'a :: len word"
  by (metis xor_twice)

lemma crc_bit_eq: "crc_bit c = (if bit c 0 then 0xedb88320 XOR drop_bit 1 c else drop_bit 1 c)"
  by (simp add: crc_bit_def and_one_eq odd_iff_mod_2_eq_one [symmetric] bit_0)

lemma crc_bit_xor: "crc_bit (x XOR y) = crc_bit x XOR crc_bit y"
  by (simp add: crc_bit_eq bit_xor_iff ac_simps)

lemma crc_bits_xor: "(crc_bit ^^ n) (x XOR y) = (crc_bit ^^ n) x XOR (crc_bit ^^ n) y"
  by (induction n) (simp_all add: crc_bit_xor)

lemma crc_bits_shift: "\<forall>i < n. \<not> bit x i \<Longrightarrow> (crc_bit ^^ n) x = drop_bit n x"
  by (induction n) (simp_all add: crc_bit_eq bit_drop_bit_eq)

lemma crc_bit_top: "bit (crc_bit x) 31 = bit x 0"
proof -
  have "\<not> bit (drop_bit 1 x) 31" using bit_imp_le_length [of x 32] by (auto simp: bit_drop_bit_eq)
  moreover have "bit (0xedb88320 :: 32 word) 31" by simp
  ultimately show ?thesis by (simp add: crc_bit_eq bit_xor_iff)
qed

lemma crc_bit_inj: "crc_bit x = crc_bit y \<longleftrightarrow> x = y"
proof
  assume same: "crc_bit x = crc_bit y"
  then have low: "bit x 0 = bit y 0" using crc_bit_top [of x] crc_bit_top [of y] by simp
  with same have "drop_bit 1 x = drop_bit 1 y"
    by (simp add: crc_bit_eq split: if_splits)
  then have "bit (drop_bit 1 x) i = bit (drop_bit 1 y) i" for i by simp
  then have high: "bit x (Suc i) = bit y (Suc i)" for i
    unfolding bit_drop_bit_eq by simp
  show "x = y"
  proof (rule bit_word_eqI)
    fix n
    show "bit x n = bit y n" using low high by (cases n) simp_all
  qed
qed simp

lemma crc_bits_inj: "(crc_bit ^^ n) x = (crc_bit ^^ n) y \<longleftrightarrow> x = y"
  by (induction n) (simp_all add: crc_bit_inj)

subsection \<open>One byte\<close>

lemma crc_byte_eq: "crc_byte crc b = (crc_bit ^^ 8) (crc XOR ucast b)"
proof -
  define x :: "32 word" where "x = crc XOR ucast b"
  have "x AND 0xff \<le> 0xff" by (rule word_and_le1)
  then have "unat (x AND 0xff) < 256" by (simp add: word_le_nat_alt)
  then have "TABLE ! unat (x AND 0xff) = (crc_bit ^^ 8) (x AND 0xff)"
    by (simp add: TABLE_def)
  moreover have "x = (x AND 0xff) XOR (x AND NOT 0xff)"
    by (rule bit_word_eqI) (auto simp: bit_simps)
  moreover have "(crc_bit ^^ 8) (x AND NOT 0xff) = drop_bit 8 crc"
  proof -
    have m: "(0xff :: 32 word) = mask 8" by (simp add: mask_eq_exp_minus_1)
    have "(crc_bit ^^ 8) (x AND NOT (mask 8)) = drop_bit 8 (x AND NOT (mask 8))"
      by (intro crc_bits_shift) (simp add: bit_simps)
    also have "\<dots> = drop_bit 8 crc"
      by (rule bit_word_eqI) (auto simp: x_def bit_simps dest: bit_imp_le_length)
    finally show ?thesis unfolding m .
  qed
  ultimately show ?thesis
    unfolding crc_byte_def x_def [symmetric] by (metis crc_bits_xor)
qed

lemma crc_byte_inj: "crc_byte c a = crc_byte d a \<longleftrightarrow> c = d"
  by (simp add: crc_byte_eq crc_bits_inj)

lemma crc_byte_inj_byte: "crc_byte c a = crc_byte c b \<longleftrightarrow> a = b"
proof -
  have "a = b" if "(ucast a :: 32 word) = ucast b"
  proof (rule bit_word_eqI)
    fix n assume "n < LENGTH(8)"
    moreover have "bit (ucast a :: 32 word) n = bit (ucast b :: 32 word) n" using that by simp
    ultimately show "bit a n = bit b n" by (simp add: bit_simps)
  qed
  then show ?thesis by (auto simp: crc_byte_eq crc_bits_inj)
qed

subsection \<open>The whole checksum\<close>

lemma crc32_Nil [simp]: "crc32 [] v = v"
  by (simp add: crc32_def)

text \<open>A member is checked chunk by chunk, the value carried between them.\<close>

lemma crc32_append: "crc32 (xs @ ys) v = crc32 ys (crc32 xs v)"
  by (simp add: crc32_def)

lemma foldl_crc_inj: "foldl crc_byte c xs = foldl crc_byte d xs \<longleftrightarrow> c = d"
  by (induction xs arbitrary: c d) (simp_all add: crc_byte_inj)

lemma a_flipped_byte_changes_the_crc:
  assumes "a \<noteq> b"
  shows "crc32 (xs @ a # ys) v \<noteq> crc32 (xs @ b # ys) v"
proof -
  have "foldl crc_byte c (a # ys) \<noteq> foldl crc_byte c (b # ys)" for c
    using assms by (simp add: foldl_crc_inj crc_byte_inj_byte)
  then show ?thesis by (simp add: crc32_def)
qed

text \<open>
  The division by the polynomial of the standard, \<open>x^32 + x^26 + x^23 + ... + x + 1\<close>, one bit of the message
  at a time, the lowest of each byte first: in a register written backwards, the coefficient of \<open>x^e\<close> is
  its bit \<open>31 - e\<close>, and what falls out decides whether the polynomial is subtracted.
\<close>

definition polynomial :: "32 word" where
  "polynomial = foldr (\<lambda>e p. push_bit (31 - e) 1 XOR p) [26, 23, 22, 16, 12, 11, 10, 8, 7, 5, 4, 2, 1, 0] 0"

definition crc_serial_bit :: "32 word \<Rightarrow> bool \<Rightarrow> 32 word" where
  "crc_serial_bit c b = drop_bit 1 c XOR (if bit c 0 \<noteq> b then polynomial else 0)"

lemma serial_bit_eq: "crc_serial_bit c b = crc_bit (c XOR (if b then 1 else 0))"
proof -
  have "polynomial = 0xedb88320" by (simp add: polynomial_def)
  moreover have "drop_bit 1 (c XOR 1) = drop_bit 1 c" by (intro bit_word_eqI) (auto simp: bit_simps)
  ultimately show ?thesis by (auto simp: crc_serial_bit_def crc_bit_eq bit_simps xor.commute)
qed

definition bits_of_byte :: "byte \<Rightarrow> bool list" where
  "bits_of_byte b = map (bit b) [0..<8]"

definition crc_serial :: "bool list \<Rightarrow> 32 word" where
  "crc_serial message = foldl crc_serial_bit 0xffffffff message XOR 0xffffffff"

lemma serial_bits:
  fixes b :: byte
  assumes "n \<le> 8"
  shows "foldl crc_serial_bit c (map (bit b) [0..<n]) = (crc_bit ^^ n) (c XOR ucast (take_bit n b))"
  using assms
proof (induction n)
  case (Suc n)
  let ?bit = "if bit b n then 1 else 0 :: 32 word"
  have "(crc_bit ^^ n) (push_bit n ?bit) = ?bit"
  proof -
    have "drop_bit n (push_bit n ?bit) = ?bit" using Suc.prems by (intro bit_word_eqI) (auto simp: bit_simps)
    moreover have "\<forall>i < n. \<not> bit (push_bit n ?bit) i" by (simp add: bit_simps)
    ultimately show ?thesis using crc_bits_shift by metis
  qed
  moreover have "ucast (take_bit (Suc n) b) = (ucast (take_bit n b) XOR push_bit n ?bit :: 32 word)"
    using Suc.prems by (intro bit_word_eqI) (auto simp: bit_simps less_Suc_eq)
  ultimately show ?case using Suc
    by (simp add: serial_bit_eq crc_bits_xor crc_bit_xor xor.assoc)
qed simp

lemma serial_byte: "foldl crc_serial_bit c (bits_of_byte b) = (crc_bit ^^ 8) (c XOR ucast b)"
proof -
  have "take_bit 8 b = b" by (intro bit_word_eqI) (auto simp: bit_simps)
  then show ?thesis using serial_bits [of 8 c b] unfolding bits_of_byte_def by simp
qed

text \<open>
  C34: The table computes the checksum of the standard: over any bytes it is the division of their bits by
  the polynomial, one bit at a time, however the bytes are cut into chunks.
\<close>
theorem the_table_divides_by_the_polynomial:
  "foldl (\<lambda>v chunk. crc32 chunk v) 0 chunks = crc_serial (concat (map bits_of_byte (concat chunks)))"
proof -
  have "foldl (\<lambda>v chunk. crc32 chunk v) v chunks = crc32 (concat chunks) v" for v
    by (induction chunks arbitrary: v) (simp_all add: crc32_append)
  moreover have "foldl crc_byte c data = foldl crc_serial_bit c (concat (map bits_of_byte data))" for c data
    by (induction data arbitrary: c) (simp_all add: serial_byte crc_byte_eq)
  ultimately show ?thesis by (simp add: crc32_def crc_serial_def)
qed

text \<open>The check value of the standard: the nine digits.\<close>

lemma crc_eight_bits: "(crc_bit ^^ 8) x = crc_bit (crc_bit (crc_bit (crc_bit (crc_bit (crc_bit (crc_bit (crc_bit x)))))))"
  by (simp add: numeral_eq_Suc)

lemma crc32_of_the_digits: "crc32 [0x31, 0x32, 0x33, 0x34, 0x35, 0x36, 0x37, 0x38, 0x39] 0 = 0xcbf43926"
  by (simp add: crc32_def crc_byte_eq crc_eight_bits crc_bit_def)

end
