(* ===== verification/Zip_Archive.thy ===== *)
theory Zip_Archive
  imports Crc32 Texts
begin

text \<open>
  The reader of zip archives, \<open>connectors/src/zip-archive.ts\<close>, and the writer kept beside it,
  \<open>zip-test-writer.ts\<close>. An archive is its bytes, read at offsets; sizes and offsets are natural numbers,
  which the source keeps below \<open>2^53\<close> itself. What the platform does is a parameter (\<open>platform\<close>): the
  decoding and encoding of names, inflate and deflate. The sentences of \<open>ZipUnreadable\<close> are kept apart by
  kind; a read past a \<open>DataView\<close> throws another error (\<open>Range_error\<close>). The reads that are guarded by
  the code before they are made are plain numbers here; the ones that are not are checked.
\<close>

subsection \<open>Bytes and numbers\<close>

fun le_bytes :: "nat \<Rightarrow> nat \<Rightarrow> byte list" where
  "le_bytes 0 v = []"
| "le_bytes (Suc n) v = word_of_nat v # le_bytes n (v div 256)"

fun le_value :: "byte list \<Rightarrow> nat" where
  "le_value [] = 0"
| "le_value (b # bs) = unat b + 256 * le_value bs"

definition u16 :: "byte list \<Rightarrow> nat \<Rightarrow> nat" where
  "u16 view pos = le_value (take 2 (drop pos view))"

definition u32 :: "byte list \<Rightarrow> nat \<Rightarrow> nat" where
  "u32 view pos = le_value (take 4 (drop pos view))"

datatype zip_problem =
  Too_short | No_end_record | Split_archive | No_room_for_locator | Locator_malformed | End64_beyond
| End64_no_signature | Beyond_addressing | Extra_too_short | Entry_past_end | Entry_no_signature | Field_past_end
| Directory_too_large | Directory_beyond | Local_beyond | Local_no_signature | Member_past_end | Encrypted_member
| Unknown_method nat | Larger_than_read | More_than_promised | Fewer_than_promised | Crc_failed | Short_read

datatype zip_error = Zip_unreadable zip_problem | Range_error | Inflate_error string

type_synonym 'a read = "zip_error + 'a"

definition unreadable :: "zip_problem \<Rightarrow> 'a read" where
  "unreadable p = Inl (Zip_unreadable p)"

definition and_then :: "'a read \<Rightarrow> ('a \<Rightarrow> 'b read) \<Rightarrow> 'b read" where
  "and_then m f = (case m of Inl e \<Rightarrow> Inl e | Inr a \<Rightarrow> f a)"

lemma and_then_simps [simp]: "and_then (Inr a) f = f a" "and_then (Inl e) f = Inl e"
  by (simp_all add: and_then_def)

definition MAX_SAFE_INTEGER :: nat where
  "MAX_SAFE_INTEGER = 9007199254740991"

text \<open>\<open>getBigUint64\<close> throws past the view; a value beyond a safe integer is refused.\<close>

definition u64 :: "byte list \<Rightarrow> nat \<Rightarrow> nat read" where
  "u64 view pos =
    (if length view < pos + 8 then Inl Range_error
     else let v = le_value (take 8 (drop pos view)) in
       if MAX_SAFE_INTEGER < v then unreadable Beyond_addressing else Inr v)"

definition u32_checked :: "byte list \<Rightarrow> nat \<Rightarrow> nat read" where
  "u32_checked view pos = (if length view < pos + 4 then Inl Range_error else Inr (u32 view pos))"

text \<open>\<open>RandomAccessSource.read\<close>: exactly what is asked for, or an error.\<close>

definition read_source :: "byte list \<Rightarrow> nat \<Rightarrow> nat \<Rightarrow> byte list read" where
  "read_source src offset n = (if length src < offset + n then unreadable Short_read else Inr (take n (drop offset src)))"

subsection \<open>The platform\<close>

record platform =
  pf_utf8 :: "byte list \<Rightarrow> string"
  pf_utf8_strict :: "byte list \<Rightarrow> string option"
  pf_latin1 :: "byte list \<Rightarrow> string"
  pf_encode :: "string \<Rightarrow> byte list"
  pf_inflate :: "byte list \<Rightarrow> string + byte list list"
  pf_deflate :: "byte list \<Rightarrow> byte list"

subsection \<open>Entries\<close>

definition EOCD_SIGNATURE :: nat where "EOCD_SIGNATURE = 0x06054b50"
definition EOCD64_LOCATOR_SIGNATURE :: nat where "EOCD64_LOCATOR_SIGNATURE = 0x07064b50"
definition EOCD64_SIGNATURE :: nat where "EOCD64_SIGNATURE = 0x06064b50"
definition CENTRAL_SIGNATURE :: nat where "CENTRAL_SIGNATURE = 0x02014b50"
definition LOCAL_SIGNATURE :: nat where "LOCAL_SIGNATURE = 0x04034b50"
definition DESCRIPTOR_SIGNATURE :: nat where "DESCRIPTOR_SIGNATURE = 0x08074b50"

definition EOCD_BYTES :: nat where "EOCD_BYTES = 22"
definition EOCD64_LOCATOR_BYTES :: nat where "EOCD64_LOCATOR_BYTES = 20"
definition EOCD64_BYTES :: nat where "EOCD64_BYTES = 56"
definition CENTRAL_HEADER_BYTES :: nat where "CENTRAL_HEADER_BYTES = 46"
definition LOCAL_HEADER_BYTES :: nat where "LOCAL_HEADER_BYTES = 30"
definition MAX_COMMENT :: nat where "MAX_COMMENT = 0xffff"
definition SENTINEL_16 :: nat where "SENTINEL_16 = 0xffff"
definition SENTINEL_32 :: nat where "SENTINEL_32 = 0xffffffff"
definition ZIP64_EXTRA_ID :: nat where "ZIP64_EXTRA_ID = 1"
definition MAX_CENTRAL_DIRECTORY_BYTES :: nat where "MAX_CENTRAL_DIRECTORY_BYTES = 256 * 1024 * 1024"
definition DEFAULT_MAX_READ_BYTES :: nat where "DEFAULT_MAX_READ_BYTES = 256 * 1024 * 1024"
definition STREAM_CHUNK_BYTES :: nat where "STREAM_CHUNK_BYTES = 1024 * 1024"
definition ZIP_METHOD_STORED :: nat where "ZIP_METHOD_STORED = 0"
definition ZIP_METHOD_DEFLATE :: nat where "ZIP_METHOD_DEFLATE = 8"

text \<open>\<open>flags & 0x0800\<close> and \<open>flags & 0x0001\<close>.\<close>

definition is_utf8 :: "nat \<Rightarrow> bool" where
  "is_utf8 flags \<longleftrightarrow> odd (flags div 0x0800)"

definition is_encrypted :: "nat \<Rightarrow> bool" where
  "is_encrypted flags \<longleftrightarrow> odd flags"

record zip_entry =
  ze_name :: string
  ze_isDirectory :: bool
  ze_method :: nat
  ze_compressedSize :: nat
  ze_uncompressedSize :: nat
  ze_crc32 :: nat
  ze_localHeaderOffset :: nat
  ze_dosStamp :: nat
  ze_flags :: nat

subsection \<open>Where the directory is\<close>

text \<open>The scan from the end: \<open>Suc pos\<close> places are left to look at, the first of them \<open>pos\<close>.\<close>

fun scan_back :: "byte list \<Rightarrow> nat \<Rightarrow> nat \<Rightarrow> nat option \<Rightarrow> nat option" where
  "scan_back tail tailStart 0 loose = loose"
| "scan_back tail tailStart (Suc pos) loose =
    (if u32 tail pos \<noteq> EOCD_SIGNATURE then scan_back tail tailStart pos loose
     else if pos + EOCD_BYTES + u16 tail (pos + 20) = length tail then Some (tailStart + pos)
     else scan_back tail tailStart pos (if loose = None then Some (tailStart + pos) else loose))"

definition findEndOfCentralDirectory :: "byte list \<Rightarrow> nat \<Rightarrow> nat option" where
  "findEndOfCentralDirectory tail tailStart =
    (if length tail < EOCD_BYTES then None else scan_back tail tailStart (Suc (length tail - EOCD_BYTES)) None)"

record directory =
  di_entries :: nat
  di_offset :: nat
  di_size :: nat
  di_zip64 :: bool

definition read_zip64_end :: "byte list \<Rightarrow> nat \<Rightarrow> directory read" where
  "read_zip64_end src eocdAt =
    (if eocdAt < EOCD64_LOCATOR_BYTES then unreadable No_room_for_locator
     else and_then (read_source src (eocdAt - EOCD64_LOCATOR_BYTES) EOCD64_LOCATOR_BYTES) (\<lambda>locator.
       if u32 locator 0 \<noteq> EOCD64_LOCATOR_SIGNATURE then unreadable Locator_malformed
       else if u32 locator 16 \<noteq> 1 \<or> u32 locator 4 \<noteq> 0 then unreadable Split_archive
       else and_then (u64 locator 8) (\<lambda>eocd64At.
         if length src < eocd64At + EOCD64_BYTES then unreadable End64_beyond
         else and_then (read_source src eocd64At EOCD64_BYTES) (\<lambda>eocd64.
           if u32 eocd64 0 \<noteq> EOCD64_SIGNATURE then unreadable End64_no_signature
           else if u32 eocd64 16 \<noteq> 0 \<or> u32 eocd64 20 \<noteq> 0 then unreadable Split_archive
           else and_then (u64 eocd64 32) (\<lambda>entries. and_then (u64 eocd64 40) (\<lambda>size. and_then (u64 eocd64 48) (\<lambda>offset.
             Inr \<lparr>di_entries = entries, di_offset = offset, di_size = size, di_zip64 = True\<rparr>)))))))"

definition readDirectoryLocation :: "byte list \<Rightarrow> directory read" where
  "readDirectoryLocation src =
    (if length src < EOCD_BYTES then unreadable Too_short
     else
       let tailLength = min (length src) (EOCD_BYTES + MAX_COMMENT); tailStart = length src - tailLength in
       and_then (read_source src tailStart tailLength) (\<lambda>tail.
         case findEndOfCentralDirectory tail tailStart of
           None \<Rightarrow> unreadable No_end_record
         | Some eocdAt \<Rightarrow>
             let eocd = take EOCD_BYTES (drop (eocdAt - tailStart) tail);
                 thisDisk = u16 eocd 4; directoryDisk = u16 eocd 6; entries = u16 eocd 10; size = u32 eocd 12; offset = u32 eocd 16;
                 wantsZip64 = (thisDisk = SENTINEL_16 \<or> directoryDisk = SENTINEL_16 \<or> entries = SENTINEL_16
                   \<or> size = SENTINEL_32 \<or> offset = SENTINEL_32)
             in if \<not> wantsZip64
                then if thisDisk \<noteq> 0 \<or> directoryDisk \<noteq> 0 then unreadable Split_archive
                     else Inr \<lparr>di_entries = entries, di_offset = offset, di_size = size, di_zip64 = False\<rparr>
                else read_zip64_end src eocdAt))"

subsection \<open>The directory\<close>

definition decodeName :: "platform \<Rightarrow> byte list \<Rightarrow> nat \<Rightarrow> string" where
  "decodeName pf bytes flags =
    (if is_utf8 flags then pf_utf8 pf bytes
     else case pf_utf8_strict pf bytes of Some name \<Rightarrow> name | None \<Rightarrow> pf_latin1 pf bytes)"

record sizes =
  sz_uncompressed :: nat
  sz_compressed :: nat
  sz_offset :: nat
  sz_disk :: nat

text \<open>\<open>take64\<close>: the value at the cursor, and the cursor after it, inside the field that ends at \<open>bound\<close>.\<close>

definition take64 :: "byte list \<Rightarrow> nat \<Rightarrow> nat \<Rightarrow> bool \<Rightarrow> nat \<Rightarrow> (nat \<times> nat) read" where
  "take64 extra bound cursor wanted narrow =
    (if \<not> wanted then Inr (narrow, cursor)
     else if bound < cursor + 8 then unreadable Extra_too_short
     else and_then (u64 extra cursor) (\<lambda>v. Inr (v, cursor + 8)))"

definition read_zip64_field :: "byte list \<Rightarrow> nat \<Rightarrow> nat \<Rightarrow> sizes \<Rightarrow> sizes read" where
  "read_zip64_field extra body bound sz =
    and_then (take64 extra bound body (sz_uncompressed sz = SENTINEL_32) (sz_uncompressed sz)) (\<lambda>(uncompressed, cursor).
    and_then (take64 extra bound cursor (sz_compressed sz = SENTINEL_32) (sz_compressed sz)) (\<lambda>(compressed, cursor).
    and_then (take64 extra bound cursor (sz_offset sz = SENTINEL_32) (sz_offset sz)) (\<lambda>(offset, cursor).
      if sz_disk sz = SENTINEL_16
      then if bound < cursor + 4 then unreadable Extra_too_short
           else and_then (u32_checked extra cursor) (\<lambda>disk.
             Inr \<lparr>sz_uncompressed = uncompressed, sz_compressed = compressed, sz_offset = offset, sz_disk = disk\<rparr>)
      else Inr \<lparr>sz_uncompressed = uncompressed, sz_compressed = compressed, sz_offset = offset, sz_disk = sz_disk sz\<rparr>)))"

function readZip64Extra :: "byte list \<Rightarrow> nat \<Rightarrow> sizes \<Rightarrow> sizes read" where
  "readZip64Extra extra pos sz =
    (if length extra < pos + 4 then Inr sz
     else let identifier = u16 extra pos; n = u16 extra (pos + 2); body = pos + 4 in
       if identifier = ZIP64_EXTRA_ID then read_zip64_field extra body (body + n) sz
       else readZip64Extra extra (body + n) sz)"
  by pat_completeness auto

termination
  by (relation "measure (\<lambda>(extra, pos, sz). length extra - pos)") auto

declare readZip64Extra.simps [simp del]

text \<open>One entry at \<open>pos\<close>, and where the next one is.\<close>

definition parse_entry :: "platform \<Rightarrow> byte list \<Rightarrow> nat \<Rightarrow> (zip_entry \<times> nat) read" where
  "parse_entry pf bytes pos =
    (if length bytes < pos + CENTRAL_HEADER_BYTES then unreadable Entry_past_end
     else if u32 bytes pos \<noteq> CENTRAL_SIGNATURE then unreadable Entry_no_signature
     else
       let flags = u16 bytes (pos + 8); meth = u16 bytes (pos + 10);
           dosStamp = u16 bytes (pos + 14) * 0x10000 + u16 bytes (pos + 12); crc = u32 bytes (pos + 16);
           nameLength = u16 bytes (pos + 28); extraLength = u16 bytes (pos + 30); commentLength = u16 bytes (pos + 32);
           nameAt = pos + CENTRAL_HEADER_BYTES; extraAt = nameAt + nameLength; nxt = extraAt + extraLength + commentLength
       in if length bytes < nxt then unreadable Field_past_end
          else and_then (readZip64Extra (take extraLength (drop extraAt bytes)) 0
              \<lparr>sz_uncompressed = u32 bytes (pos + 24), sz_compressed = u32 bytes (pos + 20), sz_offset = u32 bytes (pos + 42),
               sz_disk = u16 bytes (pos + 34)\<rparr>) (\<lambda>wide.
            if sz_disk wide \<noteq> 0 then unreadable Split_archive
            else let name = decodeName pf (take nameLength (drop nameAt bytes)) flags in
              Inr (\<lparr>ze_name = name, ze_isDirectory = (name \<noteq> [] \<and> List.last name = CHR ''/''), ze_method = meth,
                    ze_compressedSize = sz_compressed wide, ze_uncompressedSize = sz_uncompressed wide, ze_crc32 = crc,
                    ze_localHeaderOffset = sz_offset wide, ze_dosStamp = dosStamp, ze_flags = flags\<rparr>, nxt)))"

fun parse_entries :: "platform \<Rightarrow> byte list \<Rightarrow> nat \<Rightarrow> nat \<Rightarrow> zip_entry list read" where
  "parse_entries pf bytes 0 pos = Inr []"
| "parse_entries pf bytes (Suc n) pos =
    and_then (parse_entry pf bytes pos) (\<lambda>(entry, nxt).
      and_then (parse_entries pf bytes n nxt) (\<lambda>entries. Inr (entry # entries)))"

definition parseCentralDirectory :: "platform \<Rightarrow> byte list \<Rightarrow> nat \<Rightarrow> zip_entry list read" where
  "parseCentralDirectory pf bytes expected = parse_entries pf bytes expected 0"

record zip_archive =
  za_entries :: "zip_entry list"
  za_zip64 :: bool

definition openZip :: "platform \<Rightarrow> byte list \<Rightarrow> zip_archive read" where
  "openZip pf src =
    and_then (readDirectoryLocation src) (\<lambda>d.
      if MAX_CENTRAL_DIRECTORY_BYTES < di_size d then unreadable Directory_too_large
      else if length src < di_offset d + di_size d then unreadable Directory_beyond
      else and_then (read_source src (di_offset d) (di_size d)) (\<lambda>bytes.
        and_then (parseCentralDirectory pf bytes (di_entries d)) (\<lambda>entries.
          Inr \<lparr>za_entries = entries, za_zip64 = di_zip64 d\<rparr>)))"

subsection \<open>A member\<close>

definition dataStart :: "byte list \<Rightarrow> zip_entry \<Rightarrow> nat read" where
  "dataStart src e =
    (if length src < ze_localHeaderOffset e + LOCAL_HEADER_BYTES then unreadable Local_beyond
     else and_then (read_source src (ze_localHeaderOffset e) LOCAL_HEADER_BYTES) (\<lambda>header.
       if u32 header 0 \<noteq> LOCAL_SIGNATURE then unreadable Local_no_signature
       else let start = ze_localHeaderOffset e + LOCAL_HEADER_BYTES + u16 header 26 + u16 header 28 in
         if length src < start + ze_compressedSize e then unreadable Member_past_end else Inr start))"

text \<open>\<open>compressedChunks\<close>: \<open>n\<close> bytes are left to read.\<close>

function compressedChunks :: "byte list \<Rightarrow> nat \<Rightarrow> nat \<Rightarrow> byte list list read" where
  "compressedChunks src start n =
    (if n = 0 then Inr []
     else let step = min STREAM_CHUNK_BYTES n in
       and_then (read_source src start step) (\<lambda>chunk.
         and_then (compressedChunks src (start + step) (n - step)) (\<lambda>chunks. Inr (chunk # chunks))))"
  by pat_completeness auto

termination
  by (relation "measure (\<lambda>(src, start, n). n)") (auto simp: STREAM_CHUNK_BYTES_def)

declare compressedChunks.simps [simp del]

text \<open>\<open>verifying\<close>: the bytes seen and the running checksum, chunk by chunk, and the check at the end.\<close>

fun verifying :: "zip_entry \<Rightarrow> nat \<Rightarrow> 32 word \<Rightarrow> byte list list \<Rightarrow> byte list list read" where
  "verifying e seen running [] =
    (if seen \<noteq> ze_uncompressedSize e then unreadable Fewer_than_promised
     else if unat running \<noteq> ze_crc32 e then unreadable Crc_failed
     else Inr [])"
| "verifying e seen running (chunk # chunks) =
    (let seen = seen + length chunk; running = crc32 chunk running in
     if ze_uncompressedSize e < seen then unreadable More_than_promised
     else and_then (verifying e seen running chunks) (\<lambda>out. Inr (chunk # out)))"

definition open_member :: "platform \<Rightarrow> byte list \<Rightarrow> zip_entry \<Rightarrow> byte list list read" where
  "open_member pf src e =
    (if is_encrypted (ze_flags e) then unreadable Encrypted_member
     else if ze_method e \<noteq> ZIP_METHOD_STORED \<and> ze_method e \<noteq> ZIP_METHOD_DEFLATE then unreadable (Unknown_method (ze_method e))
     else and_then (dataStart src e) (\<lambda>start.
       and_then (compressedChunks src start (ze_compressedSize e)) (\<lambda>raw.
         and_then (if ze_method e = ZIP_METHOD_DEFLATE
             then (case pf_inflate pf (concat raw) of Inl m \<Rightarrow> Inl (Inflate_error m) | Inr chunks \<Rightarrow> Inr chunks)
             else Inr raw) (\<lambda>chunks.
           verifying e 0 0 chunks))))"

text \<open>\<open>read\<close>: the chunks, one after the other, in a buffer of the promised size, which they fill.\<close>

definition read_member :: "platform \<Rightarrow> byte list \<Rightarrow> zip_entry \<Rightarrow> nat \<Rightarrow> byte list read" where
  "read_member pf src e maxBytes =
    (if maxBytes < ze_uncompressedSize e then unreadable Larger_than_read
     else and_then (open_member pf src e) (\<lambda>chunks. Inr (concat chunks)))"

subsection \<open>The writer\<close>

record zip_file =
  zf_name :: string
  zf_data :: "byte list"
  zf_deflate :: bool
  zf_dataDescriptor :: bool
  zf_utf8Flag :: bool
  zf_nameBytes :: "byte list option"
  zf_encrypted :: bool
  zf_methodOverride :: "nat option"

record zip_options =
  zo_zip64 :: bool
  zo_comment :: "byte list"
  zo_spannedDisk :: nat
  zo_zip64TotalDisks :: nat

definition TEST_DOS_TIME :: nat where "TEST_DOS_TIME = 7 * 2048 + 8 * 32 + 10 div 2"
definition TEST_DOS_DATE :: nat where "TEST_DOS_DATE = (2024 - 1980) * 512 + 5 * 32 + 6"

record central_row =
  cr_nameBytes :: "byte list"
  cr_method :: nat
  cr_flags :: nat
  cr_crc :: nat
  cr_csize :: nat
  cr_usize :: nat
  cr_offset :: nat

definition body_of :: "platform \<Rightarrow> zip_file \<Rightarrow> byte list" where
  "body_of pf f = (if zf_deflate f then pf_deflate pf (zf_data f) else zf_data f)"

definition row_of :: "platform \<Rightarrow> zip_file \<Rightarrow> nat \<Rightarrow> central_row" where
  "row_of pf f offset =
    \<lparr>cr_nameBytes = (case zf_nameBytes f of Some b \<Rightarrow> b | None \<Rightarrow> pf_encode pf (zf_name f)),
     cr_method = (case zf_methodOverride f of Some n \<Rightarrow> n | None \<Rightarrow> if zf_deflate f then 8 else 0),
     cr_flags = (if zf_dataDescriptor f then 0x0008 else 0) + (if zf_utf8Flag f then 0x0800 else 0) + (if zf_encrypted f then 1 else 0),
     cr_crc = unat (crc32 (zf_data f) 0), cr_csize = length (body_of pf f), cr_usize = length (zf_data f), cr_offset = offset\<rparr>"

definition local_header :: "bool \<Rightarrow> bool \<Rightarrow> central_row \<Rightarrow> byte list" where
  "local_header zip64 descriptor c =
    le_bytes 4 LOCAL_SIGNATURE @ le_bytes 2 (if zip64 then 45 else 20) @ le_bytes 2 (cr_flags c) @ le_bytes 2 (cr_method c)
    @ le_bytes 2 TEST_DOS_TIME @ le_bytes 2 TEST_DOS_DATE @ le_bytes 4 (if descriptor then 0 else cr_crc c)
    @ (if zip64 then le_bytes 4 0xffffffff @ le_bytes 4 0xffffffff
       else le_bytes 4 (if descriptor then 0 else cr_csize c) @ le_bytes 4 (if descriptor then 0 else cr_usize c))
    @ le_bytes 2 (length (cr_nameBytes c)) @ le_bytes 2 (if zip64 then 20 else 0)"

definition local_extra :: "bool \<Rightarrow> central_row \<Rightarrow> byte list" where
  "local_extra zip64 c =
    (if zip64 then le_bytes 2 1 @ le_bytes 2 16 @ le_bytes 8 (cr_usize c) @ le_bytes 8 (cr_csize c) else [])"

definition data_descriptor :: "bool \<Rightarrow> central_row \<Rightarrow> byte list" where
  "data_descriptor zip64 c =
    le_bytes 4 DESCRIPTOR_SIGNATURE @ le_bytes 4 (cr_crc c)
    @ (if zip64 then le_bytes 8 (cr_csize c) @ le_bytes 8 (cr_usize c) else le_bytes 4 (cr_csize c) @ le_bytes 4 (cr_usize c))"

definition local_part :: "platform \<Rightarrow> bool \<Rightarrow> zip_file \<Rightarrow> nat \<Rightarrow> byte list" where
  "local_part pf zip64 f offset =
    (let c = row_of pf f offset in
     local_header zip64 (zf_dataDescriptor f) c @ cr_nameBytes c @ local_extra zip64 c @ body_of pf f
     @ (if zf_dataDescriptor f then data_descriptor zip64 c else []))"

text \<open>The files one after the other: the bytes so far, and the rows of the directory so far.\<close>

fun write_files :: "platform \<Rightarrow> bool \<Rightarrow> zip_file list \<Rightarrow> byte list \<Rightarrow> byte list \<times> central_row list" where
  "write_files pf zip64 [] out = (out, [])"
| "write_files pf zip64 (f # files) out =
    (case write_files pf zip64 files (out @ local_part pf zip64 f (length out)) of
       (out', rows) \<Rightarrow> (out', row_of pf f (length out) # rows))"

definition central_extra :: "bool \<Rightarrow> central_row \<Rightarrow> byte list" where
  "central_extra zip64 c =
    (if zip64 then le_bytes 2 1 @ le_bytes 2 28 @ le_bytes 8 (cr_usize c) @ le_bytes 8 (cr_csize c) @ le_bytes 8 (cr_offset c) @ le_bytes 4 0
     else [])"

definition central_header :: "bool \<Rightarrow> central_row \<Rightarrow> byte list" where
  "central_header zip64 c =
    le_bytes 4 CENTRAL_SIGNATURE @ le_bytes 2 (if zip64 then 45 else 20) @ le_bytes 2 (if zip64 then 45 else 20)
    @ le_bytes 2 (cr_flags c) @ le_bytes 2 (cr_method c) @ le_bytes 2 TEST_DOS_TIME @ le_bytes 2 TEST_DOS_DATE
    @ le_bytes 4 (cr_crc c) @ le_bytes 4 (if zip64 then 0xffffffff else cr_csize c) @ le_bytes 4 (if zip64 then 0xffffffff else cr_usize c)
    @ le_bytes 2 (length (cr_nameBytes c)) @ le_bytes 2 (if zip64 then 32 else 0) @ le_bytes 2 0
    @ le_bytes 2 (if zip64 then 0xffff else 0) @ le_bytes 2 0 @ le_bytes 4 0 @ le_bytes 4 (if zip64 then 0xffffffff else cr_offset c)"

definition central_part :: "bool \<Rightarrow> central_row \<Rightarrow> byte list" where
  "central_part zip64 c = central_header zip64 c @ cr_nameBytes c @ central_extra zip64 c"

definition zip64_end :: "zip_options \<Rightarrow> nat \<Rightarrow> nat \<Rightarrow> nat \<Rightarrow> nat \<Rightarrow> byte list" where
  "zip64_end opts count directorySize directoryOffset eocd64Offset =
    le_bytes 4 EOCD64_SIGNATURE @ le_bytes 8 44 @ le_bytes 2 45 @ le_bytes 2 45 @ le_bytes 4 0 @ le_bytes 4 0
    @ le_bytes 8 count @ le_bytes 8 count @ le_bytes 8 directorySize @ le_bytes 8 directoryOffset
    @ le_bytes 4 EOCD64_LOCATOR_SIGNATURE @ le_bytes 4 0 @ le_bytes 8 eocd64Offset @ le_bytes 4 (zo_zip64TotalDisks opts)"

definition end_record :: "zip_options \<Rightarrow> nat \<Rightarrow> nat \<Rightarrow> nat \<Rightarrow> byte list" where
  "end_record opts count directorySize directoryOffset =
    le_bytes 4 EOCD_SIGNATURE
    @ (if zo_zip64 opts
       then le_bytes 2 0xffff @ le_bytes 2 0xffff @ le_bytes 2 0xffff @ le_bytes 2 0xffff @ le_bytes 4 0xffffffff @ le_bytes 4 0xffffffff
       else le_bytes 2 (zo_spannedDisk opts) @ le_bytes 2 (zo_spannedDisk opts) @ le_bytes 2 count @ le_bytes 2 count
         @ le_bytes 4 directorySize @ le_bytes 4 directoryOffset)
    @ le_bytes 2 (length (zo_comment opts))"

definition buildZip :: "platform \<Rightarrow> zip_file list \<Rightarrow> zip_options \<Rightarrow> byte list" where
  "buildZip pf files opts =
    (case write_files pf (zo_zip64 opts) files [] of (out, rows) \<Rightarrow>
      let directoryOffset = length out;
          dir = concat (map (central_part (zo_zip64 opts)) rows);
          directorySize = length dir
      in out @ dir
         @ (if zo_zip64 opts
            then zip64_end opts (length rows) directorySize directoryOffset (directoryOffset + directorySize) else [])
         @ end_record opts (length rows) directorySize directoryOffset @ zo_comment opts)"

end
