(* ===== verification/Zip_Laws.thy ===== *)
theory Zip_Laws
  imports Zip_Archive
begin

text \<open>
  What the reader of archives keeps to: it reads back what the writer wrote, member by member; it never
  gives other bytes than the directory promised; and a byte that was changed in a stored member is noticed.
\<close>

subsection \<open>Numbers in bytes\<close>

lemma length_le_bytes [simp]: "length (le_bytes n v) = n"
  by (induction n arbitrary: v) simp_all

lemma unat_byte: "unat (word_of_nat v :: byte) = v mod 256"
  by (simp add: unat_of_nat)

lemma le_value_le_bytes: "le_value (le_bytes n v) = v mod 256 ^ n"
  by (induction n arbitrary: v) (simp_all add: unat_byte mod_mult2_eq)

lemma u16_skip [simp]: "length xs \<le> pos \<Longrightarrow> u16 (xs @ ys) pos = u16 ys (pos - length xs)"
  by (simp add: u16_def)

lemma u32_skip [simp]: "length xs \<le> pos \<Longrightarrow> u32 (xs @ ys) pos = u32 ys (pos - length xs)"
  by (simp add: u32_def)

lemma u16_here [simp]: "u16 (le_bytes 2 v @ ys) 0 = v mod 65536" "u16 (le_bytes 2 v) 0 = v mod 65536"
  by (simp_all add: u16_def le_value_le_bytes)

lemma u32_here [simp]: "u32 (le_bytes 4 v @ ys) 0 = v mod 4294967296" "u32 (le_bytes 4 v) 0 = v mod 4294967296"
  by (simp_all add: u32_def le_value_le_bytes)

lemma u64_skip [simp]: "length xs \<le> pos \<Longrightarrow> u64 (xs @ ys) pos = u64 ys (pos - length xs)"
proof -
  assume "length xs \<le> pos"
  then have "length (xs @ ys) < pos + 8 \<longleftrightarrow> length ys < pos - length xs + 8" by auto
  with \<open>length xs \<le> pos\<close> show ?thesis by (simp add: u64_def)
qed

lemma u64_here [simp]:
  assumes "v \<le> MAX_SAFE_INTEGER"
  shows "u64 (le_bytes 8 v @ ys) 0 = Inr v" "u64 (le_bytes 8 v) 0 = Inr v"
  using assms by (simp_all add: u64_def le_value_le_bytes MAX_SAFE_INTEGER_def)

lemma u16_drop: "u16 (drop n xs) pos = u16 xs (n + pos)"
  by (simp add: u16_def add.commute)

lemma u32_drop: "u32 (drop n xs) pos = u32 xs (n + pos)"
  by (simp add: u32_def add.commute)

lemma and_then_Inr: "and_then m f = Inr x \<longleftrightarrow> (\<exists>a. m = Inr a \<and> f a = Inr x)"
  by (cases m) simp_all

subsection \<open>One entry of the directory\<close>

definition entry_of :: "platform \<Rightarrow> central_row \<Rightarrow> zip_entry" where
  "entry_of pf c = (let name = decodeName pf (cr_nameBytes c) (cr_flags c) in
    \<lparr>ze_name = name, ze_isDirectory = (name \<noteq> [] \<and> List.last name = CHR ''/''), ze_method = cr_method c,
     ze_compressedSize = cr_csize c, ze_uncompressedSize = cr_usize c, ze_crc32 = cr_crc c,
     ze_localHeaderOffset = cr_offset c, ze_dosStamp = TEST_DOS_DATE * 0x10000 + TEST_DOS_TIME, ze_flags = cr_flags c\<rparr>)"

text \<open>The rows a directory can hold, without and with the wide fields.\<close>

definition row_fits :: "bool \<Rightarrow> central_row \<Rightarrow> bool" where
  "row_fits zip64 c \<longleftrightarrow>
    length (cr_nameBytes c) < 65536 \<and> cr_method c < 65536 \<and> cr_flags c < 65536 \<and> cr_crc c < 4294967296
    \<and> (if zip64 then cr_usize c \<le> MAX_SAFE_INTEGER \<and> cr_csize c \<le> MAX_SAFE_INTEGER \<and> cr_offset c \<le> MAX_SAFE_INTEGER
       else cr_usize c < SENTINEL_32 \<and> cr_csize c < SENTINEL_32 \<and> cr_offset c < SENTINEL_32)"

lemma length_central_header [simp]: "length (central_header zip64 c) = 46"
  by (simp add: central_header_def)

lemma length_central_part:
  "length (central_part zip64 c) = 46 + length (cr_nameBytes c) + (if zip64 then 32 else 0)"
  by (simp add: central_part_def central_extra_def)

lemma extra_is_read:
  assumes "row_fits True c"
  shows "readZip64Extra (central_extra True c) 0
      \<lparr>sz_uncompressed = SENTINEL_32, sz_compressed = SENTINEL_32, sz_offset = SENTINEL_32, sz_disk = SENTINEL_16\<rparr>
    = Inr \<lparr>sz_uncompressed = cr_usize c, sz_compressed = cr_csize c, sz_offset = cr_offset c, sz_disk = 0\<rparr>"
  using assms
  by (simp add: readZip64Extra.simps central_extra_def read_zip64_field_def take64_def u32_checked_def row_fits_def ZIP64_EXTRA_ID_def Let_def)

lemma no_extra_is_read: "readZip64Extra [] 0 sz = Inr sz"
  by (simp add: readZip64Extra.simps)

lemma header_fields:
  "u32 (central_header z c @ rest) 0 = CENTRAL_SIGNATURE"
  "u16 (central_header z c @ rest) 8 = cr_flags c mod 65536"
  "u16 (central_header z c @ rest) 10 = cr_method c mod 65536"
  "u16 (central_header z c @ rest) 12 = TEST_DOS_TIME"
  "u16 (central_header z c @ rest) 14 = TEST_DOS_DATE"
  "u32 (central_header z c @ rest) 16 = cr_crc c mod 4294967296"
  "u32 (central_header z c @ rest) 20 = (if z then SENTINEL_32 else cr_csize c mod 4294967296)"
  "u32 (central_header z c @ rest) 24 = (if z then SENTINEL_32 else cr_usize c mod 4294967296)"
  "u16 (central_header z c @ rest) 28 = length (cr_nameBytes c) mod 65536"
  "u16 (central_header z c @ rest) 30 = (if z then 32 else 0)"
  "u16 (central_header z c @ rest) 32 = 0"
  "u16 (central_header z c @ rest) 34 = (if z then SENTINEL_16 else 0)"
  "u32 (central_header z c @ rest) 42 = (if z then SENTINEL_32 else cr_offset c mod 4294967296)"
  by (simp_all add: central_header_def CENTRAL_SIGNATURE_def TEST_DOS_TIME_def TEST_DOS_DATE_def SENTINEL_32_def SENTINEL_16_def)

lemma an_entry_is_read:
  assumes "row_fits zip64 c"
  shows "parse_entry pf (pre @ central_part zip64 c @ post) (length pre) =
    Inr (entry_of pf c, length pre + length (central_part zip64 c))"
proof -
  let ?bytes = "pre @ central_part zip64 c @ post"
  have part: "u16 ?bytes (length pre + n) = u16 (central_header zip64 c @ cr_nameBytes c @ central_extra zip64 c @ post) n"
    "u32 ?bytes (length pre + n) = u32 (central_header zip64 c @ cr_nameBytes c @ central_extra zip64 c @ post) n"
    "u32 ?bytes (length pre) = u32 (central_header zip64 c @ cr_nameBytes c @ central_extra zip64 c @ post) 0" for n
    by (simp_all add: central_part_def)
  show ?thesis
    using assms extra_is_read [of c]
    unfolding parse_entry_def part header_fields Let_def
    by (cases zip64)
      (auto simp: length_central_part CENTRAL_HEADER_BYTES_def row_fits_def entry_of_def central_part_def no_extra_is_read
        SENTINEL_32_def central_extra_def Let_def)
qed

lemma the_entries_are_read:
  assumes "\<forall>c \<in> set rows. row_fits zip64 c"
  shows "parse_entries pf (pre @ concat (map (central_part zip64) rows) @ post) (length rows) (length pre) = Inr (map (entry_of pf) rows)"
  using assms
proof (induction rows arbitrary: pre)
  case (Cons c rows)
  have "parse_entries pf ((pre @ central_part zip64 c) @ concat (map (central_part zip64) rows) @ post) (length rows)
      (length (pre @ central_part zip64 c)) = Inr (map (entry_of pf) rows)"
    using Cons.IH [of "pre @ central_part zip64 c"] Cons.prems by simp
  then show ?case using an_entry_is_read [of zip64 c pf pre "concat (map (central_part zip64) rows) @ post"] Cons.prems by simp
qed simp

subsection \<open>The end record\<close>

lemma scan_finds:
  assumes "pos < n" and "u32 tail pos = EOCD_SIGNATURE" and "pos + EOCD_BYTES + u16 tail (pos + 20) = length tail"
    and "\<forall>q. pos < q \<and> q < n \<longrightarrow> u32 tail q = EOCD_SIGNATURE \<longrightarrow> q + EOCD_BYTES + u16 tail (q + 20) \<noteq> length tail"
  shows "scan_back tail tailStart n loose = Some (tailStart + pos)"
  using assms
proof (induction n arbitrary: loose)
  case (Suc n)
  show ?case
  proof (cases "n = pos")
    case False
    then have "u32 tail n = EOCD_SIGNATURE \<longrightarrow> n + EOCD_BYTES + u16 tail (n + 20) \<noteq> length tail"
      using Suc.prems(1,4) by auto
    moreover have "scan_back tail tailStart n l = Some (tailStart + pos)" for l
      by (rule Suc.IH) (use False Suc.prems in auto)
    ultimately show ?thesis by simp
  qed (use Suc.prems in simp)
qed simp

text \<open>No later place of the archive reads as an end record that fits: a comment may hold one.\<close>

definition only_end_record :: "byte list \<Rightarrow> nat \<Rightarrow> bool" where
  "only_end_record src eocdAt \<longleftrightarrow>
    (\<forall>q. eocdAt < q \<and> q + EOCD_BYTES \<le> length src \<longrightarrow> u32 src q = EOCD_SIGNATURE \<longrightarrow>
      q + EOCD_BYTES + u16 src (q + 20) \<noteq> length src)"

lemma only_end_without_comment: "length src = eocdAt + EOCD_BYTES \<Longrightarrow> only_end_record src eocdAt"
  by (auto simp: only_end_record_def)

lemma length_end_record [simp]: "length (end_record opts count dsize offset) = 22"
  by (simp add: end_record_def)

lemma end_fields:
  "u32 (end_record opts count dsize offset @ rest) 0 = EOCD_SIGNATURE"
  "u16 (end_record opts count dsize offset @ rest) 20 = length (zo_comment opts) mod 65536"
  "u16 (end_record opts count dsize offset) 4 = (if zo_zip64 opts then 65535 else zo_spannedDisk opts mod 65536)"
  "u16 (end_record opts count dsize offset) 6 = (if zo_zip64 opts then 65535 else zo_spannedDisk opts mod 65536)"
  "u16 (end_record opts count dsize offset) 10 = (if zo_zip64 opts then 65535 else count mod 65536)"
  "u32 (end_record opts count dsize offset) 12 = (if zo_zip64 opts then 4294967295 else dsize mod 4294967296)"
  "u32 (end_record opts count dsize offset) 16 = (if zo_zip64 opts then 4294967295 else offset mod 4294967296)"
  by (simp_all add: end_record_def EOCD_SIGNATURE_def)

lemma the_end_is_found:
  assumes src: "src = pre @ end_record opts count dsize offset @ zo_comment opts"
    and "length (zo_comment opts) < 65536" and "only_end_record src (length pre)"
  defines "tailLength \<equiv> min (length src) (EOCD_BYTES + MAX_COMMENT)"
  defines "tailStart \<equiv> length src - tailLength"
  shows "tailStart \<le> length pre"
    "findEndOfCentralDirectory (drop tailStart src) tailStart = Some (length pre)"
    "take EOCD_BYTES (drop (length pre - tailStart) (drop tailStart src)) = end_record opts count dsize offset"
proof -
  show start: "tailStart \<le> length pre"
    using assms(2) by (simp add: tailStart_def tailLength_def src EOCD_BYTES_def MAX_COMMENT_def)
  let ?tail = "drop tailStart src" and ?pos = "length pre - tailStart"
  have len: "length ?tail = length src - tailStart" "length src = length pre + 22 + length (zo_comment opts)"
    by (simp_all add: src)
  have here: "u32 ?tail ?pos = EOCD_SIGNATURE" "u16 ?tail (?pos + 20) = length (zo_comment opts)"
    using start assms(2) by (simp_all add: u32_drop u16_drop src end_fields)
  have "scan_back ?tail tailStart (Suc (length ?tail - EOCD_BYTES)) None = Some (tailStart + ?pos)"
  proof (rule scan_finds)
    show "?pos < Suc (length ?tail - EOCD_BYTES)" using start len by (simp add: EOCD_BYTES_def)
    show "?pos + EOCD_BYTES + u16 ?tail (?pos + 20) = length ?tail" using start len here(2) by (simp add: EOCD_BYTES_def)
    show "\<forall>q. ?pos < q \<and> q < Suc (length ?tail - EOCD_BYTES) \<longrightarrow> u32 ?tail q = EOCD_SIGNATURE \<longrightarrow>
        q + EOCD_BYTES + u16 ?tail (q + 20) \<noteq> length ?tail"
    proof (intro allI impI)
      fix q assume q: "?pos < q \<and> q < Suc (length ?tail - EOCD_BYTES)" and sig: "u32 ?tail q = EOCD_SIGNATURE"
      have "length pre < tailStart + q \<and> tailStart + q + EOCD_BYTES \<le> length src"
        using q start len by (auto simp: EOCD_BYTES_def)
      with assms(3) sig have "tailStart + q + EOCD_BYTES + u16 src (tailStart + q + 20) \<noteq> length src"
        unfolding only_end_record_def by (simp add: u32_drop)
      then show "q + EOCD_BYTES + u16 ?tail (q + 20) \<noteq> length ?tail"
        using start len by (simp add: u16_drop add.assoc)
    qed
  qed (fact here(1))
  then show "findEndOfCentralDirectory ?tail tailStart = Some (length pre)"
    using start len by (simp add: findEndOfCentralDirectory_def EOCD_BYTES_def)
  show "take EOCD_BYTES (drop ?pos ?tail) = end_record opts count dsize offset"
    using start by (simp add: src EOCD_BYTES_def)
qed

lemma reading_inside: "read_source (xs @ ys @ zs) (length xs) (length ys) = Inr ys"
  by (simp add: read_source_def)

lemma length_zip64_end [simp]: "length (zip64_end opts count dsize offset pos) = 76"
  by (simp add: zip64_end_def)

lemma the_zip64_end_is_read:
  assumes "src = pre @ zip64_end opts count dsize offset (length pre) @ post" and "zo_zip64TotalDisks opts = 1"
    and "count \<le> MAX_SAFE_INTEGER" "dsize \<le> MAX_SAFE_INTEGER" "offset \<le> MAX_SAFE_INTEGER" "length pre \<le> MAX_SAFE_INTEGER"
  shows "read_zip64_end src (length pre + 76) = Inr \<lparr>di_entries = count, di_offset = offset, di_size = dsize, di_zip64 = True\<rparr>"
proof -
  define e64 loc where "e64 = le_bytes 4 EOCD64_SIGNATURE @ le_bytes 8 44 @ le_bytes 2 45 @ le_bytes 2 45 @ le_bytes 4 0 @ le_bytes 4 0
      @ le_bytes 8 count @ le_bytes 8 count @ le_bytes 8 dsize @ le_bytes 8 offset"
    and "loc = le_bytes 4 EOCD64_LOCATOR_SIGNATURE @ le_bytes 4 0 @ le_bytes 8 (length pre) @ le_bytes 4 (zo_zip64TotalDisks opts)"
  have src: "src = pre @ e64 @ loc @ post" by (simp add: assms(1) zip64_end_def e64_def loc_def)
  have len: "length e64 = 56" "length loc = 20" by (simp_all add: e64_def loc_def)
  have locator: "read_source src (length pre + 76 - EOCD64_LOCATOR_BYTES) EOCD64_LOCATOR_BYTES = Inr loc"
    using reading_inside [of "pre @ e64" loc post] by (simp add: src len EOCD64_LOCATOR_BYTES_def add.commute)
  have end64: "read_source src (length pre) EOCD64_BYTES = Inr e64"
    using reading_inside [of pre e64 "loc @ post"] by (simp add: src len EOCD64_BYTES_def)
  have fields: "u32 loc 0 = EOCD64_LOCATOR_SIGNATURE" "u32 loc 16 = 1" "u32 loc 4 = 0" "u64 loc 8 = Inr (length pre)"
    using assms(2,6) by (simp_all add: loc_def EOCD64_LOCATOR_SIGNATURE_def)
  have fields64: "u32 e64 0 = EOCD64_SIGNATURE" "u32 e64 16 = 0" "u32 e64 20 = 0" "u64 e64 32 = Inr count" "u64 e64 40 = Inr dsize" "u64 e64 48 = Inr offset"
    using assms(3-5) by (simp_all add: e64_def EOCD64_SIGNATURE_def)
  have "\<not> length src < length pre + EOCD64_BYTES" "\<not> length pre + 76 < EOCD64_LOCATOR_BYTES"
    by (simp_all add: src len EOCD64_BYTES_def EOCD64_LOCATOR_BYTES_def)
  then show ?thesis
    unfolding read_zip64_end_def by (simp add: locator end64 fields fields64)
qed

text \<open>The location of the directory, of an archive whose end says where it is.\<close>

definition directory_fits :: "zip_options \<Rightarrow> nat \<Rightarrow> nat \<Rightarrow> nat \<Rightarrow> bool" where
  "directory_fits opts count dsize offset \<longleftrightarrow>
    length (zo_comment opts) < 65536
    \<and> (if zo_zip64 opts
       then zo_zip64TotalDisks opts = 1 \<and> count \<le> MAX_SAFE_INTEGER \<and> offset + dsize \<le> MAX_SAFE_INTEGER
       else zo_spannedDisk opts = 0 \<and> count < SENTINEL_16 \<and> dsize < SENTINEL_32 \<and> offset < SENTINEL_32)"

lemma the_directory_is_located:
  assumes src: "src = pre @ (if zo_zip64 opts then zip64_end opts count dsize offset (length pre) else [])
      @ end_record opts count dsize offset @ zo_comment opts"
    and "directory_fits opts count dsize offset" and pre: "length pre = offset + dsize"
    and "only_end_record src (length pre + (if zo_zip64 opts then 76 else 0))"
  shows "readDirectoryLocation src = Inr \<lparr>di_entries = count, di_offset = offset, di_size = dsize, di_zip64 = zo_zip64 opts\<rparr>"
proof -
  define before where "before = pre @ (if zo_zip64 opts then zip64_end opts count dsize offset (length pre) else [])"
  have src': "src = before @ end_record opts count dsize offset @ zo_comment opts" by (simp add: src before_def)
  have before: "length before = length pre + (if zo_zip64 opts then 76 else 0)" by (simp add: before_def)
  define tailLength tailStart where "tailLength = min (length src) (EOCD_BYTES + MAX_COMMENT)" and "tailStart = length src - tailLength"
  have comment: "length (zo_comment opts) < 65536" using assms(2) by (simp add: directory_fits_def)
  have only: "only_end_record src (length before)" using assms(4) by (simp add: before)
  note found = the_end_is_found [OF src' comment only, folded tailLength_def, folded tailStart_def]
  have tail: "read_source src tailStart tailLength = Inr (drop tailStart src)"
    by (simp add: read_source_def tailStart_def tailLength_def)
  have "\<not> length src < EOCD_BYTES" by (simp add: src' EOCD_BYTES_def)
  moreover have "read_zip64_end src (length before) = Inr \<lparr>di_entries = count, di_offset = offset, di_size = dsize, di_zip64 = True\<rparr>"
    if "zo_zip64 opts"
    using the_zip64_end_is_read [of src pre opts count dsize offset "end_record opts count dsize offset @ zo_comment opts"] that assms(2) pre
    by (simp add: src before directory_fits_def)
  ultimately show ?thesis
    using assms(2) tail found(1)
    unfolding readDirectoryLocation_def Let_def tailLength_def [symmetric] tailStart_def [symmetric]
    unfolding tail and_then_simps found(2,3) option.case end_fields
    by (cases "zo_zip64 opts") (simp_all add: directory_fits_def SENTINEL_16_def SENTINEL_32_def)
qed

subsection \<open>The members\<close>

lemma files_are_written:
  assumes "write_files pf zip64 files out = (out', rows)"
  shows "\<exists>written. out' = out @ written" "length rows = length files"
    "\<forall>i < length files. \<exists>pre post. out' = pre @ local_part pf zip64 (files ! i) (length pre) @ post
      \<and> rows ! i = row_of pf (files ! i) (length pre)"
proof -
  have "(\<exists>written. out' = out @ written) \<and> length rows = length files
    \<and> (\<forall>i < length files. \<exists>pre post. out' = pre @ local_part pf zip64 (files ! i) (length pre) @ post
      \<and> rows ! i = row_of pf (files ! i) (length pre))"
    using assms
  proof (induction files arbitrary: out rows)
    case (Cons f files)
    obtain rows' where rest: "write_files pf zip64 files (out @ local_part pf zip64 f (length out)) = (out', rows')"
      and rows: "rows = row_of pf f (length out) # rows'"
      using Cons.prems by (auto split: prod.splits)
    from Cons.IH [OF rest] obtain written where written: "out' = (out @ local_part pf zip64 f (length out)) @ written"
      and ih: "length rows' = length files" "\<forall>i < length files. \<exists>pre post. out' = pre @ local_part pf zip64 (files ! i) (length pre) @ post
        \<and> rows' ! i = row_of pf (files ! i) (length pre)"
      by blast
    have "\<exists>pre post. out' = pre @ local_part pf zip64 ((f # files) ! i) (length pre) @ post
        \<and> rows ! i = row_of pf ((f # files) ! i) (length pre)" if "i < length (f # files)" for i
    proof (cases i)
      case 0
      with written show ?thesis by (intro exI [of _ out] exI [of _ written]) (simp add: rows)
    next
      case (Suc j)
      with ih(2) that show ?thesis by (simp add: rows)
    qed
    with written ih(1) show ?case by (auto simp: rows)
  qed simp
  then show "\<exists>written. out' = out @ written" "length rows = length files"
    "\<forall>i < length files. \<exists>pre post. out' = pre @ local_part pf zip64 (files ! i) (length pre) @ post
      \<and> rows ! i = row_of pf (files ! i) (length pre)"
    by blast+
qed

lemma chunks_are_read:
  assumes "start + n \<le> length src"
  shows "\<exists>chunks. compressedChunks src start n = Inr chunks \<and> concat chunks = take n (drop start src)"
  using assms
proof (induction n arbitrary: start rule: less_induct)
  case (less n)
  show ?case
  proof (cases "n = 0")
    case False
    define step where "step = min STREAM_CHUNK_BYTES n"
    have step: "0 < step" "step \<le> n" using False by (auto simp: step_def STREAM_CHUNK_BYTES_def)
    from less.IH [of "n - step" "start + step"] step less.prems obtain chunks
      where chunks: "compressedChunks src (start + step) (n - step) = Inr chunks" "concat chunks = take (n - step) (drop (start + step) src)"
      by auto
    have "read_source src start step = Inr (take step (drop start src))" using step less.prems by (simp add: read_source_def)
    with chunks False have "compressedChunks src start n = Inr (take step (drop start src) # chunks)"
      by (subst compressedChunks.simps) (simp add: step_def [symmetric] Let_def)
    moreover have "take step (drop start src) @ take (n - step) (drop (start + step) src) = take n (drop start src)"
      using step by (metis add.commute drop_drop le_add_diff_inverse take_add)
    ultimately show ?thesis using chunks(2) by simp
  qed (simp add: compressedChunks.simps)
qed

lemma verified:
  "verifying e seen running chunks = Inr out \<longleftrightarrow>
    out = chunks \<and> seen + length (concat chunks) = ze_uncompressedSize e \<and> unat (crc32 (concat chunks) running) = ze_crc32 e"
  by (induction chunks arbitrary: seen running out)
    (auto simp: and_then_Inr Let_def crc32_append unreadable_def add.assoc)

text \<open>A member is read where its local header and its bytes lie, whatever is around them.\<close>

lemma length_local_header [simp]: "length (local_header zip64 dd c) = 30"
  by (simp add: local_header_def)

lemma local_fields:
  "u32 (local_header z dd c) 0 = LOCAL_SIGNATURE"
  "u16 (local_header z dd c) 26 = length (cr_nameBytes c) mod 65536"
  "u16 (local_header z dd c) 28 = (if z then 20 else 0)"
  by (simp_all add: local_header_def LOCAL_SIGNATURE_def)

lemma the_data_starts:
  assumes "src = pre @ local_header z dd c @ cr_nameBytes c @ local_extra z c @ body @ post"
    and "length (cr_nameBytes c) < 65536" and "cr_csize c = length body" and "cr_offset c = length pre"
  shows "\<exists>start. dataStart src (entry_of pf c) = Inr start \<and> start + length body \<le> length src \<and> take (length body) (drop start src) = body"
proof -
  have "read_source src (length pre) LOCAL_HEADER_BYTES = Inr (local_header z dd c)"
    using reading_inside [of pre "local_header z dd c"] by (simp add: assms(1) LOCAL_HEADER_BYTES_def)
  then show ?thesis
    using assms(2-4)
    by (simp add: dataStart_def entry_of_def LOCAL_HEADER_BYTES_def local_fields Let_def assms(1) local_extra_def)
qed

lemma a_written_member_is_read:
  assumes src: "src = pre @ local_part pf z f (length pre) @ post"
    and "zf_nameBytes f = None" and "zf_methodOverride f = None" and "\<not> zf_encrypted f"
    and "length (pf_encode pf (zf_name f)) < 65536"
    and "zf_deflate f \<Longrightarrow> \<exists>chunks. pf_inflate pf (pf_deflate pf (zf_data f)) = Inr chunks \<and> concat chunks = zf_data f"
    and "length (zf_data f) \<le> maxBytes"
  shows "read_member pf src (entry_of pf (row_of pf f (length pre))) maxBytes = Inr (zf_data f)"
proof -
  let ?c = "row_of pf f (length pre)"
  let ?e = "entry_of pf ?c"
  have "\<exists>start. dataStart src ?e = Inr start \<and> start + length (body_of pf f) \<le> length src \<and> take (length (body_of pf f)) (drop start src) = body_of pf f"
    by (rule the_data_starts [where dd = "zf_dataDescriptor f" and c = ?c and z = z and post = "(if zf_dataDescriptor f then data_descriptor z ?c else []) @ post"])
      (use assms(2,5) in \<open>simp_all add: src local_part_def row_of_def Let_def\<close>)
  then obtain start where start: "dataStart src ?e = Inr start" "start + length (body_of pf f) \<le> length src"
      "take (length (body_of pf f)) (drop start src) = body_of pf f"
    by blast
  obtain raw where raw: "compressedChunks src start (length (body_of pf f)) = Inr raw" "concat raw = body_of pf f"
    using chunks_are_read [OF start(2)] start(3) by auto
  have e: "ze_compressedSize ?e = length (body_of pf f)" "ze_uncompressedSize ?e = length (zf_data f)"
      "ze_crc32 ?e = unat (crc32 (zf_data f) 0)" "ze_method ?e = (if zf_deflate f then 8 else 0)" "\<not> is_encrypted (ze_flags ?e)"
    using assms(3,4) by (simp_all add: entry_of_def row_of_def Let_def is_encrypted_def)
  obtain chunks where chunks: "concat chunks = zf_data f"
    "(if ze_method ?e = ZIP_METHOD_DEFLATE
      then (case pf_inflate pf (concat raw) of Inl m \<Rightarrow> Inl (Inflate_error m) | Inr chunks \<Rightarrow> Inr chunks) else Inr raw) = Inr chunks"
    using assms(6) raw(2) e(4) by (cases "zf_deflate f") (auto simp: ZIP_METHOD_DEFLATE_def body_of_def)
  have "verifying ?e 0 0 chunks = Inr chunks" by (simp add: verified chunks(1) e)
  then have "open_member pf src ?e = Inr chunks"
    using e(4,5) start(1) raw(1) chunks(2)
    unfolding open_member_def e(1) by (simp add: ZIP_METHOD_STORED_def ZIP_METHOD_DEFLATE_def)
  then show ?thesis using assms(7) by (simp add: read_member_def e(2) chunks(1))
qed

subsection \<open>What is written is read\<close>

text \<open>
  A file the reader takes: a name that decodes to itself and fits its field, a method it knows, and an
  inflate that undoes the deflate.
\<close>

definition flags_of :: "zip_file \<Rightarrow> nat" where
  "flags_of f = (if zf_dataDescriptor f then 0x0008 else 0) + (if zf_utf8Flag f then 0x0800 else 0)"

definition readable_file :: "platform \<Rightarrow> zip_file \<Rightarrow> bool" where
  "readable_file pf f \<longleftrightarrow>
    zf_nameBytes f = None \<and> zf_methodOverride f = None \<and> \<not> zf_encrypted f \<and> length (pf_encode pf (zf_name f)) < 65536
    \<and> decodeName pf (pf_encode pf (zf_name f)) (flags_of f) = zf_name f
    \<and> (zf_deflate f \<longrightarrow> (case pf_inflate pf (pf_deflate pf (zf_data f)) of Inl _ \<Rightarrow> False | Inr chunks \<Rightarrow> concat chunks = zf_data f))"

definition archive_fits :: "platform \<Rightarrow> zip_file list \<Rightarrow> zip_options \<Rightarrow> bool" where
  "archive_fits pf files opts \<longleftrightarrow>
    (case write_files pf (zo_zip64 opts) files [] of (out, rows) \<Rightarrow>
      let dsize = length (concat (map (central_part (zo_zip64 opts)) rows)) in
      directory_fits opts (length rows) dsize (length out) \<and> dsize \<le> MAX_CENTRAL_DIRECTORY_BYTES
      \<and> (\<forall>f \<in> set files. length (zf_data f) < (if zo_zip64 opts then Suc MAX_SAFE_INTEGER else SENTINEL_32)))"

definition end_at :: "platform \<Rightarrow> zip_file list \<Rightarrow> zip_options \<Rightarrow> nat" where
  "end_at pf files opts = length (buildZip pf files opts) - length (zo_comment opts) - EOCD_BYTES"

lemma a_written_row_fits:
  assumes "out = pre @ local_part pf z f (length pre) @ post" and "readable_file pf f"
    and "length (zf_data f) < (if z then Suc MAX_SAFE_INTEGER else SENTINEL_32)"
    and "length out < (if z then Suc MAX_SAFE_INTEGER else SENTINEL_32)"
  shows "row_fits z (row_of pf f (length pre))"
proof -
  have "length pre + length (body_of pf f) \<le> length out" by (simp add: assms(1) local_part_def Let_def)
  moreover have "unat (crc32 (zf_data f) 0) < 4294967296" using unsigned_less [of "crc32 (zf_data f) 0"] by simp
  ultimately show ?thesis
    using assms(2-4) by (auto simp: row_fits_def row_of_def readable_file_def)
qed

text \<open>
  C32: What is written is read: an archive of any readable files, plain or zip64, with or without
  descriptors and a comment, opens, lists their names in order, and gives the data of each of them.
\<close>
theorem what_is_written_is_read:
  assumes "\<forall>f \<in> set files. readable_file pf f" and "archive_fits pf files opts"
    and "only_end_record (buildZip pf files opts) (end_at pf files opts)"
  shows "\<exists>archive. openZip pf (buildZip pf files opts) = Inr archive \<and> za_zip64 archive = zo_zip64 opts
    \<and> map ze_name (za_entries archive) = map zf_name files
    \<and> (\<forall>i < length files. \<forall>maxBytes \<ge> length (zf_data (files ! i)).
        read_member pf (buildZip pf files opts) (za_entries archive ! i) maxBytes = Inr (zf_data (files ! i)))"
proof -
  let ?z = "zo_zip64 opts" and ?src = "buildZip pf files opts"
  obtain out rows where written: "write_files pf ?z files [] = (out, rows)" by fastforce
  note files = files_are_written [OF written]
  define dir where "dir = concat (map (central_part ?z) rows)"
  have fits: "directory_fits opts (length rows) (length dir) (length out)" "length dir \<le> MAX_CENTRAL_DIRECTORY_BYTES"
      "\<forall>f \<in> set files. length (zf_data f) < (if ?z then Suc MAX_SAFE_INTEGER else SENTINEL_32)"
    using assms(2) by (simp_all add: archive_fits_def written dir_def Let_def)
  let ?ending = "(if ?z then zip64_end opts (length rows) (length dir) (length out) (length (out @ dir)) else [])
    @ end_record opts (length rows) (length dir) (length out) @ zo_comment opts"
  have src: "?src = (out @ dir) @ ?ending" by (simp add: buildZip_def written dir_def Let_def)
  have "end_at pf files opts = length (out @ dir) + (if ?z then 76 else 0)"
    by (simp add: end_at_def src EOCD_BYTES_def)
  with assms(3) have location: "readDirectoryLocation ?src
      = Inr \<lparr>di_entries = length rows, di_offset = length out, di_size = length dir, di_zip64 = ?z\<rparr>"
    by (intro the_directory_is_located [OF src fits(1)]) simp_all
  have small: "length out < (if ?z then Suc MAX_SAFE_INTEGER else SENTINEL_32)"
    using fits(1) by (auto simp: directory_fits_def split: if_splits)
  have "row_fits ?z (rows ! i)" if "i < length files" for i
  proof -
    obtain pre post where here: "out = pre @ local_part pf ?z (files ! i) (length pre) @ post" "rows ! i = row_of pf (files ! i) (length pre)"
      using files(3) \<open>i < length files\<close> by blast
    with a_written_row_fits [OF here(1) _ _ small] assms(1) fits(3) that show ?thesis by simp
  qed
  then have "\<forall>c \<in> set rows. row_fits ?z c" by (simp add: all_set_conv_all_nth files(2))
  then have entries: "parseCentralDirectory pf dir (length rows) = Inr (map (entry_of pf) rows)"
    using the_entries_are_read [of rows ?z pf "[]" "[]"] by (simp add: parseCentralDirectory_def dir_def)
  have "read_source ?src (length out) (length dir) = Inr dir" using reading_inside [of out dir] by (simp add: src)
  then have opened: "openZip pf ?src = Inr \<lparr>za_entries = map (entry_of pf) rows, za_zip64 = ?z\<rparr>"
    using fits(2) by (simp add: openZip_def location entries) (simp add: src)
  have member: "ze_name (entry_of pf (rows ! i)) = zf_name (files ! i)"
    "length (zf_data (files ! i)) \<le> maxBytes \<Longrightarrow> read_member pf ?src (entry_of pf (rows ! i)) maxBytes = Inr (zf_data (files ! i))"
    if "i < length files" for i maxBytes
  proof -
    obtain pre post where here: "out = pre @ local_part pf ?z (files ! i) (length pre) @ post" "rows ! i = row_of pf (files ! i) (length pre)"
      using files(3) \<open>i < length files\<close> by blast
    have f: "readable_file pf (files ! i)" using assms(1) that by simp
    then show "ze_name (entry_of pf (rows ! i)) = zf_name (files ! i)"
      by (simp add: here(2) entry_of_def row_of_def readable_file_def flags_of_def Let_def)
    have "?src = pre @ local_part pf ?z (files ! i) (length pre) @ post @ dir @ ?ending" by (simp add: src here(1))
    moreover assume "length (zf_data (files ! i)) \<le> maxBytes"
    ultimately show "read_member pf ?src (entry_of pf (rows ! i)) maxBytes = Inr (zf_data (files ! i))"
      unfolding here(2) using f
      by (intro a_written_member_is_read) (auto simp: readable_file_def split: sum.splits)
  qed
  have "map ze_name (map (entry_of pf) rows) = map zf_name files"
    using member(1) files(2) by (intro nth_equalityI) simp_all
  with opened member(2) files(2) show ?thesis by simp
qed

text \<open>A platform of one byte per character that stores what it deflates, and an archive of two files.\<close>

definition char_of_byte :: "byte \<Rightarrow> char" where
  "char_of_byte b = char_of (unat b)"

definition byte_of_char :: "char \<Rightarrow> byte" where
  "byte_of_char c = word_of_nat (of_char c)"

lemma char_of_byte_of_char [simp]: "char_of_byte (byte_of_char c) = c"
  by (simp add: char_of_byte_def byte_of_char_def unat_byte)

definition plain_platform :: platform where
  "plain_platform = \<lparr>pf_utf8 = map char_of_byte, pf_utf8_strict = (\<lambda>b. Some (map char_of_byte b)), pf_latin1 = map char_of_byte, pf_encode = map byte_of_char,
    pf_inflate = (\<lambda>b. Inr [b]), pf_deflate = (\<lambda>b. b)\<rparr>"

definition two_files :: "zip_file list" where
  "two_files =
    [\<lparr>zf_name = ''a'', zf_data = [1, 2, 3], zf_deflate = False, zf_dataDescriptor = True, zf_utf8Flag = False,
      zf_nameBytes = None, zf_encrypted = False, zf_methodOverride = None\<rparr>,
     \<lparr>zf_name = ''b/'', zf_data = [], zf_deflate = True, zf_dataDescriptor = False, zf_utf8Flag = True,
      zf_nameBytes = None, zf_encrypted = False, zf_methodOverride = None\<rparr>]"

definition zip64_options :: zip_options where
  "zip64_options = \<lparr>zo_zip64 = True, zo_comment = [], zo_spannedDisk = 0, zo_zip64TotalDisks = 1\<rparr>"

theorem what_is_written_is_read_witness:
  "\<exists>archive. openZip plain_platform (buildZip plain_platform two_files zip64_options) = Inr archive
    \<and> map ze_name (za_entries archive) = [''a'', ''b/'']
    \<and> read_member plain_platform (buildZip plain_platform two_files zip64_options) (za_entries archive ! 0) 3 = Inr [1, 2, 3]"
proof -
  have files: "\<forall>f \<in> set two_files. readable_file plain_platform f"
    by (simp add: two_files_def readable_file_def plain_platform_def decodeName_def comp_def)
  have fits: "archive_fits plain_platform two_files zip64_options"
    by (simp add: archive_fits_def two_files_def zip64_options_def plain_platform_def directory_fits_def local_part_def local_extra_def
        data_descriptor_def body_of_def row_of_def length_central_part MAX_SAFE_INTEGER_def MAX_CENTRAL_DIRECTORY_BYTES_def Let_def)
  have "only_end_record (buildZip plain_platform two_files zip64_options) (end_at plain_platform two_files zip64_options)"
    by (rule only_end_without_comment)
      (simp add: end_at_def zip64_options_def buildZip_def EOCD_BYTES_def Let_def split: prod.split)
  from what_is_written_is_read [OF files fits this] show ?thesis
    by (auto simp: two_files_def)
qed

subsection \<open>What is read is what was promised\<close>

lemma stored_is_not_deflated: "ZIP_METHOD_STORED \<noteq> ZIP_METHOD_DEFLATE"
  by (simp add: ZIP_METHOD_STORED_def ZIP_METHOD_DEFLATE_def)

lemma a_start_in_bounds:
  assumes "dataStart src e = Inr start"
  shows "ze_localHeaderOffset e + LOCAL_HEADER_BYTES \<le> start" "start + ze_compressedSize e \<le> length src"
  using assms by (auto simp: dataStart_def and_then_Inr unreadable_def Let_def split: if_splits)

lemma a_read_keeps_its_promise:
  assumes "read_member pf src e maxBytes = Inr data"
  shows "length data = ze_uncompressedSize e" "length data \<le> maxBytes" "unat (crc32 data 0) = ze_crc32 e"
    "\<not> is_encrypted (ze_flags e)"
    "ze_method e = ZIP_METHOD_STORED \<Longrightarrow> \<exists>start. dataStart src e = Inr start \<and> length data = ze_compressedSize e
      \<and> start + length data \<le> length src \<and> data = take (length data) (drop start src)"
proof -
  obtain start raw chunks where run: "\<not> maxBytes < ze_uncompressedSize e" "dataStart src e = Inr start"
      "compressedChunks src start (ze_compressedSize e) = Inr raw"
      "(if ze_method e = ZIP_METHOD_DEFLATE
        then (case pf_inflate pf (concat raw) of Inl m \<Rightarrow> Inl (Inflate_error m) | Inr chunks \<Rightarrow> Inr chunks) else Inr raw) = Inr chunks"
      "verifying e 0 0 chunks = Inr chunks" "data = concat chunks" "\<not> is_encrypted (ze_flags e)"
    using assms by (auto simp: read_member_def open_member_def and_then_Inr unreadable_def verified split: if_splits)
  show promised: "length data = ze_uncompressedSize e" "unat (crc32 data 0) = ze_crc32 e"
    using run(5) by (simp_all add: verified run(6))
  show "length data \<le> maxBytes" "\<not> is_encrypted (ze_flags e)" using run(1,7) promised by simp_all
  have read: "concat raw = take (ze_compressedSize e) (drop start src)" "start + ze_compressedSize e \<le> length src"
    using chunks_are_read [OF a_start_in_bounds(2) [OF run(2)]] run(3) a_start_in_bounds(2) [OF run(2)] by auto
  show "\<exists>start. dataStart src e = Inr start \<and> length data = ze_compressedSize e
      \<and> start + length data \<le> length src \<and> data = take (length data) (drop start src)" if "ze_method e = ZIP_METHOD_STORED"
  proof -
    have "data = concat raw" using run(4,6) that stored_is_not_deflated by simp
    with read run(2) show ?thesis by simp
  qed
qed

text \<open>
  What a read gives is what the directory promised: its size, within what the caller would hold, its
  checksum, and of a stored member exactly the bytes of the archive where its header says they are.
\<close>
theorem a_member_read_is_what_was_promised:
  assumes "read_member pf src e maxBytes = Inr data"
  shows "length data = ze_uncompressedSize e \<and> length data \<le> maxBytes \<and> unat (crc32 data 0) = ze_crc32 e
    \<and> (ze_method e = ZIP_METHOD_STORED \<longrightarrow>
      (\<exists>start. dataStart src e = Inr start \<and> start + length data \<le> length src \<and> data = take (length data) (drop start src)))"
  using a_read_keeps_its_promise [OF assms] by auto

text \<open>The archive of a test of the repository: one stored member, and nothing more.\<close>

definition one_file :: zip_file where
  "one_file = \<lparr>zf_name = ''a'', zf_data = [1, 2, 3], zf_deflate = False, zf_dataDescriptor = False, zf_utf8Flag = False,
    zf_nameBytes = None, zf_encrypted = False, zf_methodOverride = None\<rparr>"

definition one_member :: "byte list" where
  "one_member = local_part plain_platform False one_file 0"

definition one_entry :: zip_entry where
  "one_entry = entry_of plain_platform (row_of plain_platform one_file 0)"

lemma one_member_is_read: "read_member plain_platform one_member one_entry 3 = Inr [1, 2, 3]"
  using a_written_member_is_read [of one_member "[]" plain_platform False one_file "[]" 3]
  by (simp add: one_member_def one_entry_def one_file_def plain_platform_def)

theorem a_member_read_is_what_was_promised_witness:
  "length [1, 2, 3 :: byte] = ze_uncompressedSize one_entry \<and> unat (crc32 [1, 2, 3] 0) = ze_crc32 one_entry"
  using a_member_read_is_what_was_promised [OF one_member_is_read] by blast

subsection \<open>A changed byte is noticed\<close>

lemma start_after_a_change:
  assumes "dataStart src e = Inr start" and "start \<le> pos" and "length src' = length src" and "take pos src' = take pos src"
  shows "dataStart src' e = Inr start"
proof -
  have "take LOCAL_HEADER_BYTES (drop (ze_localHeaderOffset e) src') = take LOCAL_HEADER_BYTES (drop (ze_localHeaderOffset e) src)"
  proof -
    have "take LOCAL_HEADER_BYTES (drop (ze_localHeaderOffset e) xs)
        = drop (ze_localHeaderOffset e) (take (ze_localHeaderOffset e + LOCAL_HEADER_BYTES) (take pos xs))" for xs :: "byte list"
      using a_start_in_bounds(1) [OF assms(1)] assms(2) by (simp add: drop_take min_def)
    then show ?thesis by (simp only: assms(4))
  qed
  with assms(1,3) show ?thesis by (simp add: dataStart_def read_source_def and_then_def split: if_splits sum.splits)
qed

lemma crc_refused:
  assumes "seen + length (concat chunks) = ze_uncompressedSize e" and "unat (crc32 (concat chunks) running) \<noteq> ze_crc32 e"
  shows "verifying e seen running chunks = unreadable Crc_failed"
  using assms
  by (induction chunks arbitrary: seen running) (simp_all add: Let_def crc32_append unreadable_def)

text \<open>
  C33: A changed byte is noticed: when a stored member is read, and one byte of it in the archive is then
  anything else, the same read is refused by its checksum.
\<close>
theorem a_changed_byte_is_noticed:
  assumes "read_member pf src e maxBytes = Inr data" and "ze_method e = ZIP_METHOD_STORED"
    and "dataStart src e = Inr start" and "i < length data" and "b \<noteq> data ! i"
  shows "read_member pf (src[start + i := b]) e maxBytes = unreadable Crc_failed"
proof -
  let ?src = "src[start + i := b]" and ?data = "data[i := b]"
  note promise = a_read_keeps_its_promise [OF assms(1)]
  have stored: "length data = ze_compressedSize e" "start + length data \<le> length src" "data = take (length data) (drop start src)"
    using promise(5) [OF assms(2)] assms(3) by auto
  have "dataStart ?src e = Inr start"
    by (rule start_after_a_change [OF assms(3), of "start + i"]) simp_all
  moreover obtain raw where raw: "compressedChunks ?src start (ze_compressedSize e) = Inr raw" "concat raw = ?data"
    using chunks_are_read [of start "ze_compressedSize e" ?src] stored by (auto simp: drop_update_swap take_update_swap)
  moreover have "verifying e 0 0 raw = unreadable Crc_failed"
  proof (rule crc_refused)
    show "0 + length (concat raw) = ze_uncompressedSize e" by (simp add: raw(2) promise(1))
    have "data = take i data @ data ! i # drop (Suc i) data" "?data = take i data @ b # drop (Suc i) data"
      using assms(4) by (simp_all add: id_take_nth_drop upd_conv_take_nth_drop)
    with a_flipped_byte_changes_the_crc [OF assms(5)] have "crc32 ?data 0 \<noteq> crc32 data 0" by metis
    then show "unat (crc32 (concat raw) 0) \<noteq> ze_crc32 e"
      by (simp add: raw(2) promise(3) [symmetric] word_unat_eq_iff)
  qed
  ultimately show ?thesis
    using promise(1,2,4) assms(2) stored_is_not_deflated by (simp add: read_member_def open_member_def unreadable_def)
qed

theorem a_changed_byte_is_noticed_witness:
  "read_member plain_platform (one_member[31 + 1 := 7]) one_entry 3 = unreadable Crc_failed"
proof (rule a_changed_byte_is_noticed [OF one_member_is_read])
  show "ze_method one_entry = ZIP_METHOD_STORED"
    by (simp add: one_entry_def entry_of_def row_of_def one_file_def ZIP_METHOD_STORED_def Let_def)
  have "dataStart one_member one_entry = Inr 31"
    by (simp add: one_member_def one_entry_def dataStart_def read_source_def local_part_def entry_of_def row_of_def one_file_def
        plain_platform_def LOCAL_HEADER_BYTES_def local_fields local_extra_def body_of_def Let_def)
  then show "dataStart one_member one_entry = Inr 31" .
qed simp_all

subsection \<open>A field longer than its place\<close>

text \<open>An entry whose zip64 field says it holds a hundred bytes, in a place of four.\<close>

definition overlong_entry :: "byte list" where
  "overlong_entry =
    le_bytes 4 CENTRAL_SIGNATURE @ le_bytes 2 45 @ le_bytes 2 45 @ le_bytes 2 0 @ le_bytes 2 0 @ le_bytes 2 0 @ le_bytes 2 0
    @ le_bytes 4 0 @ le_bytes 4 0xffffffff @ le_bytes 4 0xffffffff @ le_bytes 2 1 @ le_bytes 2 4 @ le_bytes 2 0
    @ le_bytes 2 0 @ le_bytes 2 0 @ le_bytes 4 0 @ le_bytes 4 0 @ [97] @ le_bytes 2 1 @ le_bytes 2 100"

definition no_comment :: zip_options where
  "no_comment = \<lparr>zo_zip64 = False, zo_comment = [], zo_spannedDisk = 0, zo_zip64TotalDisks = 1\<rparr>"

text \<open>
  A directory whose zip64 field claims more bytes than the entry gives it is not refused as unreadable:
  the bound is checked against the field's own claim, and the read past the view throws another error.
\<close>
theorem an_overlong_field_is_read_past:
  "openZip pf (overlong_entry @ end_record no_comment 1 (length overlong_entry) 0) = Inl Range_error"
proof -
  let ?src = "overlong_entry @ end_record no_comment 1 (length overlong_entry) 0"
  have len: "length overlong_entry = 51" by (simp add: overlong_entry_def)
  have "readDirectoryLocation ?src = Inr \<lparr>di_entries = 1, di_offset = 0, di_size = length overlong_entry, di_zip64 = zo_zip64 no_comment\<rparr>"
    by (rule the_directory_is_located [where pre = overlong_entry])
      (simp_all add: no_comment_def directory_fits_def len SENTINEL_16_def SENTINEL_32_def only_end_without_comment EOCD_BYTES_def)
  moreover have "read_source ?src 0 (length overlong_entry) = Inr overlong_entry" by (simp add: read_source_def)
  moreover have "parse_entry pf overlong_entry 0 = Inl Range_error"
  proof -
    have extra: "readZip64Extra (le_bytes 2 1 @ le_bytes 2 100) 0
        \<lparr>sz_uncompressed = 4294967295, sz_compressed = 4294967295, sz_offset = 0, sz_disk = 0\<rparr> = Inl Range_error"
      by (simp add: readZip64Extra.simps read_zip64_field_def take64_def u64_def ZIP64_EXTRA_ID_def SENTINEL_32_def Let_def)
    have "drop 47 overlong_entry = le_bytes 2 1 @ le_bytes 2 100" by (simp add: overlong_entry_def)
    then show ?thesis using extra
      by (simp add: parse_entry_def len CENTRAL_HEADER_BYTES_def Let_def) (simp add: overlong_entry_def CENTRAL_SIGNATURE_def)
  qed
  ultimately show ?thesis
    by (simp add: openZip_def parseCentralDirectory_def len MAX_CENTRAL_DIRECTORY_BYTES_def)
qed

end
