(* ===== verification/Spec2Isabelle.thy ===== *)
theory Spec2Isabelle
  imports Cutover_Steps Verification_Laws Failure_Category Stored_Removal Sync_Promises Withdrawal_Laws Rate_Budget Byte_Budget Throttle_Limiter Zip_Laws
begin

text \<open>
  Ownpace moves an organisation's mail, calendars, contacts, files and tasks from one system to
  another while both are in use, and hands over at a cutover. These theories model the part of
  it that decides: the lifecycle of a migration and of its data types, the cutover and its
  rollback, the gate that verifies the copy before it, the pass that copies one data type, the ledger of what was copied, the only operations
  that remove anything, and what the managed service charges for it.

  Theories and sources (paths under \<open>src/packages\<close>):

  \<^item> \<open>Prelude\<close>: programs over a state with thrown errors (\<open>prog\<close>: an \<open>async\<close> function is a function
    from a state to an outcome and the state it leaves, a throw keeping what was written), the
    rules that prove a relation over a program's structure (\<open>effect\<close>), and tables as lists of rows
    with \<open>update_where\<close> and \<open>returning\<close> for the SQL statements.
  \<^item> \<open>Ports\<close>: the vocabulary of \<open>shared/src/ports.ts\<close>, \<open>discovery.ts\<close>, \<open>fingerprint-scheme.ts\<close>.
  \<^item> \<open>Lifecycle\<close>: \<open>shared/src/lifecycle.ts\<close>, \<open>path-phase.ts\<close>, \<open>pass-deadline.ts\<close>: every decision of the
    doors a status passes, the roll-up of the data types' phases, why a pass stops, and the turns.
  \<^item> \<open>Cutover_State\<close>: \<open>core/src/cutover-state.ts\<close>, the state machine of a cutover.
  \<^item> \<open>Cutover_Store\<close>: \<open>ledger/src/cutover-store.ts\<close>, its rows and events, inside the tenant's
    transaction of \<open>ledger/src/db.ts\<close>.
  \<^item> \<open>Mapping_Paths\<close>: the rows of a migration and of its data types and all that moves or reads them
    (\<open>path-lifecycle-store.ts\<close>, \<open>paths-follow-the-mapping.ts\<close>, \<open>mapping-status-audit.ts\<close>,
    \<open>a-cutover-of-one-data-type.ts\<close>, \<open>path-phases.ts\<close>, \<open>cutover-grace.ts\<close>, \<open>shared/src/share-gate.ts\<close>).
  \<^item> \<open>Cutover_Steps\<close>: \<open>core/src/cutover-lifecycle.ts\<close> and \<open>cutover-rollback.ts\<close>, over ports (the locale
    \<open>two_halves\<close>), on the database, and on calls that are lost or whose answer is (\<open>faulty\<close>).
  \<^item> \<open>Verification\<close>, \<open>Verification_Laws\<close>: the gate before a cutover, \<open>core/src/verification.ts\<close> with
    \<open>verification-implementations.ts\<close>, \<open>while-the-organisation-is-open.ts\<close>, \<open>ledger/src/verification-queries.ts\<close>,
    the report of \<open>shared/src/verification-report.ts\<close> and the thresholds of \<open>apps/worker/src/jobs/cutover-gate.ts\<close>.
    A target is a record of the two calls the gate makes of it (\<open>target_reindexer\<close>), which may throw.
  \<^item> \<open>Failure_Category\<close>: \<open>shared/src/failure-category.ts\<close>, its rules with their regular expressions.
  \<^item> \<open>Ledger_Table\<close>, \<open>Ledger_Laws\<close>: \<open>ledger/src/ledger.ts\<close>, every method on the \<open>item\<close> table of
    \<open>schema-pg.ts\<close>, and what any history of them keeps.
  \<^item> \<open>Apply_Removal\<close>, \<open>Stored_Removal\<close>: \<open>core/src/apply-deletion.ts\<close> over ports (the locale
    \<open>removal_ports\<close>), and on the stored ledger and phases with a target that is a parameter.
  \<^item> \<open>Sync_Items\<close>, \<open>Sync_Findings\<close>, \<open>Sync_Pass\<close>: \<open>core/src/domain-sync.ts\<close> with the cursors of
    \<open>ledger/src/cursor-store.ts\<close>: what is decided of an item the ledger holds, what is concluded of
    what is gone or moved, and \<open>runDomainSync\<close> itself, whole. The source, the target, the clock and
    whoever may stop the pass are functions on a world \<open>'w\<close> (\<open>sync_deps\<close>), which may throw; the
    local variables of the function are the state \<open>pass\<close>.
  \<^item> \<open>Sync_Steps\<close>: the protocol of a pass as step relations (\<open>pass_write\<close>, \<open>world_call\<close>,
    \<open>cursor_write\<close>) and that \<open>runDomainSync\<close> refines it; \<open>Sync_Laws\<close>: what each step makes of a row and
    of the cursors; \<open>Sync_Progress\<close>: the course of a pass (pauses, items looked at, cursors, failures
    in a row; the locale \<open>item_effect\<close>); \<open>Sync_Again\<close>: an item met again; \<open>Sync_Promises\<close>: the
    properties of a pass, and runs on an account of one folder.
  \<^item> \<open>Texts\<close>, \<open>Calendar\<close>: decimal numbers and padded texts, days and months in UTC as the \<open>Date\<close> of
    JavaScript counts them, and the \<open>YYYY-MM\<close> texts of \<open>managed/src/billing-from.ts\<close> and
    \<open>year-credit.ts\<close>.
  \<^item> \<open>Tiers\<close>, \<open>Tier_Laws\<close>: \<open>managed/src/tier-calculator.ts\<close>, \<open>data-ceiling.ts\<close>, \<open>path-ceiling.ts\<close>,
    \<open>tier-pick.ts\<close>, \<open>billed-tier.ts\<close>: the tier derived, the yeses, the picks and the tier billed.
  \<^item> \<open>Billing\<close>, \<open>Withdrawal\<close>: the rows of one organisation (\<open>billing\<close>) and the operations on them,
    programs in a transaction: \<open>month-invoice.ts\<close>, \<open>year-credit.ts\<close>, \<open>withdrawal.ts\<close>, the recording
    half of \<open>credit-note.ts\<close>, and what they read (\<open>pace.ts\<close>, \<open>occupancy-peak.ts\<close>, \<open>bytes-moved.ts\<close>,
    \<open>since-a-withdrawal.ts\<close>). \<open>Billing_Laws\<close>: what a run of the month leaves;
    \<open>Year_Credit\<close>: the histories of the rows (\<open>billing_history\<close>) and what each keeps;
    \<open>Withdrawal_Laws\<close>: what a withdrawal keeps to.
  \<^item> \<open>Rate_Budget\<close>: the token buckets of \<open>shared/src/throttling.ts\<close>, \<open>shared/src/rate-budget.ts\<close> and
    \<open>ledger/src/pg-rate-budget.ts\<close> (the locale \<open>token_bucket\<close>). \<open>Byte_Budget\<close>: the download meters of the
    last two (the locale \<open>byte_meter\<close>).
  \<^item> \<open>Rate_Limit_Retry\<close>: the loop of \<open>connectors/src/http-rate-limit.ts\<close>. \<open>Throttle_Limiter\<close>: \<open>ThrottleLimiter\<close>
    of \<open>throttling.ts\<close>, all its calls at once as runs of steps (\<open>limiter_run\<close>), with the configurations
    of \<open>config.ts\<close> and \<open>orchestration/src/build-deps-from-mapping.ts\<close>.
  \<^item> \<open>Crc32\<close>, \<open>Zip_Archive\<close>, \<open>Zip_Laws\<close>: \<open>connectors/src/crc32.ts\<close>, \<open>zip-archive.ts\<close> and the writer
    \<open>zip-test-writer.ts\<close>, on bytes.

  What the lemmas show. The authority of the source ends at a cutover and comes back only by a
  rollback, in the pure decisions, in the rows, and through the steps that write both halves.
  The cutover ledger only ever follows its machine, and a rollback in which any call fails is finished by
  the next; that of a data type without a ledger of its own is not, which is shown too. The gate lets a
  cutover proceed only on what its targets hold, lets a whole copy proceed, and reads no target once the
  organisation is closed. The ledger of items holds one row per key
  and rows that agree with themselves under any history of calls. Nothing is removed from a
  target unless each guard held, the ledger records every removal, and after cutover nothing is
  removed at all. The previews refine the abstract decision the operations act on. A pass only
  extends the ledger, overwrites and dates what is gone only while the source decides, moves a
  cursor only past a collection it read whole, passes over what it has settled at no cost, and reports as
  gone nothing it saw in its place. An item that fails before it has a key is passed over for good. A month bills
  what was used, at least what was picked and never more than was agreed, and its steps add up to
  that tier's price; a yes and a pick count for exactly what was shown. In every history the
  years never overlap, and the run of the month returns unless more credit was drawn than the years not
  voided gave, which takes a year voided after its credit was drawn.
  A withdrawal brings back to Free and credits at most what was invoiced; a contract
  concluded again in its month is billed less what was credited. No budget of requests grants more than its rate and
  waiting for one ends, unless its rate is below one request per second and its burst is the default; the two download meters
  agree, and a reader that asks them stays within two ceilings a day. A limiter never has more in
  flight than its cap, loses no slot, and each of its calls ends, unless the cap is negative; a refused
  request is given up in time, unless the server asks for no time. What the archive writer writes the
  reader reads back, and a byte changed in a stored member is noticed.

  Bounds. Causes of an error are followed to the source's depth of eight; a chunk is the source's
  thousand names, the read-ahead window its five hundred items, and the failures in a row that end
  a pass its twenty-five. No fuel is used: every loop is over a list or has its measure proved, and
  \<open>acquire\<close> and \<open>retry_loop\<close>, which may go on for ever, are partial functions.

  Left out: the sentences written for people (a refusal keeps its code), log lines, the
  connection pool and the query planner (a statement acts on the rows its condition selects, in
  order), concurrent transactions inside one operation, items of a collection handled at once (the
  model handles them in order, \<open>concurrency\<close> 1), phase timings and application events, the connectors, the HTTP routes, the
  screens, how the gate's worker opens its targets, the copy of a report in an event, and the share lists of
  the stores. An invoice is dated with the time of the run that makes it, where the database fills in its own.
\<close>

end
